(* ===== verification/Prelude.thy ===== *)
theory Prelude
  imports Complex_Main "HOL-Library.AList" "HOL-Library.Char_ord" "HOL-Library.List_Lexorder"
    "HOL-Library.Product_Lexorder" "HOL-Library.Multiset"
begin

text \<open>
  The vocabulary every component of the development shares.

  A Python call that can raise is a value of type \<open>'a py = py_error + 'a\<close>: \<open>Inl\<close> is the
  raised exception, \<open>Inr\<close> the returned value. \<open>py_bind\<close> is the semicolon of the source,
  \<open>require\<close> an \<open>if not ...: raise\<close>, \<open>py_for\<close> a \<open>for\<close> loop that threads a state and
  stops at the first exception. The text of an error message is not modelled; its class, its HTTP
  status and its Matrix error code are.

  A Python dictionary is an association list in insertion order. \<open>dict_get\<close>, \<open>dict_set\<close> and
  \<open>dict_del\<close> are its operations, and the locale \<open>py_dict\<close> states the laws the components rely
  on; the locale is interpreted on them here.
\<close>

named_theorems py_simps "evaluation rules for calls that can raise"
named_theorems py_elims "what a successful call says about its parts"

section \<open>Exceptions\<close>

datatype errcode =
    FORBIDDEN | UNKNOWN | BAD_JSON | INVALID_PARAM | TOO_LARGE
  | INSUFFICIENT_POWER | NOT_JOINED | ALREADY_JOINED | LIMIT_EXCEEDED | UNAUTHORIZED

datatype py_error =
    AuthError int errcode
  | UnstableSpecAuthError int errcode
  | SynapseError int errcode
  | EventSizeError bool
  | LimitExceededError int
  | SignatureVerifyException
  | AttributeError | KeyError | IndexError | TypeError | ValueError | OverflowError
  | AssertionError | RuntimeError | NameError | PyException
  | OutOfFuel

text \<open>\<open>OutOfFuel\<close> is not a Python exception: it is the value of a loop of the model that used up
  the number of iterations it was given. No handler of the source catches it, and the theorems about
  such a loop say that it is not the result.\<close>

text \<open>\<open>except AuthError\<close> also catches its subclass \<open>UnstableSpecAuthError\<close>, but not its
  superclass \<open>SynapseError\<close> or a built-in exception.\<close>

fun is_AuthError :: "py_error \<Rightarrow> bool" where
  "is_AuthError (AuthError _ _) = True"
| "is_AuthError (UnstableSpecAuthError _ _) = True"
| "is_AuthError _ = False"

type_synonym 'a py = "py_error + 'a"

fun py_bind :: "'a py \<Rightarrow> ('a \<Rightarrow> 'b py) \<Rightarrow> 'b py" where
  "py_bind (Inl e) f = Inl e"
| "py_bind (Inr x) f = f x"

definition require :: "bool \<Rightarrow> py_error \<Rightarrow> unit py" where
  "require b e = (if b then Inr () else Inl e)"

fun py_for :: "('a \<Rightarrow> 's \<Rightarrow> 's py) \<Rightarrow> 'a list \<Rightarrow> 's \<Rightarrow> 's py" where
  "py_for f [] s = Inr s"
| "py_for f (x # xs) s = py_bind (f x s) (py_for f xs)"

fun py_map :: "('a \<Rightarrow> 'b py) \<Rightarrow> 'a list \<Rightarrow> 'b list py" where
  "py_map f [] = Inr []"
| "py_map f (x # xs) = py_bind (f x) (\<lambda>y. py_bind (py_map f xs) (\<lambda>ys. Inr (y # ys)))"

lemma py_bind_cong [fundef_cong]:
  "m = m' \<Longrightarrow> (\<And>x. m' = Inr x \<Longrightarrow> f x = g x) \<Longrightarrow> py_bind m f = py_bind m' g"
  by (cases m') auto

lemma py_bind_Inr_iff [py_elims]:
  "py_bind m f = Inr y \<longleftrightarrow> (\<exists>x. m = Inr x \<and> f x = Inr y)"
  by (cases m) auto

lemma py_bind_Inl_iff:
  "py_bind m f = Inl e \<longleftrightarrow> m = Inl e \<or> (\<exists>x. m = Inr x \<and> f x = Inl e)"
  by (cases m) auto

lemma py_bind_assoc: "py_bind (py_bind m f) g = py_bind m (\<lambda>x. py_bind (f x) g)"
  by (cases m) auto

lemma require_Inr_iff [py_elims, simp]: "require b e = Inr u \<longleftrightarrow> b"
  by (auto simp: require_def)

lemma require_Inl_iff [simp]: "require b e = Inl e' \<longleftrightarrow> \<not> b \<and> e = e'"
  by (auto simp: require_def)

lemma require_simps [py_simps, simp]:
  "require True e = Inr ()" "require False e = Inl e"
  by (auto simp: require_def)

lemma py_for_append: "py_for f (xs @ ys) s = py_bind (py_for f xs s) (py_for f ys)"
proof (induction xs arbitrary: s)
  case (Cons x xs)
  show ?case by (cases "f x s") (simp_all add: Cons.IH)
qed simp

text \<open>An invariant of the loop body is an invariant of the loop.\<close>

lemma py_for_invariant:
  assumes "py_for f xs s = Inr s'" and "I s"
    and "\<And>x s s'. x \<in> set xs \<Longrightarrow> I s \<Longrightarrow> f x s = Inr s' \<Longrightarrow> I s'"
  shows "I s'"
  using assms
proof (induction xs arbitrary: s)
  case (Cons x xs)
  from Cons.prems(1) obtain t where t: "f x s = Inr t" and rest: "py_for f xs t = Inr s'"
    by (auto simp: py_bind_Inr_iff)
  have "I t" using Cons.prems(3)[OF _ Cons.prems(2) t] by simp
  show ?case
    by (rule Cons.IH[OF rest \<open>I t\<close>]) (use Cons.prems(3) in auto)
qed simp

text \<open>A loop that returned has been through every element.\<close>

lemma py_for_reaches:
  assumes "py_for f xs s = Inr s'" and "I s" and "x \<in> set xs"
    and "\<And>x s s'. x \<in> set xs \<Longrightarrow> I s \<Longrightarrow> f x s = Inr s' \<Longrightarrow> I s'"
  shows "\<exists>t t'. I t \<and> f x t = Inr t'"
proof -
  from assms(3) obtain pre post where xs: "xs = pre @ x # post" by (auto simp: in_set_conv_decomp)
  with assms(1) obtain t t' where t: "py_for f pre s = Inr t" "f x t = Inr t'"
    by (auto simp: py_for_append py_bind_Inr_iff)
  have "I t" using t(1) assms(2) by (rule py_for_invariant) (use assms(4) xs in auto)
  with t(2) show ?thesis by blast
qed

text \<open>A loop that carries no state returns when every iteration does.\<close>

lemma py_for_unit_Inr_iff:
  "py_for (\<lambda>x (_::unit). f x) xs () = Inr u \<longleftrightarrow> (\<forall>x \<in> set xs. f x = Inr ())"
  by (induction xs) (auto simp: py_bind_Inr_iff)

lemma py_for_cong [fundef_cong]:
  assumes "xs = ys" and "s = t" and "\<And>x r. x \<in> set ys \<Longrightarrow> f x r = g x r"
  shows "py_for f xs s = py_for g ys t"
  using assms(3) unfolding assms(1,2)
proof (induction ys arbitrary: t)
  case (Cons y ys)
  then show ?case by (auto intro!: py_bind_cong)
qed simp

lemma py_map_Inr_iff:
  "py_map f xs = Inr ys \<longleftrightarrow> list_all2 (\<lambda>x y. f x = Inr y) xs ys"
  by (induction xs arbitrary: ys) (auto simp: py_bind_Inr_iff list_all2_Cons1)

section \<open>Dictionaries\<close>

type_synonym ('k, 'v) dict = "('k \<times> 'v) list"

abbreviation dict_get :: "('k, 'v) dict \<Rightarrow> 'k \<Rightarrow> 'v option" where
  "dict_get \<equiv> map_of"

abbreviation dict_set :: "'k \<Rightarrow> 'v \<Rightarrow> ('k, 'v) dict \<Rightarrow> ('k, 'v) dict" where
  "dict_set \<equiv> AList.update"

abbreviation dict_del :: "'k \<Rightarrow> ('k, 'v) dict \<Rightarrow> ('k, 'v) dict" where
  "dict_del \<equiv> AList.delete"

abbreviation dict_keys :: "('k, 'v) dict \<Rightarrow> 'k list" where
  "dict_keys d \<equiv> map fst d"

definition wf_dict :: "('k, 'v) dict \<Rightarrow> bool" where
  "wf_dict d \<longleftrightarrow> distinct (dict_keys d)"

definition dict_get_default :: "('k, 'v) dict \<Rightarrow> 'k \<Rightarrow> 'v \<Rightarrow> 'v" where
  "dict_get_default d k v = (case dict_get d k of None \<Rightarrow> v | Some w \<Rightarrow> w)"

definition dict_has :: "('k, 'v) dict \<Rightarrow> 'k \<Rightarrow> bool" where
  "dict_has d k \<longleftrightarrow> dict_get d k \<noteq> None"

definition dict_getitem :: "('k, 'v) dict \<Rightarrow> 'k \<Rightarrow> 'v py" where
  "dict_getitem d k = (case dict_get d k of None \<Rightarrow> Inl KeyError | Some v \<Rightarrow> Inr v)"

definition dict_update :: "('k, 'v) dict \<Rightarrow> ('k, 'v) dict \<Rightarrow> ('k, 'v) dict" where
  "dict_update d d' = fold (\<lambda>(k, v). dict_set k v) d' d"

text \<open>\<open>d.setdefault(k, v)\<close>, and \<open>s.add(x)\<close> on a set kept as a list in insertion order.\<close>

definition dict_setdefault :: "'k \<Rightarrow> 'v \<Rightarrow> ('k, 'v) dict \<Rightarrow> ('k, 'v) dict" where
  "dict_setdefault k v d = (case dict_get d k of None \<Rightarrow> dict_set k v d | Some _ \<Rightarrow> d)"

definition set_add :: "'a \<Rightarrow> 'a list \<Rightarrow> 'a list" where
  "set_add x xs = (if x \<in> set xs then xs else xs @ [x])"

lemma set_set_add [simp]: "set (set_add x xs) = insert x (set xs)"
  by (auto simp: set_add_def)

lemma distinct_set_add [simp]: "distinct (set_add x xs) \<longleftrightarrow> distinct xs"
  by (auto simp: set_add_def)

lemma dict_getitem_Inr_iff [py_elims]: "dict_getitem d k = Inr v \<longleftrightarrow> dict_get d k = Some v"
  by (auto simp: dict_getitem_def split: option.splits)

text \<open>What the components rely on: a lookup after a write, and that no write breaks the
  uniqueness of the keys.\<close>

locale py_dict =
  fixes get :: "'d \<Rightarrow> 'k \<Rightarrow> 'v option"
    and put :: "'k \<Rightarrow> 'v \<Rightarrow> 'd \<Rightarrow> 'd"
    and del :: "'k \<Rightarrow> 'd \<Rightarrow> 'd"
    and wf :: "'d \<Rightarrow> bool"
  assumes get_put: "get (put k v d) = (get d)(k \<mapsto> v)"
    and get_del: "get (del k d) = (get d)(k := None)"
    and wf_put: "wf d \<Longrightarrow> wf (put k v d)"
    and wf_del: "wf d \<Longrightarrow> wf (del k d)"
begin

lemma get_put_same: "get (put k v d) k = Some v"
  by (simp add: get_put)

lemma get_put_other: "k \<noteq> k' \<Longrightarrow> get (put k v d) k' = get d k'"
  by (simp add: get_put)

lemma dom_put: "dom (get (put k v d)) = insert k (dom (get d))"
  by (simp add: get_put)

lemma get_fold_put:
  "get (fold (\<lambda>(k, v). put k v) kvs d) = get d ++ map_of (rev kvs)"
  by (induction kvs arbitrary: d) (auto simp: get_put map_add_def fun_eq_iff split: option.splits)

lemma wf_fold_put: "wf d \<Longrightarrow> wf (fold (\<lambda>(k, v). put k v) kvs d)"
  by (induction kvs arbitrary: d) (auto simp: wf_put)

end

interpretation alist: py_dict dict_get dict_set dict_del wf_dict
proof unfold_locales
  fix k :: 'a and v :: 'b and d :: "('a, 'b) dict"
  show "dict_get (dict_set k v d) = (dict_get d)(k \<mapsto> v)"
    by (rule update_conv')
  show "dict_get (dict_del k d) = (dict_get d)(k := None)"
    by (rule delete_conv')
  show "wf_dict d \<Longrightarrow> wf_dict (dict_set k v d)"
    by (simp add: wf_dict_def distinct_update)
  show "wf_dict d \<Longrightarrow> wf_dict (dict_del k d)"
    by (simp add: wf_dict_def distinct_delete)
qed

lemma dict_get_default_set [simp]:
  "dict_get_default (dict_set k v d) k' w = (if k' = k then v else dict_get_default d k' w)"
  by (simp add: dict_get_default_def alist.get_put)

lemma dict_get_setdefault:
  "dict_get (dict_setdefault k v d) = (case dict_get d k of None \<Rightarrow> (dict_get d)(k \<mapsto> v) | Some _ \<Rightarrow> dict_get d)"
  by (auto simp: dict_setdefault_def alist.get_put split: option.splits)

lemma dict_get_default_setdefault [simp]:
  "dict_get_default (dict_setdefault k v d) k' v = dict_get_default d k' v"
proof -
  have "(case (case m k of None \<Rightarrow> m(k \<mapsto> v) | Some _ \<Rightarrow> m) k' of None \<Rightarrow> v | Some w \<Rightarrow> w) =
      (case m k' of None \<Rightarrow> v | Some w \<Rightarrow> w)" for m
    by (auto split: option.splits)
  then show ?thesis by (simp only: dict_get_default_def dict_get_setdefault)
qed

lemma dict_get_update:
  "dict_get (dict_update d d') = dict_get d ++ dict_get (rev d')"
  unfolding dict_update_def by (rule alist.get_fold_put)

lemma wf_dict_update: "wf_dict d \<Longrightarrow> wf_dict (dict_update d d')"
  unfolding dict_update_def by (rule alist.wf_fold_put)

lemma dict_get_rev: "wf_dict d \<Longrightarrow> dict_get (rev d) = dict_get d"
proof -
  assume "wf_dict d"
  then have "distinct (map fst (rev d))" and "distinct (map fst d)"
    by (simp_all add: wf_dict_def flip: rev_map)
  then show ?thesis by (intro map_of_eqI) (auto simp flip: rev_map)
qed

lemma wf_dict_filter [simp]: "wf_dict d \<Longrightarrow> wf_dict (filter P d)"
  unfolding wf_dict_def by (rule distinct_map_filter)

lemma wf_dict_single [simp]: "wf_dict []" "wf_dict [x]"
  by (simp_all add: wf_dict_def)

lemma dict_get_filter:
  "wf_dict d \<Longrightarrow> dict_get (filter P d) k =
     (case dict_get d k of None \<Rightarrow> None | Some v \<Rightarrow> if P (k, v) then Some v else None)"
proof (induction d)
  case (Cons x d)
  have "dict_get d (fst x) = None"
    using Cons.prems by (auto simp: wf_dict_def map_of_eq_None_iff)
  with Cons show ?case by (cases x) (auto simp: wf_dict_def split: option.splits)
qed simp

section \<open>Strings\<close>

text \<open>
  A Python \<open>str\<close> is modelled by its UTF-8 encoding. The bytewise lexicographic order of the
  encodings is the order of the code points, which is Python's order on \<open>str\<close>; a search for an
  ASCII character is the same on the encoding; and the two lengths the code uses are
  \<open>py_len\<close> (\<open>len(s)\<close>, code points) and \<open>length\<close> (\<open>len(s.encode("utf-8"))\<close>, bytes).
\<close>

definition utf8_continuation :: "char \<Rightarrow> bool" where
  "utf8_continuation c \<longleftrightarrow> (128::nat) \<le> of_char c \<and> of_char c < (192::nat)"

definition py_len :: "string \<Rightarrow> nat" where
  "py_len s = length (filter (\<lambda>c. \<not> utf8_continuation c) s)"

lemma py_len_le_bytes: "py_len s \<le> length s"
  by (simp add: py_len_def)

text \<open>The characters of a string, each as its own string (iteration over a \<open>str\<close>).\<close>

function py_chars :: "string \<Rightarrow> string list" where
  "py_chars [] = []"
| "py_chars (c # cs) = (c # takeWhile utf8_continuation cs) # py_chars (dropWhile utf8_continuation cs)"
  by pat_completeness auto
termination
  by (relation "measure length") (auto simp: length_dropWhile_le less_Suc_eq_le)

text \<open>\<open>s.find(c, i)\<close> and \<open>s.index(c, i)\<close> for a one-character ASCII needle: the position of the
  first occurrence at or after \<open>i\<close>.\<close>

fun find_char :: "char \<Rightarrow> string \<Rightarrow> nat option" where
  "find_char c [] = None"
| "find_char c (x # xs) = (if x = c then Some 0 else map_option Suc (find_char c xs))"

definition find_char_from :: "char \<Rightarrow> nat \<Rightarrow> string \<Rightarrow> nat option" where
  "find_char_from c i s = map_option (\<lambda>j. j + i) (find_char c (drop i s))"

lemma find_char_Some:
  "find_char c s = Some i \<Longrightarrow> i < length s \<and> s ! i = c \<and> c \<notin> set (take i s)"
proof (induction s arbitrary: i)
  case (Cons x s)
  then show ?case by (cases i) (auto split: if_splits)
qed simp

lemma find_char_None: "find_char c s = None \<longleftrightarrow> c \<notin> set s"
  by (induction s) auto

lemma find_char_append: "c \<notin> set s \<Longrightarrow> find_char c (s @ c # t) = Some (length s)"
  by (induction s) auto

lemma find_char_split:
  assumes "find_char c s = Some i"
  shows "s = take i s @ c # drop (Suc i) s"
proof -
  from find_char_Some[OF assms] have "i < length s" and "s ! i = c" by auto
  with id_take_nth_drop[of i s] show ?thesis by simp
qed

definition starts_with :: "string \<Rightarrow> string \<Rightarrow> bool" where
  "starts_with s p \<longleftrightarrow> take (length p) s = p"

section \<open>Sorting\<close>

lemma insort_key_cong:
  "(\<And>y. y \<in> insert x (set ys) \<Longrightarrow> f y = g y) \<Longrightarrow> insort_key f x ys = insort_key g x ys"
  by (induction ys) auto

lemma sort_key_cong: "(\<And>x. x \<in> set xs \<Longrightarrow> f x = g x) \<Longrightarrow> sort_key f xs = sort_key g xs"
  by (induction xs) (auto intro: insort_key_cong)

end
