(* ===== verification/Py_Json.thy ===== *)
theory Py_Json
  imports Prelude
begin

text \<open>
  JSON values as the code sees them after parsing, and the Python operations the auth rules apply
  to values whose JSON type nobody has checked yet: \<open>int(v)\<close>, \<open>v.get(k)\<close>, iteration,
  \<open>in\<close> and subscription. Each operation raises what Python raises on a value of the wrong type.

  A float is a rational number or the infinity that an overflowing literal parses to (\<open>NaN\<close> and
  \<open>Infinity\<close> literals are rejected when the JSON is parsed). \<open>int\<close> of a string knows ASCII
  digits and ASCII white space; Python also accepts the other decimal digits of Unicode.
\<close>

datatype json =
    JNull
  | JBool bool
  | JInt int
  | JFloat rat
  | JInf
  | JStr string
  | JList "json list"
  | JObj "(string \<times> json) list"

type_synonym obj = "(string, json) dict"

section \<open>int()\<close>

definition is_digit :: "char \<Rightarrow> bool" where
  "is_digit c \<longleftrightarrow> (48::int) \<le> of_char c \<and> of_char c \<le> (57::int)"

definition is_space :: "char \<Rightarrow> bool" where
  "is_space c \<longleftrightarrow> (let n = of_char c :: int in (9 \<le> n \<and> n \<le> 13) \<or> (28 \<le> n \<and> n \<le> 32))"

text \<open>Digits, with single underscores allowed between two digits.\<close>

fun digits_value :: "int \<Rightarrow> bool \<Rightarrow> string \<Rightarrow> int option" where
  "digits_value acc after_digit [] = (if after_digit then Some acc else None)"
| "digits_value acc after_digit (c # cs) =
     (if is_digit c then digits_value (acc * 10 + (of_char c - 48)) True cs
      else if c = CHR ''_'' \<and> after_digit then digits_value acc False cs
      else None)"

definition strip_spaces :: "string \<Rightarrow> string" where
  "strip_spaces s = rev (dropWhile is_space (rev (dropWhile is_space s)))"

definition int_of_str :: "string \<Rightarrow> int option" where
  "int_of_str s =
     (case strip_spaces s of
        [] \<Rightarrow> None
      | c # cs \<Rightarrow>
          if c = CHR ''-'' then map_option uminus (digits_value 0 False cs)
          else if c = CHR ''+'' then digits_value 0 False cs
          else digits_value 0 False (c # cs))"

definition truncate_rat :: "rat \<Rightarrow> int" where
  "truncate_rat r = (if 0 \<le> r then \<lfloor>r\<rfloor> else \<lceil>r\<rceil>)"

fun py_int :: "json \<Rightarrow> int py" where
  "py_int (JInt i) = Inr i"
| "py_int (JBool b) = Inr (if b then 1 else 0)"
| "py_int (JFloat r) = Inr (truncate_rat r)"
| "py_int JInf = Inl OverflowError"
| "py_int (JStr s) = (case int_of_str s of None \<Rightarrow> Inl ValueError | Some i \<Rightarrow> Inr i)"
| "py_int _ = Inl TypeError"

text \<open>\<open>type(v) is int\<close>: a \<open>bool\<close> is not.\<close>

fun is_int :: "json \<Rightarrow> bool" where
  "is_int (JInt _) = True"
| "is_int _ = False"

lemma is_int_py_int: "is_int v \<Longrightarrow> \<exists>i. v = JInt i \<and> py_int v = Inr i"
  by (cases v) auto

section \<open>Mappings, iteration, membership and subscription\<close>

text \<open>\<open>v.get(...)\<close>, \<open>v.items()\<close>, \<open>v.values()\<close>, \<open>v.keys()\<close>: only a dictionary has them.\<close>

fun as_dict :: "json \<Rightarrow> obj py" where
  "as_dict (JObj d) = Inr d"
| "as_dict _ = Inl AttributeError"

text \<open>A list or a dictionary cannot be hashed, so it cannot be looked up in, or added to, a
  dictionary or a set.\<close>

fun hashable :: "json \<Rightarrow> bool" where
  "hashable (JList _) = False"
| "hashable (JObj _) = False"
| "hashable _ = True"

text \<open>\<open>list(v)\<close>\<close>

fun py_list :: "json \<Rightarrow> json list py" where
  "py_list (JObj d) = Inr (map JStr (dict_keys d))"
| "py_list (JList xs) = Inr xs"
| "py_list (JStr s) = Inr (map JStr (py_chars s))"
| "py_list _ = Inl TypeError"

text \<open>\<open>set(xs)\<close> of a list. The order in which Python then iterates over the set is not
  specified; the model keeps the order of the list.\<close>

definition py_set :: "json list \<Rightarrow> json list py" where
  "py_set xs = (if list_all hashable xs then Inr (remdups xs) else Inl TypeError)"

fun substring :: "string \<Rightarrow> string \<Rightarrow> bool" where
  "substring p [] \<longleftrightarrow> p = []"
| "substring p (c # cs) \<longleftrightarrow> take (length p) (c # cs) = p \<or> substring p cs"

text \<open>\<open>==\<close> where the left side is hashable: numbers of different types can be equal.\<close>

fun num_of :: "json \<Rightarrow> rat option" where
  "num_of (JInt i) = Some (of_int i)"
| "num_of (JBool b) = Some (if b then 1 else 0)"
| "num_of (JFloat r) = Some r"
| "num_of _ = None"

definition py_eq :: "json \<Rightarrow> json \<Rightarrow> bool" where
  "py_eq a b \<longleftrightarrow> a = b \<or> (num_of a \<noteq> None \<and> num_of a = num_of b)"

text \<open>\<open>k in v\<close>\<close>

fun py_in :: "json \<Rightarrow> json \<Rightarrow> bool py" where
  "py_in k (JObj d) =
     (if hashable k then Inr (case k of JStr s \<Rightarrow> dict_has d s | _ \<Rightarrow> False) else Inl TypeError)"
| "py_in k (JList xs) = Inr (list_ex (py_eq k) xs)"
| "py_in k (JStr s) = (case k of JStr p \<Rightarrow> Inr (substring p s) | _ \<Rightarrow> Inl TypeError)"
| "py_in k _ = Inl TypeError"

text \<open>\<open>xs[i]\<close> on a sequence: a negative index counts from the end.\<close>

definition py_index :: "'a list \<Rightarrow> int \<Rightarrow> 'a py" where
  "py_index xs i =
     (let n = int (length xs); j = (if i < 0 then i + n else i)
      in if 0 \<le> j \<and> j < n then Inr (xs ! nat j) else Inl IndexError)"

fun as_index :: "json \<Rightarrow> int option" where
  "as_index (JInt i) = Some i"
| "as_index (JBool b) = Some (if b then 1 else 0)"
| "as_index _ = None"

text \<open>\<open>v[k]\<close>\<close>

fun py_getitem :: "json \<Rightarrow> json \<Rightarrow> json py" where
  "py_getitem (JObj d) k =
     (if hashable k then (case k of JStr s \<Rightarrow> dict_getitem d s | _ \<Rightarrow> Inl KeyError)
      else Inl TypeError)"
| "py_getitem (JList xs) k =
     (case as_index k of None \<Rightarrow> Inl TypeError | Some i \<Rightarrow> py_index xs i)"
| "py_getitem (JStr s) k =
     (case as_index k of None \<Rightarrow> Inl TypeError
      | Some i \<Rightarrow> py_bind (py_index (py_chars s) i) (\<lambda>c. Inr (JStr c)))"
| "py_getitem _ k = Inl TypeError"

lemma py_in_dict [simp]: "py_in (JStr s) (JObj d) = Inr (dict_has d s)"
  by simp

lemma py_getitem_dict [simp]: "py_getitem (JObj d) (JStr s) = dict_getitem d s"
  by simp

text \<open>\<open>d.get(k, {})\<close> followed by a mapping operation.\<close>

definition get_subdict :: "obj \<Rightarrow> string \<Rightarrow> obj py" where
  "get_subdict d k = as_dict (dict_get_default d k (JObj []))"

lemma get_subdict_absent [simp]: "dict_get d k = None \<Longrightarrow> get_subdict d k = Inr []"
  by (simp add: get_subdict_def dict_get_default_def)

lemma get_subdict_present [simp]: "dict_get d k = Some (JObj d') \<Longrightarrow> get_subdict d k = Inr d'"
  by (simp add: get_subdict_def dict_get_default_def)

section \<open>Truth and equality with a string\<close>

text \<open>\<open>v == "..."\<close> for a value of unknown type.\<close>

definition str_eq :: "json \<Rightarrow> string \<Rightarrow> bool" where
  "str_eq v s \<longleftrightarrow> v = JStr s"

text \<open>\<open>if v:\<close>\<close>

fun truthy :: "json \<Rightarrow> bool" where
  "truthy JNull = False"
| "truthy (JBool b) = b"
| "truthy (JInt i) = (i \<noteq> 0)"
| "truthy (JFloat r) = (r \<noteq> 0)"
| "truthy JInf = True"
| "truthy (JStr s) = (s \<noteq> [])"
| "truthy (JList xs) = (xs \<noteq> [])"
| "truthy (JObj d) = (d \<noteq> [])"

lemma int_of_str_plain: "int_of_str ''100'' = Some 100"
  by (simp add: int_of_str_def strip_spaces_def is_space_def is_digit_def)

end
