(* ===== verification/Room_Versions.thy ===== *)
theory Room_Versions
  imports Prelude
begin

text \<open>
  \<open>synapse/api/room_versions.py\<close>: the feature flags of every room version and the table of the
  versions the server knows. The flags steer the auth rules, the redaction algorithm and the choice
  of the state resolution algorithm.
\<close>

datatype event_format_version = ROOM_V1_V2 | ROOM_V3 | ROOM_V4_PLUS

datatype state_resolution_version = StateRes_V1 | StateRes_V2

datatype room_disposition = STABLE | UNSTABLE

datatype push_rule_room_flag = EXTENSIBLE_EVENTS

record room_version =
  rv_identifier :: string
  disposition :: room_disposition
  event_format :: event_format_version
  state_res :: state_resolution_version
  enforce_key_validity :: bool
  special_case_aliases_auth :: bool
  strict_canonicaljson :: bool
  limit_notifications_power_levels :: bool
  implicit_room_creator :: bool
  updated_redaction_rules :: bool
  restricted_join_rule :: bool
  restricted_join_rule_fix :: bool
  knock_join_rule :: bool
  msc3389_relation_redactions :: bool
  knock_restricted_join_rule :: bool
  enforce_int_power_levels :: bool
  msc3931_push_features :: "push_rule_room_flag list"
  msc3757_enabled :: bool

definition RoomVersions_V1 :: room_version where
  "RoomVersions_V1 = \<lparr>
     rv_identifier = ''1'',
     disposition = STABLE,
     event_format = ROOM_V1_V2,
     state_res = StateRes_V1,
     enforce_key_validity = False,
     special_case_aliases_auth = True,
     strict_canonicaljson = False,
     limit_notifications_power_levels = False,
     implicit_room_creator = False,
     updated_redaction_rules = False,
     restricted_join_rule = False,
     restricted_join_rule_fix = False,
     knock_join_rule = False,
     msc3389_relation_redactions = False,
     knock_restricted_join_rule = False,
     enforce_int_power_levels = False,
     msc3931_push_features = [],
     msc3757_enabled = False\<rparr>"

definition RoomVersions_V2 :: room_version where
  "RoomVersions_V2 = \<lparr>
     rv_identifier = ''2'',
     disposition = STABLE,
     event_format = ROOM_V1_V2,
     state_res = StateRes_V2,
     enforce_key_validity = False,
     special_case_aliases_auth = True,
     strict_canonicaljson = False,
     limit_notifications_power_levels = False,
     implicit_room_creator = False,
     updated_redaction_rules = False,
     restricted_join_rule = False,
     restricted_join_rule_fix = False,
     knock_join_rule = False,
     msc3389_relation_redactions = False,
     knock_restricted_join_rule = False,
     enforce_int_power_levels = False,
     msc3931_push_features = [],
     msc3757_enabled = False\<rparr>"

definition RoomVersions_V3 :: room_version where
  "RoomVersions_V3 = \<lparr>
     rv_identifier = ''3'',
     disposition = STABLE,
     event_format = ROOM_V3,
     state_res = StateRes_V2,
     enforce_key_validity = False,
     special_case_aliases_auth = True,
     strict_canonicaljson = False,
     limit_notifications_power_levels = False,
     implicit_room_creator = False,
     updated_redaction_rules = False,
     restricted_join_rule = False,
     restricted_join_rule_fix = False,
     knock_join_rule = False,
     msc3389_relation_redactions = False,
     knock_restricted_join_rule = False,
     enforce_int_power_levels = False,
     msc3931_push_features = [],
     msc3757_enabled = False\<rparr>"

definition RoomVersions_V4 :: room_version where
  "RoomVersions_V4 = \<lparr>
     rv_identifier = ''4'',
     disposition = STABLE,
     event_format = ROOM_V4_PLUS,
     state_res = StateRes_V2,
     enforce_key_validity = False,
     special_case_aliases_auth = True,
     strict_canonicaljson = False,
     limit_notifications_power_levels = False,
     implicit_room_creator = False,
     updated_redaction_rules = False,
     restricted_join_rule = False,
     restricted_join_rule_fix = False,
     knock_join_rule = False,
     msc3389_relation_redactions = False,
     knock_restricted_join_rule = False,
     enforce_int_power_levels = False,
     msc3931_push_features = [],
     msc3757_enabled = False\<rparr>"

definition RoomVersions_V5 :: room_version where
  "RoomVersions_V5 = \<lparr>
     rv_identifier = ''5'',
     disposition = STABLE,
     event_format = ROOM_V4_PLUS,
     state_res = StateRes_V2,
     enforce_key_validity = True,
     special_case_aliases_auth = True,
     strict_canonicaljson = False,
     limit_notifications_power_levels = False,
     implicit_room_creator = False,
     updated_redaction_rules = False,
     restricted_join_rule = False,
     restricted_join_rule_fix = False,
     knock_join_rule = False,
     msc3389_relation_redactions = False,
     knock_restricted_join_rule = False,
     enforce_int_power_levels = False,
     msc3931_push_features = [],
     msc3757_enabled = False\<rparr>"

definition RoomVersions_V6 :: room_version where
  "RoomVersions_V6 = \<lparr>
     rv_identifier = ''6'',
     disposition = STABLE,
     event_format = ROOM_V4_PLUS,
     state_res = StateRes_V2,
     enforce_key_validity = True,
     special_case_aliases_auth = False,
     strict_canonicaljson = True,
     limit_notifications_power_levels = True,
     implicit_room_creator = False,
     updated_redaction_rules = False,
     restricted_join_rule = False,
     restricted_join_rule_fix = False,
     knock_join_rule = False,
     msc3389_relation_redactions = False,
     knock_restricted_join_rule = False,
     enforce_int_power_levels = False,
     msc3931_push_features = [],
     msc3757_enabled = False\<rparr>"

definition RoomVersions_V7 :: room_version where
  "RoomVersions_V7 = \<lparr>
     rv_identifier = ''7'',
     disposition = STABLE,
     event_format = ROOM_V4_PLUS,
     state_res = StateRes_V2,
     enforce_key_validity = True,
     special_case_aliases_auth = False,
     strict_canonicaljson = True,
     limit_notifications_power_levels = True,
     implicit_room_creator = False,
     updated_redaction_rules = False,
     restricted_join_rule = False,
     restricted_join_rule_fix = False,
     knock_join_rule = True,
     msc3389_relation_redactions = False,
     knock_restricted_join_rule = False,
     enforce_int_power_levels = False,
     msc3931_push_features = [],
     msc3757_enabled = False\<rparr>"

definition RoomVersions_V8 :: room_version where
  "RoomVersions_V8 = \<lparr>
     rv_identifier = ''8'',
     disposition = STABLE,
     event_format = ROOM_V4_PLUS,
     state_res = StateRes_V2,
     enforce_key_validity = True,
     special_case_aliases_auth = False,
     strict_canonicaljson = True,
     limit_notifications_power_levels = True,
     implicit_room_creator = False,
     updated_redaction_rules = False,
     restricted_join_rule = True,
     restricted_join_rule_fix = False,
     knock_join_rule = True,
     msc3389_relation_redactions = False,
     knock_restricted_join_rule = False,
     enforce_int_power_levels = False,
     msc3931_push_features = [],
     msc3757_enabled = False\<rparr>"

definition RoomVersions_V9 :: room_version where
  "RoomVersions_V9 = \<lparr>
     rv_identifier = ''9'',
     disposition = STABLE,
     event_format = ROOM_V4_PLUS,
     state_res = StateRes_V2,
     enforce_key_validity = True,
     special_case_aliases_auth = False,
     strict_canonicaljson = True,
     limit_notifications_power_levels = True,
     implicit_room_creator = False,
     updated_redaction_rules = False,
     restricted_join_rule = True,
     restricted_join_rule_fix = True,
     knock_join_rule = True,
     msc3389_relation_redactions = False,
     knock_restricted_join_rule = False,
     enforce_int_power_levels = False,
     msc3931_push_features = [],
     msc3757_enabled = False\<rparr>"

definition RoomVersions_V10 :: room_version where
  "RoomVersions_V10 = \<lparr>
     rv_identifier = ''10'',
     disposition = STABLE,
     event_format = ROOM_V4_PLUS,
     state_res = StateRes_V2,
     enforce_key_validity = True,
     special_case_aliases_auth = False,
     strict_canonicaljson = True,
     limit_notifications_power_levels = True,
     implicit_room_creator = False,
     updated_redaction_rules = False,
     restricted_join_rule = True,
     restricted_join_rule_fix = True,
     knock_join_rule = True,
     msc3389_relation_redactions = False,
     knock_restricted_join_rule = True,
     enforce_int_power_levels = True,
     msc3931_push_features = [],
     msc3757_enabled = False\<rparr>"

definition RoomVersions_MSC1767v10 :: room_version where
  "RoomVersions_MSC1767v10 = \<lparr>
     rv_identifier = ''org.matrix.msc1767.10'',
     disposition = UNSTABLE,
     event_format = ROOM_V4_PLUS,
     state_res = StateRes_V2,
     enforce_key_validity = True,
     special_case_aliases_auth = False,
     strict_canonicaljson = True,
     limit_notifications_power_levels = True,
     implicit_room_creator = False,
     updated_redaction_rules = False,
     restricted_join_rule = True,
     restricted_join_rule_fix = True,
     knock_join_rule = True,
     msc3389_relation_redactions = False,
     knock_restricted_join_rule = True,
     enforce_int_power_levels = True,
     msc3931_push_features = [EXTENSIBLE_EVENTS],
     msc3757_enabled = False\<rparr>"

definition RoomVersions_MSC3757v10 :: room_version where
  "RoomVersions_MSC3757v10 = \<lparr>
     rv_identifier = ''org.matrix.msc3757.10'',
     disposition = UNSTABLE,
     event_format = ROOM_V4_PLUS,
     state_res = StateRes_V2,
     enforce_key_validity = True,
     special_case_aliases_auth = False,
     strict_canonicaljson = True,
     limit_notifications_power_levels = True,
     implicit_room_creator = False,
     updated_redaction_rules = False,
     restricted_join_rule = True,
     restricted_join_rule_fix = True,
     knock_join_rule = True,
     msc3389_relation_redactions = False,
     knock_restricted_join_rule = True,
     enforce_int_power_levels = True,
     msc3931_push_features = [],
     msc3757_enabled = True\<rparr>"

definition RoomVersions_V11 :: room_version where
  "RoomVersions_V11 = \<lparr>
     rv_identifier = ''11'',
     disposition = STABLE,
     event_format = ROOM_V4_PLUS,
     state_res = StateRes_V2,
     enforce_key_validity = True,
     special_case_aliases_auth = False,
     strict_canonicaljson = True,
     limit_notifications_power_levels = True,
     implicit_room_creator = True,
     updated_redaction_rules = True,
     restricted_join_rule = True,
     restricted_join_rule_fix = True,
     knock_join_rule = True,
     msc3389_relation_redactions = False,
     knock_restricted_join_rule = True,
     enforce_int_power_levels = True,
     msc3931_push_features = [],
     msc3757_enabled = False\<rparr>"

definition RoomVersions_MSC3757v11 :: room_version where
  "RoomVersions_MSC3757v11 = \<lparr>
     rv_identifier = ''org.matrix.msc3757.11'',
     disposition = UNSTABLE,
     event_format = ROOM_V4_PLUS,
     state_res = StateRes_V2,
     enforce_key_validity = True,
     special_case_aliases_auth = False,
     strict_canonicaljson = True,
     limit_notifications_power_levels = True,
     implicit_room_creator = True,
     updated_redaction_rules = True,
     restricted_join_rule = True,
     restricted_join_rule_fix = True,
     knock_join_rule = True,
     msc3389_relation_redactions = False,
     knock_restricted_join_rule = True,
     enforce_int_power_levels = True,
     msc3931_push_features = [],
     msc3757_enabled = True\<rparr>"

definition KNOWN_ROOM_VERSIONS :: "(string, room_version) dict" where
  "KNOWN_ROOM_VERSIONS = map (\<lambda>v. (rv_identifier v, v))
     [RoomVersions_V1,
      RoomVersions_V2,
      RoomVersions_V3,
      RoomVersions_V4,
      RoomVersions_V5,
      RoomVersions_V6,
      RoomVersions_V7,
      RoomVersions_V8,
      RoomVersions_V9,
      RoomVersions_V10,
      RoomVersions_V11,
      RoomVersions_MSC3757v10,
      RoomVersions_MSC3757v11]"

lemmas room_version_defs =
  RoomVersions_V1_def RoomVersions_V2_def RoomVersions_V3_def RoomVersions_V4_def RoomVersions_V5_def RoomVersions_V6_def RoomVersions_V7_def
  RoomVersions_V8_def RoomVersions_V9_def RoomVersions_V10_def RoomVersions_MSC1767v10_def RoomVersions_MSC3757v10_def RoomVersions_V11_def RoomVersions_MSC3757v11_def

section \<open>MSC3244 capabilities\<close>

record room_version_capability =
  cap_identifier :: string
  preferred_version :: "room_version option"
  support_check_lambda :: "room_version \<Rightarrow> bool"

definition MSC3244_CAPABILITIES :: "(string, string option \<times> string list) dict" where
  "MSC3244_CAPABILITIES =
     map (\<lambda>cap. (cap_identifier cap,
            (map_option rv_identifier (preferred_version cap),
             map rv_identifier (filter (support_check_lambda cap) (map snd KNOWN_ROOM_VERSIONS)))))
       [\<lparr>cap_identifier = ''knock'', preferred_version = Some RoomVersions_V7,
          support_check_lambda = knock_join_rule\<rparr>,
        \<lparr>cap_identifier = ''restricted'', preferred_version = Some RoomVersions_V9,
          support_check_lambda = restricted_join_rule\<rparr>]"

section \<open>What the table guarantees\<close>

text \<open>The dependencies between flags that the auth rules rely on.\<close>

definition coherent_flags :: "room_version \<Rightarrow> bool" where
  "coherent_flags v \<longleftrightarrow>
     (knock_restricted_join_rule v \<longrightarrow> restricted_join_rule v \<and> knock_join_rule v) \<and>
     (restricted_join_rule_fix v \<longrightarrow> restricted_join_rule v) \<and>
     (updated_redaction_rules v \<longleftrightarrow> implicit_room_creator v)"

lemma known_versions_keys:
  "dict_keys KNOWN_ROOM_VERSIONS =
     [''1'', ''2'', ''3'', ''4'', ''5'', ''6'', ''7'', ''8'', ''9'', ''10'', ''11'',
      ''org.matrix.msc3757.10'', ''org.matrix.msc3757.11'']"
  by (simp add: KNOWN_ROOM_VERSIONS_def room_version_defs)

lemma known_versions_coherent:
  "(k, v) \<in> set KNOWN_ROOM_VERSIONS \<Longrightarrow> coherent_flags v \<and> rv_identifier v = k"
  by (auto simp: KNOWN_ROOM_VERSIONS_def room_version_defs coherent_flags_def)

lemma coherent_flagsD:
  "coherent_flags v \<Longrightarrow> knock_restricted_join_rule v \<Longrightarrow> restricted_join_rule v"
  by (simp add: coherent_flags_def)

end
