(* ===== verification/Events.thy ===== *)
theory Events
  imports Py_Json Room_Versions
begin

text \<open>
  \<open>EventBase\<close> of \<open>synapse/events/__init__.py\<close>: the fields and properties the auth rules and the
  state resolution read. The top-level keys have the JSON types their \<open>DictProperty\<close> declares;
  \<open>room_id\<close> and \<open>state_key\<close> may be absent, and reading an absent one raises AttributeError.
  \<open>content\<close> is arbitrary JSON. \<open>pdu_json\<close> is what \<open>get_pdu_json()\<close> returns, and
  \<open>recheck_redaction\<close> and \<open>outlier\<close> are flags of the internal metadata.
\<close>

record event =
  event_id :: string
  ev_type :: string
  sender :: string
  ev_room_id :: "string option"
  ev_state_key :: "string option"
  content :: obj
  auth_event_ids :: "string list"
  prev_event_ids :: "string list"
  origin_server_ts :: int
  depth :: int
  redacts_key :: "json option"
  signatures :: "(string, (string, string) dict) dict"
  ev_room_version :: room_version
  rejected_reason :: "string option"
  recheck_redaction :: bool
  pdu_json :: json

abbreviation user_id :: "event \<Rightarrow> string" where "user_id \<equiv> sender"

definition room_id :: "event \<Rightarrow> string py" where
  "room_id e = (case ev_room_id e of None \<Rightarrow> Inl AttributeError | Some r \<Rightarrow> Inr r)"

definition state_key :: "event \<Rightarrow> string py" where
  "state_key e = (case ev_state_key e of None \<Rightarrow> Inl AttributeError | Some k \<Rightarrow> Inr k)"

abbreviation get_state_key :: "event \<Rightarrow> string option" where "get_state_key \<equiv> ev_state_key"

definition is_state :: "event \<Rightarrow> bool" where
  "is_state e \<longleftrightarrow> get_state_key e \<noteq> None"

definition membership :: "event \<Rightarrow> json py" where
  "membership e = dict_getitem (content e) ''membership''"

definition redacts :: "event \<Rightarrow> json option" where
  "redacts e = (if updated_redaction_rules (ev_room_version e)
                then dict_get (content e) ''redacts'' else redacts_key e)"

definition format_version :: "event \<Rightarrow> event_format_version" where
  "format_version e = event_format (ev_room_version e)"

lemma room_id_Inr [simp]: "room_id e = Inr r \<longleftrightarrow> ev_room_id e = Some r"
  by (auto simp: room_id_def split: option.splits)

lemma state_key_Inr [simp]: "state_key e = Inr k \<longleftrightarrow> ev_state_key e = Some k"
  by (auto simp: state_key_def split: option.splits)

lemma membership_Inr [simp]: "membership e = Inr v \<longleftrightarrow> dict_get (content e) ''membership'' = Some v"
  by (simp add: membership_def dict_getitem_Inr_iff)

section \<open>Event types, memberships and join rules\<close>

abbreviation EventTypes_Member :: string where "EventTypes_Member \<equiv> ''m.room.member''"
abbreviation EventTypes_Create :: string where "EventTypes_Create \<equiv> ''m.room.create''"
abbreviation EventTypes_JoinRules :: string where "EventTypes_JoinRules \<equiv> ''m.room.join_rules''"
abbreviation EventTypes_PowerLevels :: string where "EventTypes_PowerLevels \<equiv> ''m.room.power_levels''"
abbreviation EventTypes_Aliases :: string where "EventTypes_Aliases \<equiv> ''m.room.aliases''"
abbreviation EventTypes_Redaction :: string where "EventTypes_Redaction \<equiv> ''m.room.redaction''"
abbreviation EventTypes_ThirdPartyInvite :: string where
  "EventTypes_ThirdPartyInvite \<equiv> ''m.room.third_party_invite''"

abbreviation Membership_INVITE :: json where "Membership_INVITE \<equiv> JStr ''invite''"
abbreviation Membership_JOIN :: json where "Membership_JOIN \<equiv> JStr ''join''"
abbreviation Membership_KNOCK :: json where "Membership_KNOCK \<equiv> JStr ''knock''"
abbreviation Membership_LEAVE :: json where "Membership_LEAVE \<equiv> JStr ''leave''"
abbreviation Membership_BAN :: json where "Membership_BAN \<equiv> JStr ''ban''"

abbreviation JoinRules_PUBLIC :: json where "JoinRules_PUBLIC \<equiv> JStr ''public''"
abbreviation JoinRules_KNOCK :: json where "JoinRules_KNOCK \<equiv> JStr ''knock''"
abbreviation JoinRules_INVITE :: json where "JoinRules_INVITE \<equiv> JStr ''invite''"
abbreviation JoinRules_RESTRICTED :: json where "JoinRules_RESTRICTED \<equiv> JStr ''restricted''"
abbreviation JoinRules_KNOCK_RESTRICTED :: json where
  "JoinRules_KNOCK_RESTRICTED \<equiv> JStr ''knock_restricted''"

abbreviation AUTHORISING_USER :: string where
  "AUTHORISING_USER \<equiv> ''join_authorised_via_users_server''"
abbreviation FEDERATE :: string where "FEDERATE \<equiv> ''m.federate''"
abbreviation ROOM_CREATOR :: string where "ROOM_CREATOR \<equiv> ''creator''"

section \<open>State maps\<close>

text \<open>\<open>StateMap[T]\<close>: a dictionary from \<open>(event type, state key)\<close>. The auth rules only look
  keys up in it, so there it is a partial function. A state key that comes from event content may
  be any JSON value: one that is not a string is in no state map, and one that cannot be hashed
  raises TypeError.\<close>

type_synonym state_id = "string \<times> string"
type_synonym 'v state_map = "state_id \<rightharpoonup> 'v"

definition auth_get :: "'v state_map \<Rightarrow> string \<Rightarrow> json \<Rightarrow> 'v option py" where
  "auth_get m ty k =
     (if hashable k then Inr (case k of JStr s \<Rightarrow> m (ty, s) | _ \<Rightarrow> None) else Inl TypeError)"

lemma auth_get_str [simp]: "auth_get m ty (JStr s) = Inr (m (ty, s))"
  by (simp add: auth_get_def)

lemma auth_get_Some: "auth_get m ty k = Inr (Some v) \<longleftrightarrow> (\<exists>s. k = JStr s \<and> m (ty, s) = Some v)"
  by (cases k) (auto simp: auth_get_def)

end
