(* ===== verification/Identifiers.thy ===== *)
theory Identifiers
  imports Prelude Py_Json
begin

text \<open>
  Matrix identifiers: \<open>synapse/types/__init__.py\<close> (\<open>get_domain_from_id\<close>,
  \<open>DomainSpecificString\<close> and its subclasses, the mapping of external user names to localparts)
  and the server-name parsing of \<open>synapse/util/stringutils.py\<close>. \<open>valid_ipv6\<close> of the third-party
  package netaddr is a parameter.
\<close>

section \<open>Splitting an identifier\<close>

definition get_domain_from_id :: "string \<Rightarrow> string py" where
  "get_domain_from_id s =
     (case find_char CHR '':'' s of
        None \<Rightarrow> Inl (SynapseError 400 UNKNOWN)
      | Some idx \<Rightarrow> Inr (drop (idx + 1) s))"

definition get_localpart_from_id :: "string \<Rightarrow> string py" where
  "get_localpart_from_id s =
     (case find_char CHR '':'' s of
        None \<Rightarrow> Inl (SynapseError 400 UNKNOWN)
      | Some idx \<Rightarrow> Inr (drop 1 (take idx s)))"

section \<open>DomainSpecificString\<close>

record domain_specific_string =
  localpart :: string
  domain :: string

abbreviation UserID_SIGIL :: string where "UserID_SIGIL \<equiv> ''@''"
abbreviation RoomAlias_SIGIL :: string where "RoomAlias_SIGIL \<equiv> ''#''"
abbreviation RoomID_SIGIL :: string where "RoomID_SIGIL \<equiv> ''!''"
abbreviation EventID_SIGIL :: string where "EventID_SIGIL \<equiv> ''$''"

text \<open>\<open>s.split(":", 1)\<close>: the parts around the first colon.\<close>

definition split_colon :: "string \<Rightarrow> string list" where
  "split_colon s =
     (case find_char CHR '':'' s of None \<Rightarrow> [s] | Some i \<Rightarrow> [take i s, drop (i + 1) s])"

definition from_string :: "string \<Rightarrow> string \<Rightarrow> domain_specific_string py" where
  "from_string SIGIL s =
     (if length s < 1 \<or> take 1 s \<noteq> SIGIL then Inl (SynapseError 400 INVALID_PARAM)
      else (case split_colon (drop 1 s) of
              [p, d] \<Rightarrow> Inr \<lparr>localpart = p, domain = d\<rparr>
            | _ \<Rightarrow> Inl (SynapseError 400 INVALID_PARAM)))"

definition to_string :: "string \<Rightarrow> domain_specific_string \<Rightarrow> string" where
  "to_string SIGIL x = SIGIL @ localpart x @ '':'' @ domain x"

section \<open>Server names\<close>

text \<open>\<open>s.rsplit(":", 1)\<close>: the parts around the last colon.\<close>

definition rsplit_colon :: "string \<Rightarrow> string list" where
  "rsplit_colon s =
     (case find_char CHR '':'' (rev s) of
        None \<Rightarrow> [s]
      | Some i \<Rightarrow> [take (length s - i - 1) s, drop (length s - i) s])"

definition parse_server_name :: "string \<Rightarrow> (string \<times> int option) py" where
  "parse_server_name server_name =
     (if server_name \<noteq> [] \<and> last server_name = CHR '']'' then Inr (server_name, None)
      else (case rsplit_colon server_name of
              [d] \<Rightarrow> Inr (d, None)
            | d # p # _ \<Rightarrow>
                (case int_of_str p of None \<Rightarrow> Inl ValueError | Some n \<Rightarrow> Inr (d, Some n))
            | [] \<Rightarrow> Inl ValueError))"

text \<open>\<open>VALID_HOST_REGEX\<close>: dot-separated, non-empty labels of letters, digits and hyphens.\<close>

definition host_char :: "char \<Rightarrow> bool" where
  "host_char c \<longleftrightarrow> (let n = of_char c :: int in
     (48 \<le> n \<and> n \<le> 57) \<or> (65 \<le> n \<and> n \<le> 90) \<or> (97 \<le> n \<and> n \<le> 122) \<or> n = 45)"

fun host_labels :: "bool \<Rightarrow> string \<Rightarrow> bool" where
  "host_labels nonempty [] = nonempty"
| "host_labels nonempty (c # cs) =
     (if host_char c then host_labels True cs
      else c = CHR ''.'' \<and> nonempty \<and> host_labels False cs)"

definition VALID_HOST_REGEX :: "string \<Rightarrow> bool" where
  "VALID_HOST_REGEX s = host_labels False s"

definition parse_and_validate_server_name ::
    "(string \<Rightarrow> bool) \<Rightarrow> string \<Rightarrow> (string \<times> int option) py" where
  "parse_and_validate_server_name valid_ipv6 server_name =
     py_bind (parse_server_name server_name) (\<lambda>(host, port).
       if host \<noteq> [] \<and> hd host = CHR ''['' then
         if last host \<noteq> CHR '']'' then Inl ValueError
         else (let ipv6_address = butlast (tl host) in
               if ipv6_address = [] \<or> \<not> valid_ipv6 ipv6_address then Inl ValueError
               else Inr (host, port))
       else if \<not> VALID_HOST_REGEX host then Inl ValueError
       else Inr (host, port))"

definition valid_id_server_location :: "(string \<Rightarrow> bool) \<Rightarrow> string \<Rightarrow> bool" where
  "valid_id_server_location valid_ipv6 id_server =
     (let (host, path) = (case find_char CHR ''/'' id_server of
                            None \<Rightarrow> (id_server, None)
                          | Some i \<Rightarrow> (take i id_server, Some (drop (i + 1) id_server)))
      in case parse_and_validate_server_name valid_ipv6 host of
           Inl _ \<Rightarrow> False
         | Inr _ \<Rightarrow> (case path of None \<Rightarrow> True
                     | Some p \<Rightarrow> CHR ''#'' \<notin> set p \<and> CHR ''?'' \<notin> set p))"

definition is_valid :: "(string \<Rightarrow> bool) \<Rightarrow> string \<Rightarrow> string \<Rightarrow> bool" where
  "is_valid valid_ipv6 SIGIL s =
     (case from_string SIGIL s of
        Inl _ \<Rightarrow> False
      | Inr x \<Rightarrow>
          (case parse_and_validate_server_name valid_ipv6 (domain x) of Inl _ \<Rightarrow> False | Inr _ \<Rightarrow> True))"

section \<open>User names of other systems\<close>

definition ascii_lowercase :: "char \<Rightarrow> bool" where
  "ascii_lowercase c \<longleftrightarrow> (97::int) \<le> of_char c \<and> of_char c \<le> (122::int)"

definition ascii_uppercase :: "char \<Rightarrow> bool" where
  "ascii_uppercase c \<longleftrightarrow> (65::int) \<le> of_char c \<and> of_char c \<le> (90::int)"

definition MXID_LOCALPART_ALLOWED_CHARACTERS :: "char \<Rightarrow> bool" where
  "MXID_LOCALPART_ALLOWED_CHARACTERS c \<longleftrightarrow>
     c \<in> set ''_-./=+'' \<or> ascii_lowercase c \<or> is_digit c"

definition contains_invalid_mxid_characters :: "string \<Rightarrow> bool" where
  "contains_invalid_mxid_characters s = list_ex (\<lambda>c. \<not> MXID_LOCALPART_ALLOWED_CHARACTERS c) s"

definition to_lower :: "char \<Rightarrow> char" where
  "to_lower c = (if ascii_uppercase c then char_of (of_char c + (32::nat)) else c)"

definition hex_digit :: "nat \<Rightarrow> char" where
  "hex_digit n = char_of (if n < 10 then 48 + n else 87 + n)"

text \<open>\<open>b"=%02x" % c\<close>\<close>

definition hex_escape :: "char \<Rightarrow> string" where
  "hex_escape c = [CHR ''='', hex_digit (of_char c div 16), hex_digit (of_char c mod 16)]"

text \<open>The three substitutions: upper-case letters and underscores (case-sensitive only), characters
  outside the allowed set and the equals sign, a leading underscore.\<close>

definition f1 :: "char \<Rightarrow> string" where
  "f1 c = (if ascii_uppercase c \<or> c = CHR ''_'' then [CHR ''_'', to_lower c] else [c])"

definition f2 :: "char \<Rightarrow> string" where
  "f2 c = (if \<not> MXID_LOCALPART_ALLOWED_CHARACTERS c \<or> c = CHR ''='' then hex_escape c else [c])"

definition escape_leading_underscore :: "string \<Rightarrow> string" where
  "escape_leading_underscore s =
     (case s of c # cs \<Rightarrow> if c = CHR ''_'' then ''=5f'' @ cs else s | [] \<Rightarrow> [])"

definition map_username_to_mxid_localpart :: "string \<Rightarrow> bool \<Rightarrow> string" where
  "map_username_to_mxid_localpart username case_sensitive =
     (let u1 = (if case_sensitive then concat (map f1 username) else map to_lower username);
          u2 = concat (map f2 u1)
      in escape_leading_underscore u2)"

section \<open>Lemmas\<close>

lemma get_domain_from_id_Inr:
  "get_domain_from_id s = Inr d \<longleftrightarrow> (\<exists>p. CHR '':'' \<notin> set p \<and> s = p @ '':'' @ d)"
proof
  assume "get_domain_from_id s = Inr d"
  then obtain i where i: "find_char CHR '':'' s = Some i" and d: "d = drop (Suc i) s"
    by (auto simp: get_domain_from_id_def split: option.splits)
  then show "\<exists>p. CHR '':'' \<notin> set p \<and> s = p @ '':'' @ d"
    using find_char_split[OF i] find_char_Some[OF i] by (intro exI[of _ "take i s"]) auto
next
  assume "\<exists>p. CHR '':'' \<notin> set p \<and> s = p @ '':'' @ d"
  then show "get_domain_from_id s = Inr d"
    by (auto simp: get_domain_from_id_def find_char_append)
qed

lemma get_domain_from_id_Inl:
  "get_domain_from_id s = Inl e \<longleftrightarrow> CHR '':'' \<notin> set s \<and> e = SynapseError 400 UNKNOWN"
  using find_char_None[of "CHR '':''" s] by (auto simp: get_domain_from_id_def split: option.splits)

lemma from_string_Inr:
  "from_string [g] s = Inr x \<longleftrightarrow> CHR '':'' \<notin> set (localpart x) \<and> s = to_string [g] x"
proof
  assume a: "from_string [g] s = Inr x"
  then obtain t where s: "s = g # t" by (cases s) (auto simp: from_string_def split: if_splits)
  with a obtain i where i: "find_char CHR '':'' t = Some i"
    and x: "x = \<lparr>localpart = take i t, domain = drop (Suc i) t\<rparr>"
    by (auto simp: from_string_def split_colon_def split: option.splits)
  show "CHR '':'' \<notin> set (localpart x) \<and> s = to_string [g] x"
    using find_char_split[OF i] find_char_Some[OF i] by (auto simp: x s to_string_def)
next
  assume "CHR '':'' \<notin> set (localpart x) \<and> s = to_string [g] x"
  then show "from_string [g] s = Inr x"
    by (auto simp: from_string_def to_string_def split_colon_def find_char_append)
qed

lemma is_valid_from_string: "is_valid v [g] s \<Longrightarrow> \<exists>x. from_string [g] s = Inr x"
  by (auto simp: is_valid_def split: sum.splits)

section \<open>The mapping of user names\<close>

lemma ascii_case_nat:
  "ascii_lowercase c \<longleftrightarrow> 97 \<le> (of_char c :: nat) \<and> (of_char c :: nat) \<le> 122"
  "ascii_uppercase c \<longleftrightarrow> 65 \<le> (of_char c :: nat) \<and> (of_char c :: nat) \<le> 90"
  "is_digit c \<longleftrightarrow> 48 \<le> (of_char c :: nat) \<and> (of_char c :: nat) \<le> 57"
  unfolding ascii_lowercase_def ascii_uppercase_def is_digit_def of_nat_of_char[symmetric, where 'a = int]
  by presburger+

lemma of_char_to_lower: "ascii_uppercase c \<Longrightarrow> of_char (to_lower c) = (of_char c + 32 :: nat)"
  by (simp add: to_lower_def) (simp add: ascii_case_nat)

lemma to_lower_inj:
  assumes "ascii_uppercase c" "ascii_uppercase d" "to_lower c = to_lower d"
  shows "c = d"
proof -
  have "(of_char c + 32 :: nat) = of_char d + 32"
    unfolding of_char_to_lower[OF assms(1), symmetric] of_char_to_lower[OF assms(2), symmetric] assms(3) ..
  then show ?thesis by simp
qed

lemma to_lower_lower: "ascii_uppercase c \<Longrightarrow> ascii_lowercase (to_lower c)"
  by (simp add: ascii_case_nat(1) of_char_to_lower) (simp add: ascii_case_nat)

lemma underscore_case [simp]: "\<not> ascii_lowercase CHR ''_''" "\<not> ascii_uppercase CHR ''_''"
  by (simp_all add: ascii_lowercase_def ascii_uppercase_def)

lemma of_char_hex_digit:
  "n < 16 \<Longrightarrow> of_char (hex_digit n) = (if n < 10 then 48 + n else 87 + n :: nat)"
  by (simp add: hex_digit_def)

lemma hex_digit_inj:
  assumes "m < 16" "n < 16" "hex_digit m = hex_digit n"
  shows "m = n"
proof -
  have "(if m < 10 then 48 + m else 87 + m) = (if n < 10 then 48 + n else 87 + n)"
    unfolding of_char_hex_digit[OF assms(1), symmetric] of_char_hex_digit[OF assms(2), symmetric] assms(3) ..
  then show ?thesis by (simp split: if_splits)
qed

lemma hex_digit_allowed: "n < 16 \<Longrightarrow> MXID_LOCALPART_ALLOWED_CHARACTERS (hex_digit n) \<and> hex_digit n \<noteq> CHR ''=''"
proof -
  assume n: "n < 16"
  have "hex_digit n \<noteq> CHR ''=''"
  proof
    assume "hex_digit n = CHR ''=''"
    then have "of_char (hex_digit n) = (61::nat)" by simp
    with of_char_hex_digit[OF n] show False by (auto split: if_splits)
  qed
  moreover have "is_digit (hex_digit n) \<or> ascii_lowercase (hex_digit n)"
    using of_char_hex_digit[OF n] n by (simp add: ascii_case_nat)
  ultimately show ?thesis by (auto simp: MXID_LOCALPART_ALLOWED_CHARACTERS_def)
qed

lemma of_char_div_16: "of_char c div 16 < (16::nat)"
  using nat_of_char_less_256[of c] by linarith

lemma hex_escape_inj: "hex_escape c = hex_escape d \<Longrightarrow> c = d"
proof -
  assume a: "hex_escape c = hex_escape d"
  note lt = of_char_div_16
  from a have "(of_char c div 16 :: nat) = of_char d div 16" "(of_char c mod 16 :: nat) = of_char d mod 16"
    using hex_digit_inj[OF lt lt, of c d] hex_digit_inj[of "of_char c mod 16" "of_char d mod 16"]
    by (auto simp: hex_escape_def)
  then have "(of_char c :: nat) = of_char d" by (metis div_mult_mod_eq)
  then show ?thesis by (metis char_of_char)
qed

text \<open>A code in which no word is the beginning of another can be decoded.\<close>

lemma concat_map_inj:
  assumes "\<And>c d xs ys. f c @ xs = f d @ ys \<Longrightarrow> c = d" and "\<And>c. f c \<noteq> []"
    and "concat (map f u) = concat (map f v)"
  shows "u = v"
  using assms(3)
proof (induction u arbitrary: v)
  case Nil
  then show ?case using assms(2) by (cases v) auto
next
  case (Cons c u)
  then obtain d v' where v: "v = d # v'" using assms(2) by (cases v) auto
  with Cons.prems have "c = d" using assms(1) by auto
  with Cons v show ?case by simp
qed

lemma f1_prefix_free: "f1 c @ xs = f1 d @ ys \<Longrightarrow> c = d"
proof -
  assume a: "f1 c @ xs = f1 d @ ys"
  show ?thesis
  proof (cases "ascii_uppercase c \<or> c = CHR ''_''"; cases "ascii_uppercase d \<or> d = CHR ''_''")
    assume c: "ascii_uppercase c \<or> c = CHR ''_''" and d: "ascii_uppercase d \<or> d = CHR ''_''"
    with a have eq: "to_lower c = to_lower d" by (simp add: f1_def)
    have "to_lower CHR ''_'' = CHR ''_''" by (simp add: to_lower_def)
    with c d eq to_lower_inj to_lower_lower underscore_case(1) show ?thesis by metis
  qed (use a in \<open>auto simp: f1_def split: if_splits\<close>)
qed

lemma f2_prefix_free: "f2 c @ xs = f2 d @ ys \<Longrightarrow> c = d"
  using hex_escape_inj[of c d] by (auto simp: f2_def hex_escape_def split: if_splits)

lemma f2_allowed: "c' \<in> set (f2 c) \<Longrightarrow> MXID_LOCALPART_ALLOWED_CHARACTERS c'"
proof (cases "\<not> MXID_LOCALPART_ALLOWED_CHARACTERS c \<or> c = CHR ''=''")
  case True
  moreover note of_char_div_16[of c]
  moreover assume "c' \<in> set (f2 c)"
  ultimately show ?thesis
    using hex_digit_allowed by (auto simp: f2_def hex_escape_def) (auto simp: MXID_LOCALPART_ALLOWED_CHARACTERS_def)
qed (simp add: f2_def)

lemma escape_leading_inj:
  assumes "escape_leading_underscore (concat (map f2 u)) = escape_leading_underscore (concat (map f2 v))"
  shows "concat (map f2 u) = concat (map f2 v)"
proof -
  have allowed: "MXID_LOCALPART_ALLOWED_CHARACTERS CHR ''_''" by (simp add: MXID_LOCALPART_ALLOWED_CHARACTERS_def)
  have no5f: "concat (map f2 w) \<noteq> ''=5f'' @ rest" for w rest
  proof
    assume a: "concat (map f2 w) = ''=5f'' @ rest"
    then obtain c w' where w: "w = c # w'" by (cases w) auto
    with a have "hex_escape c = ''=5f''"
      by (auto simp: f2_def hex_escape_def split: if_splits)
    moreover have "hex_escape CHR ''_'' = ''=5f''" by code_simp
    ultimately have "c = CHR ''_''" by (metis hex_escape_inj)
    with a w allowed show False by (simp add: f2_def)
  qed
  have "x = y" if "escape_leading_underscore x = escape_leading_underscore y"
    "\<And>rest. x \<noteq> ''=5f'' @ rest" "\<And>rest. y \<noteq> ''=5f'' @ rest" for x y
    using that by (auto simp: escape_leading_underscore_def split: list.splits if_splits)
  from this[OF assms no5f no5f] show ?thesis .
qed

lemma escape_leading_allowed:
  assumes "\<And>c. c \<in> set s \<Longrightarrow> MXID_LOCALPART_ALLOWED_CHARACTERS c" and "c \<in> set (escape_leading_underscore s)"
  shows "MXID_LOCALPART_ALLOWED_CHARACTERS c"
proof (cases "c \<in> set s")
  case False
  with assms(2) have "c \<in> set ''=5f''"
    by (cases s) (auto simp: escape_leading_underscore_def split: if_splits)
  moreover have "list_all MXID_LOCALPART_ALLOWED_CHARACTERS ''=5f''" by code_simp
  ultimately show ?thesis by (auto simp: list_all_iff)
qed (rule assms(1))

lemma mapped_username_allowed:
  "c \<in> set (map_username_to_mxid_localpart u b) \<Longrightarrow> MXID_LOCALPART_ALLOWED_CHARACTERS c"
  unfolding map_username_to_mxid_localpart_def Let_def
  by (erule escape_leading_allowed[rotated]) (auto intro: f2_allowed)

end
