(* ===== verification/Event_Auth.thy ===== *)
theory Event_Auth
  imports Events Identifiers
begin

text \<open>
  \<open>synapse/event_auth.py\<close>: the authorization rules of a room. One definition per function of the
  file; the two long ones, \<open>_is_membership_change_allowed\<close> and \<open>_check_power_levels\<close>, are cut
  at their own section comments. \<open>auth_events\<close> is the room state the event is checked against.

  What the file calls outside the repository (netaddr, signedjson, unpaddedbase64, canonicaljson)
  is the record \<open>externals\<close>, an argument of the definitions that use it.
\<close>

record externals =
  valid_ipv6 :: "string \<Rightarrow> bool"
  decode_base64 :: "json \<Rightarrow> string py"
  decode_verify_key_bytes :: "string \<Rightarrow> string \<Rightarrow> string py"
  verify_signed_json :: "obj \<Rightarrow> string \<Rightarrow> string \<Rightarrow> unit py"
  encode_canonical_json :: "json \<Rightarrow> string"

section \<open>Size limits and signatures\<close>

definition MAX_PDU_SIZE :: nat where "MAX_PDU_SIZE = 65536"

definition LENIENT_EVENT_BYTE_LIMITS_ROOM_VERSIONS :: "room_version list" where
  "LENIENT_EVENT_BYTE_LIMITS_ROOM_VERSIONS =
     [RoomVersions_V1, RoomVersions_V2, RoomVersions_V3, RoomVersions_V4, RoomVersions_V5,
      RoomVersions_V6, RoomVersions_V7, RoomVersions_V8, RoomVersions_V9, RoomVersions_V10,
      RoomVersions_MSC1767v10, RoomVersions_MSC3757v10]"

definition check_size_limits :: "externals \<Rightarrow> event \<Rightarrow> unit py" where
  "check_size_limits ext event =
     (if length (encode_canonical_json ext (pdu_json event)) > MAX_PDU_SIZE
      then Inl (EventSizeError True)
      else if py_len (user_id event) > 255 then Inl (EventSizeError True)
      else py_bind (room_id event) (\<lambda>rid.
        if py_len rid > 255 then Inl (EventSizeError True)
        else if is_state event \<and> py_len (the (get_state_key event)) > 255
        then Inl (EventSizeError True)
        else if py_len (ev_type event) > 255 then Inl (EventSizeError True)
        else if py_len (event_id event) > 255 then Inl (EventSizeError True)
        else
          let strict_byte_limits =
            (ev_room_version event \<notin> set LENIENT_EVENT_BYTE_LIMITS_ROOM_VERSIONS)
          in if length (user_id event) > 255 then Inl (EventSizeError strict_byte_limits)
             else if length rid > 255 then Inl (EventSizeError strict_byte_limits)
             else if is_state event \<and> length (the (get_state_key event)) > 255
             then Inl (EventSizeError strict_byte_limits)
             else if length (ev_type event) > 255 then Inl (EventSizeError strict_byte_limits)
             else if length (event_id event) > 255 then Inl (EventSizeError strict_byte_limits)
             else Inr ()))"

text \<open>\<open>if not event.signatures.get(domain)\<close>: an empty dictionary of signatures counts as none.\<close>

definition signed_by :: "event \<Rightarrow> string \<Rightarrow> bool" where
  "signed_by event d \<longleftrightarrow> (case dict_get (signatures event) d of None \<Rightarrow> False | Some s \<Rightarrow> s \<noteq> [])"

definition validate_event_for_room_version :: "externals \<Rightarrow> event \<Rightarrow> unit py" where
  "validate_event_for_room_version ext event =
     py_bind (check_size_limits ext event) (\<lambda>_.
     if ev_room_id event = None then Inl (AuthError 500 FORBIDDEN)
     else
     py_bind (get_domain_from_id (sender event)) (\<lambda>sender_domain.
     py_bind (if ev_type event = EventTypes_Member
              then py_bind (membership event) (\<lambda>m.
                     Inr (m = Membership_INVITE \<and> dict_has (content event) ''third_party_invite''))
              else Inr False) (\<lambda>is_invite_via_3pid.
     if \<not> signed_by event sender_domain \<and> \<not> is_invite_via_3pid
     then Inl (AuthError 403 FORBIDDEN)
     else
     py_bind (if format_version event = ROOM_V1_V2
              then py_bind (get_domain_from_id (event_id event)) (\<lambda>event_id_domain.
                     require (signed_by event event_id_domain) (AuthError 403 FORBIDDEN))
              else Inr ()) (\<lambda>_.
     py_bind (if restricted_join_rule (ev_room_version event) \<and> ev_type event = EventTypes_Member
              then py_bind (membership event) (\<lambda>m.
                     Inr (m = Membership_JOIN \<and> dict_has (content event) AUTHORISING_USER))
              else Inr False) (\<lambda>is_invite_via_allow_rule.
     if is_invite_via_allow_rule
     then (case dict_get (content event) AUTHORISING_USER of
             Some (JStr u) \<Rightarrow>
               py_bind (get_domain_from_id u) (\<lambda>authoriser_domain.
                 require (signed_by event authoriser_domain) (AuthError 403 FORBIDDEN))
           | _ \<Rightarrow> Inl AttributeError)
     else Inr ())))))"

section \<open>Power levels\<close>

definition get_power_level_event :: "event state_map \<Rightarrow> event option" where
  "get_power_level_event auth_events = auth_events (EventTypes_PowerLevels, '''')"

text \<open>\<open>d.get(k)\<close> for a key of unknown type.\<close>

definition obj_get :: "obj \<Rightarrow> json \<Rightarrow> json option py" where
  "obj_get d k = (if hashable k then Inr (case k of JStr s \<Rightarrow> dict_get d s | _ \<Rightarrow> None) else Inl TypeError)"

text \<open>A missing key and an explicit null both read as \<open>None\<close>.\<close>

definition or_default :: "json option \<Rightarrow> json \<Rightarrow> json" where
  "or_default v d = (case v of None \<Rightarrow> d | Some JNull \<Rightarrow> d | Some w \<Rightarrow> w)"

definition get_user_power_level :: "json \<Rightarrow> event state_map \<Rightarrow> int py" where
  "get_user_power_level user auth_events =
     (case get_power_level_event auth_events of
        Some power_level_event \<Rightarrow>
          py_bind (get_subdict (content power_level_event) ''users'') (\<lambda>users.
          py_bind (obj_get users user) (\<lambda>found.
            let level = or_default found
                  (dict_get_default (content power_level_event) ''users_default'' (JInt 0))
            in if level = JNull then Inr 0 else py_int level))
      | None \<Rightarrow>
          (case auth_events (EventTypes_Create, '''') of
             None \<Rightarrow> Inr 0
           | Some create_event \<Rightarrow>
               py_bind (if implicit_room_creator (ev_room_version create_event)
                        then Inr (JStr (sender create_event))
                        else dict_getitem (content create_event) ROOM_CREATOR) (\<lambda>creator.
                 Inr (if creator = user then 100 else 0))))"

definition get_named_level :: "event state_map \<Rightarrow> string \<Rightarrow> int \<Rightarrow> int py" where
  "get_named_level auth_events name dflt =
     (case get_power_level_event auth_events of
        None \<Rightarrow> Inr dflt
      | Some power_level_event \<Rightarrow>
          (case dict_get (content power_level_event) name of
             None \<Rightarrow> Inr dflt
           | Some JNull \<Rightarrow> Inr dflt
           | Some level \<Rightarrow> py_int level))"

definition get_send_level :: "string \<Rightarrow> string option \<Rightarrow> event option \<Rightarrow> int py" where
  "get_send_level etype skey power_levels_event =
     (let power_levels_content = (case power_levels_event of None \<Rightarrow> [] | Some e \<Rightarrow> content e)
      in py_bind (get_subdict power_levels_content ''events'') (\<lambda>evs.
           py_int (or_default (dict_get evs etype)
             (if skey \<noteq> None then dict_get_default power_levels_content ''state_default'' (JInt 50)
              else dict_get_default power_levels_content ''events_default'' (JInt 0)))))"

section \<open>Creation and federation\<close>

definition check_create :: "event \<Rightarrow> unit py" where
  "check_create event =
     py_bind (require (ev_type event = EventTypes_Create) AssertionError) (\<lambda>_.
     if prev_event_ids event \<noteq> [] then Inl (AuthError 403 FORBIDDEN)
     else
     py_bind (get_domain_from_id (sender event)) (\<lambda>sender_domain.
     py_bind (room_id event) (\<lambda>rid.
     py_bind (get_domain_from_id rid) (\<lambda>room_id_domain.
     if room_id_domain \<noteq> sender_domain then Inl (AuthError 403 FORBIDDEN)
     else
       let room_version_prop = dict_get_default (content event) ''room_version'' (JStr ''1'')
       in if \<not> hashable room_version_prop then Inl TypeError
          else if \<not> (\<exists>k \<in> set (dict_keys KNOWN_ROOM_VERSIONS). room_version_prop = JStr k)
          then Inl (AuthError 403 FORBIDDEN)
          else if \<not> implicit_room_creator (ev_room_version event) \<and>
                  \<not> dict_has (content event) ROOM_CREATOR
          then Inl (AuthError 403 FORBIDDEN)
          else Inr ()))))"

definition can_federate :: "event \<Rightarrow> event state_map \<Rightarrow> bool" where
  "can_federate event auth_events =
     (case auth_events (EventTypes_Create, '''') of
        None \<Rightarrow> False
      | Some creation_event \<Rightarrow>
          dict_get_default (content creation_event) FEDERATE (JBool True) = JBool True)"

section \<open>Third-party invites\<close>

definition get_public_keys :: "event \<Rightarrow> json list py" where
  "get_public_keys invite_event =
     (let first =
        (case dict_get (content invite_event) ''public_key'' of
           None \<Rightarrow> []
         | Some k \<Rightarrow>
             [JObj ((''public_key'', k) #
                (case dict_get (content invite_event) ''key_validity_url'' of
                   None \<Rightarrow> [] | Some u \<Rightarrow> [(''key_validity_url'', u)]))])
      in py_bind (py_list (dict_get_default (content invite_event) ''public_keys'' (JList [])))
           (\<lambda>more. Inr (first @ more)))"

fun verify_signature_block ::
    "externals \<Rightarrow> obj \<Rightarrow> string \<Rightarrow> json \<Rightarrow> string list \<Rightarrow> bool py" where
  "verify_signature_block ext signed server public_key [] = Inr False"
| "verify_signature_block ext signed server public_key (key_name # key_names) =
     (if \<not> starts_with key_name ''ed25519:''
      then verify_signature_block ext signed server public_key key_names
      else py_bind (decode_base64 ext public_key) (\<lambda>raw.
           py_bind (decode_verify_key_bytes ext key_name raw) (\<lambda>verify_key.
           py_bind (verify_signed_json ext signed server verify_key) (\<lambda>_. Inr True))))"

fun verify_signatures :: "externals \<Rightarrow> obj \<Rightarrow> json \<Rightarrow> obj \<Rightarrow> bool py" where
  "verify_signatures ext signed public_key [] = Inr False"
| "verify_signatures ext signed public_key ((server, signature_block) # rest) =
     py_bind (as_dict signature_block) (\<lambda>block.
     py_bind (verify_signature_block ext signed server public_key (dict_keys block)) (\<lambda>ok.
       if ok then Inr True else verify_signatures ext signed public_key rest))"

fun verify_public_keys :: "externals \<Rightarrow> obj \<Rightarrow> json list \<Rightarrow> bool py" where
  "verify_public_keys ext signed [] = Inr False"
| "verify_public_keys ext signed (public_key_object # rest) =
     py_bind (py_getitem public_key_object (JStr ''public_key'')) (\<lambda>public_key.
       case py_bind (dict_getitem signed ''signatures'') (\<lambda>sigs.
            py_bind (as_dict sigs) (verify_signatures ext signed public_key)) of
         Inr True \<Rightarrow> Inr True
       | Inr False \<Rightarrow> verify_public_keys ext signed rest
       | Inl KeyError \<Rightarrow> verify_public_keys ext signed rest
       | Inl SignatureVerifyException \<Rightarrow> verify_public_keys ext signed rest
       | Inl e \<Rightarrow> Inl e)"

definition verify_third_party_invite :: "externals \<Rightarrow> event \<Rightarrow> event state_map \<Rightarrow> bool py" where
  "verify_third_party_invite ext event auth_events =
     (case dict_get (content event) ''third_party_invite'' of
        Some (JObj third_party_invite) \<Rightarrow>
          (case dict_get third_party_invite ''signed'' of
             Some (JObj signed) \<Rightarrow>
               if \<not> (dict_has signed ''mxid'' \<and> dict_has signed ''token'' \<and>
                      dict_has signed ''signatures'')
               then Inr False
               else
               py_bind (dict_getitem signed ''token'') (\<lambda>token.
               py_bind (auth_get auth_events EventTypes_ThirdPartyInvite token) (\<lambda>found.
               case found of
                 None \<Rightarrow> Inr False
               | Some invite_event \<Rightarrow>
                   if sender invite_event \<noteq> sender event then Inr False
                   else if user_id event \<noteq> user_id invite_event then Inr False
                   else
                   py_bind (dict_getitem signed ''mxid'') (\<lambda>mxid.
                   py_bind (state_key event) (\<lambda>skey.
                   if mxid \<noteq> JStr skey then Inr False
                   else
                   py_bind (get_public_keys invite_event) (verify_public_keys ext signed)))))
           | _ \<Rightarrow> Inr False)
      | _ \<Rightarrow> Inr False)"

section \<open>Membership changes\<close>

definition check_joined_room :: "event option \<Rightarrow> unit py" where
  "check_joined_room member =
     (case member of
        None \<Rightarrow> Inl (AuthError 403 FORBIDDEN)
      | Some m \<Rightarrow> py_bind (membership m) (\<lambda>ms.
          require (ms = Membership_JOIN) (AuthError 403 FORBIDDEN)))"

text \<open>What the rules look up about the caller, the target and the room before they decide.\<close>

record membership_context =
  target_user_id :: string
  caller_in_room :: bool
  caller_invited :: bool
  caller_knocked :: bool
  target_in_room :: bool
  target_banned :: bool
  join_rule :: json
  user_level :: int
  target_level :: int
  invite_level :: int
  ban_level :: int

text \<open>Whether this is the room creator joining right after creating the room.\<close>

definition is_creator_join :: "room_version \<Rightarrow> event \<Rightarrow> event state_map \<Rightarrow> json \<Rightarrow> bool py" where
  "is_creator_join rv event auth_events ms =
     (if length (prev_event_ids event) = 1 \<and> ms = Membership_JOIN
      then (case auth_events (EventTypes_Create, '''') of
              None \<Rightarrow> Inr False
            | Some create \<Rightarrow>
                if hd (prev_event_ids event) = event_id create
                then py_bind (if implicit_room_creator rv then Inr (JStr (sender create))
                              else dict_getitem (content create) ROOM_CREATOR) (\<lambda>creator.
                     py_bind (state_key event) (\<lambda>skey. Inr (creator = JStr skey)))
                else Inr False)
      else Inr False)"

definition member_of :: "event option \<Rightarrow> json option py" where
  "member_of member =
     (case member of None \<Rightarrow> Inr None | Some m \<Rightarrow> py_bind (membership m) (\<lambda>ms. Inr (Some ms)))"

definition get_membership_context ::
    "room_version \<Rightarrow> event \<Rightarrow> event state_map \<Rightarrow> membership_context py" where
  "get_membership_context rv event auth_events =
     py_bind (state_key event) (\<lambda>target.
     py_bind (room_id event) (\<lambda>rid.
     py_bind (get_domain_from_id rid) (\<lambda>creating_domain.
     py_bind (get_domain_from_id target) (\<lambda>target_domain.
     if creating_domain \<noteq> target_domain \<and> \<not> can_federate event auth_events
     then Inl (AuthError 403 FORBIDDEN)
     else
     py_bind (member_of (auth_events (EventTypes_Member, user_id event))) (\<lambda>caller.
     py_bind (member_of (auth_events (EventTypes_Member, target))) (\<lambda>target_membership.
     py_bind (get_user_power_level (JStr (user_id event)) auth_events) (\<lambda>ulevel.
     py_bind (get_user_power_level (JStr target) auth_events) (\<lambda>tlevel.
     py_bind (get_named_level auth_events ''invite'' 0) (\<lambda>ilevel.
     py_bind (get_named_level auth_events ''ban'' 50) (\<lambda>blevel.
     Inr \<lparr>target_user_id = target,
          caller_in_room = (caller = Some Membership_JOIN),
          caller_invited = (caller = Some Membership_INVITE),
          caller_knocked = (knock_join_rule rv \<and> caller = Some Membership_KNOCK),
          target_in_room = (target_membership = Some Membership_JOIN),
          target_banned = (target_membership = Some Membership_BAN),
          join_rule = (case auth_events (EventTypes_JoinRules, '''') of
                         None \<Rightarrow> JoinRules_INVITE
                       | Some e \<Rightarrow> dict_get_default (content e) ''join_rule'' JoinRules_INVITE),
          user_level = ulevel, target_level = tlevel,
          invite_level = ilevel, ban_level = blevel\<rparr>))))))))))"

definition check_invite :: "membership_context \<Rightarrow> unit py" where
  "check_invite c =
     (if target_banned c then Inl (AuthError 403 FORBIDDEN)
      else if target_in_room c then Inl (UnstableSpecAuthError 403 ALREADY_JOINED)
      else if user_level c < invite_level c then Inl (UnstableSpecAuthError 403 INSUFFICIENT_POWER)
      else Inr ())"

text \<open>A restricted join by somebody who is neither in the room nor invited.\<close>

definition check_join_authorised :: "event \<Rightarrow> event state_map \<Rightarrow> int \<Rightarrow> unit py" where
  "check_join_authorised event auth_events ilevel =
     (case or_default (dict_get (content event) AUTHORISING_USER) JNull of
        JNull \<Rightarrow> Inl (AuthError 403 FORBIDDEN)
      | authorising_user \<Rightarrow>
          py_bind (auth_get auth_events EventTypes_Member authorising_user) (\<lambda>member_event.
          py_bind (check_joined_room member_event) (\<lambda>_.
          py_bind (get_user_power_level authorising_user auth_events) (\<lambda>authorising_user_level.
          require (\<not> authorising_user_level < ilevel) (AuthError 403 FORBIDDEN)))))"

definition check_join ::
    "room_version \<Rightarrow> event \<Rightarrow> event state_map \<Rightarrow> membership_context \<Rightarrow> unit py" where
  "check_join rv event auth_events c =
     (if user_id event \<noteq> target_user_id c then Inl (AuthError 403 FORBIDDEN)
      else if target_banned c then Inl (AuthError 403 FORBIDDEN)
      else if join_rule c = JoinRules_PUBLIC then Inr ()
      else if restricted_join_rule rv \<and> join_rule c = JoinRules_RESTRICTED \<or>
              knock_restricted_join_rule rv \<and> join_rule c = JoinRules_KNOCK_RESTRICTED
      then
        if \<not> caller_in_room c \<and> \<not> caller_invited c
        then check_join_authorised event auth_events (invite_level c)
        else Inr ()
      else if join_rule c = JoinRules_INVITE \<or>
              knock_join_rule rv \<and> join_rule c = JoinRules_KNOCK \<or>
              knock_restricted_join_rule rv \<and> join_rule c = JoinRules_KNOCK_RESTRICTED
      then require (caller_in_room c \<or> caller_invited c) (AuthError 403 FORBIDDEN)
      else Inl (AuthError 403 FORBIDDEN))"

definition check_leave :: "event \<Rightarrow> event state_map \<Rightarrow> membership_context \<Rightarrow> unit py" where
  "check_leave event auth_events c =
     (if target_banned c \<and> user_level c < ban_level c
      then Inl (UnstableSpecAuthError 403 INSUFFICIENT_POWER)
      else if target_user_id c \<noteq> user_id event
      then py_bind (get_named_level auth_events ''kick'' 50) (\<lambda>kick_level.
             require (\<not> (user_level c < kick_level \<or> user_level c \<le> target_level c))
               (UnstableSpecAuthError 403 INSUFFICIENT_POWER))
      else Inr ())"

definition check_ban :: "membership_context \<Rightarrow> unit py" where
  "check_ban c =
     (if user_level c < ban_level c then Inl (UnstableSpecAuthError 403 INSUFFICIENT_POWER)
      else if user_level c \<le> target_level c then Inl (UnstableSpecAuthError 403 INSUFFICIENT_POWER)
      else Inr ())"

definition check_knock :: "room_version \<Rightarrow> event \<Rightarrow> membership_context \<Rightarrow> unit py" where
  "check_knock rv event c =
     (if join_rule c \<noteq> JoinRules_KNOCK \<and>
         (\<not> knock_restricted_join_rule rv \<or> join_rule c \<noteq> JoinRules_KNOCK_RESTRICTED)
      then Inl (AuthError 403 FORBIDDEN)
      else if target_user_id c \<noteq> user_id event then Inl (AuthError 403 FORBIDDEN)
      else if target_in_room c then Inl (UnstableSpecAuthError 403 ALREADY_JOINED)
      else if caller_invited c then Inl (AuthError 403 FORBIDDEN)
      else if target_banned c then Inl (AuthError 403 FORBIDDEN)
      else Inr ())"

text \<open>The branch on the membership the event asks for.\<close>

definition check_membership_change ::
    "room_version \<Rightarrow> event \<Rightarrow> event state_map \<Rightarrow> json \<Rightarrow> membership_context \<Rightarrow> unit py" where
  "check_membership_change rv event auth_events ms c =
     (if ms = Membership_INVITE then check_invite c
      else if ms = Membership_JOIN then check_join rv event auth_events c
      else if ms = Membership_LEAVE then check_leave event auth_events c
      else if ms = Membership_BAN then check_ban c
      else if knock_join_rule rv \<and> ms = Membership_KNOCK then check_knock rv event c
      else Inl (AuthError 500 FORBIDDEN))"

definition is_membership_change_allowed ::
    "externals \<Rightarrow> room_version \<Rightarrow> event \<Rightarrow> event state_map \<Rightarrow> unit py" where
  "is_membership_change_allowed ext rv event auth_events =
     py_bind (membership event) (\<lambda>ms.
     py_bind (is_creator_join rv event auth_events ms) (\<lambda>creator_join.
     if creator_join then Inr ()
     else
     py_bind (get_membership_context rv event auth_events) (\<lambda>c.
     if ms = Membership_INVITE \<and> dict_has (content event) ''third_party_invite''
     then py_bind (verify_third_party_invite ext event auth_events) (\<lambda>ok.
            if \<not> ok then Inl (AuthError 403 FORBIDDEN)
            else if target_banned c then Inl (AuthError 403 FORBIDDEN)
            else Inr ())
     else if ms \<noteq> Membership_JOIN \<and> ms \<noteq> Membership_KNOCK \<and>
             (caller_invited c \<or> caller_knocked c) \<and> ms = Membership_LEAVE \<and>
             target_user_id c = user_id event
     then Inr ()
     else if ms \<noteq> Membership_JOIN \<and> ms \<noteq> Membership_KNOCK \<and> \<not> caller_in_room c
     then Inl (UnstableSpecAuthError 403 NOT_JOINED)
     else check_membership_change rv event auth_events ms c)))"

section \<open>Sending, redacting, changing power levels\<close>

definition check_event_sender_in_room :: "event \<Rightarrow> event state_map \<Rightarrow> unit py" where
  "check_event_sender_in_room event auth_events =
     check_joined_room (auth_events (EventTypes_Member, user_id event))"

text \<open>MSC3757: the user a state key belongs to, when the key is a user ID or a user ID followed by
  an underscore and a suffix.\<close>

definition state_key_owner :: "externals \<Rightarrow> string \<Rightarrow> string py" where
  "state_key_owner ext skey =
     (case find_char_from CHR '':'' 1 skey of
        None \<Rightarrow> Inl (SynapseError 400 BAD_JSON)
      | Some colon_idx \<Rightarrow>
          let state_key_user_id =
            (case find_char_from CHR ''_'' (colon_idx + 1) skey of
               None \<Rightarrow> skey
             | Some suffix_idx \<Rightarrow> take suffix_idx skey)
          in if is_valid (valid_ipv6 ext) UserID_SIGIL state_key_user_id
             then Inr state_key_user_id else Inl (SynapseError 400 BAD_JSON))"

definition can_send_event :: "externals \<Rightarrow> event \<Rightarrow> event state_map \<Rightarrow> unit py" where
  "can_send_event ext event auth_events =
     py_bind (get_send_level (ev_type event) (get_state_key event) (get_power_level_event auth_events))
       (\<lambda>send_level.
     py_bind (get_user_power_level (JStr (user_id event)) auth_events) (\<lambda>ulevel.
     if ulevel < send_level then Inl (UnstableSpecAuthError 403 INSUFFICIENT_POWER)
     else
       (case get_state_key event of
          None \<Rightarrow> Inr ()
        | Some skey \<Rightarrow>
            if starts_with skey ''@'' \<and> skey \<noteq> user_id event
            then
              if msc3757_enabled (ev_room_version event)
              then py_bind (state_key_owner ext skey) (\<lambda>owner.
                   if owner = user_id event then Inr ()
                   else py_bind (get_user_power_level (JStr owner) auth_events) (\<lambda>owner_level.
                        require (ulevel > owner_level) (AuthError 403 FORBIDDEN)))
              else Inl (AuthError 403 FORBIDDEN)
            else Inr ())))"

text \<open>Returns the boolean of the source and the event, whose internal metadata it may mark.\<close>

definition check_redaction :: "room_version \<Rightarrow> event \<Rightarrow> event state_map \<Rightarrow> (bool \<times> event) py" where
  "check_redaction rv event auth_events =
     py_bind (get_user_power_level (JStr (user_id event)) auth_events) (\<lambda>ulevel.
     py_bind (get_named_level auth_events ''redact'' 50) (\<lambda>redact_level.
     if ulevel \<ge> redact_level then Inr (False, event)
     else if event_format rv = ROOM_V1_V2
     then py_bind (get_domain_from_id (event_id event)) (\<lambda>redacter_domain.
            case redacts event of
              Some (JStr r) \<Rightarrow>
                py_bind (get_domain_from_id r) (\<lambda>redactee_domain.
                  if redacter_domain = redactee_domain then Inr (True, event)
                  else Inl (AuthError 403 FORBIDDEN))
            | _ \<Rightarrow> Inr (False, event))
     else Inr (True, event\<lparr>recheck_redaction := True\<rparr>)))"

definition validate_user_levels :: "obj \<Rightarrow> unit py" where
  "validate_user_levels user_list =
     py_for (\<lambda>(k, v) _.
       case from_string UserID_SIGIL k of
         Inl _ \<Rightarrow> Inl (SynapseError 400 UNKNOWN)
       | Inr _ \<Rightarrow> (case py_int v of Inl _ \<Rightarrow> Inl (SynapseError 400 UNKNOWN) | Inr _ \<Rightarrow> Inr ()))
       user_list ()"

definition int_level_keys :: "string list" where
  "int_level_keys = [''users_default'', ''events_default'', ''state_default'', ''ban'', ''redact'',
     ''kick'', ''invite'']"

text \<open>Reject stringy power levels, where the room version asks for it.\<close>

definition check_int_levels :: "obj \<Rightarrow> unit py" where
  "check_int_levels cont =
     py_for (\<lambda>(k, v) _.
       if k \<in> set int_level_keys \<and> \<not> is_int v then Inl (SynapseError 400 UNKNOWN)
       else if k \<in> {''events'', ''notifications'', ''users''} \<and>
               \<not> (case v of JObj d \<Rightarrow> list_all (\<lambda>(_, w). is_int w) d | _ \<Rightarrow> False)
       then Inl (SynapseError 400 UNKNOWN)
       else Inr ())
       cont ()"

text \<open>\<open>levels_to_check\<close>: the seven plain levels, then every key that the old or the new content
  has under \<open>users\<close>, \<open>events\<close> and, from MSC2209 on, \<open>notifications\<close>.\<close>

type_synonym level_ref = "json \<times> string option"

definition dir_levels :: "obj \<Rightarrow> obj \<Rightarrow> string \<Rightarrow> level_ref list py" where
  "dir_levels old new dir =
     py_bind (py_list (dict_get_default old dir (JObj []))) (\<lambda>old_list.
     py_bind (py_list (dict_get_default new dir (JObj []))) (\<lambda>new_list.
     py_bind (py_set (old_list @ new_list)) (\<lambda>ks.
     Inr (map (\<lambda>k. (k, Some dir)) ks))))"

definition levels_to_check :: "room_version \<Rightarrow> obj \<Rightarrow> obj \<Rightarrow> level_ref list py" where
  "levels_to_check rv old new =
     py_bind (dir_levels old new ''users'') (\<lambda>us.
     py_bind (dir_levels old new ''events'') (\<lambda>es.
     py_bind (if limit_notifications_power_levels rv then dir_levels old new ''notifications''
              else Inr []) (\<lambda>ns.
     Inr (map (\<lambda>k. (JStr k, None)) int_level_keys @ us @ es @ ns))))"

text \<open>\<open>int(loc[level])\<close> where \<open>level in loc\<close>, else \<open>None\<close>.\<close>

definition level_at :: "obj \<Rightarrow> level_ref \<Rightarrow> int option py" where
  "level_at cont r =
     (let loc = (case snd r of None \<Rightarrow> JObj cont | Some dir \<Rightarrow> dict_get_default cont dir (JObj []))
      in py_bind (py_in (fst r) loc) (\<lambda>present.
           if present
           then py_bind (py_getitem loc (fst r)) (\<lambda>v. py_bind (py_int v) (\<lambda>i. Inr (Some i)))
           else Inr None))"

definition check_level_change :: "string \<Rightarrow> int \<Rightarrow> obj \<Rightarrow> obj \<Rightarrow> level_ref \<Rightarrow> unit py" where
  "check_level_change user ulevel old new r =
     py_bind (level_at old r) (\<lambda>old_level.
     py_bind (level_at new r) (\<lambda>new_level.
     if new_level \<noteq> None \<and> old_level \<noteq> None \<and> new_level = old_level then Inr ()
     else if snd r = Some ''users'' \<and> fst r \<noteq> JStr user \<and> old_level = Some ulevel
     then Inl (AuthError 403 FORBIDDEN)
     else if (case old_level of None \<Rightarrow> False | Some l \<Rightarrow> l > ulevel) \<or>
             (case new_level of None \<Rightarrow> False | Some l \<Rightarrow> l > ulevel)
     then Inl (AuthError 403 FORBIDDEN)
     else Inr ()))"

definition check_power_levels :: "room_version \<Rightarrow> event \<Rightarrow> event state_map \<Rightarrow> unit py" where
  "check_power_levels rv event auth_events =
     py_bind (get_subdict (content event) ''users'') (\<lambda>user_list.
     py_bind (validate_user_levels user_list) (\<lambda>_.
     py_bind (if ev_type event = EventTypes_PowerLevels \<and> enforce_int_power_levels rv
              then check_int_levels (content event) else Inr ()) (\<lambda>_.
     py_bind (state_key event) (\<lambda>skey.
     case auth_events (ev_type event, skey) of
       None \<Rightarrow> Inr ()
     | Some current_state \<Rightarrow>
         py_bind (get_user_power_level (JStr (user_id event)) auth_events) (\<lambda>ulevel.
         py_bind (levels_to_check rv (content current_state) (content event)) (\<lambda>levels.
         py_for (\<lambda>r _. check_level_change (user_id event) ulevel
                         (content current_state) (content event) r) levels ()))))))"

section \<open>The auth rules\<close>

text \<open>The state an event has to be checked against, as \<open>(type, state key)\<close> pairs. A state key may
  come from the content of the event.\<close>

definition add_key :: "string \<Rightarrow> json \<Rightarrow> (string \<times> json) list \<Rightarrow> (string \<times> json) list py" where
  "add_key ty k ks = (if hashable k then Inr (ks @ [(ty, k)]) else Inl TypeError)"

definition third_party_token :: "obj \<Rightarrow> json py" where
  "third_party_token cont =
     py_bind (dict_getitem cont ''third_party_invite'') (\<lambda>invite.
     py_bind (py_getitem invite (JStr ''signed'')) (\<lambda>signed.
     py_getitem signed (JStr ''token'')))"

definition auth_types_for_event :: "room_version \<Rightarrow> event \<Rightarrow> (string \<times> json) list py" where
  "auth_types_for_event rv event =
     (if ev_type event = EventTypes_Create then Inr []
      else
        let base = [(EventTypes_PowerLevels, JStr ''''), (EventTypes_Member, JStr (sender event)),
                    (EventTypes_Create, JStr '''')]
        in if ev_type event \<noteq> EventTypes_Member then Inr base
           else
           py_bind (membership event) (\<lambda>ms.
           py_bind (if ms \<in> {Membership_JOIN, Membership_INVITE, Membership_KNOCK}
                    then add_key EventTypes_JoinRules (JStr '''') base else Inr base) (\<lambda>t1.
           py_bind (state_key event) (\<lambda>skey.
           py_bind (add_key EventTypes_Member (JStr skey) t1) (\<lambda>t2.
           py_bind (if ms = Membership_INVITE \<and> dict_has (content event) ''third_party_invite''
                    then py_bind (third_party_token (content event)) (\<lambda>token.
                         add_key EventTypes_ThirdPartyInvite token t2)
                    else Inr t2) (\<lambda>t3.
           if restricted_join_rule rv \<and> ms = Membership_JOIN \<and> dict_has (content event) AUTHORISING_USER
           then py_bind (dict_getitem (content event) AUTHORISING_USER) (\<lambda>u.
                add_key EventTypes_Member u t3)
           else Inr t3))))))"

text \<open>The checks that do not depend on the room state. \<open>get_events\<close> is the store: it returns the
  events it has among the ones asked for.\<close>

definition check_auth_event ::
    "event \<Rightarrow> (string \<times> json) list \<Rightarrow> (string \<rightharpoonup> event) \<Rightarrow> string \<Rightarrow> string state_map \<Rightarrow> string state_map py" where
  "check_auth_event event expected_auth_types auth_events auth_event_id auth_dict =
     (case auth_events auth_event_id of
        None \<Rightarrow> Inl RuntimeError
      | Some auth_event \<Rightarrow>
          py_bind (room_id auth_event) (\<lambda>rid'.
          py_bind (room_id event) (\<lambda>rid.
          if rid' \<noteq> rid then Inl (AuthError 403 FORBIDDEN)
          else
          py_bind (state_key auth_event) (\<lambda>skey.
          let k = (ev_type auth_event, skey)
          in if auth_dict k \<noteq> None then Inl (AuthError 403 FORBIDDEN)
             else if (ev_type auth_event, JStr skey) \<notin> set expected_auth_types
             then Inl (AuthError 403 FORBIDDEN)
             else if rejected_reason auth_event \<noteq> None \<and> rejected_reason auth_event \<noteq> Some ''''
             then Inl (AuthError 403 FORBIDDEN)
             else Inr (auth_dict(k \<mapsto> auth_event_id))))))"

definition gather_auth_events ::
    "(string list \<Rightarrow> string \<rightharpoonup> event) \<Rightarrow> event \<Rightarrow> (string, event) dict option \<Rightarrow> (string \<rightharpoonup> event)" where
  "gather_auth_events get_events event batched_auth_events =
     (case batched_auth_events of
        Some (b # bs) \<Rightarrow>
          (let needed_auth_event_ids =
             filter (\<lambda>i. \<not> dict_has (b # bs) i) (auth_event_ids event)
           in if needed_auth_event_ids \<noteq> []
              then dict_get (b # bs) ++ get_events needed_auth_event_ids
              else dict_get (b # bs))
      | _ \<Rightarrow> get_events (auth_event_ids event))"

definition check_state_independent_auth_rules ::
    "(string list \<Rightarrow> string \<rightharpoonup> event) \<Rightarrow> event \<Rightarrow> (string, event) dict option \<Rightarrow> unit py" where
  "check_state_independent_auth_rules get_events event batched_auth_events =
     (if ev_type event = EventTypes_Create then check_create event
      else
        let auth_events = gather_auth_events get_events event batched_auth_events
        in py_bind (room_id event) (\<lambda>_.
           py_bind (auth_types_for_event (ev_room_version event) event) (\<lambda>expected_auth_types.
           py_bind (py_for (check_auth_event event expected_auth_types auth_events)
                      (auth_event_ids event) Map.empty) (\<lambda>auth_dict.
           case auth_dict (EventTypes_Create, '''') of
             None \<Rightarrow> Inl (AuthError 403 FORBIDDEN)
           | Some i \<Rightarrow> require (i \<noteq> '''') (AuthError 403 FORBIDDEN)))))"

text \<open>The checks that depend on the room state. The event is returned because a redaction may be
  marked for a later recheck.\<close>

definition auth_dict_of :: "event list \<Rightarrow> event state_map py" where
  "auth_dict_of auth_events =
     py_for (\<lambda>e d. py_bind (state_key e) (\<lambda>skey. Inr (d((ev_type e, skey) \<mapsto> e)))) auth_events Map.empty"

definition check_aliases_event :: "event \<Rightarrow> unit py" where
  "check_aliases_event event =
     (case get_state_key event of
        None \<Rightarrow> Inl (AuthError 403 FORBIDDEN)
      | Some skey \<Rightarrow>
          if skey = '''' then Inl (AuthError 403 FORBIDDEN)
          else py_bind (get_domain_from_id (sender event)) (\<lambda>sender_domain.
               require (skey = sender_domain) (AuthError 403 FORBIDDEN)))"

text \<open>The rules for an event that is neither a creation, nor an alias list with its special rule,
  nor a membership change.\<close>

definition check_other_event :: "externals \<Rightarrow> event \<Rightarrow> event state_map \<Rightarrow> event py" where
  "check_other_event ext event auth_dict =
     py_bind (check_event_sender_in_room event auth_dict) (\<lambda>_.
     if ev_type event = EventTypes_ThirdPartyInvite
     then py_bind (get_user_power_level (JStr (user_id event)) auth_dict) (\<lambda>ulevel.
          py_bind (get_named_level auth_dict ''invite'' 0) (\<lambda>ilevel.
          if ulevel < ilevel then Inl (UnstableSpecAuthError 403 INSUFFICIENT_POWER)
          else Inr event))
     else
     py_bind (can_send_event ext event auth_dict) (\<lambda>_.
     py_bind (if ev_type event = EventTypes_PowerLevels
              then check_power_levels (ev_room_version event) event auth_dict
              else Inr ()) (\<lambda>_.
     if ev_type event = EventTypes_Redaction
     then py_bind (check_redaction (ev_room_version event) event auth_dict) (\<lambda>(_, event'). Inr event')
     else Inr event)))"

definition check_against_state :: "externals \<Rightarrow> event \<Rightarrow> event state_map \<Rightarrow> event py" where
  "check_against_state ext event auth_dict =
     py_bind (room_id event) (\<lambda>rid.
     py_bind (get_domain_from_id rid) (\<lambda>creating_domain.
     py_bind (get_domain_from_id (sender event)) (\<lambda>originating_domain.
     if creating_domain \<noteq> originating_domain \<and> \<not> can_federate event auth_dict
     then Inl (AuthError 403 FORBIDDEN)
     else if ev_type event = EventTypes_Aliases \<and> special_case_aliases_auth (ev_room_version event)
     then py_bind (check_aliases_event event) (\<lambda>_. Inr event)
     else if ev_type event = EventTypes_Member
     then py_bind (is_membership_change_allowed ext (ev_room_version event) event auth_dict)
            (\<lambda>_. Inr event)
     else check_other_event ext event auth_dict)))"

definition check_state_dependent_auth_rules :: "externals \<Rightarrow> event \<Rightarrow> event list \<Rightarrow> event py" where
  "check_state_dependent_auth_rules ext event auth_events =
     (if ev_type event = EventTypes_Create then Inr event
      else py_bind (auth_dict_of auth_events) (check_against_state ext event))"

end
