(* ===== verification/State_Store.thy ===== *)
theory State_Store
  imports Event_Auth
begin

text \<open>
  \<open>StateResolutionStore\<close> and \<open>_get_event\<close> of \<open>synapse/state/v2.py\<close>. The database is outside the
  model: a \<open>state_res_store\<close> is what it answers. \<open>event_map\<close> is a cache in front of it that every
  function of the state resolution extends, so it is threaded through all of them.

  \<open>lookup\<close> is what the cache and the store together know. The locale \<open>event_store\<close> states what the
  database promises, that a query for one event returns that event or nothing; under it
  \<open>_get_event\<close> is a plain lookup, and extending the cache changes nothing that can be observed.
\<close>

record state_res_store =
  get_events :: "string list \<Rightarrow> (string, event) dict"
  get_auth_chain_difference :: "string \<Rightarrow> string list list \<Rightarrow> string list"

type_synonym event_map = "(string, event) dict"

definition get_event ::
    "state_res_store \<Rightarrow> string \<Rightarrow> string \<Rightarrow> bool \<Rightarrow> event_map \<Rightarrow> (event option \<times> event_map) py" where
  "get_event store rid eid allow_none em =
     (let em' = (if \<not> dict_has em eid then dict_update em (get_events store [eid]) else em)
      in case dict_get em' eid of
           None \<Rightarrow> if allow_none then Inr (None, em') else Inl PyException
         | Some event \<Rightarrow>
             py_bind (room_id event) (\<lambda>r.
               if r \<noteq> rid then Inl PyException else Inr (Some event, em')))"

text \<open>Without \<open>allow_none\<close> the result is an event.\<close>

definition get_event_strict ::
    "state_res_store \<Rightarrow> string \<Rightarrow> string \<Rightarrow> event_map \<Rightarrow> (event \<times> event_map) py" where
  "get_event_strict store rid eid em =
     py_bind (get_event store rid eid False em) (\<lambda>(ev, em'). Inr (the ev, em'))"

text \<open>The loop the file has four times: the first auth event with the given type and an empty state
  key.\<close>

fun find_auth_event ::
    "state_res_store \<Rightarrow> string \<Rightarrow> string \<Rightarrow> string list \<Rightarrow> event_map \<Rightarrow> ((string \<times> event) option \<times> event_map) py" where
  "find_auth_event store rid etype [] em = Inr (None, em)"
| "find_auth_event store rid etype (aid # aids) em =
     py_bind (get_event store rid aid True em) (\<lambda>(aev, em').
       case aev of
         None \<Rightarrow> find_auth_event store rid etype aids em'
       | Some ev \<Rightarrow>
           py_bind (state_key ev) (\<lambda>skey.
             if (ev_type ev, skey) = (etype, '''') then Inr (Some (aid, ev), em')
             else find_auth_event store rid etype aids em'))"

section \<open>The cache is transparent\<close>

definition lookup :: "state_res_store \<Rightarrow> event_map \<Rightarrow> string \<rightharpoonup> event" where
  "lookup store em i = (case dict_get em i of Some e \<Rightarrow> Some e | None \<Rightarrow> dict_get (get_events store [i]) i)"

text \<open>A later state of the cache: more entries, the same knowledge.\<close>

definition extends :: "state_res_store \<Rightarrow> event_map \<Rightarrow> event_map \<Rightarrow> bool" where
  "extends store em em' \<longleftrightarrow> dict_get em \<subseteq>\<^sub>m dict_get em' \<and> lookup store em' = lookup store em"

lemma extends_refl [simp]: "extends store em em"
  by (simp add: extends_def)

lemma extends_trans: "extends store em em' \<Longrightarrow> extends store em' em'' \<Longrightarrow> extends store em em''"
  by (auto simp: extends_def intro: map_le_trans)

lemma extends_lookup: "extends store em em' \<Longrightarrow> lookup store em' = lookup store em"
  by (simp add: extends_def)

lemma extends_get: "extends store em em' \<Longrightarrow> dict_get em i = Some e \<Longrightarrow> dict_get em' i = Some e"
  unfolding extends_def map_le_def by (metis domI)

lemma lookup_get: "dict_get em i = Some e \<Longrightarrow> lookup store em i = Some e"
  by (simp add: lookup_def)

text \<open>What a lookup in the right room may return, on the knowledge alone.\<close>

definition get_event_spec :: "(string \<rightharpoonup> event) \<Rightarrow> string \<Rightarrow> string \<Rightarrow> event option py" where
  "get_event_spec ev rid i = (case ev i of None \<Rightarrow> Inr None
     | Some e \<Rightarrow> py_bind (room_id e) (\<lambda>r. if r \<noteq> rid then Inl PyException else Inr (Some e)))"

fun find_auth_spec :: "(string \<rightharpoonup> event) \<Rightarrow> string \<Rightarrow> string \<Rightarrow> string list \<Rightarrow> (string \<times> event) option py" where
  "find_auth_spec ev rid etype [] = Inr None"
| "find_auth_spec ev rid etype (i # is) =
     py_bind (get_event_spec ev rid i) (\<lambda>r.
       case r of None \<Rightarrow> find_auth_spec ev rid etype is
       | Some e \<Rightarrow> py_bind (state_key e) (\<lambda>k.
           if (ev_type e, k) = (etype, '''') then Inr (Some (i, e)) else find_auth_spec ev rid etype is))"

text \<open>\<open>implements store em f g\<close>: run on the cache \<open>em\<close>, \<open>f\<close> raises what \<open>g\<close> raises, and returns what
  \<open>g\<close> returns together with an extension of the cache.\<close>

definition implements ::
    "state_res_store \<Rightarrow> event_map \<Rightarrow> ('a \<times> event_map) py \<Rightarrow> 'a py \<Rightarrow> bool" where
  "implements store em f g \<longleftrightarrow>
     (case g of Inl err \<Rightarrow> f = Inl err | Inr x \<Rightarrow> \<exists>em'. f = Inr (x, em') \<and> extends store em em')"

lemma implements_Inr [simp]: "implements store em (Inr (x, em')) (Inr y) \<longleftrightarrow> x = y \<and> extends store em em'"
  by (auto simp: implements_def)

lemma implements_Inl [simp]: "implements store em f (Inl err) \<longleftrightarrow> f = Inl err"
  by (simp add: implements_def)

text \<open>The sequence rule: the rest of the program only has to be right on the extended cache.\<close>

lemma implements_bind:
  assumes "implements store em f g"
    and "\<And>x em'. g = Inr x \<Longrightarrow> extends store em em' \<Longrightarrow> implements store em' (f' (x, em')) (g' x)"
  shows "implements store em (py_bind f f') (py_bind g g')"
proof (cases g)
  case (Inl err)
  with assms(1) show ?thesis by (simp add: implements_def)
next
  case (Inr x)
  with assms(1) obtain em' where f: "f = Inr (x, em')" and ext: "extends store em em'"
    by (auto simp: implements_def)
  from assms(2)[OF Inr ext] have "implements store em' (f' (x, em')) (g' x)" .
  then show ?thesis
    using ext by (auto simp: f Inr implements_def split: sum.splits intro: extends_trans)
qed

text \<open>Leaving the cache behind at the end.\<close>

lemma implements_run:
  assumes "implements store em f g"
    and "\<And>x em'. g = Inr x \<Longrightarrow> extends store em em' \<Longrightarrow> f' (x, em') = g' x"
  shows "py_bind f f' = py_bind g g'"
  using assms by (cases g) (auto simp: implements_def)

text \<open>A step that does not touch the cache.\<close>

lemma implements_lift:
  "(\<And>x. g = Inr x \<Longrightarrow> implements store em (f' x) (g' x)) \<Longrightarrow> implements store em (py_bind g f') (py_bind g g')"
  by (cases g) (auto simp: implements_def)

lemma implements_for:
  assumes "\<And>x s em'. x \<in> set xs \<Longrightarrow> extends store em em' \<Longrightarrow> implements store em' (f x (s, em')) (g x s)"
  shows "implements store em (py_for f xs (s, em)) (py_for g xs s)"
  using assms
proof (induction xs arbitrary: s em)
  case (Cons x xs)
  show ?case
    unfolding py_for.simps
  proof (rule implements_bind)
    show "implements store em (f x (s, em)) (g x s)" using Cons.prems by simp
    show "implements store em' (py_for f xs (y, em')) (py_for g xs y)" if "extends store em em'" for y em'
      by (rule Cons.IH) (use Cons.prems that extends_trans in auto)
  qed
qed (simp add: implements_def)

locale event_store =
  fixes store :: state_res_store
  assumes wf_events: "wf_dict (get_events store is)"
    and batch: "dict_get (get_events store is) i = (if i \<in> set is then dict_get (get_events store [i]) i else None)"
begin

lemma dict_get_single: "j \<noteq> i \<Longrightarrow> dict_get (get_events store [i]) j = None"
  using batch[of "[i]" j] by simp

lemmas wf_single = wf_events[of "[i]" for i]

text \<open>Fetching what is missing from a list of events.\<close>

lemma fetch_batch:
  assumes "\<And>i. i \<in> set is \<Longrightarrow> dict_get em i = None"
  shows "dict_get (dict_update em (get_events store is)) i =
      (if i \<in> set is then lookup store em i else dict_get em i)"
    and "extends store em (dict_update em (get_events store is))"
proof -
  show get: "dict_get (dict_update em (get_events store is)) i =
      (if i \<in> set is then lookup store em i else dict_get em i)" for i
    using assms[of i] batch[of "is" i]
    by (auto simp: dict_get_update dict_get_rev[OF wf_events] map_add_def lookup_def split: option.splits)
  have "dict_get em \<subseteq>\<^sub>m dict_get (dict_update em (get_events store is))"
    unfolding map_le_def using get assms by (metis domIff)
  moreover have "lookup store (dict_update em (get_events store is)) = lookup store em"
    using assms by (auto simp: lookup_def get fun_eq_iff split: option.splits)
  ultimately show "extends store em (dict_update em (get_events store is))" by (simp add: extends_def)
qed

lemma fetch_extends:
  assumes "dict_get em i = None"
  shows "extends store em (dict_update em (get_events store [i]))"
  using fetch_batch(2)[of "[i]" em] assms by simp

lemma get_event_implements:
  "implements store em (get_event store rid i True em) (get_event_spec (lookup store em) rid i)"
  "implements store em (get_event store rid i False em)
     (py_bind (get_event_spec (lookup store em) rid i)
        (\<lambda>r. case r of None \<Rightarrow> Inl PyException | Some e \<Rightarrow> Inr (Some e)))"
proof -
  let ?em = "if \<not> dict_has em i then dict_update em (get_events store [i]) else em"
  have ext: "extends store em ?em" using fetch_extends by (auto simp: dict_has_def)
  have get: "dict_get ?em i = lookup store em i"
  proof (cases "dict_get em i")
    case None
    then show ?thesis
      by (auto simp: dict_has_def lookup_def dict_get_update dict_get_rev[OF wf_single] map_add_def
          split: option.splits)
  qed (simp add: dict_has_def lookup_def)
  show "implements store em (get_event store rid i True em) (get_event_spec (lookup store em) rid i)"
    using ext get by (auto simp: get_event_def get_event_spec_def Let_def room_id_def split: option.splits)
  show "implements store em (get_event store rid i False em)
     (py_bind (get_event_spec (lookup store em) rid i)
        (\<lambda>r. case r of None \<Rightarrow> Inl PyException | Some e \<Rightarrow> Inr (Some e)))"
    using ext get by (auto simp: get_event_def get_event_spec_def Let_def room_id_def split: option.splits)
qed

lemma find_auth_implements:
  "implements store em (find_auth_event store rid ty is em) (find_auth_spec (lookup store em) rid ty is)"
proof (induction "is" arbitrary: em)
  case (Cons i "is")
  show ?case
    unfolding find_auth_event.simps find_auth_spec.simps
  proof (rule implements_bind[OF get_event_implements(1)], unfold split)
    fix x em' assume e: "extends store em em'"
    note IH = Cons.IH[of em', unfolded extends_lookup[OF e]]
    show "implements store em'
       (case x of None \<Rightarrow> find_auth_event store rid ty is em'
        | Some ev \<Rightarrow> py_bind (state_key ev) (\<lambda>skey. if (ev_type ev, skey) = (ty, '''')
            then Inr (Some (i, ev), em') else find_auth_event store rid ty is em'))
       (case x of None \<Rightarrow> find_auth_spec (lookup store em) rid ty is
        | Some e \<Rightarrow> py_bind (state_key e) (\<lambda>k. if (ev_type e, k) = (ty, '''')
            then Inr (Some (i, e)) else find_auth_spec (lookup store em) rid ty is))"
      using IH by (auto split: option.splits intro!: implements_lift)
  qed
qed simp

end

section \<open>A store held in memory\<close>

text \<open>The store of the repository's own tests: the events in a dictionary.\<close>

definition dict_store_get_events :: "event_map \<Rightarrow> string list \<Rightarrow> (string, event) dict" where
  "dict_store_get_events evs ids =
     fold (\<lambda>i d. case dict_get evs i of None \<Rightarrow> d | Some e \<Rightarrow> dict_set i e d) ids []"

definition dict_store ::
    "event_map \<Rightarrow> (string \<Rightarrow> string list list \<Rightarrow> string list) \<Rightarrow> state_res_store" where
  "dict_store evs difference =
     \<lparr>get_events = dict_store_get_events evs, get_auth_chain_difference = difference\<rparr>"

lemma dict_get_dict_store:
  "dict_get (fold (\<lambda>i d. case dict_get evs i of None \<Rightarrow> d | Some e \<Rightarrow> dict_set i e d) is d0) i =
     (if i \<in> set is then case dict_get evs i of None \<Rightarrow> dict_get d0 i | Some e \<Rightarrow> Some e else dict_get d0 i)"
  by (induction "is" arbitrary: d0) (auto simp: alist.get_put split: option.splits)

lemma wf_dict_store: "wf_dict d0 \<Longrightarrow>
    wf_dict (fold (\<lambda>i d. case dict_get evs i of None \<Rightarrow> d | Some e \<Rightarrow> dict_set i e d) is d0)"
  by (induction "is" arbitrary: d0) (auto simp: alist.wf_put split: option.splits)

interpretation memory_store: event_store "dict_store evs difference" for evs difference
  by unfold_locales
    (auto simp: dict_store_def dict_store_get_events_def dict_get_dict_store wf_dict_store
      wf_dict_def[of "[]"] split: option.splits)

lemma lookup_dict_store: "lookup (dict_store evs difference) em i =
    (case dict_get em i of Some e \<Rightarrow> Some e | None \<Rightarrow> dict_get evs i)"
  by (auto simp: lookup_def dict_store_def dict_store_get_events_def split: option.splits)

end
