(* ===== verification/Toposort.thy ===== *)
theory Toposort
  imports Prelude
begin

text \<open>
  \<open>lexicographical_topological_sort\<close> of \<open>synapse/state/v2.py\<close>: Kahn's algorithm on nodes with no
  outgoing edges, with a heap that breaks ties by a key.

  The heap is Python's \<open>heapq\<close> on a list of pairs; what the algorithm relies on is the locale
  \<open>heap_queue\<close>, interpreted on the model of \<open>heapq\<close>. The relation \<open>kahn\<close> is the specification:
  the next node is always the least of the nodes whose edges all lead to nodes already listed. The
  code is shown to return, and to return the list the relation determines; that list is topological,
  complete for an acyclic graph, and the lexicographically least topological order.
\<close>

section \<open>The priority queue\<close>

locale heap_queue =
  fixes items :: "'h \<Rightarrow> 'a::linorder multiset"
    and heapify :: "'a list \<Rightarrow> 'h"
    and push :: "'a \<Rightarrow> 'h \<Rightarrow> 'h"
    and pop :: "'h \<Rightarrow> ('a \<times> 'h) option"
    and inv :: "'h \<Rightarrow> bool"
  assumes heapify_items: "items (heapify xs) = mset xs"
    and heapify_inv: "inv (heapify xs)"
    and push_items: "items (push x h) = add_mset x (items h)"
    and push_inv: "inv h \<Longrightarrow> inv (push x h)"
    and pop_None: "pop h = None \<longleftrightarrow> items h = {#}"
    and pop_items: "pop h = Some (x, h') \<Longrightarrow> items h = add_mset x (items h')"
    and pop_inv: "inv h \<Longrightarrow> pop h = Some (x, h') \<Longrightarrow> inv h'"
    and pop_least: "inv h \<Longrightarrow> pop h = Some (x, h') \<Longrightarrow> y \<in># items h \<Longrightarrow> x \<le> y"
begin

lemma pop_in: "pop h = Some (x, h') \<Longrightarrow> x \<in># items h"
  by (simp add: pop_items)

lemma pop_subset: "pop h = Some (x, h') \<Longrightarrow> y \<in># items h' \<Longrightarrow> y \<in># items h"
  by (simp add: pop_items)

text \<open>Popping returns the items in order, whatever the shape of the heap.\<close>

lemma pop_sorted: "inv h \<Longrightarrow> pop h = Some (x, h') \<Longrightarrow> pop h' = Some (y, h'') \<Longrightarrow> x \<le> y"
  by (meson pop_in pop_least pop_subset)

end

text \<open>\<open>heapq\<close>: the heap as the sorted list of its items.\<close>

definition heapq_heapify :: "'a::linorder list \<Rightarrow> 'a list" where
  "heapq_heapify xs = sort xs"

definition heapq_heappush :: "'a::linorder \<Rightarrow> 'a list \<Rightarrow> 'a list" where
  "heapq_heappush x h = insort x h"

definition heapq_heappop :: "'a list \<Rightarrow> ('a \<times> 'a list) option" where
  "heapq_heappop h = (case h of [] \<Rightarrow> None | x # xs \<Rightarrow> Some (x, xs))"

interpretation heapq: heap_queue mset heapq_heapify heapq_heappush heapq_heappop sorted
  by unfold_locales
    (auto simp: heapq_heapify_def heapq_heappush_def heapq_heappop_def sorted_insort split: list.splits)

section \<open>The sort\<close>

type_synonym 'n graph = "('n, 'n list) dict"

text \<open>The body of the first loop: the nodes with no edges, and the reversed graph.\<close>

definition toposort_add_node ::
    "('n \<Rightarrow> 'k py) \<Rightarrow> 'n \<times> 'n list \<Rightarrow> ('k \<times> 'n) list \<times> 'n graph \<Rightarrow> (('k \<times> 'n) list \<times> 'n graph) py" where
  "toposort_add_node key node_edges zero_rev =
     (case (node_edges, zero_rev) of ((node, edges), (zero_outdegree, reverse_graph)) \<Rightarrow>
       py_bind (if edges = [] then py_bind (key node) (\<lambda>k. Inr (zero_outdegree @ [(k, node)]))
                else Inr zero_outdegree) (\<lambda>zero_outdegree'.
       Inr (zero_outdegree',
            fold (\<lambda>edge r. dict_set edge (set_add node (dict_get_default r edge [])) r)
              edges (dict_setdefault node [] reverse_graph))))"

text \<open>The body of the inner loop: drop the edge to the node just listed.\<close>

definition toposort_parent ::
    "('n \<Rightarrow> ('k::linorder) py) \<Rightarrow> ('n::linorder) \<Rightarrow> 'n \<Rightarrow> ('k \<times> 'n) list \<times> 'n graph \<Rightarrow>
      (('k \<times> 'n) list \<times> 'n graph) py" where
  "toposort_parent key node parent zero_out =
     (case zero_out of (zero_outdegree, outdegree_map) \<Rightarrow>
       py_bind (dict_getitem outdegree_map parent) (\<lambda>out.
         let out' = removeAll node out; outdegree_map' = dict_set parent out' outdegree_map
         in if out' = []
            then py_bind (key parent) (\<lambda>k.
                   Inr (heapq_heappush (k, parent) zero_outdegree, outdegree_map'))
            else Inr (zero_outdegree, outdegree_map')))"

fun toposort_loop ::
    "nat \<Rightarrow> ('n \<Rightarrow> ('k::linorder) py) \<Rightarrow> ('n::linorder) graph \<Rightarrow> ('k \<times> 'n) list \<times> 'n graph \<Rightarrow> 'n list py" where
  "toposort_loop fuel key reverse_graph (zero_outdegree, outdegree_map) =
     (case heapq_heappop zero_outdegree of
        None \<Rightarrow> Inr []
      | Some ((_, node), zero_outdegree') \<Rightarrow>
          (case fuel of
             0 \<Rightarrow> Inl OutOfFuel
           | Suc fuel' \<Rightarrow>
               py_bind (dict_getitem reverse_graph node) (\<lambda>parents.
               py_bind (py_for (toposort_parent key node) parents (zero_outdegree', outdegree_map))
                 (\<lambda>s.
               py_bind (toposort_loop fuel' key reverse_graph s) (\<lambda>rest. Inr (node # rest))))))"

declare toposort_loop.simps [simp del]

definition lexicographical_topological_sort ::
    "('n::linorder) graph \<Rightarrow> ('n \<Rightarrow> ('k::linorder) py) \<Rightarrow> 'n list py" where
  "lexicographical_topological_sort graph key =
     py_bind (py_for (toposort_add_node key) graph ([], [])) (\<lambda>(zero_outdegree, reverse_graph).
       toposort_loop (length graph) key reverse_graph (heapq_heapify zero_outdegree, graph))"

section \<open>The specification\<close>

text \<open>The nodes that may come next once \<open>D\<close> has been listed.\<close>

definition available :: "'n set \<Rightarrow> ('n \<Rightarrow> 'n set) \<Rightarrow> 'n set \<Rightarrow> 'n set" where
  "available V E D = {n \<in> V - D. E n \<subseteq> D}"

inductive kahn :: "'n set \<Rightarrow> ('n \<Rightarrow> 'n set) \<Rightarrow> ('n \<Rightarrow> 'k::linorder) \<Rightarrow> ('n::linorder) set \<Rightarrow> 'n list \<Rightarrow> bool"
  for V :: "'n set" and E :: "'n \<Rightarrow> 'n set" and k :: "'n \<Rightarrow> 'k" where
  stop: "available V E D = {} \<Longrightarrow> kahn V E k D []"
| step: "\<lbrakk>n \<in> available V E D; \<And>m. m \<in> available V E D \<Longrightarrow> (k n, n) \<le> (k m, m);
    kahn V E k (insert n D) xs\<rbrakk> \<Longrightarrow> kahn V E k D (n # xs)"

inductive_cases kahn_NilE: "kahn V E k D []"
inductive_cases kahn_ConsE: "kahn V E k D (n # xs)"

text \<open>The relation determines the list.\<close>

lemma kahn_unique: "kahn V E k D xs \<Longrightarrow> kahn V E k D ys \<Longrightarrow> xs = ys"
proof (induction arbitrary: ys rule: kahn.induct)
  case (stop D)
  then show ?case by (cases ys) (auto elim: kahn_ConsE)
next
  case (step n D xs)
  from step.prems step.hyps(1) obtain m zs where ys: "ys = m # zs" "m \<in> available V E D"
    "\<And>m'. m' \<in> available V E D \<Longrightarrow> (k m, m) \<le> (k m', m')" "kahn V E k (insert m D) zs"
    by (cases rule: kahn.cases) auto
  then have "m = n" using step.hyps(1,2) by (meson Pair_inject antisym)
  with step.IH ys show ?case by simp
qed

text \<open>\<open>topo_sorted E D xs\<close>: every edge of a listed node leads to an earlier one, or to \<open>D\<close>.\<close>

fun topo_sorted :: "('n \<Rightarrow> 'n set) \<Rightarrow> 'n set \<Rightarrow> 'n list \<Rightarrow> bool" where
  "topo_sorted E D [] \<longleftrightarrow> True"
| "topo_sorted E D (n # ns) \<longleftrightarrow> n \<notin> D \<and> E n \<subseteq> D \<and> topo_sorted E (insert n D) ns"

lemma topological_nth:
  "topo_sorted E D xs \<Longrightarrow> i < length xs \<Longrightarrow> E (xs ! i) \<subseteq> D \<union> set (take i xs) \<and> xs ! i \<notin> D"
proof (induction xs arbitrary: D i)
  case (Cons x xs)
  then show ?case by (cases i) (auto simp: less_Suc_eq_0_disj)
qed simp

lemma topological_distinct: "topo_sorted E D xs \<Longrightarrow> distinct xs \<and> set xs \<inter> D = {}"
  by (induction E D xs rule: topo_sorted.induct) auto

lemma kahn_topological: "kahn V E k D xs \<Longrightarrow> topo_sorted E D xs \<and> set xs \<subseteq> V"
  by (induction rule: kahn.induct) (auto simp: available_def)

lemma kahn_stuck: "kahn V E k D xs \<Longrightarrow> available V E (D \<union> set xs) = {}"
  by (induction rule: kahn.induct) (auto simp: insert_commute)

text \<open>On an acyclic graph that is closed under its edges nothing is left out.\<close>

lemma kahn_complete:
  assumes "kahn V E k {} xs" and "wf {(m, n). n \<in> V \<and> m \<in> E n}" and "\<And>n. n \<in> V \<Longrightarrow> E n \<subseteq> V"
  shows "set xs = V"
proof
  show "set xs \<subseteq> V" using kahn_topological[OF assms(1)] by simp
  have "n \<in> V \<longrightarrow> n \<in> set xs" for n
    using assms(2)
  proof (induction n rule: wf_induct_rule)
    case (less n)
    show ?case
    proof
      assume "n \<in> V"
      with less assms(3) have "E n \<subseteq> set xs" by blast
      with \<open>n \<in> V\<close> kahn_stuck[OF assms(1)] show "n \<in> set xs" by (auto simp: available_def)
    qed
  qed
  then show "V \<subseteq> set xs" by blast
qed

text \<open>No topological order of the same nodes is lexicographically smaller.\<close>

lemma kahn_least:
  assumes "kahn V E k D xs" and "topo_sorted E D ys" and "set ys = set xs" and "set ys \<subseteq> V"
  shows "map (\<lambda>n. (k n, n)) xs \<le> map (\<lambda>n. (k n, n)) ys"
  using assms
proof (induction arbitrary: ys rule: kahn.induct)
  case (step n D xs)
  then obtain y zs where ys: "ys = y # zs" by (cases ys) auto
  with step.prems have y: "y \<in> available V E D" by (auto simp: available_def)
  show ?case
  proof (cases "y = n")
    case True
    have "n \<notin> set zs" and "n \<notin> set xs"
      using topological_distinct[OF step.prems(1)] ys True
        topological_distinct[OF conjunct1[OF kahn_topological[OF step.hyps(3)]]] by auto
    with step.prems(2) ys True have "set zs = set xs" by auto
    with step.IH[of zs] step.prems ys True show ?thesis by auto
  next
    case False
    with step.hyps(2)[OF y] have "(k n, n) < (k y, y)" by (simp add: order.strict_iff_order)
    then show ?thesis using ys by (simp add: Cons_less_Cons order.strict_implies_order)
  qed
qed simp

section \<open>The code returns the list of the specification\<close>

definition nodes :: "'n graph \<Rightarrow> 'n set" where
  "nodes g = dom (dict_get g)"

definition edges_of :: "'n graph \<Rightarrow> 'n \<Rightarrow> 'n set" where
  "edges_of g n = set (dict_get_default g n [])"

lemma finite_nodes [simp]: "finite (nodes g)"
  by (simp add: nodes_def finite_dom_map_of)

lemma card_nodes: "card (nodes g) \<le> length g"
  unfolding nodes_def dom_map_of_conv_image_fst by (metis card_image_le card_length finite_set le_trans)

text \<open>The reversed graph: after the first loop it has, for every node, exactly the nodes that point
  to it.\<close>

definition parents_in :: "'n graph \<Rightarrow> 'n \<Rightarrow> 'n set" where
  "parents_in r n = set (dict_get_default r n [])"

definition add_reverse_edge :: "'n \<Rightarrow> 'n \<Rightarrow> 'n graph \<Rightarrow> 'n graph" where
  "add_reverse_edge node edge r = dict_set edge (set_add node (dict_get_default r edge [])) r"

definition distinct_parents :: "'n graph \<Rightarrow> bool" where
  "distinct_parents r \<longleftrightarrow> (\<forall>n. distinct (dict_get_default r n []))"

lemma parents_in_add_edges:
  "parents_in (fold (add_reverse_edge node) es r) n = parents_in r n \<union> (if n \<in> set es then {node} else {})"
  by (induction es arbitrary: r) (auto simp: parents_in_def add_reverse_edge_def)

lemma nodes_add_edges: "nodes (fold (add_reverse_edge node) es r) = nodes r \<union> set es"
  by (induction es arbitrary: r) (auto simp: nodes_def add_reverse_edge_def alist.get_put)

lemma distinct_add_edges: "distinct_parents r \<Longrightarrow> distinct_parents (fold (add_reverse_edge node) es r)"
  by (induction es arbitrary: r) (auto simp: distinct_parents_def add_reverse_edge_def)

lemma parents_in_setdefault: "parents_in (dict_setdefault n [] r) x = parents_in r x"
  by (simp add: parents_in_def)

lemma nodes_setdefault: "nodes (dict_setdefault n [] r) = insert n (nodes r)"
  by (auto simp: nodes_def dict_get_setdefault split: option.splits)

lemma distinct_setdefault: "distinct_parents r \<Longrightarrow> distinct_parents (dict_setdefault n [] r)"
  by (simp add: distinct_parents_def)

definition reverse_inv :: "'n graph \<Rightarrow> 'n graph \<Rightarrow> bool" where
  "reverse_inv g r \<longleftrightarrow> (\<forall>n. parents_in r n = {p. \<exists>es. (p, es) \<in> set g \<and> n \<in> set es}) \<and>
     fst ` set g \<subseteq> nodes r \<and> distinct_parents r"

lemma reverse_inv_step:
  assumes "reverse_inv g r"
  shows "reverse_inv (g @ [(n, es)]) (fold (add_reverse_edge n) es (dict_setdefault n [] r))"
  using assms unfolding reverse_inv_def parents_in_add_edges nodes_add_edges parents_in_setdefault
    nodes_setdefault by (auto simp: distinct_add_edges distinct_setdefault)

lemma toposort_add_node_Inr:
  assumes "key n = Inr (k n)"
  shows "toposort_add_node key (n, es) (z, r) =
    Inr (z @ (if es = [] then [(k n, n)] else []), fold (add_reverse_edge n) es (dict_setdefault n [] r))"
  using assms by (simp add: toposort_add_node_def add_reverse_edge_def[abs_def])

lemma toposort_init:
  assumes "\<And>n. n \<in> fst ` set g \<Longrightarrow> key n = Inr (k n)" and "reverse_inv g0 r0"
  shows "\<exists>r. py_for (toposort_add_node key) g (z, r0) =
      Inr (z @ map (\<lambda>(n, _). (k n, n)) (filter (\<lambda>(_, es). es = []) g), r) \<and> reverse_inv (g0 @ g) r"
  using assms
proof (induction g arbitrary: z r0 g0)
  case (Cons a g)
  obtain n es where a: "a = (n, es)" by force
  let ?r = "fold (add_reverse_edge n) es (dict_setdefault n [] r0)"
  let ?z = "z @ (if es = [] then [(k n, n)] else [])"
  have step: "toposort_add_node key a (z, r0) = Inr (?z, ?r)"
    using Cons.prems(1) by (simp add: a toposort_add_node_Inr)
  obtain r where "py_for (toposort_add_node key) g (?z, ?r) =
      Inr (?z @ map (\<lambda>(n, _). (k n, n)) (filter (\<lambda>(_, es). es = []) g), r)"
    "reverse_inv ((g0 @ [(n, es)]) @ g) r"
    using Cons.IH[OF _ reverse_inv_step[OF Cons.prems(2)], of ?z n es] Cons.prems(1) by auto
  with step show ?case by (auto simp: a)
qed simp

text \<open>The inner loop drops the edges to the listed node and pushes the nodes that have none left.\<close>

lemma toposort_parent_Inr:
  assumes "p \<in> nodes out" and "key p = Inr (k p)"
  shows "toposort_parent key n p (h, out) =
    Inr (if edges_of out p \<subseteq> {n} then heapq_heappush (k p, p) h else h,
         dict_set p (removeAll n (dict_get_default out p [])) out)"
proof -
  from assms(1) obtain es where "dict_get out p = Some es" by (auto simp: nodes_def)
  then show ?thesis
    using assms(2)
    by (auto simp: toposort_parent_def dict_getitem_def edges_of_def dict_get_default_def Let_def
        removeAll_filter_not_eq filter_empty_conv)
qed

lemma toposort_parents:
  assumes "distinct ps" and "set ps \<subseteq> nodes out" and "\<And>p. p \<in> set ps \<Longrightarrow> key p = Inr (k p)"
    and "sorted h"
  shows "\<exists>h' out'. py_for (toposort_parent key n) ps (h, out) = Inr (h', out') \<and> sorted h' \<and>
    mset h' = mset h + mset (map (\<lambda>p. (k p, p)) (filter (\<lambda>p. edges_of out p \<subseteq> {n}) ps)) \<and>
    nodes out' = nodes out \<and>
    (\<forall>p. edges_of out' p = edges_of out p - (if p \<in> set ps then {n} else {}))"
  using assms
proof (induction ps arbitrary: h out)
  case (Cons p ps)
  let ?h = "if edges_of out p \<subseteq> {n} then heapq_heappush (k p, p) h else h"
  let ?out = "dict_set p (removeAll n (dict_get_default out p [])) out"
  have step: "toposort_parent key n p (h, out) = Inr (?h, ?out)"
    using Cons.prems by (intro toposort_parent_Inr) auto
  have nd: "nodes ?out = nodes out" using Cons.prems(2) by (auto simp: nodes_def alist.get_put)
  have ed: "edges_of ?out q = edges_of out q - (if q = p then {n} else {})" for q
    by (auto simp: edges_of_def)
  have "sorted ?h" using Cons.prems(4) by (simp add: heapq.push_inv)
  then obtain h' out' where rest: "py_for (toposort_parent key n) ps (?h, ?out) = Inr (h', out')"
    "sorted h'"
    "mset h' = mset ?h + mset (map (\<lambda>p. (k p, p)) (filter (\<lambda>p. edges_of ?out p \<subseteq> {n}) ps))"
    "nodes out' = nodes ?out"
    "\<forall>q. edges_of out' q = edges_of ?out q - (if q \<in> set ps then {n} else {})"
    using Cons.IH[of ?out ?h] Cons.prems nd by auto
  have same: "filter (\<lambda>p. edges_of ?out p \<subseteq> {n}) ps = filter (\<lambda>p. edges_of out p \<subseteq> {n}) ps"
    using Cons.prems(1) by (intro filter_cong) (auto simp: ed)
  show ?case
  proof (intro exI conjI)
    show "py_for (toposort_parent key n) (p # ps) (h, out) = Inr (h', out')"
      by (simp add: step rest(1))
    show "mset h' = mset h + mset (map (\<lambda>p. (k p, p)) (filter (\<lambda>p. edges_of out p \<subseteq> {n}) (p # ps)))"
      unfolding rest(3) same by (simp add: heapq.push_items)
    show "\<forall>q. edges_of out' q = edges_of out q - (if q \<in> set (p # ps) then {n} else {})"
      using rest(5) ed by auto
  qed (use rest nd in auto)
qed auto

text \<open>The state of the outer loop once the nodes \<open>D\<close> have been listed.\<close>

definition kahn_inv ::
    "('n::linorder) graph \<Rightarrow> ('n \<Rightarrow> 'k::linorder) \<Rightarrow> 'n set \<Rightarrow> ('k \<times> 'n) list \<times> 'n graph \<Rightarrow> bool" where
  "kahn_inv g k D s \<longleftrightarrow> (case s of (h, out) \<Rightarrow>
     sorted h \<and> mset h = image_mset (\<lambda>n. (k n, n)) (mset_set (available (nodes g) (edges_of g) D)) \<and>
     nodes out = nodes g \<and> (\<forall>p \<in> nodes g. edges_of out p = edges_of g p - D) \<and>
     D \<subseteq> nodes g \<and> (\<forall>p \<in> D. edges_of g p \<subseteq> D))"

lemma finite_available [simp]: "finite V \<Longrightarrow> finite (available V E D)"
  by (simp add: available_def)

lemma available_insert:
  assumes "n \<in> available V E D" and "\<forall>p \<in> D. E p \<subseteq> D"
  shows "available V E (insert n D) = (available V E D - {n}) \<union> {p \<in> V. n \<in> E p \<and> E p - D \<subseteq> {n}}"
    and "(available V E D - {n}) \<inter> {p \<in> V. n \<in> E p \<and> E p - D \<subseteq> {n}} = {}"
  using assms by (auto simp: available_def)

lemma toposort_step:
  assumes inv: "kahn_inv g k D (h, out)" and key: "\<And>n. n \<in> nodes g \<Longrightarrow> key n = Inr (k n)"
    and pop: "heapq_heappop h = Some ((k', n), h')"
    and ps: "distinct ps" "set ps = {p \<in> nodes g. n \<in> edges_of g p}"
  shows "n \<in> available (nodes g) (edges_of g) D"
    and "m \<in> available (nodes g) (edges_of g) D \<Longrightarrow> (k n, n) \<le> (k m, m)"
    and "\<exists>s. py_for (toposort_parent key n) ps (h', out) = Inr s \<and> kahn_inv g k (insert n D) s"
proof -
  let ?A = "available (nodes g) (edges_of g)"
  note i = inv[unfolded kahn_inv_def split]
  have heap: "mset h = image_mset (\<lambda>n. (k n, n)) (mset_set (?A D))" using i by simp
  have set_h: "set h = (\<lambda>n. (k n, n)) ` ?A D" using arg_cong[OF heap, of set_mset] by simp
  have "(k', n) \<in> set h" using heapq.pop_in[OF pop] by simp
  with set_h have k': "k' = k n" and n: "n \<in> ?A D" by auto
  show "n \<in> ?A D" by (rule n)
  show "(k n, n) \<le> (k m, m)" if "m \<in> ?A D" for m
    using heapq.pop_least[OF _ pop, of "(k m, m)"] that i set_h k' by auto
  have n_g: "n \<in> nodes g" using n by (simp add: available_def)
  have closed: "\<forall>p \<in> D. edges_of g p \<subseteq> D" using i by simp
  have eo: "edges_of out p = edges_of g p - D" if "p \<in> nodes g" for p using i that by simp
  have fp: "set (filter (\<lambda>p. edges_of out p \<subseteq> {n}) ps) =
      {p \<in> nodes g. n \<in> edges_of g p \<and> edges_of g p - D \<subseteq> {n}}"
    using ps(2) eo by auto
  obtain h2 out2 where r: "py_for (toposort_parent key n) ps (h', out) = Inr (h2, out2)" "sorted h2"
    "mset h2 = mset h' + mset (map (\<lambda>p. (k p, p)) (filter (\<lambda>p. edges_of out p \<subseteq> {n}) ps))"
    "nodes out2 = nodes out"
    "\<forall>p. edges_of out2 p = edges_of out p - (if p \<in> set ps then {n} else {})"
    using toposort_parents[of ps out key k h' n] ps key i heapq.pop_inv[OF _ pop] by auto
  have "mset h2 = image_mset (\<lambda>n. (k n, n)) (mset_set (?A (insert n D)))"
  proof -
    have "mset h' = image_mset (\<lambda>n. (k n, n)) (mset_set (?A D - {n}))"
      using heapq.pop_items[OF pop] heap n by (simp add: k' mset_set.remove[of "?A D" n])
    moreover have "mset (filter (\<lambda>p. edges_of out p \<subseteq> {n}) ps) =
        mset_set {p \<in> nodes g. n \<in> edges_of g p \<and> edges_of g p - D \<subseteq> {n}}"
      using mset_set_set[of "filter (\<lambda>p. edges_of out p \<subseteq> {n}) ps"] ps(1) fp by simp
    ultimately show ?thesis
      unfolding r(3) available_insert(1)[OF n closed]
      by (subst mset_set_Union) (simp_all add: available_insert(2)[OF n closed])
  qed
  moreover have "edges_of out2 p = edges_of g p - insert n D" if "p \<in> nodes g" for p
    using r(5) eo[OF that] ps(2) that by auto
  moreover have "edges_of g n \<subseteq> D" using n by (simp add: available_def)
  ultimately have "kahn_inv g k (insert n D) (h2, out2)"
    unfolding kahn_inv_def split using r i n_g by auto
  with r(1) show "\<exists>s. py_for (toposort_parent key n) ps (h', out) = Inr s \<and> kahn_inv g k (insert n D) s"
    by blast
qed

lemma nodes_edges:
  "p \<in> nodes g \<and> n \<in> edges_of g p \<longleftrightarrow> (\<exists>es. dict_get g p = Some es \<and> n \<in> set es)"
  by (cases "dict_get g p") (simp_all add: nodes_def edges_of_def dict_get_default_def domIff)

lemma reverse_inv_parents:
  assumes "reverse_inv g r" and "wf_dict g" and "n \<in> nodes g"
  obtains ps where "dict_getitem r n = Inr ps" and "distinct ps"
    and "set ps = {p \<in> nodes g. n \<in> edges_of g p}"
proof -
  from assms(1,3) have "n \<in> nodes r"
    by (force simp: reverse_inv_def nodes_def dom_map_of_conv_image_fst)
  then obtain ps where ps: "dict_get r n = Some ps" by (auto simp: nodes_def)
  have "dict_get g p = Some es \<longleftrightarrow> (p, es) \<in> set g" for p es
    using assms(2) by (simp add: wf_dict_def)
  then have "parents_in r n = {p \<in> nodes g. n \<in> edges_of g p}"
    unfolding nodes_edges using assms(1) by (simp add: reverse_inv_def)
  moreover have "parents_in r n = set ps" and "distinct ps"
    using ps assms(1) by (auto simp: parents_in_def dict_get_default_def reverse_inv_def
        distinct_parents_def dest: spec[of _ n])
  ultimately show thesis using ps by (intro that) (auto simp: dict_getitem_def)
qed

lemma toposort_loop_kahn:
  assumes "kahn_inv g k D s" and "\<And>n. n \<in> nodes g \<Longrightarrow> key n = Inr (k n)"
    and "reverse_inv g r" and "wf_dict g" and "card (nodes g - D) \<le> fuel"
  shows "\<exists>xs. toposort_loop fuel key r s = Inr xs \<and> kahn (nodes g) (edges_of g) k D xs"
  using assms(1,5)
proof (induction fuel arbitrary: D s)
  case 0
  obtain h out where s: "s = (h, out)" by force
  from 0(2) have "nodes g - D = {}" by simp
  then have av: "available (nodes g) (edges_of g) D = {}" by (auto simp: available_def)
  with 0(1) s have "heapq_heappop h = None" by (simp add: kahn_inv_def heapq.pop_None)
  with s av show ?case by (auto simp: toposort_loop.simps intro: kahn.stop)
next
  case (Suc fuel)
  obtain h out where s: "s = (h, out)" by force
  show ?case
  proof (cases "heapq_heappop h")
    case None
    with Suc.prems(1) s have "available (nodes g) (edges_of g) D = {}"
      by (simp add: kahn_inv_def heapq.pop_None mset_set_empty_iff)
    with s None show ?thesis by (auto simp: toposort_loop.simps intro: kahn.stop)
  next
    case (Some a)
    then obtain k' n h' where pop: "heapq_heappop h = Some ((k', n), h')" by (cases a) auto
    note inv = Suc.prems(1)[unfolded s]
    have n: "n \<in> available (nodes g) (edges_of g) D"
    proof -
      have "(k', n) \<in># mset h" by (rule heapq.pop_in[OF pop])
      with inv show ?thesis by (auto simp: kahn_inv_def)
    qed
    then have "n \<in> nodes g" and "n \<notin> D" by (auto simp: available_def)
    obtain ps where ps: "dict_getitem r n = Inr ps" "distinct ps"
      "set ps = {p \<in> nodes g. n \<in> edges_of g p}"
      using reverse_inv_parents[OF assms(3,4) \<open>n \<in> nodes g\<close>] .
    note step = toposort_step[OF inv assms(2) pop ps(2,3)]
    from step(3) obtain s' where s': "py_for (toposort_parent key n) ps (h', out) = Inr s'"
      "kahn_inv g k (insert n D) s'" by blast
    have "card (nodes g - insert n D) < card (nodes g - D)"
      using \<open>n \<in> nodes g\<close> \<open>n \<notin> D\<close> by (intro psubset_card_mono) auto
    then have "card (nodes g - insert n D) \<le> fuel" using Suc.prems(2) by simp
    from Suc.IH[OF s'(2) this] obtain xs where xs: "toposort_loop fuel key r s' = Inr xs"
      "kahn (nodes g) (edges_of g) k (insert n D) xs" by blast
    then have "toposort_loop (Suc fuel) key r s = Inr (n # xs)"
      by (simp add: s toposort_loop.simps[of "Suc fuel"] pop ps(1) s'(1))
    moreover have "kahn (nodes g) (edges_of g) k D (n # xs)"
      by (rule kahn.step[OF n step(2) xs(2)])
    ultimately show ?thesis by blast
  qed
qed

text \<open>The sort always returns, and returns the list the specification determines.\<close>

lemma toposort_kahn:
  assumes "wf_dict g" and "\<And>n. n \<in> nodes g \<Longrightarrow> key n = Inr (k n)"
  shows "\<exists>xs. lexicographical_topological_sort g key = Inr xs \<and> kahn (nodes g) (edges_of g) k {} xs"
proof -
  have nodes: "nodes g = fst ` set g" by (simp add: nodes_def dom_map_of_conv_image_fst)
  have "reverse_inv [] []"
    by (simp add: reverse_inv_def parents_in_def dict_get_default_def distinct_parents_def)
  then obtain r where init: "py_for (toposort_add_node key) g ([], []) =
      Inr (map (\<lambda>(n, _). (k n, n)) (filter (\<lambda>(_, es). es = []) g), r)" and r: "reverse_inv g r"
    using toposort_init[of g key k "[]" "[]" "[]"] assms(2) nodes by auto
  let ?z = "map (\<lambda>(n, _). (k n, n)) (filter (\<lambda>(_, es). es = []) g)"
  have get: "dict_get g n = Some es \<longleftrightarrow> (n, es) \<in> set g" for n es
    using assms(1) by (simp add: wf_dict_def)
  have "image_mset fst (mset (filter (\<lambda>(_, es). es = []) g)) =
      mset_set (available (nodes g) (edges_of g) {})"
  proof -
    have "distinct (map fst (filter (\<lambda>(_, es). es = []) g))"
      using assms(1) by (simp add: wf_dict_def distinct_map_filter)
    moreover have "set (map fst (filter (\<lambda>(_, es). es = []) g)) = available (nodes g) (edges_of g) {}"
    proof (intro set_eqI)
      fix n
      have "n \<in> set (map fst (filter (\<lambda>(_, es). es = []) g)) \<longleftrightarrow> dict_get g n = Some []"
        unfolding get by force
      also have "\<dots> \<longleftrightarrow> n \<in> available (nodes g) (edges_of g) {}"
        by (cases "dict_get g n") (simp_all add: available_def nodes_def edges_of_def dict_get_default_def domIff)
      finally show "n \<in> set (map fst (filter (\<lambda>(_, es). es = []) g)) \<longleftrightarrow>
        n \<in> available (nodes g) (edges_of g) {}" .
    qed
    ultimately show ?thesis by (metis mset_map mset_set_set)
  qed
  then have "image_mset (\<lambda>n. (k n, n)) (mset_set (available (nodes g) (edges_of g) {})) = mset ?z"
    by (simp add: case_prod_unfold flip: image_mset.compositionality)
      (metis (no_types, lifting) image_mset.compositionality comp_apply multiset.map_cong)
  then have "kahn_inv g k {} (heapq_heapify ?z, g)"
    by (simp add: kahn_inv_def heapq.heapify_items heapq.heapify_inv)
  from toposort_loop_kahn[OF this assms(2) r assms(1)] card_nodes[of g]
  show ?thesis by (simp add: lexicographical_topological_sort_def init)
qed

end
