(* ===== verification/State_V2.thy ===== *)
theory State_V2
  imports State_Store Toposort
begin

text \<open>
  \<open>synapse/state/v2.py\<close>: the state resolution algorithm of room versions 2 and up. One definition
  per function, in the order of the file except that callees come first.

  A Python set of event IDs is a list without duplicates: the order in which Python iterates over it
  is unspecified, the model fixes one. \<open>await clock.sleep(0)\<close> and logging have no effect on
  the result and are left out, and so is the recheck mark an accepted redaction event gets, which
  nothing here reads. Two loops follow chains of power level events until the chain ends, and a third
  walks the auth events of unpersisted events; they end when the auth events form no cycle, and take
  the number of iterations as a \<open>fuel\<close> argument.
\<close>

type_synonym state_ids = "(state_id, string) dict"

section \<open>Separating the conflicted state\<close>

definition seperate_key ::
    "state_ids list \<Rightarrow> state_id \<Rightarrow> state_ids \<times> (state_id, string list) dict \<Rightarrow>
      state_ids \<times> (state_id, string list) dict" where
  "seperate_key state_sets key acc =
     (case acc of (unconflicted_state, conflicted_state) \<Rightarrow>
        let event_ids = remdups (map (\<lambda>state_set. dict_get state_set key) state_sets)
        in if length event_ids = 1
           then (dict_set key (the (hd event_ids)) unconflicted_state, conflicted_state)
           else (unconflicted_state,
                 dict_set key (map the (filter (\<lambda>i. i \<noteq> None) event_ids)) conflicted_state))"

definition seperate :: "state_ids list \<Rightarrow> state_ids \<times> (state_id, string list) dict" where
  "seperate state_sets =
     fold (seperate_key state_sets) (remdups (concat (map dict_keys state_sets))) ([], [])"

section \<open>The power level of a sender\<close>

definition get_power_level_for_sender ::
    "state_res_store \<Rightarrow> string \<Rightarrow> string \<Rightarrow> event_map \<Rightarrow> (int \<times> event_map) py" where
  "get_power_level_for_sender store rid eid em =
     py_bind (get_event_strict store rid eid em) (\<lambda>(event, em1).
     py_bind (find_auth_event store rid EventTypes_PowerLevels (auth_event_ids event) em1) (\<lambda>(pl, em2).
       case pl of
         None \<Rightarrow>
           py_bind (find_auth_event store rid EventTypes_Create (auth_event_ids event) em2) (\<lambda>(cr, em3).
             case cr of
               None \<Rightarrow> Inr (0, em3)
             | Some (_, aev) \<Rightarrow>
                 Inr (if dict_get (content aev) ROOM_CREATOR = Some (JStr (sender event)) then 100 else 0, em3))
       | Some (_, pl_event) \<Rightarrow>
           py_bind (get_subdict (content pl_event) ''users'') (\<lambda>users.
             let level = or_default (dict_get users (sender event))
                   (dict_get_default (content pl_event) ''users_default'' (JInt 0))
             in if level = JNull then Inr (0, em2)
                else py_bind (py_int level) (\<lambda>l. Inr (l, em2)))))"

section \<open>The auth chain difference\<close>

text \<open>The auth chain of an unpersisted event, as far as it is unpersisted, and one step beyond.\<close>

fun unpersisted_chain ::
    "nat \<Rightarrow> event_map \<Rightarrow> event list \<Rightarrow> string list \<Rightarrow> string list py" where
  "unpersisted_chain fuel unpersisted_events [] chain = Inr chain"
| "unpersisted_chain 0 unpersisted_events (event # to_search) chain = Inl OutOfFuel"
| "unpersisted_chain (Suc fuel) unpersisted_events (event # to_search) chain =
     unpersisted_chain fuel unpersisted_events
       (fold (\<lambda>auth_id st. case dict_get unpersisted_events auth_id of
                None \<Rightarrow> st | Some auth_event \<Rightarrow> auth_event # st) (auth_event_ids event) to_search)
       (fold set_add (auth_event_ids event) chain)"

definition compute_events_to_auth_chain ::
    "nat \<Rightarrow> event_map \<Rightarrow> (string, string list) dict py" where
  "compute_events_to_auth_chain fuel unpersisted_events =
     py_for (\<lambda>(_, event) d.
       py_bind (unpersisted_chain fuel unpersisted_events [event] [event_id event]) (\<lambda>chain.
       Inr (dict_set (event_id event) chain d))) unpersisted_events []"

text \<open>The persisted event IDs that stand for a state set, and the unpersisted ones it reaches.\<close>

definition split_state_set ::
    "event_map \<Rightarrow> (string, string list) dict \<Rightarrow> state_ids \<Rightarrow> string list \<times> string list" where
  "split_state_set unpersisted_events events_to_auth_chain state_set =
     fold (\<lambda>(_, eid) (set_ids, unpersisted_ids).
        case dict_get events_to_auth_chain eid of
          Some event_chain \<Rightarrow>
            (fold set_add (filter (\<lambda>e. \<not> dict_has unpersisted_events e) event_chain) set_ids,
             fold set_add (filter (dict_has unpersisted_events) event_chain) unpersisted_ids)
        | None \<Rightarrow> (set_add eid set_ids, unpersisted_ids)) state_set ([], [])"

text \<open>\<open>union - intersection\<close> of a list of sets; \<open>sets[0]\<close> of an empty list raises.\<close>

definition union_minus_intersection :: "string list list \<Rightarrow> string list py" where
  "union_minus_intersection sets =
     (case sets of
        [] \<Rightarrow> Inl IndexError
      | _ \<Rightarrow> Inr (filter (\<lambda>i. \<not> (\<forall>s \<in> set sets. i \<in> set s)) (remdups (concat sets))))"

definition compute_auth_chain_difference ::
    "nat \<Rightarrow> state_res_store \<Rightarrow> string \<Rightarrow> state_ids list \<Rightarrow> event_map \<Rightarrow> string list py" where
  "compute_auth_chain_difference fuel store rid state_sets unpersisted_events =
     py_bind (compute_events_to_auth_chain fuel unpersisted_events) (\<lambda>events_to_auth_chain.
     if unpersisted_events \<noteq> []
     then
       let parts = map (split_state_set unpersisted_events events_to_auth_chain) state_sets
       in py_bind (union_minus_intersection (map snd parts)) (\<lambda>auth_difference_unpersisted_part.
          Inr (fold set_add auth_difference_unpersisted_part
                 (remdups (get_auth_chain_difference store rid (map fst parts)))))
     else
       Inr (remdups (get_auth_chain_difference store rid
              (map (\<lambda>state_set. remdups (map snd state_set)) state_sets))))"

section \<open>Power events\<close>

definition is_power_event :: "event \<Rightarrow> bool py" where
  "is_power_event event =
     py_bind (state_key event) (\<lambda>skey.
     if (ev_type event, skey) \<in> {(EventTypes_PowerLevels, ''''), (EventTypes_JoinRules, ''''),
                                  (EventTypes_Create, '''')}
     then Inr True
     else if ev_type event = EventTypes_Member
     then py_bind (membership event) (\<lambda>ms.
            Inr (ms \<in> {Membership_LEAVE, Membership_BAN} \<and> sender event \<noteq> skey))
     else Inr False)"

text \<open>The body of the loop over the auth events of \<open>eid\<close>: the graph, and the stack of events still
  to be visited (its top first).\<close>

definition add_auth_edge ::
    "string list \<Rightarrow> string \<Rightarrow> string \<Rightarrow> string graph \<times> string list \<Rightarrow> string graph \<times> string list" where
  "add_auth_edge full_conflicted_set eid aid gs =
     (case gs of (graph, state) \<Rightarrow>
        if aid \<in> set full_conflicted_set
        then (dict_set eid (set_add aid (dict_get_default graph eid [])) graph,
              if \<not> dict_has graph aid then aid # state else state)
        else (graph, state))"

definition visit_auth_events ::
    "string list \<Rightarrow> string \<Rightarrow> string list \<Rightarrow> string graph \<Rightarrow> string list \<Rightarrow> string graph \<times> string list" where
  "visit_auth_events full_conflicted_set eid aids graph state =
     fold (add_auth_edge full_conflicted_set eid) aids (dict_setdefault eid [] graph, state)"

lemma add_auth_edge_graph:
  assumes "dict_has g eid"
  shows "dict_has (dict_set eid es g) x = dict_has g x" and "nodes (dict_set eid es g) = nodes g"
  using assms by (auto simp: dict_has_def nodes_def alist.get_put)

lemma fold_add_auth_edge:
  assumes "dict_has g eid"
  shows "\<exists>g'. fold (add_auth_edge fcs eid) aids (g, st) =
      (g', rev (filter (\<lambda>a. a \<in> set fcs \<and> \<not> dict_has g a) aids) @ st) \<and> nodes g' = nodes g \<and>
      (\<forall>n. edges_of g' n = edges_of g n \<union> (if n = eid then set aids \<inter> set fcs else {}))"
  using assms
proof (induction aids arbitrary: g st)
  case (Cons a aids)
  let ?g = "dict_set eid (set_add a (dict_get_default g eid [])) g"
  note g = add_auth_edge_graph[OF Cons.prems]
  show ?case
  proof (cases "a \<in> set fcs")
    case True
    have "edges_of ?g n = edges_of g n \<union> (if n = eid then {a} else {})" for n
      by (auto simp: edges_of_def)
    moreover obtain g' where "fold (add_auth_edge fcs eid) aids (?g, if \<not> dict_has g a then a # st else st) =
        (g', rev (filter (\<lambda>a. a \<in> set fcs \<and> \<not> dict_has ?g a) aids) @ (if \<not> dict_has g a then a # st else st))"
      "nodes g' = nodes ?g"
      "\<And>n. edges_of g' n = edges_of ?g n \<union> (if n = eid then set aids \<inter> set fcs else {})"
      using Cons.IH[of ?g] Cons.prems g by blast
    moreover have "add_auth_edge fcs eid a (g, st) = (?g, if \<not> dict_has g a then a # st else st)"
      using True by (simp add: add_auth_edge_def)
    ultimately show ?thesis using True g by auto
  next
    case False
    then have "add_auth_edge fcs eid a (g, st) = (g, st)" by (simp add: add_auth_edge_def)
    with False Cons.IH[of g st] Cons.prems show ?thesis by auto
  qed
qed auto

lemma visit_auth_events_eq:
  shows "snd (visit_auth_events fcs eid aids g st) =
      rev (filter (\<lambda>a. a \<in> set fcs \<and> a \<noteq> eid \<and> \<not> dict_has g a) aids) @ st"
    and "nodes (fst (visit_auth_events fcs eid aids g st)) = insert eid (nodes g)"
    and "edges_of (fst (visit_auth_events fcs eid aids g st)) n =
      edges_of g n \<union> (if n = eid then set aids \<inter> set fcs else {})"
proof -
  let ?g = "dict_setdefault eid [] g"
  have "dict_has ?g eid" and has: "dict_has ?g a \<longleftrightarrow> a = eid \<or> dict_has g a" for a
    by (auto simp: dict_has_def dict_get_setdefault split: option.splits)
  then obtain g' where g': "fold (add_auth_edge fcs eid) aids (?g, st) =
      (g', rev (filter (\<lambda>a. a \<in> set fcs \<and> \<not> dict_has ?g a) aids) @ st)" "nodes g' = nodes ?g"
      "\<And>n. edges_of g' n = edges_of ?g n \<union> (if n = eid then set aids \<inter> set fcs else {})"
    using fold_add_auth_edge[of ?g eid fcs aids st] by blast
  show "snd (visit_auth_events fcs eid aids g st) =
      rev (filter (\<lambda>a. a \<in> set fcs \<and> a \<noteq> eid \<and> \<not> dict_has g a) aids) @ st"
    by (simp add: visit_auth_events_def g'(1) has)
  show "nodes (fst (visit_auth_events fcs eid aids g st)) = insert eid (nodes g)"
    by (simp add: visit_auth_events_def g'(1,2) nodes_setdefault)
  show "edges_of (fst (visit_auth_events fcs eid aids g st)) n =
      edges_of g n \<union> (if n = eid then set aids \<inter> set fcs else {})"
    by (simp add: visit_auth_events_def g'(1,3)) (simp add: edges_of_def)
qed

text \<open>The \<open>while state\<close> loop ends: a first visit uses up an event, a repeated visit either puts an
  event that is not in the graph on top of the stack, or only takes one off it.\<close>

definition unvisited :: "string list \<Rightarrow> string graph \<Rightarrow> string list \<Rightarrow> nat" where
  "unvisited fcs g st = card ((set fcs \<union> set st) - nodes g)"

definition top_visited :: "string graph \<Rightarrow> string list \<Rightarrow> nat" where
  "top_visited g st = (case st of [] \<Rightarrow> 0 | i # _ \<Rightarrow> if i \<in> nodes g then 1 else 0)"

lemma has_nodes: "dict_has g i \<longleftrightarrow> i \<in> nodes g"
  by (auto simp: dict_has_def nodes_def)

lemma visit_decreases:
  fixes fcs aids g st eid
  defines "g' \<equiv> fst (visit_auth_events fcs eid aids g st)"
    and "st' \<equiv> snd (visit_auth_events fcs eid aids g st)"
  shows "unvisited fcs g' st' < unvisited fcs g (eid # st) \<or>
    unvisited fcs g' st' = unvisited fcs g (eid # st) \<and>
      (top_visited g' st' < top_visited g (eid # st) \<or>
       top_visited g' st' = top_visited g (eid # st) \<and> length st' < length (eid # st))"
proof -
  let ?new = "rev (filter (\<lambda>a. a \<in> set fcs \<and> a \<noteq> eid \<and> \<not> dict_has g a) aids)"
  have st': "st' = ?new @ st" and nd: "nodes g' = insert eid (nodes g)"
    by (simp_all add: st'_def g'_def visit_auth_events_eq)
  have sub: "(set fcs \<union> set st') - nodes g' = ((set fcs \<union> set (eid # st)) - nodes g) - {eid}"
    by (auto simp: st' nd)
  show ?thesis
  proof (cases "eid \<in> nodes g")
    case False
    then have "unvisited fcs g' st' < unvisited fcs g (eid # st)"
      unfolding unvisited_def sub by (intro psubset_card_mono) auto
    then show ?thesis by simp
  next
    case True
    then have u: "unvisited fcs g' st' = unvisited fcs g (eid # st)"
      unfolding unvisited_def sub by (intro arg_cong[where f = card]) auto
    show ?thesis
    proof (cases ?new)
      case Nil
      with True show ?thesis using u st' nd by (auto simp: top_visited_def split: list.splits)
    next
      case (Cons a as)
      then have "a \<in> set ?new" by simp
      with True nd have "a \<notin> nodes g'" by (auto simp: has_nodes)
      with True Cons show ?thesis using u st' by (simp add: top_visited_def)
    qed
  qed
qed

function add_event_and_auth_chain_to_graph ::
    "state_res_store \<Rightarrow> string \<Rightarrow> string list \<Rightarrow> string list \<Rightarrow> string graph \<Rightarrow> event_map \<Rightarrow>
      (string graph \<times> event_map) py" where
  "add_event_and_auth_chain_to_graph store rid full_conflicted_set [] graph em = Inr (graph, em)"
| "add_event_and_auth_chain_to_graph store rid full_conflicted_set (eid # state) graph em =
     py_bind (get_event_strict store rid eid em) (\<lambda>(event, em').
       add_event_and_auth_chain_to_graph store rid full_conflicted_set
         (snd (visit_auth_events full_conflicted_set eid (auth_event_ids event) graph state))
         (fst (visit_auth_events full_conflicted_set eid (auth_event_ids event) graph state)) em')"
  by pat_completeness auto
termination
proof (relation "measures [\<lambda>(store, rid, fcs, st, g, em). unvisited fcs g st,
    \<lambda>(store, rid, fcs, st, g, em). top_visited g st, \<lambda>(store, rid, fcs, st, g, em). length st]")
qed (use visit_decreases in auto)

section \<open>Sorting the power events\<close>

text \<open>\<open>_get_power_order\<close>: higher power first, then older, then by ID.\<close>

definition get_power_order ::
    "event_map \<Rightarrow> (string, int) dict \<Rightarrow> string \<Rightarrow> (int \<times> int \<times> string) py" where
  "get_power_order em event_to_pl eid =
     py_bind (dict_getitem em eid) (\<lambda>ev.
     py_bind (dict_getitem event_to_pl eid) (\<lambda>pl.
     Inr (- pl, origin_server_ts ev, eid)))"

text \<open>\<open>event_ids\<close> is a generator in the source: the members of a list that satisfy a condition, which
  is evaluated as the loop gets to them.\<close>

definition reverse_topological_power_sort ::
    "state_res_store \<Rightarrow> string \<Rightarrow> string list \<Rightarrow> (event_map \<Rightarrow> string \<Rightarrow> bool py) \<Rightarrow> string list \<Rightarrow>
      event_map \<Rightarrow> (string list \<times> event_map) py" where
  "reverse_topological_power_sort store rid candidates condition full_conflicted_set em =
     py_bind (py_for (\<lambda>eid (graph, em').
         py_bind (condition em' eid) (\<lambda>chosen.
           if chosen then add_event_and_auth_chain_to_graph store rid full_conflicted_set [eid] graph em'
           else Inr (graph, em')))
       candidates ([], em)) (\<lambda>(graph, em1).
     py_bind (py_for (\<lambda>eid (event_to_pl, em').
         py_bind (get_power_level_for_sender store rid eid em') (\<lambda>(pl, em'').
           Inr (dict_set eid pl event_to_pl, em'')))
       (dict_keys graph) ([], em1)) (\<lambda>(event_to_pl, em2).
     py_bind (lexicographical_topological_sort graph (get_power_order em2 event_to_pl)) (\<lambda>sorted_events.
     Inr (sorted_events, em2))))"

section \<open>Checking the events one after the other\<close>

text \<open>The state an event is checked against: its own auth events, overridden by the entries of the
  state resolved so far.\<close>

definition own_auth_events ::
    "state_res_store \<Rightarrow> string \<Rightarrow> event \<Rightarrow> event_map \<Rightarrow> ((state_id, event) dict \<times> event_map) py" where
  "own_auth_events store rid event em =
     py_for (\<lambda>aid (auth_events, em').
       py_bind (get_event store rid aid True em') (\<lambda>(ev, em'').
         case ev of
           None \<Rightarrow> Inr (auth_events, em'')
         | Some e \<Rightarrow>
             if rejected_reason e = None
             then py_bind (state_key e) (\<lambda>skey. Inr (dict_set (ev_type e, skey) e auth_events, em''))
             else Inr (auth_events, em'')))
       (auth_event_ids event) ([], em)"

definition resolved_auth_events ::
    "state_res_store \<Rightarrow> string \<Rightarrow> (string \<times> json) list \<Rightarrow> state_ids \<Rightarrow> (state_id, event) dict \<Rightarrow>
      event_map \<Rightarrow> ((state_id, event) dict \<times> event_map) py" where
  "resolved_auth_events store rid auth_types resolved_state auth_events0 em =
     py_for (\<lambda>key (auth_events, em').
       case key of
         (ty, JStr skey) \<Rightarrow>
           (case dict_get resolved_state (ty, skey) of
              None \<Rightarrow> Inr (auth_events, em')
            | Some ev_id \<Rightarrow>
                py_bind (get_event_strict store rid ev_id em') (\<lambda>(ev, em'').
                  if rejected_reason ev = None
                  then py_bind (dict_getitem em'' ev_id) (\<lambda>e.
                         Inr (dict_set (ty, skey) e auth_events, em''))
                  else Inr (auth_events, em'')))
       | _ \<Rightarrow> Inr (auth_events, em'))
       (remdups auth_types) (auth_events0, em)"

definition auth_check_event ::
    "externals \<Rightarrow> state_res_store \<Rightarrow> string \<Rightarrow> room_version \<Rightarrow> string \<Rightarrow> state_ids \<times> event_map \<Rightarrow>
      (state_ids \<times> event_map) py" where
  "auth_check_event ext store rid room_version eid acc =
     (case acc of (resolved_state, em) \<Rightarrow>
       py_bind (dict_getitem em eid) (\<lambda>event.
       py_bind (own_auth_events store rid event em) (\<lambda>(auth_events, em1).
       py_bind (auth_types_for_event room_version event) (\<lambda>auth_types.
       py_bind (resolved_auth_events store rid auth_types resolved_state auth_events em1)
         (\<lambda>(auth_events', em2).
       if rejected_reason event \<noteq> None then Inr (resolved_state, em2)
       else
         (case py_bind (check_state_dependent_auth_rules ext event (map snd auth_events')) (\<lambda>_.
               state_key event) of
            Inr skey \<Rightarrow> Inr (dict_set (ev_type event, skey) eid resolved_state, em2)
          | Inl err \<Rightarrow> if is_AuthError err then Inr (resolved_state, em2) else Inl err))))))"

definition iterative_auth_checks ::
    "externals \<Rightarrow> state_res_store \<Rightarrow> string \<Rightarrow> room_version \<Rightarrow> string list \<Rightarrow> state_ids \<Rightarrow> event_map \<Rightarrow>
      (state_ids \<times> event_map) py" where
  "iterative_auth_checks ext store rid room_version event_ids base_state em =
     py_for (auth_check_event ext store rid room_version) event_ids (base_state, em)"

section \<open>The mainline\<close>

fun mainline_loop ::
    "nat \<Rightarrow> state_res_store \<Rightarrow> string \<Rightarrow> string option \<Rightarrow> event_map \<Rightarrow> (string list \<times> event_map) py" where
  "mainline_loop fuel store rid pl em =
     (case pl of
        None \<Rightarrow> Inr ([], em)
      | Some pl_id \<Rightarrow>
          if pl_id = '''' then Inr ([], em)
          else (case fuel of
            0 \<Rightarrow> Inl OutOfFuel
          | Suc fuel' \<Rightarrow>
              py_bind (get_event_strict store rid pl_id em) (\<lambda>(pl_ev, em1).
              py_bind (find_auth_event store rid EventTypes_PowerLevels (auth_event_ids pl_ev) em1)
                (\<lambda>(next_pl, em2).
              py_bind (mainline_loop fuel' store rid (map_option fst next_pl) em2) (\<lambda>(rest, em3).
              Inr (pl_id # rest, em3))))))"

declare mainline_loop.simps [simp del]

fun mainline_depth_loop ::
    "nat \<Rightarrow> state_res_store \<Rightarrow> string \<Rightarrow> (string, int) dict \<Rightarrow> event \<Rightarrow> event_map \<Rightarrow>
      (int \<times> event_map) py" where
  "mainline_depth_loop fuel store rid mainline_map tmp_event em =
     (case dict_get mainline_map (event_id tmp_event) of
        Some d \<Rightarrow> Inr (d, em)
      | None \<Rightarrow>
          (case fuel of
             0 \<Rightarrow> Inl OutOfFuel
           | Suc fuel' \<Rightarrow>
               py_bind (find_auth_event store rid EventTypes_PowerLevels (auth_event_ids tmp_event) em)
                 (\<lambda>(aev, em').
               case aev of
                 None \<Rightarrow> Inr (0, em')
               | Some (_, pl_ev) \<Rightarrow> mainline_depth_loop fuel' store rid mainline_map pl_ev em')))"

declare mainline_depth_loop.simps [simp del]

definition get_mainline_depth_for_event ::
    "nat \<Rightarrow> state_res_store \<Rightarrow> event \<Rightarrow> (string, int) dict \<Rightarrow> event_map \<Rightarrow> (int \<times> event_map) py" where
  "get_mainline_depth_for_event fuel store event mainline_map em =
     py_bind (room_id event) (\<lambda>rid. mainline_depth_loop fuel store rid mainline_map event em)"

text \<open>\<open>{ev_id: i + 1 for i, ev_id in enumerate(reversed(mainline))}\<close>\<close>

definition mainline_map_of :: "string list \<Rightarrow> (string, int) dict" where
  "mainline_map_of mainline =
     fold (\<lambda>(i, ev_id). dict_set ev_id (int i + 1)) (enumerate 0 (rev mainline)) []"

definition mainline_sort ::
    "nat \<Rightarrow> state_res_store \<Rightarrow> string \<Rightarrow> string list \<Rightarrow> string option \<Rightarrow> event_map \<Rightarrow>
      (string list \<times> event_map) py" where
  "mainline_sort fuel store rid event_ids resolved_power_event_id em =
     (if event_ids = [] then Inr ([], em)
      else
        py_bind (mainline_loop fuel store rid resolved_power_event_id em) (\<lambda>(mainline, em1).
        let mainline_map = mainline_map_of mainline
        in py_bind (py_for (\<lambda>ev_id (order_map, em').
               py_bind (dict_getitem em' ev_id) (\<lambda>event.
               py_bind (get_mainline_depth_for_event fuel store event mainline_map em') (\<lambda>(d, em'').
               py_bind (dict_getitem em'' ev_id) (\<lambda>event'.
               Inr (dict_set ev_id (d, origin_server_ts event', ev_id) order_map, em'')))))
             event_ids ([], em1)) (\<lambda>(order_map, em2).
           Inr (sort_key (\<lambda>ev_id. the (dict_get order_map ev_id)) event_ids, em2))))"

section \<open>The algorithm\<close>

definition check_rooms :: "string \<Rightarrow> event_map \<Rightarrow> unit py" where
  "check_rooms rid em =
     py_for (\<lambda>(_, event) _. py_bind (room_id event) (\<lambda>r. require (r = rid) PyException)) em ()"

definition resolve_events_with_store ::
    "nat \<Rightarrow> externals \<Rightarrow> state_res_store \<Rightarrow> string \<Rightarrow> room_version \<Rightarrow> state_ids list \<Rightarrow>
      event_map option \<Rightarrow> state_ids py" where
  "resolve_events_with_store fuel ext store rid room_version state_sets event_map0 =
     (let em0 = (case event_map0 of None \<Rightarrow> [] | Some em \<Rightarrow> em);
          (unconflicted_state, conflicted_state) = seperate state_sets
      in if conflicted_state = [] then Inr unconflicted_state
         else
         py_bind (compute_auth_chain_difference fuel store rid state_sets em0) (\<lambda>auth_diff.
         let full_conflicted_set0 = remdups (concat (map snd conflicted_state) @ auth_diff);
             em1 = dict_update em0 (get_events store (filter (\<lambda>i. \<not> dict_has em0 i) full_conflicted_set0))
         in py_bind (check_rooms rid em1) (\<lambda>_.
         let full_conflicted_set = filter (dict_has em1) full_conflicted_set0
         in py_bind (reverse_topological_power_sort store rid full_conflicted_set
              (\<lambda>em eid. py_bind (dict_getitem em eid) is_power_event) full_conflicted_set em1)
              (\<lambda>(sorted_power_events, em2).
         py_bind (iterative_auth_checks ext store rid room_version sorted_power_events unconflicted_state em2)
           (\<lambda>(resolved_state, em3).
         let leftover_events = filter (\<lambda>i. i \<notin> set sorted_power_events) full_conflicted_set;
             pl = dict_get resolved_state (EventTypes_PowerLevels, '''')
         in py_bind (mainline_sort fuel store rid leftover_events pl em3) (\<lambda>(leftover_sorted, em4).
         py_bind (iterative_auth_checks ext store rid room_version leftover_sorted resolved_state em4)
           (\<lambda>(resolved_state', em5).
         Inr (dict_update resolved_state' unconflicted_state))))))))"

end
