(* ===== verification/State_V2_Props.thy ===== *)
theory State_V2_Props
  imports State_V2
begin

text \<open>
  What the state resolution of \<open>State_V2\<close> guarantees: the separation is a partition of the keys;
  the power events come out in the one order that Kahn's algorithm determines, whatever the order in
  which Python iterates over its sets; the mainline loops end when the auth events form no cycle; the
  mainline order is a sort by an injective key; and the resolved state keeps every unconflicted entry
  and takes every other entry from an event that passed the auth checks.
\<close>

section \<open>Separation\<close>

text \<open>Whether all state sets have the same entry at a key.\<close>

definition unanimous :: "state_ids list \<Rightarrow> state_id \<Rightarrow> string \<Rightarrow> bool" where
  "unanimous state_sets k i \<longleftrightarrow> state_sets \<noteq> [] \<and> (\<forall>s \<in> set state_sets. dict_get s k = Some i)"

definition candidates :: "state_ids list \<Rightarrow> state_id \<Rightarrow> string set" where
  "candidates state_sets k = {i. \<exists>s \<in> set state_sets. dict_get s k = Some i}"

lemma remdups_singleton: "remdups xs = [y] \<longleftrightarrow> xs \<noteq> [] \<and> (\<forall>x \<in> set xs. x = y)"
proof
  assume "remdups xs = [y]"
  then have "set xs = {y}" by (metis empty_set list.simps(15) set_remdups)
  then show "xs \<noteq> [] \<and> (\<forall>x \<in> set xs. x = y)" by auto
next
  assume a: "xs \<noteq> [] \<and> (\<forall>x \<in> set xs. x = y)"
  then have "set xs = {y}" by (auto simp: neq_Nil_conv)
  then have "length (remdups xs) = 1" and "set (remdups xs) = {y}"
    by (simp_all add: length_remdups_card_conv)
  then show "remdups xs = [y]" by (auto simp: length_Suc_conv simp del: set_remdups)
qed

definition conflicting :: "state_ids list \<Rightarrow> state_id \<Rightarrow> string list" where
  "conflicting ss k = map the (filter (\<lambda>i. i \<noteq> None) (remdups (map (\<lambda>s. dict_get s k) ss)))"

lemma set_conflicting: "set (conflicting ss k) = candidates ss k"
  by (force simp: conflicting_def candidates_def)

lemma distinct_conflicting: "distinct (conflicting ss k)"
  unfolding conflicting_def by (auto simp: distinct_map inj_on_def)

lemma seperate_key_unanimous:
  assumes "unanimous ss k i"
  shows "seperate_key ss k (u, c) = (dict_set k i u, c)"
proof -
  have "remdups (map (\<lambda>s. dict_get s k) ss) = [Some i]"
    using assms by (auto simp: remdups_singleton unanimous_def)
  then show ?thesis by (simp add: seperate_key_def)
qed

lemma seperate_key_conflict:
  assumes "candidates ss k \<noteq> {}" and "\<And>i. \<not> unanimous ss k i"
  shows "seperate_key ss k (u, c) = (u, dict_set k (conflicting ss k) c)"
proof -
  let ?ids = "remdups (map (\<lambda>s. dict_get s k) ss)"
  have "length ?ids \<noteq> 1"
  proof
    assume "length ?ids = 1"
    then obtain y where "?ids = [y]" by (auto simp: length_Suc_conv)
    then have ne: "ss \<noteq> []" and all: "\<forall>s \<in> set ss. dict_get s k = y" by (auto simp: remdups_singleton)
    from assms(1) all obtain i where "y = Some i" by (auto simp: candidates_def)
    with ne all assms(2) show False by (auto simp: unanimous_def)
  qed
  then show ?thesis by (simp add: seperate_key_def conflicting_def)
qed

lemma fold_seperate_key:
  assumes "\<forall>k \<in> set ks. candidates ss k \<noteq> {}"
    and "fold (seperate_key ss) ks (u, c) = (u', c')"
  shows "dict_get u' k = Some i \<longleftrightarrow>
      (if k \<in> set ks \<and> (\<exists>j. unanimous ss k j) then unanimous ss k i else dict_get u k = Some i)"
    and "dict_get c' k = (if k \<in> set ks \<and> (\<nexists>j. unanimous ss k j) then Some (conflicting ss k) else dict_get c k)"
    and "wf_dict u \<Longrightarrow> wf_dict u'" and "wf_dict c \<Longrightarrow> wf_dict c'"
proof -
  have "(dict_get u' k = Some i \<longleftrightarrow>
      (if k \<in> set ks \<and> (\<exists>j. unanimous ss k j) then unanimous ss k i else dict_get u k = Some i)) \<and>
    dict_get c' k = (if k \<in> set ks \<and> (\<nexists>j. unanimous ss k j) then Some (conflicting ss k) else dict_get c k) \<and>
    (wf_dict u \<longrightarrow> wf_dict u') \<and> (wf_dict c \<longrightarrow> wf_dict c')"
    using assms
  proof (induction ks arbitrary: u c)
    case (Cons x ks)
    show ?case
    proof (cases "\<exists>j. unanimous ss x j")
      case True
      then obtain j where j: "unanimous ss x j" ..
      have uniq: "unanimous ss x i \<longleftrightarrow> i = j" for i
        using j by (auto simp: unanimous_def neq_Nil_conv)
      have "fold (seperate_key ss) ks (dict_set x j u, c) = (u', c')"
        using Cons.prems(2) j by (simp add: seperate_key_unanimous)
      from Cons.IH[OF _ this] Cons.prems(1) uniq show ?thesis
        by (auto simp: alist.get_put alist.wf_put)
    next
      case False
      have "fold (seperate_key ss) ks (u, dict_set x (conflicting ss x) c) = (u', c')"
        using Cons.prems False by (simp add: seperate_key_conflict)
      from Cons.IH[OF _ this] Cons.prems(1) False show ?thesis
        by (auto simp: alist.get_put alist.wf_put)
    qed
  qed simp
  then show "dict_get u' k = Some i \<longleftrightarrow>
      (if k \<in> set ks \<and> (\<exists>j. unanimous ss k j) then unanimous ss k i else dict_get u k = Some i)"
    and "dict_get c' k = (if k \<in> set ks \<and> (\<nexists>j. unanimous ss k j) then Some (conflicting ss k) else dict_get c k)"
    and "wf_dict u \<Longrightarrow> wf_dict u'" and "wf_dict c \<Longrightarrow> wf_dict c'" by auto
qed

lemma unanimous_candidates: "unanimous ss k i \<Longrightarrow> candidates ss k \<noteq> {}"
  by (auto simp: unanimous_def candidates_def neq_Nil_conv)

lemma seperate_spec:
  assumes "seperate ss = (u, c)"
  shows "dict_get u k = Some i \<longleftrightarrow> unanimous ss k i"
    and "dict_get c k = Some is \<longleftrightarrow>
      candidates ss k \<noteq> {} \<and> (\<nexists>j. unanimous ss k j) \<and> is = conflicting ss k"
    and "wf_dict u" and "wf_dict c"
proof -
  let ?ks = "remdups (concat (map dict_keys ss))"
  have mem: "k \<in> set ?ks \<longleftrightarrow> candidates ss k \<noteq> {}" for k
    by (force simp: candidates_def dom_map_of_conv_image_fst[symmetric] domIff)
  then have "\<forall>k \<in> set ?ks. candidates ss k \<noteq> {}" by blast
  note f = fold_seperate_key[OF this assms[unfolded seperate_def]]
  show "dict_get u k = Some i \<longleftrightarrow> unanimous ss k i"
    using f(1)[of k i] mem[of k] unanimous_candidates[of ss k i] by auto
  show "dict_get c k = Some is \<longleftrightarrow>
      candidates ss k \<noteq> {} \<and> (\<nexists>j. unanimous ss k j) \<and> is = conflicting ss k"
    using f(2)[of k] mem[of k] by auto
  show "wf_dict u" and "wf_dict c" using f(3,4) by (auto simp: wf_dict_def)
qed

section \<open>The functions on what is known\<close>

text \<open>The same functions without the cache, on a function \<open>ev\<close> from IDs to known events. Each function
  of the code implements its counterpart, so its result depends only on what cache and store know
  together.\<close>

definition strict_spec :: "(string \<rightharpoonup> event) \<Rightarrow> string \<Rightarrow> string \<Rightarrow> event py" where
  "strict_spec ev rid i = (case ev i of None \<Rightarrow> Inl PyException
     | Some e \<Rightarrow> py_bind (room_id e) (\<lambda>r. if r \<noteq> rid then Inl PyException else Inr e))"

definition power_level_of :: "event \<Rightarrow> string \<Rightarrow> int py" where
  "power_level_of pl_event u = py_bind (get_subdict (content pl_event) ''users'') (\<lambda>users.
     let level = or_default (dict_get users u) (dict_get_default (content pl_event) ''users_default'' (JInt 0))
     in if level = JNull then Inr 0 else py_int level)"

definition sender_level_spec :: "(string \<rightharpoonup> event) \<Rightarrow> string \<Rightarrow> string \<Rightarrow> int py" where
  "sender_level_spec ev rid i = py_bind (strict_spec ev rid i) (\<lambda>e.
     py_bind (find_auth_spec ev rid EventTypes_PowerLevels (auth_event_ids e)) (\<lambda>pl.
       case pl of Some (_, p) \<Rightarrow> power_level_of p (sender e)
       | None \<Rightarrow> py_bind (find_auth_spec ev rid EventTypes_Create (auth_event_ids e)) (\<lambda>cr.
           Inr (case cr of None \<Rightarrow> 0
             | Some (_, c) \<Rightarrow> if dict_get (content c) ROOM_CREATOR = Some (JStr (sender e)) then 100 else 0))))"

definition own_auth_spec :: "(string \<rightharpoonup> event) \<Rightarrow> string \<Rightarrow> event \<Rightarrow> (state_id, event) dict py" where
  "own_auth_spec ev rid event = py_for (\<lambda>aid d.
     py_bind (get_event_spec ev rid aid) (\<lambda>r. case r of None \<Rightarrow> Inr d
       | Some e \<Rightarrow> if rejected_reason e = None
           then py_bind (state_key e) (\<lambda>skey. Inr (dict_set (ev_type e, skey) e d)) else Inr d))
     (auth_event_ids event) []"

definition resolved_auth_spec ::
    "(string \<rightharpoonup> event) \<Rightarrow> string \<Rightarrow> (string \<times> json) list \<Rightarrow> state_ids \<Rightarrow> (state_id, event) dict \<Rightarrow>
      (state_id, event) dict py" where
  "resolved_auth_spec ev rid types rs d0 = py_for (\<lambda>key d.
     case key of (ty, JStr skey) \<Rightarrow>
         (case dict_get rs (ty, skey) of None \<Rightarrow> Inr d
          | Some i \<Rightarrow> py_bind (strict_spec ev rid i) (\<lambda>e.
              Inr (if rejected_reason e = None then dict_set (ty, skey) e d else d)))
     | _ \<Rightarrow> Inr d) (remdups types) d0"

text \<open>The state an event is checked against.\<close>

definition checked_state ::
    "(string \<rightharpoonup> event) \<Rightarrow> string \<Rightarrow> room_version \<Rightarrow> event \<Rightarrow> state_ids \<Rightarrow> (state_id, event) dict py" where
  "checked_state ev rid rv event rs = py_bind (own_auth_spec ev rid event) (\<lambda>own.
     py_bind (auth_types_for_event rv event) (\<lambda>types. resolved_auth_spec ev rid types rs own))"

definition auth_check_spec ::
    "externals \<Rightarrow> (string \<rightharpoonup> event) \<Rightarrow> string \<Rightarrow> room_version \<Rightarrow> string \<Rightarrow> state_ids \<Rightarrow> state_ids py" where
  "auth_check_spec ext ev rid rv i rs = (case ev i of None \<Rightarrow> Inl KeyError
     | Some event \<Rightarrow> py_bind (checked_state ev rid rv event rs) (\<lambda>auth.
         if rejected_reason event \<noteq> None then Inr rs
         else (case py_bind (check_state_dependent_auth_rules ext event (map snd auth)) (\<lambda>_. state_key event) of
             Inr skey \<Rightarrow> Inr (dict_set (ev_type event, skey) i rs)
           | Inl err \<Rightarrow> if is_AuthError err then Inr rs else Inl err)))"

definition iterative_spec ::
    "externals \<Rightarrow> (string \<rightharpoonup> event) \<Rightarrow> string \<Rightarrow> room_version \<Rightarrow> string list \<Rightarrow> state_ids \<Rightarrow> state_ids py" where
  "iterative_spec ext ev rid rv is rs = py_for (auth_check_spec ext ev rid rv) is rs"

context event_store
begin

lemma get_event_strict_implements:
  "implements store em (get_event_strict store rid i em) (strict_spec (lookup store em) rid i)"
proof -
  have eq: "strict_spec (lookup store em) rid i =
      py_bind (py_bind (get_event_spec (lookup store em) rid i)
        (\<lambda>r. case r of None \<Rightarrow> Inl PyException | Some e \<Rightarrow> Inr (Some e))) (\<lambda>r. Inr (the r))"
    by (auto simp: strict_spec_def get_event_spec_def room_id_def split: option.splits)
  show ?thesis
    unfolding eq get_event_strict_def by (rule implements_bind[OF get_event_implements(2)]) simp
qed

lemma get_event_strict_Inr:
  assumes "get_event_strict store rid i em = Inr (e, em')"
  shows "lookup store em i = Some e" and "ev_room_id e = Some rid" and "dict_get em' i = Some e"
    and "extends store em em'"
proof -
  from get_event_strict_implements[of em rid i] assms
  have s: "strict_spec (lookup store em) rid i = Inr e" and x: "extends store em em'"
    by (auto simp: implements_def split: sum.splits)
  from s show "lookup store em i = Some e" and "ev_room_id e = Some rid"
    by (auto simp: strict_spec_def py_bind_Inr_iff split: option.splits if_splits)
  from x show "extends store em em'" .
  from assms show "dict_get em' i = Some e"
    by (auto simp: get_event_strict_def get_event_def py_bind_Inr_iff Let_def split: option.splits if_splits)
qed

lemma own_auth_implements:
  "implements store em (own_auth_events store rid event em) (own_auth_spec (lookup store em) rid event)"
  unfolding own_auth_events_def own_auth_spec_def
proof (rule implements_for, unfold split)
  fix aid d em' assume e: "extends store em em'"
  show "implements store em'
     (py_bind (get_event store rid aid True em') (\<lambda>(ev, em'').
         case ev of None \<Rightarrow> Inr (d, em'')
         | Some e \<Rightarrow> if rejected_reason e = None
             then py_bind (state_key e) (\<lambda>skey. Inr (dict_set (ev_type e, skey) e d, em''))
             else Inr (d, em'')))
     (py_bind (get_event_spec (lookup store em) rid aid) (\<lambda>r. case r of None \<Rightarrow> Inr d
       | Some e \<Rightarrow> if rejected_reason e = None
           then py_bind (state_key e) (\<lambda>skey. Inr (dict_set (ev_type e, skey) e d)) else Inr d))"
    using get_event_implements(1)[of em', unfolded extends_lookup[OF e]]
    by (rule implements_bind) (auto split: option.splits intro!: implements_lift)
qed

lemma resolved_auth_implements:
  "implements store em (resolved_auth_events store rid types rs d0 em)
     (resolved_auth_spec (lookup store em) rid types rs d0)"
  unfolding resolved_auth_events_def resolved_auth_spec_def
proof (rule implements_for)
  fix key :: "string \<times> json" and d :: "(state_id, event) dict" and em' assume e: "extends store em em'"
  obtain ty k where key: "key = (ty, k)" by force
  have str: "implements store em'
      (py_bind (get_event_strict store rid i em') (\<lambda>(ev, em'').
        if rejected_reason ev = None
        then py_bind (dict_getitem em'' i) (\<lambda>e. Inr (dict_set (ty, s) e d, em'')) else Inr (d, em'')))
      (py_bind (strict_spec (lookup store em) rid i) (\<lambda>e.
        Inr (if rejected_reason e = None then dict_set (ty, s) e d else d)))" for i s
  proof (cases "strict_spec (lookup store em) rid i")
    case (Inl err)
    with get_event_strict_implements[of em' rid i, unfolded extends_lookup[OF e]] show ?thesis by simp
  next
    case (Inr x)
    with get_event_strict_implements[of em' rid i, unfolded extends_lookup[OF e]]
    obtain em2 where g: "get_event_strict store rid i em' = Inr (x, em2)" by (auto simp: implements_def)
    from get_event_strict_Inr[OF g] show ?thesis
      by (simp add: g Inr dict_getitem_def)
  qed
  show "implements store em'
     (case (d, em') of (auth_events, em') \<Rightarrow> case key of (ty, JStr skey) \<Rightarrow>
           (case dict_get rs (ty, skey) of None \<Rightarrow> Inr (auth_events, em')
            | Some ev_id \<Rightarrow> py_bind (get_event_strict store rid ev_id em') (\<lambda>(ev, em'').
                  if rejected_reason ev = None
                  then py_bind (dict_getitem em'' ev_id) (\<lambda>e. Inr (dict_set (ty, skey) e auth_events, em''))
                  else Inr (auth_events, em'')))
       | _ \<Rightarrow> Inr (auth_events, em'))
     (case key of (ty, JStr skey) \<Rightarrow>
         (case dict_get rs (ty, skey) of None \<Rightarrow> Inr d
          | Some i \<Rightarrow> py_bind (strict_spec (lookup store em) rid i) (\<lambda>e.
              Inr (if rejected_reason e = None then dict_set (ty, skey) e d else d)))
     | _ \<Rightarrow> Inr d)"
    using str by (cases k) (auto simp: key split: option.splits)
qed

end

context event_store
begin

lemma auth_check_implements:
  assumes "dict_has em i"
  shows "implements store em (auth_check_event ext store rid rv i (rs, em))
    (auth_check_spec ext (lookup store em) rid rv i rs)"
proof -
  from assms obtain event where em: "dict_get em i = Some event" by (auto simp: dict_has_def)
  show ?thesis
    unfolding auth_check_event_def auth_check_spec_def checked_state_def lookup_get[OF em] split
      dict_getitem_def em option.case py_bind.simps py_bind_assoc
  proof (rule implements_bind[OF own_auth_implements], unfold split, rule implements_lift)
    fix own em1 types assume e: "extends store em em1"
    show "implements store em1
       (py_bind (resolved_auth_events store rid types rs own em1) (\<lambda>(auth_events', em2).
          if rejected_reason event \<noteq> None then Inr (rs, em2)
          else case py_bind (check_state_dependent_auth_rules ext event (map snd auth_events')) (\<lambda>_. state_key event) of
                 Inl err \<Rightarrow> if is_AuthError err then Inr (rs, em2) else Inl err
               | Inr skey \<Rightarrow> Inr (dict_set (ev_type event, skey) i rs, em2)))
       (py_bind (resolved_auth_spec (lookup store em) rid types rs own) (\<lambda>auth.
          if rejected_reason event \<noteq> None then Inr rs
          else case py_bind (check_state_dependent_auth_rules ext event (map snd auth)) (\<lambda>_. state_key event) of
                 Inl err \<Rightarrow> if is_AuthError err then Inr rs else Inl err
               | Inr skey \<Rightarrow> Inr (dict_set (ev_type event, skey) i rs)))"
      using resolved_auth_implements[of em1, unfolded extends_lookup[OF e]]
      by (rule implements_bind) (auto split: sum.splits)
  qed
qed

lemma iterative_implements:
  assumes "\<And>i. i \<in> set is \<Longrightarrow> dict_has em i"
  shows "implements store em (iterative_auth_checks ext store rid rv is rs em)
    (iterative_spec ext (lookup store em) rid rv is rs)"
  unfolding iterative_auth_checks_def iterative_spec_def
proof (rule implements_for)
  fix i rs' em' assume i: "i \<in> set is" and e: "extends store em em'"
  have "dict_has em' i" using assms[OF i] e by (auto simp: dict_has_def dest: extends_get)
  from auth_check_implements[OF this, unfolded extends_lookup[OF e]]
  show "implements store em' (auth_check_event ext store rid rv i (rs', em'))
      (auth_check_spec ext (lookup store em) rid rv i rs')" .
qed

lemma sender_level_implements:
  "implements store em (get_power_level_for_sender store rid i em) (sender_level_spec (lookup store em) rid i)"
  unfolding get_power_level_for_sender_def sender_level_spec_def
proof (rule implements_bind[OF get_event_strict_implements], unfold split)
  fix e em1 assume x1: "extends store em em1"
  show "implements store em1
     (py_bind (find_auth_event store rid EventTypes_PowerLevels (auth_event_ids e) em1) (\<lambda>(pl, em2).
       case pl of None \<Rightarrow>
           py_bind (find_auth_event store rid EventTypes_Create (auth_event_ids e) em2) (\<lambda>(cr, em3).
             case cr of None \<Rightarrow> Inr (0, em3)
             | Some (_, aev) \<Rightarrow> Inr (if dict_get (content aev) ROOM_CREATOR = Some (JStr (sender e)) then 100 else 0, em3))
       | Some (_, pl_event) \<Rightarrow>
           py_bind (get_subdict (content pl_event) ''users'') (\<lambda>users.
             let level = or_default (dict_get users (sender e))
                   (dict_get_default (content pl_event) ''users_default'' (JInt 0))
             in if level = JNull then Inr (0, em2) else py_bind (py_int level) (\<lambda>l. Inr (l, em2)))))
     (py_bind (find_auth_spec (lookup store em) rid EventTypes_PowerLevels (auth_event_ids e)) (\<lambda>pl.
       case pl of Some (_, p) \<Rightarrow> power_level_of p (sender e)
       | None \<Rightarrow> py_bind (find_auth_spec (lookup store em) rid EventTypes_Create (auth_event_ids e)) (\<lambda>cr.
           Inr (case cr of None \<Rightarrow> 0
             | Some (_, c) \<Rightarrow> if dict_get (content c) ROOM_CREATOR = Some (JStr (sender e)) then 100 else 0))))"
    using find_auth_implements[of em1, unfolded extends_lookup[OF x1]]
  proof (rule implements_bind, unfold split)
    fix pl em2 assume "extends store em1 em2"
    then have x2: "lookup store em2 = lookup store em"
      using x1 by (simp add: extends_lookup)
    show "implements store em2
       (case pl of None \<Rightarrow>
           py_bind (find_auth_event store rid EventTypes_Create (auth_event_ids e) em2) (\<lambda>(cr, em3).
             case cr of None \<Rightarrow> Inr (0, em3)
             | Some (_, aev) \<Rightarrow> Inr (if dict_get (content aev) ROOM_CREATOR = Some (JStr (sender e)) then 100 else 0, em3))
       | Some (_, pl_event) \<Rightarrow>
           py_bind (get_subdict (content pl_event) ''users'') (\<lambda>users.
             let level = or_default (dict_get users (sender e))
                   (dict_get_default (content pl_event) ''users_default'' (JInt 0))
             in if level = JNull then Inr (0, em2) else py_bind (py_int level) (\<lambda>l. Inr (l, em2))))
       (case pl of Some (_, p) \<Rightarrow> power_level_of p (sender e)
       | None \<Rightarrow> py_bind (find_auth_spec (lookup store em) rid EventTypes_Create (auth_event_ids e)) (\<lambda>cr.
           Inr (case cr of None \<Rightarrow> 0
             | Some (_, c) \<Rightarrow> if dict_get (content c) ROOM_CREATOR = Some (JStr (sender e)) then 100 else 0)))"
    proof (cases pl)
      case None
      then show ?thesis
        using find_auth_implements[of em2, unfolded x2]
        by (auto intro!: implements_bind split: option.splits)
    next
      case (Some p)
      have "implements store em2 (py_bind (py_int l) (\<lambda>l. Inr (l, em2))) (py_int l)" for l
        by (cases "py_int l") (auto simp: implements_def)
      with Some show ?thesis
        by (cases p) (auto simp: power_level_of_def Let_def intro!: implements_lift)
    qed
  qed
qed

end

section \<open>The graph of the power events\<close>

text \<open>The auth events of an event that are in the full conflicted set, and what they lead to.\<close>

definition conflicted_auth :: "(string \<rightharpoonup> event) \<Rightarrow> string list \<Rightarrow> string \<Rightarrow> string set" where
  "conflicted_auth ev fcs i = (case ev i of None \<Rightarrow> {} | Some e \<Rightarrow> set (auth_event_ids e) \<inter> set fcs)"

definition auth_closure :: "(string \<rightharpoonup> event) \<Rightarrow> string list \<Rightarrow> string set \<Rightarrow> string set" where
  "auth_closure ev fcs S = {j. \<exists>i \<in> S. (i, j) \<in> {(a, b). b \<in> conflicted_auth ev fcs a}\<^sup>*}"

lemma auth_closure_mono: "S \<subseteq> auth_closure ev fcs S"
  by (auto simp: auth_closure_def)

lemma auth_closure_step:
  "i \<in> auth_closure ev fcs S \<Longrightarrow> j \<in> conflicted_auth ev fcs i \<Longrightarrow> j \<in> auth_closure ev fcs S"
  unfolding auth_closure_def by (blast intro: rtrancl_into_rtrancl)

lemma auth_closure_least:
  assumes "S \<subseteq> T" and "\<And>i j. i \<in> T \<Longrightarrow> j \<in> conflicted_auth ev fcs i \<Longrightarrow> j \<in> T"
  shows "auth_closure ev fcs S \<subseteq> T"
proof
  fix j assume "j \<in> auth_closure ev fcs S"
  then obtain i where "i \<in> S" and "(i, j) \<in> {(a, b). b \<in> conflicted_auth ev fcs a}\<^sup>*"
    by (auto simp: auth_closure_def)
  from this(2) show "j \<in> T"
    by (induction rule: rtrancl_induct) (use \<open>i \<in> S\<close> assms in auto)
qed

text \<open>The invariant of the search: a visited event has all its edges, each of which leads to a visited
  event or to one on the stack.\<close>

definition graph_inv ::
    "(string \<rightharpoonup> event) \<Rightarrow> string list \<Rightarrow> string graph \<Rightarrow> string list \<Rightarrow> event_map \<Rightarrow> bool" where
  "graph_inv ev fcs g st em \<longleftrightarrow> wf_dict g \<and>
     (\<forall>n. edges_of g n = (if n \<in> nodes g then conflicted_auth ev fcs n else {})) \<and>
     (\<forall>n \<in> nodes g. conflicted_auth ev fcs n \<subseteq> nodes g \<union> set st \<and> dict_get em n \<noteq> None)"

lemma wf_visit: "wf_dict g \<Longrightarrow> wf_dict (fst (visit_auth_events fcs eid aids g st))"
proof -
  have "wf_dict (fst (fold (add_auth_edge fcs eid) aids (g, st)))" if "wf_dict g" for g st
    using that by (induction aids arbitrary: g st) (auto simp: add_auth_edge_def alist.wf_put)
  moreover assume "wf_dict g"
  moreover from this have "wf_dict (dict_setdefault eid [] g)"
    by (auto simp: dict_setdefault_def alist.wf_put split: option.splits)
  ultimately show ?thesis by (simp add: visit_auth_events_def)
qed

lemma graph_inv_visit:
  assumes inv: "graph_inv ev fcs g (eid # st) em" and e: "ev eid = Some e"
    and em': "dict_get em' eid \<noteq> None" "\<And>n. dict_get em n \<noteq> None \<Longrightarrow> dict_get em' n \<noteq> None"
  defines "v \<equiv> visit_auth_events fcs eid (auth_event_ids e) g st"
  shows "graph_inv ev fcs (fst v) (snd v) em'"
    and "nodes (fst v) \<union> set (snd v) = nodes g \<union> {eid} \<union> set st \<union> conflicted_auth ev fcs eid"
proof -
  note eqs = visit_auth_events_eq[of fcs eid "auth_event_ids e" g st, folded v_def]
  have ca: "conflicted_auth ev fcs eid = set (auth_event_ids e) \<inter> set fcs"
    using e by (simp add: conflicted_auth_def)
  have wf: "wf_dict (fst v)" using inv wf_visit by (auto simp: graph_inv_def v_def)
  have ed: "edges_of (fst v) n = (if n \<in> nodes (fst v) then conflicted_auth ev fcs n else {})" for n
    using inv unfolding eqs(2,3) by (auto simp: graph_inv_def ca)
  have stk: "set (snd v) = set st \<union> (conflicted_auth ev fcs eid - insert eid (nodes g))"
    unfolding eqs(1) by (auto simp: ca has_nodes)
  show all: "nodes (fst v) \<union> set (snd v) = nodes g \<union> {eid} \<union> set st \<union> conflicted_auth ev fcs eid"
    unfolding eqs(2) stk by auto
  have "conflicted_auth ev fcs n \<subseteq> nodes (fst v) \<union> set (snd v) \<and> dict_get em' n \<noteq> None"
    if "n \<in> nodes (fst v)" for n
  proof
    show "conflicted_auth ev fcs n \<subseteq> nodes (fst v) \<union> set (snd v)"
      using that inv unfolding all by (auto simp: eqs(2) graph_inv_def)
    show "dict_get em' n \<noteq> None"
    proof (cases "n = eid")
      case False
      with that have "n \<in> nodes g" by (simp add: eqs(2))
      with inv have "dict_get em n \<noteq> None" unfolding graph_inv_def by blast
      then show ?thesis by (rule em'(2))
    qed (use em'(1) in simp)
  qed
  with wf ed show "graph_inv ev fcs (fst v) (snd v) em'" by (simp add: graph_inv_def)
qed

lemma add_chain_total:
  assumes "event_store store" and "graph_inv (lookup store em) fcs g st em"
    and "\<And>i. i \<in> set fcs \<union> set st \<Longrightarrow> \<exists>e. lookup store em i = Some e \<and> ev_room_id e = Some rid"
  shows "\<exists>g' em'. add_event_and_auth_chain_to_graph store rid fcs st g em = Inr (g', em') \<and>
    extends store em em' \<and> graph_inv (lookup store em) fcs g' [] em' \<and>
    nodes g' = auth_closure (lookup store em) fcs (nodes g \<union> set st)"
  using assms
proof (induction store rid fcs st g em rule: add_event_and_auth_chain_to_graph.induct)
  case (1 store rid fcs g em)
  then have "\<And>n. n \<in> nodes g \<Longrightarrow> conflicted_auth (lookup store em) fcs n \<subseteq> nodes g"
    by (auto simp: graph_inv_def)
  then have "auth_closure (lookup store em) fcs (nodes g) = nodes g"
    by (intro antisym auth_closure_least auth_closure_mono) auto
  with 1 show ?case by simp
next
  case (2 store rid fcs eid st g em)
  let ?ev = "lookup store em"
  from 2(4) obtain e where e: "?ev eid = Some e" "ev_room_id e = Some rid" by auto
  then have "strict_spec ?ev rid eid = Inr e" by (simp add: strict_spec_def room_id_def)
  with event_store.get_event_strict_implements[OF 2(2), of em rid eid]
  obtain em1 where g1: "get_event_strict store rid eid em = Inr (e, em1)" by (auto simp: implements_def)
  note s = event_store.get_event_strict_Inr[OF 2(2) g1]
  let ?v = "visit_auth_events fcs eid (auth_event_ids e) g st"
  have kept: "dict_get em n \<noteq> None \<Longrightarrow> dict_get em1 n \<noteq> None" for n
    using s(4) by (auto dest: extends_get)
  note v = graph_inv_visit[OF 2(3) e(1), of em1, simplified s(3), OF _ kept, simplified]
  note look = extends_lookup[OF s(4)]
  have known: "\<exists>e. ?ev i = Some e \<and> ev_room_id e = Some rid" if "i \<in> set fcs \<union> set (snd ?v)" for i
    using that 2(4) visit_auth_events_eq(1)[of fcs eid "auth_event_ids e" g st] by auto
  obtain g' em' where r: "add_event_and_auth_chain_to_graph store rid fcs (snd ?v) (fst ?v) em1 = Inr (g', em')"
    "extends store em1 em'" "graph_inv ?ev fcs g' [] em'"
    "nodes g' = auth_closure ?ev fcs (nodes (fst ?v) \<union> set (snd ?v))"
    using 2(1)[OF g1 refl 2(2)] v(1) known unfolding look by blast
  have "auth_closure ?ev fcs (nodes (fst ?v) \<union> set (snd ?v)) = auth_closure ?ev fcs (nodes g \<union> set (eid # st))"
    unfolding v(2)
    by (intro antisym auth_closure_least) (auto intro: auth_closure_step subsetD[OF auth_closure_mono])
  with r g1 s(4) show ?case by (auto intro: extends_trans)
qed

section \<open>The order of the power events\<close>

definition power_key :: "(string \<rightharpoonup> event) \<Rightarrow> string \<Rightarrow> string \<Rightarrow> int \<times> int \<times> string" where
  "power_key ev rid i = (- projr (sender_level_spec ev rid i), origin_server_ts (the (ev i)), i)"

definition known_in_room :: "(string \<rightharpoonup> event) \<Rightarrow> string \<Rightarrow> string \<Rightarrow> bool" where
  "known_in_room ev rid i \<longleftrightarrow> (\<exists>e. ev i = Some e \<and> ev_room_id e = Some rid)"

lemma graph_inv_extends:
  "graph_inv ev fcs g st em \<Longrightarrow> extends store em em' \<Longrightarrow> graph_inv ev fcs g st em'"
  unfolding graph_inv_def by (metis extends_get not_None_eq)

lemma auth_closure_union:
  "auth_closure ev fcs (auth_closure ev fcs S \<union> T) = auth_closure ev fcs (S \<union> T)"
proof (rule antisym)
  have "auth_closure ev fcs S \<subseteq> auth_closure ev fcs (S \<union> T)"
    by (rule auth_closure_least) (auto intro: auth_closure_step subsetD[OF auth_closure_mono])
  then show "auth_closure ev fcs (auth_closure ev fcs S \<union> T) \<subseteq> auth_closure ev fcs (S \<union> T)"
    by (intro auth_closure_least) (auto intro: auth_closure_step subsetD[OF auth_closure_mono])
  have "S \<union> T \<subseteq> auth_closure ev fcs S \<union> T" using auth_closure_mono by blast
  then show "auth_closure ev fcs (S \<union> T) \<subseteq> auth_closure ev fcs (auth_closure ev fcs S \<union> T)"
    by (intro auth_closure_least)
      (auto intro: auth_closure_step subsetD[OF auth_closure_mono])
qed

lemma levels_loop:
  assumes "py_for (\<lambda>i d. py_bind (f i) (\<lambda>l. Inr (dict_set i l d))) is d0 = Inr d"
  shows "i \<in> set is \<Longrightarrow> \<exists>l. f i = Inr l \<and> dict_get d i = Some l"
  using assms
proof (induction "is" arbitrary: d0)
  case (Cons j "is")
  from Cons.prems(2) obtain l where l: "f j = Inr l"
    and rest: "py_for (\<lambda>i d. py_bind (f i) (\<lambda>l. Inr (dict_set i l d))) is (dict_set j l d0) = Inr d"
    by (auto simp: py_bind_Inr_iff)
  show ?case
  proof (cases "i \<in> set is")
    case False
    have "dict_get d i = Some l"
      using rest by (rule py_for_invariant[where I = "\<lambda>d. dict_get d i = Some l"])
        (use False Cons.prems(1) in \<open>auto simp: alist.get_put py_bind_Inr_iff\<close>)
    with False Cons.prems(1) l show ?thesis by simp
  qed (use Cons.IH[OF _ rest] in blast)
qed simp

lemma levels_loop_total:
  assumes "\<And>i. i \<in> set is \<Longrightarrow> \<exists>l. f i = Inr l"
  shows "\<exists>d. py_for (\<lambda>i d. py_bind (f i) (\<lambda>l. Inr (dict_set i l d))) is d0 = Inr d"
  using assms by (induction "is" arbitrary: d0) (auto, fastforce)

context event_store
begin

lemma graph_loop:
  assumes "graph_inv (lookup store em) fcs g [] em" and "\<forall>i \<in> set fcs. known_in_room (lookup store em) rid i"
    and "set cs \<subseteq> set fcs"
    and "\<And>i em'. i \<in> set cs \<Longrightarrow> extends store em em' \<Longrightarrow> condition em' i = Inr (c i)"
  shows "\<exists>g' em'. py_for (\<lambda>eid (graph, em'). py_bind (condition em' eid) (\<lambda>chosen.
           if chosen then add_event_and_auth_chain_to_graph store rid fcs [eid] graph em'
           else Inr (graph, em'))) cs (g, em) = Inr (g', em') \<and> extends store em em' \<and>
    graph_inv (lookup store em) fcs g' [] em' \<and>
    nodes g' = auth_closure (lookup store em) fcs (nodes g \<union> {i \<in> set cs. c i})"
  using assms
proof (induction cs arbitrary: g em)
  case Nil
  then have "auth_closure (lookup store em) fcs (nodes g) = nodes g"
    by (intro antisym auth_closure_least auth_closure_mono) (auto simp: graph_inv_def)
  with Nil show ?case by simp
next
  case (Cons i cs)
  let ?ev = "lookup store em"
  let ?body = "\<lambda>eid (graph, em'). py_bind (condition em' eid) (\<lambda>chosen.
      if chosen then add_event_and_auth_chain_to_graph store rid fcs [eid] graph em' else Inr (graph, em'))"
  have cond: "condition em i = Inr (c i)" using Cons.prems(4) by simp
  obtain g1 em1 where g1: "?body i (g, em) = Inr (g1, em1)" "extends store em em1"
    "graph_inv ?ev fcs g1 [] em1" "nodes g1 = auth_closure ?ev fcs (nodes g \<union> (if c i then {i} else {}))"
  proof (cases "c i")
    case True
    have inv: "graph_inv ?ev fcs g [i] em" using Cons.prems(1) by (auto simp: graph_inv_def)
    have "\<exists>e. ?ev j = Some e \<and> ev_room_id e = Some rid" if "j \<in> set fcs \<union> set [i]" for j
      using that Cons.prems(2,3) by (auto simp: known_in_room_def)
    from add_chain_total[OF event_store_axioms inv this]
    show ?thesis using that True cond by auto
  next
    case False
    have "auth_closure ?ev fcs (nodes g) = nodes g"
      using Cons.prems(1) by (intro antisym auth_closure_least auth_closure_mono) (auto simp: graph_inv_def)
    with False Cons.prems(1) cond show ?thesis by (intro that[of g em]) auto
  qed
  note look = extends_lookup[OF g1(2)]
  obtain g2 em2 where g2: "py_for ?body cs (g1, em1) = Inr (g2, em2)" "extends store em1 em2"
    "graph_inv ?ev fcs g2 [] em2" "nodes g2 = auth_closure ?ev fcs (nodes g1 \<union> {i \<in> set cs. c i})"
    using Cons.IH[of em1 g1, unfolded look] g1(3) Cons.prems(2,3,4) extends_trans[OF g1(2)] by auto
  have "nodes g2 = auth_closure ?ev fcs (nodes g \<union> {j \<in> set (i # cs). c j})"
    unfolding g2(4) g1(4) auth_closure_union by (rule arg_cong[where f = "auth_closure ?ev fcs"]) auto
  moreover have "py_for ?body (i # cs) (g, em) = Inr (g2, em2)"
    by (simp only: py_for.simps g1(1) g2(1) py_bind.simps)
  ultimately show ?case using g2 extends_trans[OF g1(2) g2(2)] by blast
qed

lemma power_sort_kahn:
  fixes em fcs cs c
  defines "V \<equiv> auth_closure (lookup store em) fcs {i \<in> set cs. c i}"
  assumes "\<forall>i \<in> set fcs. known_in_room (lookup store em) rid i" and "set cs \<subseteq> set fcs"
    and "\<And>i em'. i \<in> set cs \<Longrightarrow> extends store em em' \<Longrightarrow> condition em' i = Inr (c i)"
  shows "(\<forall>i \<in> V. \<exists>l. sender_level_spec (lookup store em) rid i = Inr l) \<Longrightarrow>
      \<exists>xs em'. reverse_topological_power_sort store rid cs condition fcs em = Inr (xs, em') \<and>
        extends store em em' \<and> (\<forall>i \<in> V. dict_has em' i) \<and>
        kahn V (conflicted_auth (lookup store em) fcs) (power_key (lookup store em) rid) {} xs"
    and "reverse_topological_power_sort store rid cs condition fcs em = Inr (xs, em') \<Longrightarrow>
      \<forall>i \<in> V. \<exists>l. sender_level_spec (lookup store em) rid i = Inr l"
proof -
  let ?ev = "lookup store em"
  have "graph_inv ?ev fcs [] [] em" by (simp add: graph_inv_def wf_dict_def edges_of_def nodes_def dict_get_default_def)
  from graph_loop[of em fcs "[]" rid cs condition c, OF this assms(2,3)] assms(4)
  obtain g em1 where g: "py_for (\<lambda>eid (graph, em').
         py_bind (condition em' eid) (\<lambda>chosen.
           if chosen then add_event_and_auth_chain_to_graph store rid fcs [eid] graph em'
           else Inr (graph, em'))) cs ([], em) = Inr (g, em1)" and x1: "extends store em em1"
    and inv: "graph_inv ?ev fcs g [] em1" and V: "nodes g = V"
    unfolding V_def by (auto simp: nodes_def)
  have keys: "set (dict_keys g) = V" using V by (simp add: nodes_def dom_map_of_conv_image_fst)
  let ?lv = "\<lambda>eid (d, em'). py_bind (get_power_level_for_sender store rid eid em') (\<lambda>(pl, em'').
      Inr (dict_set eid pl d, em''))"
  let ?lvs = "\<lambda>i d. py_bind (sender_level_spec ?ev rid i) (\<lambda>l. Inr (dict_set i l d))"
  have lv: "implements store em1 (py_for ?lv (dict_keys g) ([], em1)) (py_for ?lvs (dict_keys g) [])"
  proof (rule implements_for, unfold split)
    fix i d em' assume "extends store em1 em'"
    then have "lookup store em' = ?ev" using x1 by (simp add: extends_lookup)
    from sender_level_implements[of em' rid i, unfolded this]
    show "implements store em' (py_bind (get_power_level_for_sender store rid i em')
        (\<lambda>(pl, em''). Inr (dict_set i pl d, em''))) (?lvs i d)"
      by (rule implements_bind) simp
  qed
  show "\<forall>i \<in> V. \<exists>l. sender_level_spec ?ev rid i = Inr l"
    if "reverse_topological_power_sort store rid cs condition fcs em = Inr (xs, em')"
  proof -
    from that g obtain d em2 where "py_for ?lv (dict_keys g) ([], em1) = Inr (d, em2)"
      by (auto simp: reverse_topological_power_sort_def py_bind_Inr_iff)
    with lv have "py_for ?lvs (dict_keys g) [] = Inr d" by (auto simp: implements_def split: sum.splits)
    from levels_loop[OF this] keys show ?thesis by blast
  qed
  assume levels: "\<forall>i \<in> V. \<exists>l. sender_level_spec ?ev rid i = Inr l"
  have "\<exists>l. sender_level_spec ?ev rid i = Inr l" if "i \<in> set (dict_keys g)" for i
    using levels that unfolding keys by (rule bspec)
  from levels_loop_total[of "dict_keys g" "sender_level_spec ?ev rid" "[]", OF this]
  obtain d where d: "py_for ?lvs (dict_keys g) [] = Inr d" by blast
  from lv[unfolded d implements_def sum.case]
  obtain em2 where em2: "py_for ?lv (dict_keys g) ([], em1) = Inr (d, em2)" "extends store em1 em2"
    by blast
  have x2: "extends store em em2" using x1 em2(2) by (rule extends_trans)
  have inV: "dict_get em2 n = ?ev n \<and> ?ev n \<noteq> None" if n: "n \<in> V" for n
  proof -
    obtain e where "dict_get em1 n = Some e" using n inv V unfolding graph_inv_def by blast
    then have "dict_get em2 n = Some e" by (rule extends_get[OF em2(2)])
    with lookup_get[OF this, of store] extends_lookup[OF x2] show ?thesis by simp
  qed
  have key: "get_power_order em2 d n = Inr (power_key ?ev rid n)" if "n \<in> nodes g" for n
  proof -
    from levels_loop[OF d, of n] that keys V obtain l where "sender_level_spec ?ev rid n = Inr l"
      "dict_get d n = Some l" by auto
    with inV[of n] that V show ?thesis
      by (auto simp: get_power_order_def dict_getitem_def power_key_def)
  qed
  have "wf_dict g" using inv by (simp add: graph_inv_def)
  from toposort_kahn[of g "get_power_order em2 d" "power_key ?ev rid", OF this key] obtain xs where
    xs: "lexicographical_topological_sort g (get_power_order em2 d) = Inr xs"
    "kahn (nodes g) (edges_of g) (power_key ?ev rid) {} xs" by blast
  have E: "available V (edges_of g) D = available V (conflicted_auth ?ev fcs) D" for D
    using inv V by (auto simp: available_def graph_inv_def)
  have "kahn V (conflicted_auth ?ev fcs) (power_key ?ev rid) D ys"
    if "kahn V (edges_of g) (power_key ?ev rid) D ys" for D ys
    using that by (induction rule: kahn.induct) (auto simp: E intro: kahn.intros)
  with xs V have "kahn V (conflicted_auth ?ev fcs) (power_key ?ev rid) {} xs" by simp
  moreover have "reverse_topological_power_sort store rid cs condition fcs em = Inr (xs, em2)"
    unfolding reverse_topological_power_sort_def by (simp add: g em2(1) xs(1))
  moreover have "\<forall>i \<in> V. dict_has em2 i" using inV by (auto simp: dict_has_def)
  ultimately show "\<exists>xs em'. reverse_topological_power_sort store rid cs condition fcs em = Inr (xs, em') \<and>
        extends store em em' \<and> (\<forall>i \<in> V. dict_has em' i) \<and>
        kahn V (conflicted_auth ?ev fcs) (power_key ?ev rid) {} xs"
    using x2 by blast
qed

end

end
