(* ===== verification/State_V2_Mainline.thy ===== *)
theory State_V2_Mainline
  imports State_V2_Props
begin

text \<open>
  The mainline part of the state resolution: the loops end when the auth events form no cycle, and
  the mainline order is the sort of the events by an injective key, so that it does not depend on
  the order in which the events are given.
\<close>

section \<open>The loops on what is known\<close>

fun mainline_spec :: "nat \<Rightarrow> (string \<rightharpoonup> event) \<Rightarrow> string \<Rightarrow> string option \<Rightarrow> string list py" where
  "mainline_spec fuel ev rid pl = (case pl of None \<Rightarrow> Inr []
     | Some i \<Rightarrow> if i = '''' then Inr []
         else (case fuel of 0 \<Rightarrow> Inl OutOfFuel
           | Suc fuel' \<Rightarrow> py_bind (strict_spec ev rid i) (\<lambda>e.
               py_bind (find_auth_spec ev rid EventTypes_PowerLevels (auth_event_ids e)) (\<lambda>p.
               py_bind (mainline_spec fuel' ev rid (map_option fst p)) (\<lambda>rest. Inr (i # rest))))))"

declare mainline_spec.simps [simp del]

fun depth_spec :: "nat \<Rightarrow> (string \<rightharpoonup> event) \<Rightarrow> string \<Rightarrow> (string, int) dict \<Rightarrow> event \<Rightarrow> int py" where
  "depth_spec fuel ev rid mm e = (case dict_get mm (event_id e) of Some d \<Rightarrow> Inr d
     | None \<Rightarrow> (case fuel of 0 \<Rightarrow> Inl OutOfFuel
         | Suc fuel' \<Rightarrow> py_bind (find_auth_spec ev rid EventTypes_PowerLevels (auth_event_ids e)) (\<lambda>p.
             case p of None \<Rightarrow> Inr 0 | Some (_, pe) \<Rightarrow> depth_spec fuel' ev rid mm pe)))"

declare depth_spec.simps [simp del]

definition order_spec :: "nat \<Rightarrow> (string \<rightharpoonup> event) \<Rightarrow> (string, int) dict \<Rightarrow> string \<Rightarrow> (int \<times> int \<times> string) py" where
  "order_spec fuel ev mm i = (case ev i of None \<Rightarrow> Inl KeyError
     | Some e \<Rightarrow> py_bind (room_id e) (\<lambda>rid. py_bind (depth_spec fuel ev rid mm e) (\<lambda>d.
         Inr (d, origin_server_ts e, i))))"

definition mainline_sort_spec ::
    "nat \<Rightarrow> (string \<rightharpoonup> event) \<Rightarrow> string \<Rightarrow> string list \<Rightarrow> string option \<Rightarrow> string list py" where
  "mainline_sort_spec fuel ev rid is pl = (if is = [] then Inr []
     else py_bind (mainline_spec fuel ev rid pl) (\<lambda>m.
       py_bind (py_for (\<lambda>i d. py_bind (order_spec fuel ev (mainline_map_of m) i) (\<lambda>l. Inr (dict_set i l d))) is [])
         (\<lambda>om. Inr (sort_key (\<lambda>i. the (dict_get om i)) is))))"

context event_store
begin

lemma mainline_implements:
  "implements store em (mainline_loop fuel store rid pl em) (mainline_spec fuel (lookup store em) rid pl)"
proof (induction fuel arbitrary: pl em)
  case 0
  show ?case by (auto simp: mainline_loop.simps[of 0] mainline_spec.simps[of 0] split: option.splits)
next
  case (Suc fuel)
  show ?case
  proof (cases "pl = None \<or> pl = Some ''''")
    case True
    then show ?thesis by (auto simp: mainline_loop.simps[of "Suc fuel"] mainline_spec.simps[of "Suc fuel"])
  next
    case False
    then obtain i where pl: "pl = Some i" "i \<noteq> ''''" by auto
    show ?thesis
      unfolding mainline_loop.simps[of "Suc fuel"] mainline_spec.simps[of "Suc fuel"] pl(1) option.case
        if_not_P[OF pl(2)] nat.case
    proof (rule implements_bind[OF get_event_strict_implements], unfold split)
      fix e em1 assume x1: "extends store em em1"
      show "implements store em1
         (py_bind (find_auth_event store rid EventTypes_PowerLevels (auth_event_ids e) em1) (\<lambda>(next_pl, em2).
           py_bind (mainline_loop fuel store rid (map_option fst next_pl) em2) (\<lambda>(rest, em3). Inr (i # rest, em3))))
         (py_bind (find_auth_spec (lookup store em) rid EventTypes_PowerLevels (auth_event_ids e)) (\<lambda>p.
           py_bind (mainline_spec fuel (lookup store em) rid (map_option fst p)) (\<lambda>rest. Inr (i # rest))))"
        using find_auth_implements[of em1, unfolded extends_lookup[OF x1]]
      proof (rule implements_bind, unfold split)
        fix p em2 assume x2: "extends store em1 em2"
        have "lookup store em2 = lookup store em" using x1 x2 by (simp add: extends_lookup)
        from Suc.IH[of em2 "map_option fst p", unfolded this]
        show "implements store em2
            (py_bind (mainline_loop fuel store rid (map_option fst p) em2) (\<lambda>(rest, em3). Inr (i # rest, em3)))
            (py_bind (mainline_spec fuel (lookup store em) rid (map_option fst p)) (\<lambda>rest. Inr (i # rest)))"
          by (rule implements_bind) simp
      qed
    qed
  qed
qed

lemma depth_implements:
  "implements store em (mainline_depth_loop fuel store rid mm e em) (depth_spec fuel (lookup store em) rid mm e)"
proof (induction fuel arbitrary: e em)
  case 0
  show ?case by (auto simp: mainline_depth_loop.simps[of 0] depth_spec.simps[of 0] split: option.splits)
next
  case (Suc fuel)
  show ?case
  proof (cases "dict_get mm (event_id e)")
    case None
    show ?thesis
      unfolding mainline_depth_loop.simps[of "Suc fuel"] depth_spec.simps[of "Suc fuel"] None option.case nat.case
      using find_auth_implements
    proof (rule implements_bind, unfold split)
      fix p em2 assume "extends store em em2"
      note IH = Suc.IH[of em2, unfolded extends_lookup[OF this]]
      show "implements store em2
          (case p of None \<Rightarrow> Inr (0, em2) | Some (_, pl_ev) \<Rightarrow> mainline_depth_loop fuel store rid mm pl_ev em2)
          (case p of None \<Rightarrow> Inr 0 | Some (_, pe) \<Rightarrow> depth_spec fuel (lookup store em) rid mm pe)"
        using IH by (auto split: option.splits)
    qed
  qed (simp add: mainline_depth_loop.simps[of "Suc fuel"] depth_spec.simps[of "Suc fuel"])
qed

lemma mainline_sort_implements:
  assumes "\<And>i. i \<in> set is \<Longrightarrow> dict_has em i"
  shows "implements store em (mainline_sort fuel store rid is pl em)
    (mainline_sort_spec fuel (lookup store em) rid is pl)"
proof (cases "is = []")
  case False
  let ?ev = "lookup store em"
  have body: "implements store em1
       (py_for (\<lambda>ev_id (order_map, em').
               py_bind (dict_getitem em' ev_id) (\<lambda>event.
               py_bind (get_mainline_depth_for_event fuel store event mm em') (\<lambda>(d, em'').
               py_bind (dict_getitem em'' ev_id) (\<lambda>event'.
               Inr (dict_set ev_id (d, origin_server_ts event', ev_id) order_map, em''))))) is ([], em1))
       (py_for (\<lambda>i d. py_bind (order_spec fuel ?ev mm i) (\<lambda>l. Inr (dict_set i l d))) is [])"
    if x1: "extends store em em1" for em1 mm
  proof (rule implements_for, unfold split)
    fix i d em2 assume i: "i \<in> set is" and x2: "extends store em1 em2"
    obtain e where "dict_get em i = Some e" using assms[OF i] by (auto simp: dict_has_def)
    then have e1: "dict_get em1 i = Some e" by (rule extends_get[OF x1])
    then have e2: "dict_get em2 i = Some e" by (rule extends_get[OF x2])
    have look: "lookup store em2 = ?ev" using x1 x2 by (simp add: extends_lookup)
    have ev: "?ev i = Some e" using lookup_get[OF e2, of store] look by simp
    show "implements store em2
       (py_bind (dict_getitem em2 i) (\<lambda>event.
          py_bind (get_mainline_depth_for_event fuel store event mm em2) (\<lambda>(d', em'').
          py_bind (dict_getitem em'' i) (\<lambda>event'. Inr (dict_set i (d', origin_server_ts event', i) d, em'')))))
       (py_bind (order_spec fuel ?ev mm i) (\<lambda>l. Inr (dict_set i l d)))"
      unfolding order_spec_def ev dict_getitem_def[of em2] e2 option.case py_bind.simps py_bind_assoc
        get_mainline_depth_for_event_def
    proof (rule implements_lift)
      fix r
      show "implements store em2
         (py_bind (mainline_depth_loop fuel store r mm e em2) (\<lambda>(d', em'').
          py_bind (dict_getitem em'' i) (\<lambda>event'. Inr (dict_set i (d', origin_server_ts event', i) d, em''))))
         (py_bind (depth_spec fuel ?ev r mm e) (\<lambda>d'. Inr (dict_set i (d', origin_server_ts e, i) d)))"
        using depth_implements[of em2 fuel r mm e, unfolded look]
        by (rule implements_bind) (simp add: dict_getitem_def extends_get[OF _ e2])
    qed
  qed
  have "implements store em
     (py_bind (mainline_loop fuel store rid pl em) (\<lambda>(mainline, em1).
        py_bind (py_for (\<lambda>ev_id (order_map, em').
               py_bind (dict_getitem em' ev_id) (\<lambda>event.
               py_bind (get_mainline_depth_for_event fuel store event (mainline_map_of mainline) em') (\<lambda>(d, em'').
               py_bind (dict_getitem em'' ev_id) (\<lambda>event'.
               Inr (dict_set ev_id (d, origin_server_ts event', ev_id) order_map, em''))))) is ([], em1))
          (\<lambda>(order_map, em2). Inr (sort_key (\<lambda>ev_id. the (dict_get order_map ev_id)) is, em2))))
     (py_bind (mainline_spec fuel ?ev rid pl) (\<lambda>m.
        py_bind (py_for (\<lambda>i d. py_bind (order_spec fuel ?ev (mainline_map_of m) i) (\<lambda>l. Inr (dict_set i l d))) is [])
          (\<lambda>om. Inr (sort_key (\<lambda>i. the (dict_get om i)) is))))"
    by (rule implements_bind[OF mainline_implements], unfold split, rule implements_bind[OF body]) simp_all
  with False show ?thesis by (simp add: mainline_sort_def mainline_sort_spec_def Let_def)
qed (simp add: mainline_sort_def mainline_sort_spec_def)

end

section \<open>The loops end\<close>

text \<open>A rank that decreases along the auth events that are known: there is one exactly when they form
  no cycle.\<close>

definition auth_rank :: "(string \<rightharpoonup> event) \<Rightarrow> (string \<Rightarrow> nat) \<Rightarrow> bool" where
  "auth_rank ev r \<longleftrightarrow> (\<forall>i e j. ev i = Some e \<longrightarrow> j \<in> set (auth_event_ids e) \<longrightarrow> ev j \<noteq> None \<longrightarrow> r j < r i)"

lemma get_event_spec_fuel: "get_event_spec ev rid i \<noteq> Inl OutOfFuel"
  by (auto simp: get_event_spec_def room_id_def split: option.splits)

lemma strict_spec_fuel: "strict_spec ev rid i \<noteq> Inl OutOfFuel"
  by (auto simp: strict_spec_def room_id_def split: option.splits)

lemma strict_spec_Inr: "strict_spec ev rid i = Inr e \<Longrightarrow> ev i = Some e \<and> ev_room_id e = Some rid"
  by (auto simp: strict_spec_def py_bind_Inr_iff split: option.splits if_splits)

lemma find_auth_spec_fuel: "find_auth_spec ev rid ty is \<noteq> Inl OutOfFuel"
  by (induction "is")
    (auto simp: py_bind_Inl_iff get_event_spec_fuel state_key_def split: option.splits)

lemma find_auth_spec_Some:
  "find_auth_spec ev rid ty is = Inr (Some (j, e)) \<Longrightarrow>
     j \<in> set is \<and> ev j = Some e \<and> ev_type e = ty \<and> ev_state_key e = Some '''' \<and> ev_room_id e = Some rid"
  by (induction "is")
    (auto simp: py_bind_Inr_iff get_event_spec_def split: option.splits if_splits)

lemma mainline_terminates:
  assumes "auth_rank ev r" and "\<And>i. pl = Some i \<Longrightarrow> r i < fuel"
  shows "mainline_spec fuel ev rid pl \<noteq> Inl OutOfFuel"
  using assms(2)
proof (induction fuel arbitrary: pl)
  case 0
  then show ?case by (auto simp: mainline_spec.simps[of 0] split: option.splits)
next
  case (Suc fuel)
  have "mainline_spec fuel ev rid (map_option fst p) \<noteq> Inl OutOfFuel"
    if "pl = Some i" "strict_spec ev rid i = Inr e"
      "find_auth_spec ev rid EventTypes_PowerLevels (auth_event_ids e) = Inr p" for i e p
  proof (rule Suc.IH)
    fix j assume "map_option fst p = Some j"
    then obtain e' where "p = Some (j, e')" by auto
    with find_auth_spec_Some that(3) have "j \<in> set (auth_event_ids e)" "ev j \<noteq> None" by force+
    with assms(1) strict_spec_Inr[OF that(2)] have "r j < r i" by (auto simp: auth_rank_def)
    with Suc.prems[OF that(1)] show "r j < fuel" by simp
  qed
  then show ?case
    by (auto simp: mainline_spec.simps[of "Suc fuel"] py_bind_Inl_iff strict_spec_fuel find_auth_spec_fuel
        split: option.splits)
qed

lemma depth_terminates:
  assumes "auth_rank ev r" and "\<And>j. j \<in> set (auth_event_ids e) \<Longrightarrow> ev j \<noteq> None \<Longrightarrow> Suc (r j) < fuel"
    and "0 < fuel"
  shows "depth_spec fuel ev rid mm e \<noteq> Inl OutOfFuel"
  using assms(2,3)
proof (induction fuel arbitrary: e)
  case (Suc fuel)
  have "depth_spec fuel ev rid mm e' \<noteq> Inl OutOfFuel"
    if f: "find_auth_spec ev rid EventTypes_PowerLevels (auth_event_ids e) = Inr (Some (j, e'))" for j e'
  proof (rule Suc.IH)
    from find_auth_spec_Some[OF f] have j: "j \<in> set (auth_event_ids e)" "ev j = Some e'" by auto
    with Suc.prems(1) have rj: "r j < fuel" by fastforce
    then show "0 < fuel" by simp
    fix i assume "i \<in> set (auth_event_ids e')" "ev i \<noteq> None"
    with j(2) assms(1) have "r i < r j" by (auto simp: auth_rank_def)
    with rj show "Suc (r i) < fuel" by simp
  qed
  then show ?case
    by (auto simp: depth_spec.simps[of "Suc fuel"] py_bind_Inl_iff find_auth_spec_fuel split: option.splits)
qed simp

lemma order_terminates:
  assumes "auth_rank ev r" and "\<And>e. ev i = Some e \<Longrightarrow> r i < fuel"
  shows "order_spec fuel ev mm i \<noteq> Inl OutOfFuel"
proof (cases "ev i")
  case (Some e)
  have "r j < r i" if "j \<in> set (auth_event_ids e)" "ev j \<noteq> None" for j
    using assms(1) Some that by (auto simp: auth_rank_def)
  with assms(2)[OF Some] have "depth_spec fuel ev rid mm e \<noteq> Inl OutOfFuel" for rid
    by (intro depth_terminates[OF assms(1)]) fastforce+
  with Some show ?thesis by (auto simp: order_spec_def py_bind_Inl_iff room_id_def split: option.splits)
qed (simp add: order_spec_def)

lemma order_loop_fuel:
  assumes "\<And>i. i \<in> set is \<Longrightarrow> f i \<noteq> Inl OutOfFuel"
  shows "py_for (\<lambda>i d. py_bind (f i) (\<lambda>l. Inr (dict_set i l d))) is d0 \<noteq> Inl OutOfFuel"
  using assms by (induction "is" arbitrary: d0) (auto simp: py_bind_Inl_iff)

lemma mainline_sort_terminates:
  assumes "auth_rank ev r" and "\<And>i. pl = Some i \<Longrightarrow> r i < fuel" and "\<And>i. i \<in> set is \<Longrightarrow> r i < fuel"
  shows "mainline_sort_spec fuel ev rid is pl \<noteq> Inl OutOfFuel"
proof (cases "is = []")
  case False
  have "py_for (\<lambda>i d. py_bind (order_spec fuel ev mm i) (\<lambda>l. Inr (dict_set i l d))) is [] \<noteq> Inl OutOfFuel" for mm
    by (rule order_loop_fuel, rule order_terminates[OF assms(1)]) (use assms(3) in blast)
  with False mainline_terminates[OF assms(1,2)] show ?thesis
    by (auto simp: mainline_sort_spec_def py_bind_Inl_iff)
qed (simp add: mainline_sort_spec_def)

section \<open>The mainline order\<close>

text \<open>The power level events of the mainline are numbered from the oldest, which gets 1.\<close>

lemma mainline_map_of_nth:
  assumes "distinct m" and "i < length m"
  shows "dict_get (mainline_map_of m) (m ! i) = Some (int (length m - i))"
proof -
  let ?es = "enumerate 0 (rev m)"
  have fold: "fold (\<lambda>(i, ev_id). dict_set ev_id (int i + 1)) es d =
      fold (\<lambda>(k, v). dict_set k v) (map (\<lambda>(i, ev_id). (ev_id, int i + 1)) es) d" for es d
    by (simp add: fold_map comp_def case_prod_unfold)
  have eq: "dict_get (mainline_map_of m) = map_of (rev (map (\<lambda>(i, ev_id). (ev_id, int i + 1)) ?es))"
    unfolding mainline_map_of_def fold alist.get_fold_put by simp
  have keys: "map fst (rev (map (\<lambda>(i, ev_id). (ev_id, int i + 1)) ?es)) = m"
    by (simp add: comp_def case_prod_unfold flip: rev_map)
  let ?j = "length m - Suc i"
  have "(?j, m ! i) \<in> set ?es"
    using assms(2) by (auto simp: in_set_enumerate_eq rev_nth)
  then have "(m ! i, int ?j + 1) \<in> set (rev (map (\<lambda>(i, ev_id). (ev_id, int i + 1)) ?es))" by force
  moreover have "distinct (map fst (rev (map (\<lambda>(i, ev_id). (ev_id, int i + 1)) ?es)))"
    unfolding keys by (rule assms(1))
  ultimately have "dict_get (mainline_map_of m) (m ! i) = Some (int ?j + 1)"
    unfolding eq by (rule map_of_is_SomeI[rotated])
  with assms(2) show ?thesis by simp
qed

definition order_key :: "nat \<Rightarrow> (string \<rightharpoonup> event) \<Rightarrow> (string, int) dict \<Rightarrow> string \<Rightarrow> int \<times> int \<times> string" where
  "order_key fuel ev mm i = projr (order_spec fuel ev mm i)"

lemma order_spec_inj: "order_spec fuel ev mm i = Inr k \<Longrightarrow> order_spec fuel ev mm j = Inr k \<Longrightarrow> i = j"
  by (auto simp: order_spec_def py_bind_Inr_iff split: option.splits)

lemma mainline_sort_spec_Inr:
  assumes "mainline_sort_spec fuel ev rid is pl = Inr xs" and "is \<noteq> []"
  obtains m where "mainline_spec fuel ev rid pl = Inr m"
    and "\<forall>i \<in> set is. \<exists>k. order_spec fuel ev (mainline_map_of m) i = Inr k"
    and "xs = sort_key (order_key fuel ev (mainline_map_of m)) is"
proof -
  from assms obtain m om where m: "mainline_spec fuel ev rid pl = Inr m"
    and om: "py_for (\<lambda>i d. py_bind (order_spec fuel ev (mainline_map_of m) i) (\<lambda>l. Inr (dict_set i l d))) is [] = Inr om"
    and xs: "xs = sort_key (\<lambda>i. the (dict_get om i)) is"
    by (auto simp: mainline_sort_spec_def py_bind_Inr_iff)
  note l = levels_loop[OF om]
  have "the (dict_get om i) = order_key fuel ev (mainline_map_of m) i" if "i \<in> set is" for i
    using l[OF that] by (auto simp: order_key_def)
  then have "sort_key (\<lambda>i. the (dict_get om i)) is = sort_key (order_key fuel ev (mainline_map_of m)) is"
    by (intro sort_key_cong) auto
  with m l xs show thesis by (intro that) blast+
qed

lemma mainline_sort_perm:
  assumes "mainline_sort_spec fuel ev rid is pl = Inr xs" and "mset js = mset is"
  shows "mainline_sort_spec fuel ev rid js pl = Inr xs"
proof (cases "is = []")
  case True
  with assms show ?thesis by (simp add: mainline_sort_spec_def)
next
  case False
  from assms(2) have sets: "set js = set is" by (rule mset_eq_setD)
  with False have "js \<noteq> []" by auto
  obtain m where m: "mainline_spec fuel ev rid pl = Inr m"
    "\<forall>i \<in> set is. \<exists>k. order_spec fuel ev (mainline_map_of m) i = Inr k"
    "xs = sort_key (order_key fuel ev (mainline_map_of m)) is"
    using mainline_sort_spec_Inr[OF assms(1) False] .
  let ?k = "order_key fuel ev (mainline_map_of m)"
  have "inj_on ?k (set js)"
    unfolding sets
  proof (rule inj_onI)
    fix i j assume ij: "i \<in> set is" "j \<in> set is" "?k i = ?k j"
    from m(2) ij(1,2) obtain k l where "order_spec fuel ev (mainline_map_of m) i = Inr k"
      "order_spec fuel ev (mainline_map_of m) j = Inr l" by blast
    with ij(3) show "i = j" by (auto simp: order_key_def intro: order_spec_inj)
  qed
  then have same: "sort_key ?k js = xs"
    unfolding m(3) by (rule sort_key_inj_key_eq[OF _ _ sorted_sort_key, rotated]) (simp add: assms(2))
  obtain om where om: "py_for (\<lambda>i d. py_bind (order_spec fuel ev (mainline_map_of m) i) (\<lambda>l. Inr (dict_set i l d))) js [] = Inr om"
    using levels_loop_total[of js "order_spec fuel ev (mainline_map_of m)" "[]"] m(2) sets by auto
  have "mainline_sort_spec fuel ev rid js pl = Inr (sort_key (\<lambda>i. the (dict_get om i)) js)"
    unfolding mainline_sort_spec_def using \<open>js \<noteq> []\<close> by (simp add: m(1) om)
  moreover have "sort_key (\<lambda>i. the (dict_get om i)) js = sort_key ?k js"
    by (rule sort_key_cong) (metis levels_loop[OF om] option.sel order_key_def sum.sel(2))
  ultimately show ?thesis using same by simp
qed

end
