(* ===== verification/State_V2_Resolve.thy ===== *)
theory State_V2_Resolve
  imports State_V2_Mainline
begin

text \<open>
  The whole of \<open>resolve_events_with_store\<close>. The relation \<open>resolution\<close> says what it computes from
  the unconflicted state, the full conflicted set and the known events, without the cache and
  without an order on the sets; the code is shown to return exactly the states the relation allows.
  From it follow the properties of the result: unconflicted state is kept, every other entry comes
  from an event of the full conflicted set that passed the auth checks, and the result does not
  depend on the order of the state sets or on the iteration order of Python's sets.
\<close>

section \<open>Checking events one after the other\<close>

lemma checked_state_cong:
  "dict_get rs = dict_get rs' \<Longrightarrow> checked_state ev rid rv e rs = checked_state ev rid rv e rs'"
  by (simp only: checked_state_def resolved_auth_spec_def)

text \<open>The key at which an event enters the state, if it does.\<close>

definition auth_decision ::
    "externals \<Rightarrow> (string \<rightharpoonup> event) \<Rightarrow> string \<Rightarrow> room_version \<Rightarrow> string \<Rightarrow> state_ids \<Rightarrow> state_id option py" where
  "auth_decision ext ev rid rv i rs = (case ev i of None \<Rightarrow> Inl KeyError
     | Some event \<Rightarrow> py_bind (checked_state ev rid rv event rs) (\<lambda>auth.
         if rejected_reason event \<noteq> None then Inr None
         else (case py_bind (check_state_dependent_auth_rules ext event (map snd auth)) (\<lambda>_. state_key event) of
             Inr skey \<Rightarrow> Inr (Some (ev_type event, skey))
           | Inl err \<Rightarrow> if is_AuthError err then Inr None else Inl err)))"

lemma auth_check_decision:
  "auth_check_spec ext ev rid rv i rs = py_bind (auth_decision ext ev rid rv i rs) (\<lambda>d.
     Inr (case d of None \<Rightarrow> rs | Some key \<Rightarrow> dict_set key i rs))"
  unfolding auth_check_spec_def auth_decision_def
  by (auto simp: py_bind_assoc split: option.splits sum.splits intro!: py_bind_cong)

lemma auth_check_cong:
  assumes "dict_get rs = dict_get rs'" and "auth_check_spec ext ev rid rv i rs = Inr r"
  shows "\<exists>r'. auth_check_spec ext ev rid rv i rs' = Inr r' \<and> dict_get r = dict_get r'"
proof -
  have same: "auth_decision ext ev rid rv i rs = auth_decision ext ev rid rv i rs'"
    unfolding auth_decision_def checked_state_cong[OF assms(1)] ..
  from assms(2) obtain d where d: "auth_decision ext ev rid rv i rs' = Inr d"
    and r: "r = (case d of None \<Rightarrow> rs | Some key \<Rightarrow> dict_set key i rs)"
    by (auto simp: auth_check_decision py_bind_Inr_iff same)
  show ?thesis
    using assms(1) by (simp add: auth_check_decision d r alist.get_put split: option.splits)
qed

text \<open>Only the contents of the state matter, not the order of the dictionary.\<close>

lemma iterative_cong:
  assumes "dict_get rs = dict_get rs'" and "iterative_spec ext ev rid rv is rs = Inr r"
  shows "\<exists>r'. iterative_spec ext ev rid rv is rs' = Inr r' \<and> dict_get r = dict_get r'"
  using assms unfolding iterative_spec_def
proof (induction "is" arbitrary: rs rs')
  case (Cons i "is")
  from Cons.prems(2) obtain t where t: "auth_check_spec ext ev rid rv i rs = Inr t"
    "py_for (auth_check_spec ext ev rid rv) is t = Inr r" by (auto simp: py_bind_Inr_iff)
  from auth_check_cong[OF Cons.prems(1) t(1)] obtain t' where
    "auth_check_spec ext ev rid rv i rs' = Inr t'" "dict_get t = dict_get t'" by blast
  with Cons.IH[OF _ t(2)] show ?case by simp
qed simp

text \<open>\<open>passes\<close>: the event is known, was not rejected before, and passes the auth rules against the state
  it is checked against, its own auth events overridden by some resolved state.\<close>

definition passes :: "externals \<Rightarrow> (string \<rightharpoonup> event) \<Rightarrow> string \<Rightarrow> room_version \<Rightarrow> event \<Rightarrow> state_ids \<Rightarrow> bool" where
  "passes ext ev rid rv e rs \<longleftrightarrow> rejected_reason e = None \<and>
     (\<exists>auth e'. checked_state ev rid rv e rs = Inr auth \<and>
        check_state_dependent_auth_rules ext e (map snd auth) = Inr e')"

lemma auth_decision_Some:
  assumes "auth_decision ext ev rid rv i rs = Inr (Some key)"
  obtains e k where "ev i = Some e" and "ev_state_key e = Some k" and "passes ext ev rid rv e rs"
    and "key = (ev_type e, k)"
proof (cases "ev i")
  case (Some e)
  from assms Some obtain auth where auth: "checked_state ev rid rv e rs = Inr auth" "rejected_reason e = None"
    and d: "(case py_bind (check_state_dependent_auth_rules ext e (map snd auth)) (\<lambda>_. state_key e) of
        Inr skey \<Rightarrow> Inr (Some (ev_type e, skey))
      | Inl err \<Rightarrow> if is_AuthError err then Inr None else Inl err) = Inr (Some key)"
    by (auto simp: auth_decision_def py_bind_Inr_iff split: if_splits)
  then obtain k where "py_bind (check_state_dependent_auth_rules ext e (map snd auth)) (\<lambda>_. state_key e) = Inr k"
    "key = (ev_type e, k)" by (auto split: sum.splits if_splits)
  with auth Some that show ?thesis by (auto simp: py_bind_Inr_iff passes_def)
qed (use assms in \<open>simp add: auth_decision_def\<close>)

text \<open>Where the entries of the resolved state come from.\<close>

lemma iterative_provenance:
  assumes "iterative_spec ext ev rid rv is rs = Inr r"
  shows "dom (dict_get rs) \<subseteq> dom (dict_get r)"
    and "dict_get r (ty, k) = Some i \<Longrightarrow> dict_get rs (ty, k) = Some i \<or> i \<in> set is \<and>
      (\<exists>e rs'. ev i = Some e \<and> ev_type e = ty \<and> ev_state_key e = Some k \<and> passes ext ev rid rv e rs')"
proof -
  let ?P = "\<lambda>r. dom (dict_get rs) \<subseteq> dom (dict_get r) \<and> (\<forall>ty k i. dict_get r (ty, k) = Some i \<longrightarrow>
      dict_get rs (ty, k) = Some i \<or> i \<in> set is \<and>
      (\<exists>e rs'. ev i = Some e \<and> ev_type e = ty \<and> ev_state_key e = Some k \<and> passes ext ev rid rv e rs'))"
  have "?P r"
    using assms[unfolded iterative_spec_def]
  proof (rule py_for_invariant[where I = ?P])
    fix x s s' assume x: "x \<in> set is" and s: "?P s" and step: "auth_check_spec ext ev rid rv x s = Inr s'"
    from step obtain d where d: "auth_decision ext ev rid rv x s = Inr d"
      and s': "s' = (case d of None \<Rightarrow> s | Some key \<Rightarrow> dict_set key x s)"
      by (auto simp: auth_check_decision py_bind_Inr_iff)
    show "?P s'"
    proof (cases d)
      case (Some key)
      with d obtain e k where "ev x = Some e" "ev_state_key e = Some k" "passes ext ev rid rv e s"
        "key = (ev_type e, k)" by (auto elim: auth_decision_Some)
      with s x s' Some show ?thesis by (auto simp: alist.get_put)
    qed (use s s' in simp)
  qed simp
  then show "dom (dict_get rs) \<subseteq> dom (dict_get r)"
    and "dict_get r (ty, k) = Some i \<Longrightarrow> dict_get rs (ty, k) = Some i \<or> i \<in> set is \<and>
      (\<exists>e rs'. ev i = Some e \<and> ev_type e = ty \<and> ev_state_key e = Some k \<and> passes ext ev rid rv e rs')"
    by blast+
qed

text \<open>What an event is checked against: at a key its auth types name, the resolved entry wins over the
  auth event the event itself points to.\<close>

lemma resolved_auth_override:
  assumes "resolved_auth_spec ev rid types rs d0 = Inr d"
  shows "(ty, JStr k) \<in> set types \<Longrightarrow> dict_get rs (ty, k) = Some i \<Longrightarrow>
      \<exists>e. ev i = Some e \<and> (rejected_reason e = None \<longrightarrow> dict_get d (ty, k) = Some e)"
    and "(ty, JStr k) \<notin> set types \<or> dict_get rs (ty, k) = None \<Longrightarrow> dict_get d (ty, k) = dict_get d0 (ty, k)"
proof -
  let ?step = "\<lambda>key d. case key of (ty, JStr skey) \<Rightarrow>
         (case dict_get rs (ty, skey) of None \<Rightarrow> Inr d
          | Some i \<Rightarrow> py_bind (strict_spec ev rid i) (\<lambda>e.
              Inr (if rejected_reason e = None then dict_set (ty, skey) e d else d)))
     | _ \<Rightarrow> Inr d"
  have other: "dict_get d' (ty, k) = dict_get d (ty, k)"
    if "?step key d = Inr d'" "key \<noteq> (ty, JStr k) \<or> dict_get rs (ty, k) = None"
    for key :: "string \<times> json" and d d' :: "(state_id, event) dict"
    using that by (cases key; cases "snd key")
      (auto simp: py_bind_Inr_iff alist.get_put split: option.splits if_splits)
  have keep: "dict_get d' (ty, k) = dict_get d0 (ty, k)"
    if "py_for ?step ks d0 = Inr d'" "(ty, JStr k) \<notin> set ks \<or> dict_get rs (ty, k) = None" for ks d0 d'
    using that(1)
  proof (rule py_for_invariant[where I = "\<lambda>d. dict_get d (ty, k) = dict_get d0 (ty, k)"])
    fix x s s' assume "x \<in> set ks" "dict_get s (ty, k) = dict_get d0 (ty, k)" "?step x s = Inr s'"
    with other[where key = x and d = s and d' = s'] that(2) show "dict_get s' (ty, k) = dict_get d0 (ty, k)" by auto
  qed simp
  show "dict_get d (ty, k) = dict_get d0 (ty, k)"
    if "(ty, JStr k) \<notin> set types \<or> dict_get rs (ty, k) = None"
    using keep[of "remdups types" d0 d] assms that by (simp add: resolved_auth_spec_def)
  assume "(ty, JStr k) \<in> set types" and rs: "dict_get rs (ty, k) = Some i"
  then obtain pre post where sp: "remdups types = pre @ (ty, JStr k) # post"
    and new: "(ty, JStr k) \<notin> set post"
    by (metis (no_types, lifting) distinct.simps(2) distinct_append distinct_remdups set_remdups split_list)
  from assms[unfolded resolved_auth_spec_def sp py_for_append py_for.simps py_bind_Inr_iff]
  obtain t t' where mid: "?step (ty, JStr k) t = Inr t'" and post: "py_for ?step post t' = Inr d" by blast
  from mid[unfolded prod.case json.case rs option.case py_bind_Inr_iff]
  obtain e where e: "strict_spec ev rid i = Inr e"
    and t': "t' = (if rejected_reason e = None then dict_set (ty, k) e t else t)" by blast
  from e have "ev i = Some e" using strict_spec_Inr by blast
  moreover have "rejected_reason e = None \<longrightarrow> dict_get d (ty, k) = Some e"
    using keep[OF post] new t' by (auto simp: alist.get_put)
  ultimately show "\<exists>e. ev i = Some e \<and> (rejected_reason e = None \<longrightarrow> dict_get d (ty, k) = Some e)"
    by (intro exI[of _ e] conjI)
qed

section \<open>The specification of the resolution\<close>

definition power_events :: "(string \<rightharpoonup> event) \<Rightarrow> string list \<Rightarrow> string set" where
  "power_events ev fcs = auth_closure ev fcs {i \<in> set fcs. is_power_event (the (ev i)) = Inr True}"

text \<open>\<open>resolution\<close> relates the unconflicted state \<open>u\<close> and the full conflicted set \<open>fcs\<close> to the resolved
  state \<open>r\<close>: the power events in Kahn's order are checked on top of \<open>u\<close>, then the rest in mainline
  order, and \<open>u\<close> is applied again.\<close>

definition resolution ::
    "nat \<Rightarrow> externals \<Rightarrow> (string \<rightharpoonup> event) \<Rightarrow> string \<Rightarrow> room_version \<Rightarrow> state_ids \<Rightarrow> string list \<Rightarrow> state_ids \<Rightarrow> bool" where
  "resolution fuel ext ev rid rv u fcs r \<longleftrightarrow>
     (\<forall>i \<in> set fcs. known_in_room ev rid i \<and> (\<exists>b. is_power_event (the (ev i)) = Inr b)) \<and>
     (\<forall>i \<in> power_events ev fcs. \<exists>l. sender_level_spec ev rid i = Inr l) \<and>
     (\<exists>ps rs1 ls rs2.
        kahn (power_events ev fcs) (conflicted_auth ev fcs) (power_key ev rid) {} ps \<and>
        iterative_spec ext ev rid rv ps u = Inr rs1 \<and>
        mainline_sort_spec fuel ev rid (filter (\<lambda>i. i \<notin> set ps) fcs)
          (dict_get rs1 (EventTypes_PowerLevels, '''')) = Inr ls \<and>
        iterative_spec ext ev rid rv ls rs1 = Inr rs2 \<and>
        r = dict_update rs2 u)"

text \<open>The part of the code after the full conflicted set has been fetched.\<close>

definition resolve_conflicted ::
    "nat \<Rightarrow> externals \<Rightarrow> state_res_store \<Rightarrow> string \<Rightarrow> room_version \<Rightarrow> state_ids \<Rightarrow> string list \<Rightarrow> event_map \<Rightarrow> state_ids py" where
  "resolve_conflicted fuel ext store rid rv u fcs em1 =
     py_bind (reverse_topological_power_sort store rid fcs
              (\<lambda>em eid. py_bind (dict_getitem em eid) is_power_event) fcs em1)
              (\<lambda>(ps, em2).
         py_bind (iterative_auth_checks ext store rid rv ps u em2) (\<lambda>(rs1, em3).
         py_bind (mainline_sort fuel store rid (filter (\<lambda>i. i \<notin> set ps) fcs)
                    (dict_get rs1 (EventTypes_PowerLevels, '''')) em3) (\<lambda>(ls, em4).
         py_bind (iterative_auth_checks ext store rid rv ls rs1 em4) (\<lambda>(rs2, em5).
         Inr (dict_update rs2 u)))))"

lemma add_chain_extends:
  assumes "event_store store" and "add_event_and_auth_chain_to_graph store rid fcs st g em = Inr (g', em')"
  shows "extends store em em'"
  using assms
proof (induction store rid fcs st g em rule: add_event_and_auth_chain_to_graph.induct)
  case (2 store rid fcs eid st g em)
  then obtain e em1 where e: "get_event_strict store rid eid em = Inr (e, em1)"
    and rest: "add_event_and_auth_chain_to_graph store rid fcs
         (snd (visit_auth_events fcs eid (auth_event_ids e) g st))
         (fst (visit_auth_events fcs eid (auth_event_ids e) g st)) em1 = Inr (g', em')"
    by (auto simp: py_bind_Inr_iff)
  from 2(1)[OF e refl 2(2) rest] event_store.get_event_strict_Inr(4)[OF 2(2) e]
  show ?case by (rule extends_trans[rotated])
qed simp

text \<open>The cache holds the full conflicted set, all of it in the room.\<close>

definition fetched :: "event_map \<Rightarrow> string \<Rightarrow> string list \<Rightarrow> bool" where
  "fetched em rid fcs \<longleftrightarrow> (\<forall>i \<in> set fcs. \<exists>e. dict_get em i = Some e \<and> ev_room_id e = Some rid)"

abbreviation classify :: "event_map \<Rightarrow> string \<Rightarrow> bool py" where
  "classify em eid \<equiv> py_bind (dict_getitem em eid) is_power_event"

text \<open>After the power sort the code follows the specification step by step.\<close>

definition after_sort ::
    "nat \<Rightarrow> externals \<Rightarrow> (string \<rightharpoonup> event) \<Rightarrow> string \<Rightarrow> room_version \<Rightarrow> state_ids \<Rightarrow> string list \<Rightarrow> string list \<Rightarrow> state_ids py" where
  "after_sort fuel ext ev rid rv u fcs ps = py_bind (iterative_spec ext ev rid rv ps u) (\<lambda>rs1.
     py_bind (mainline_sort_spec fuel ev rid (filter (\<lambda>i. i \<notin> set ps) fcs)
       (dict_get rs1 (EventTypes_PowerLevels, ''''))) (\<lambda>ls.
     py_bind (iterative_spec ext ev rid rv ls rs1) (\<lambda>rs2. Inr (dict_update rs2 u))))"

lemma mainline_sort_spec_subset:
  assumes "mainline_sort_spec fuel ev rid is pl = Inr ls"
  shows "set ls = set is"
proof (cases "is = []")
  case False
  from mainline_sort_spec_Inr[OF assms this] show ?thesis by (metis set_sort)
qed (use assms in \<open>simp add: mainline_sort_spec_def\<close>)

lemma kahn_in_closure: "kahn V E k {} xs \<Longrightarrow> i \<in> set xs \<Longrightarrow> i \<in> V"
  using kahn_topological by blast

context event_store
begin

text \<open>A power sort that returned has classified every candidate.\<close>

lemma power_sort_classified:
  assumes "reverse_topological_power_sort store rid fcs
      (\<lambda>em eid. py_bind (dict_getitem em eid) is_power_event) fcs em = Inr (xs, em')"
    and "i \<in> set fcs" and "dict_get em i = Some e"
  shows "\<exists>b. is_power_event e = Inr b"
proof -
  let ?body = "\<lambda>eid (graph, em'). py_bind (py_bind (dict_getitem em' eid) is_power_event) (\<lambda>chosen.
      if chosen then add_event_and_auth_chain_to_graph store rid fcs [eid] graph em' else Inr (graph, em'))"
  from assms(1) obtain s where loop: "py_for ?body fcs ([], em) = Inr s"
    by (auto simp: reverse_topological_power_sort_def py_bind_Inr_iff)
  have "\<exists>t t'. extends store em (snd t) \<and> ?body i t = Inr t'"
    using loop
  proof (rule py_for_reaches[where I = "\<lambda>t. extends store em (snd t)"])
    fix x s s' assume x: "extends store em (snd s)" and b: "?body x s = Inr s'"
    from b show "extends store em (snd s')"
      using add_chain_extends[OF event_store_axioms] extends_trans[OF x]
      by (cases s; cases s') (auto simp: py_bind_Inr_iff split: if_splits
          simp del: add_event_and_auth_chain_to_graph.simps)
  qed (use assms(2) in simp_all)
  then obtain g em2 t' where "extends store em em2" "?body i (g, em2) = Inr t'" by auto
  with extends_get[OF _ assms(3)] show ?thesis
    by (auto simp: py_bind_Inr_iff dict_getitem_Inr_iff)
qed

lemma fetched_later:
  assumes "fetched em rid fcs" and "i \<in> set fcs" and "extends store em em'"
  shows "dict_getitem em' i = Inr (the (lookup store em i))" and "known_in_room (lookup store em) rid i"
    and "dict_has em' i"
proof -
  obtain e where e: "dict_get em i = Some e" "ev_room_id e = Some rid"
    using assms(1,2) by (auto simp: fetched_def)
  with extends_get[OF assms(3) e(1)] lookup_get[OF e(1), of store]
  show "dict_getitem em' i = Inr (the (lookup store em i))" and "known_in_room (lookup store em) rid i"
    and "dict_has em' i" by (auto simp: dict_getitem_def known_in_room_def dict_has_def)
qed

lemma classify_later:
  assumes "fetched em rid fcs" and "\<forall>i \<in> set fcs. \<exists>b. is_power_event (the (lookup store em i)) = Inr b"
    and "i \<in> set fcs" and "extends store em em'"
  shows "classify em' i = Inr (is_power_event (the (lookup store em i)) = Inr True)"
  using assms(2,3) fetched_later(1)[OF assms(1,3,4)] by (auto dest!: bspec)

lemma power_sort_Inr:
  assumes "fetched em rid fcs" and s: "reverse_topological_power_sort store rid fcs classify fcs em = Inr (ps, em2)"
  shows "\<forall>i \<in> set fcs. \<exists>b. is_power_event (the (lookup store em i)) = Inr b"
    and "\<forall>i \<in> power_events (lookup store em) fcs. \<exists>l. sender_level_spec (lookup store em) rid i = Inr l"
proof -
  show b: "\<forall>i \<in> set fcs. \<exists>b. is_power_event (the (lookup store em i)) = Inr b"
  proof
    fix i assume i: "i \<in> set fcs"
    obtain e where e: "dict_get em i = Some e" using assms(1) i by (auto simp: fetched_def)
    with power_sort_classified[OF s i e] lookup_get[OF e, of store]
    show "\<exists>b. is_power_event (the (lookup store em i)) = Inr b" by simp
  qed
  from power_sort_kahn(2)[of fcs em rid fcs classify "\<lambda>i. is_power_event (the (lookup store em i)) = Inr True",
      OF _ _ classify_later[OF assms(1) b] s] fetched_later(2)[OF assms(1) _ extends_refl]
  show "\<forall>i \<in> power_events (lookup store em) fcs. \<exists>l. sender_level_spec (lookup store em) rid i = Inr l"
    unfolding power_events_def by blast
qed

lemma power_sort_returns:
  assumes "fetched em rid fcs"
    and b: "\<forall>i \<in> set fcs. \<exists>b. is_power_event (the (lookup store em i)) = Inr b"
    and l: "\<forall>i \<in> power_events (lookup store em) fcs. \<exists>l. sender_level_spec (lookup store em) rid i = Inr l"
  obtains ps em2 where "reverse_topological_power_sort store rid fcs classify fcs em = Inr (ps, em2)"
    and "extends store em em2" and "\<And>i. i \<in> set ps \<Longrightarrow> dict_has em2 i"
    and "kahn (power_events (lookup store em) fcs) (conflicted_auth (lookup store em) fcs)
           (power_key (lookup store em) rid) {} ps"
proof -
  from power_sort_kahn(1)[of fcs em rid fcs classify "\<lambda>i. is_power_event (the (lookup store em i)) = Inr True",
      OF _ _ classify_later[OF assms(1) b] l[unfolded power_events_def]]
    fetched_later(2)[OF assms(1) _ extends_refl]
  obtain ps em2 where *: "reverse_topological_power_sort store rid fcs classify fcs em = Inr (ps, em2)"
    "extends store em em2" "\<forall>i \<in> power_events (lookup store em) fcs. dict_has em2 i"
    "kahn (power_events (lookup store em) fcs) (conflicted_auth (lookup store em) fcs)
      (power_key (lookup store em) rid) {} ps"
    unfolding power_events_def by blast
  from *(3) have "dict_has em2 i" if "i \<in> set ps" for i
    using kahn_in_closure[OF *(4) that] by blast
  with *(1,2,4) show thesis by (intro that)
qed

lemma after_sort_implemented:
  assumes f: "fetched em rid fcs" and x2: "extends store em em2" and ps: "\<And>i. i \<in> set ps \<Longrightarrow> dict_has em2 i"
  shows "py_bind (iterative_auth_checks ext store rid rv ps u em2) (\<lambda>(rs1, em3).
      py_bind (mainline_sort fuel store rid (filter (\<lambda>i. i \<notin> set ps) fcs)
        (dict_get rs1 (EventTypes_PowerLevels, '''')) em3) (\<lambda>(ls, em4).
      py_bind (iterative_auth_checks ext store rid rv ls rs1 em4) (\<lambda>(rs2, em5). Inr (dict_update rs2 u)))) =
    after_sort fuel ext (lookup store em) rid rv u fcs ps"
  unfolding after_sort_def
proof (rule implements_run[OF iterative_implements[OF ps, unfolded extends_lookup[OF x2]]], assumption, unfold split)
  let ?ev = "lookup store em" and ?left = "filter (\<lambda>i. i \<notin> set ps) fcs"
  fix rs1 em3 assume "extends store em2 em3"
  with x2 have x3: "extends store em em3" by (rule extends_trans)
  show "py_bind (mainline_sort fuel store rid ?left (dict_get rs1 (EventTypes_PowerLevels, '''')) em3) (\<lambda>(ls, em4).
       py_bind (iterative_auth_checks ext store rid rv ls rs1 em4) (\<lambda>(rs2, em5). Inr (dict_update rs2 u))) =
     py_bind (mainline_sort_spec fuel ?ev rid ?left (dict_get rs1 (EventTypes_PowerLevels, ''''))) (\<lambda>ls.
       py_bind (iterative_spec ext ?ev rid rv ls rs1) (\<lambda>rs2. Inr (dict_update rs2 u)))"
  proof (rule implements_run[OF mainline_sort_implements[of ?left em3, unfolded extends_lookup[OF x3]]], unfold split)
    fix ls em4
    assume ls: "mainline_sort_spec fuel ?ev rid ?left (dict_get rs1 (EventTypes_PowerLevels, '''')) = Inr ls"
      and "extends store em3 em4"
    with x3 have x4: "extends store em em4" by (auto intro: extends_trans)
    have "dict_has em4 i" if "i \<in> set ls" for i
      using fetched_later(3)[OF f _ x4] that mainline_sort_spec_subset[OF ls] by auto
    note imp = iterative_implements[of ls em4 ext rid rv rs1, OF this, unfolded extends_lookup[OF x4]]
    show "py_bind (iterative_auth_checks ext store rid rv ls rs1 em4) (\<lambda>(rs2, em5). Inr (dict_update rs2 u)) =
        py_bind (iterative_spec ext ?ev rid rv ls rs1) (\<lambda>rs2. Inr (dict_update rs2 u))"
      by (rule implements_run[OF imp]) simp_all
  qed (use fetched_later(3)[OF f _ x3] in auto)
qed

lemma resolve_conflicted_iff:
  assumes f: "fetched em rid fcs"
  shows "resolve_conflicted fuel ext store rid rv u fcs em = Inr r \<longleftrightarrow>
    resolution fuel ext (lookup store em) rid rv u fcs r"
proof
  let ?ev = "lookup store em"
  assume res: "resolve_conflicted fuel ext store rid rv u fcs em = Inr r"
  then obtain ps em2 where s: "reverse_topological_power_sort store rid fcs classify fcs em = Inr (ps, em2)"
    by (auto simp: resolve_conflicted_def py_bind_Inr_iff)
  note bl = power_sort_Inr[OF f s]
  obtain ps' em2' where s': "reverse_topological_power_sort store rid fcs classify fcs em = Inr (ps', em2')"
    and x2: "extends store em em2'" and has: "\<And>i. i \<in> set ps' \<Longrightarrow> dict_has em2' i"
    and k: "kahn (power_events ?ev fcs) (conflicted_auth ?ev fcs) (power_key ?ev rid) {} ps'"
    using power_sort_returns[OF f bl] by blast
  from res have "after_sort fuel ext ?ev rid rv u fcs ps' = Inr r"
    unfolding resolve_conflicted_def s' py_bind.simps split
    by (simp only: after_sort_implemented[OF f x2 has])
  then show "resolution fuel ext ?ev rid rv u fcs r"
    unfolding resolution_def after_sort_def
    using bl k fetched_later(2)[OF f _ extends_refl] by (auto simp: py_bind_Inr_iff)
next
  let ?ev = "lookup store em"
  assume res: "resolution fuel ext ?ev rid rv u fcs r"
  then have b: "\<forall>i \<in> set fcs. \<exists>b. is_power_event (the (?ev i)) = Inr b"
    and l: "\<forall>i \<in> power_events ?ev fcs. \<exists>l. sender_level_spec ?ev rid i = Inr l"
    by (auto simp: resolution_def)
  obtain ps em2 where s: "reverse_topological_power_sort store rid fcs classify fcs em = Inr (ps, em2)"
    and x2: "extends store em em2" and has: "\<And>i. i \<in> set ps \<Longrightarrow> dict_has em2 i"
    and k: "kahn (power_events ?ev fcs) (conflicted_auth ?ev fcs) (power_key ?ev rid) {} ps"
    using power_sort_returns[OF f b l] by blast
  from res obtain ps' where k': "kahn (power_events ?ev fcs) (conflicted_auth ?ev fcs) (power_key ?ev rid) {} ps'"
    and rest: "after_sort fuel ext ?ev rid rv u fcs ps' = Inr r"
    by (auto simp: resolution_def after_sort_def py_bind_Inr_iff)
  have "ps' = ps" by (rule kahn_unique[OF k' k])
  with rest show "resolve_conflicted fuel ext store rid rv u fcs em = Inr r"
    unfolding resolve_conflicted_def s py_bind.simps split
    by (simp only: after_sort_implemented[OF f x2 has])
qed

end

section \<open>The whole algorithm\<close>

text \<open>The events at the keys on which the state sets disagree.\<close>

definition conflicted_ids :: "state_ids list \<Rightarrow> string set" where
  "conflicted_ids ss = {i. \<exists>k. i \<in> candidates ss k \<and> (\<nexists>j. unanimous ss k j)}"

lemma seperate_conflicted_ids:
  assumes "seperate ss = (u, c)"
  shows "set (concat (map snd c)) = conflicted_ids ss" and "c = [] \<longleftrightarrow> conflicted_ids ss = {}"
proof -
  note s = seperate_spec[OF assms]
  have mem: "(k, is) \<in> set c \<longleftrightarrow> candidates ss k \<noteq> {} \<and> (\<nexists>j. unanimous ss k j) \<and> is = conflicting ss k" for k "is"
    using s(2)[of k "is"] s(4) by (simp add: wf_dict_def)
  show ids: "set (concat (map snd c)) = conflicted_ids ss"
  proof (intro set_eqI)
    fix i
    have "i \<in> set (concat (map snd c)) \<longleftrightarrow> (\<exists>k is. (k, is) \<in> set c \<and> i \<in> set is)" by force
    then show "i \<in> set (concat (map snd c)) \<longleftrightarrow> i \<in> conflicted_ids ss"
      unfolding mem conflicted_ids_def by (auto simp: set_conflicting)
  qed
  show "c = [] \<longleftrightarrow> conflicted_ids ss = {}"
  proof
    assume "conflicted_ids ss = {}"
    have "(k, is) \<notin> set c" for k "is"
    proof
      assume "(k, is) \<in> set c"
      with mem[of k "is"] obtain i where "i \<in> candidates ss k" "\<nexists>j. unanimous ss k j" by blast
      then have "i \<in> conflicted_ids ss" unfolding conflicted_ids_def by blast
      with \<open>conflicted_ids ss = {}\<close> show False by blast
    qed
    then show "c = []" by (cases c) auto
  qed (use ids in auto)
qed

lemma check_rooms_Inr:
  "check_rooms rid em = Inr () \<longleftrightarrow> (\<forall>(i, e) \<in> set em. ev_room_id e = Some rid)"
proof -
  have "check_rooms rid em = py_for (\<lambda>x (_::unit). (\<lambda>(_, event). py_bind (room_id event) (\<lambda>r. require (r = rid) PyException)) x) em ()"
    by (simp add: check_rooms_def case_prod_unfold)
  also have "\<dots> = Inr () \<longleftrightarrow> (\<forall>(i, e) \<in> set em. ev_room_id e = Some rid)"
    unfolding py_for_unit_Inr_iff by (auto simp: py_bind_Inr_iff)
  finally show ?thesis .
qed

text \<open>What \<open>resolve_events_with_store\<close> is to return: the unconflicted state when there is no conflict,
  otherwise a resolution of the conflicted events and the auth difference, as far as they are known,
  provided that everything fetched is in the room.\<close>

definition resolve_spec ::
    "nat \<Rightarrow> externals \<Rightarrow> state_res_store \<Rightarrow> string \<Rightarrow> room_version \<Rightarrow> state_ids list \<Rightarrow> event_map \<Rightarrow> state_ids \<Rightarrow> bool" where
  "resolve_spec fuel ext store rid rv ss em r \<longleftrightarrow>
     (\<exists>u c. seperate ss = (u, c) \<and>
       (if conflicted_ids ss = {} then r = u
        else (\<exists>diff. compute_auth_chain_difference fuel store rid ss em = Inr diff \<and>
          (\<forall>i e. dict_get em i = Some e \<longrightarrow> ev_room_id e = Some rid) \<and>
          resolution fuel ext (lookup store em) rid rv u
            (filter (\<lambda>i. lookup store em i \<noteq> None) (remdups (concat (map snd c) @ diff))) r)))"

context event_store
begin

text \<open>Fetching the full conflicted set and looking at the rooms of everything fetched.\<close>

lemma fetch_missing:
  assumes "em1 = dict_update em0 (get_events store (filter (\<lambda>i. \<not> dict_has em0 i) is))"
  shows "dict_get em1 i = (if i \<in> set is then lookup store em0 i else dict_get em0 i)"
    and "extends store em0 em1"
proof -
  show "dict_get em1 i = (if i \<in> set is then lookup store em0 i else dict_get em0 i)"
    using fetch_batch(1)[of "filter (\<lambda>i. \<not> dict_has em0 i) is" em0 i] unfolding assms
    by (auto simp: dict_has_def lookup_def split: option.splits)
  show "extends store em0 em1"
    unfolding assms by (rule fetch_batch(2)) (auto simp: dict_has_def)
qed

lemma fetch_rooms:
  assumes "wf_dict em0" and em1: "em1 = dict_update em0 (get_events store (filter (\<lambda>i. \<not> dict_has em0 i) is))"
  shows "check_rooms rid em1 = Inr () \<longleftrightarrow> (\<forall>i e. dict_get em0 i = Some e \<longrightarrow> ev_room_id e = Some rid) \<and>
    (\<forall>i \<in> set (filter (\<lambda>i. lookup store em0 i \<noteq> None) is). known_in_room (lookup store em0) rid i)"
proof -
  note get = fetch_missing(1)[OF em1] and x1 = fetch_missing(2)[OF em1]
  have "wf_dict em1" unfolding em1 by (rule wf_dict_update[OF assms(1)])
  then have "(i, e) \<in> set em1 \<longleftrightarrow> dict_get em1 i = Some e" for i e by (simp add: wf_dict_def)
  then have "check_rooms rid em1 = Inr () \<longleftrightarrow> (\<forall>i e. dict_get em1 i = Some e \<longrightarrow> ev_room_id e = Some rid)"
    unfolding check_rooms_Inr by fast
  also have "\<dots> \<longleftrightarrow> (\<forall>i e. dict_get em0 i = Some e \<longrightarrow> ev_room_id e = Some rid) \<and>
      (\<forall>i e. i \<in> set is \<longrightarrow> lookup store em0 i = Some e \<longrightarrow> ev_room_id e = Some rid)"
  proof (intro iffI conjI allI impI)
    fix i e assume "\<forall>i e. dict_get em1 i = Some e \<longrightarrow> ev_room_id e = Some rid" "dict_get em0 i = Some e"
    then show "ev_room_id e = Some rid" using extends_get[OF x1] by blast
  next
    fix i e assume "\<forall>i e. dict_get em1 i = Some e \<longrightarrow> ev_room_id e = Some rid" "i \<in> set is" "lookup store em0 i = Some e"
    then show "ev_room_id e = Some rid" using get[of i] by simp
  next
    fix i e assume "(\<forall>i e. dict_get em0 i = Some e \<longrightarrow> ev_room_id e = Some rid) \<and>
      (\<forall>i e. i \<in> set is \<longrightarrow> lookup store em0 i = Some e \<longrightarrow> ev_room_id e = Some rid)" "dict_get em1 i = Some e"
    then show "ev_room_id e = Some rid" using get[of i] by (cases "i \<in> set is") auto
  qed
  also have "(\<forall>i e. i \<in> set is \<longrightarrow> lookup store em0 i = Some e \<longrightarrow> ev_room_id e = Some rid) \<longleftrightarrow>
      (\<forall>i \<in> set (filter (\<lambda>i. lookup store em0 i \<noteq> None) is). known_in_room (lookup store em0) rid i)"
    by (auto simp: known_in_room_def)
  finally show ?thesis .
qed

lemma fetch_and_resolve:
  assumes "wf_dict em0" and em1: "em1 = dict_update em0 (get_events store (filter (\<lambda>i. \<not> dict_has em0 i) is))"
  shows "py_bind (check_rooms rid em1) (\<lambda>_. resolve_conflicted fuel ext store rid rv u (filter (dict_has em1) is) em1) = Inr r
      \<longleftrightarrow> (\<forall>i e. dict_get em0 i = Some e \<longrightarrow> ev_room_id e = Some rid) \<and>
         resolution fuel ext (lookup store em0) rid rv u (filter (\<lambda>i. lookup store em0 i \<noteq> None) is) r"
proof -
  let ?ev = "lookup store em0" and ?fcs = "filter (\<lambda>i. lookup store em0 i \<noteq> None) is"
  note get = fetch_missing(1)[OF em1] and x1 = fetch_missing(2)[OF em1]
  have fcs: "filter (dict_has em1) is = ?fcs"
    by (rule filter_cong) (auto simp: dict_has_def get)
  have f: "fetched em1 rid ?fcs" if "\<forall>i \<in> set ?fcs. known_in_room ?ev rid i"
    using that by (auto simp: fetched_def known_in_room_def get)
  have res: "\<forall>i \<in> set ?fcs. known_in_room ?ev rid i" if "resolution fuel ext ?ev rid rv u ?fcs r"
    using that by (auto simp: resolution_def)
  show ?thesis
    unfolding fcs py_bind_Inr_iff
    using fetch_rooms[OF assms] res resolve_conflicted_iff[OF f] extends_lookup[OF x1] by auto
qed

text \<open>The code returns exactly what the specification allows.\<close>

lemma resolve_iff:
  assumes wf: "wf_dict em0"
  shows "resolve_events_with_store fuel ext store rid rv ss (Some em0) = Inr r \<longleftrightarrow>
    resolve_spec fuel ext store rid rv ss em0 r"
proof -
  obtain u c where sep: "seperate ss = (u, c)" by force
  show ?thesis
    unfolding resolve_spec_def resolve_events_with_store_def sep Let_def prod.case option.case
      resolve_conflicted_def[symmetric]
    using fetch_and_resolve[OF wf refl] seperate_conflicted_ids(2)[OF sep] by (auto simp: py_bind_Inr_iff)
qed

lemma resolve_None: "resolve_events_with_store fuel ext store rid rv ss None =
    resolve_events_with_store fuel ext store rid rv ss (Some [])"
  by (simp add: resolve_events_with_store_def)

end

section \<open>What the result does not depend on\<close>

lemma conflicted_auth_cong: "set fcs = set fcs' \<Longrightarrow> conflicted_auth ev fcs = conflicted_auth ev fcs'"
  by (auto simp: conflicted_auth_def fun_eq_iff split: option.splits)

lemma power_events_cong: "set fcs = set fcs' \<Longrightarrow> power_events ev fcs = power_events ev fcs'"
proof -
  assume s: "set fcs = set fcs'"
  show ?thesis by (simp only: power_events_def auth_closure_def conflicted_auth_cong[OF s] s)
qed

lemma dict_get_update_cong:
  "dict_get r = dict_get r' \<Longrightarrow> dict_get u = dict_get u' \<Longrightarrow> wf_dict u \<Longrightarrow> wf_dict u' \<Longrightarrow>
     dict_get (dict_update r u) = dict_get (dict_update r' u')"
  by (simp add: dict_get_update dict_get_rev)

lemma resolution_cong:
  assumes "set fcs = set fcs'" and "distinct fcs" and "distinct fcs'"
    and "dict_get u = dict_get u'" and "wf_dict u" and "wf_dict u'"
    and "resolution fuel ext ev rid rv u fcs r"
  shows "\<exists>r'. resolution fuel ext ev rid rv u' fcs' r' \<and> dict_get r = dict_get r'"
proof -
  from assms(7) obtain ps rs1 ls rs2 where
    k: "kahn (power_events ev fcs) (conflicted_auth ev fcs) (power_key ev rid) {} ps"
    and s: "iterative_spec ext ev rid rv ps u = Inr rs1"
      "mainline_sort_spec fuel ev rid (filter (\<lambda>i. i \<notin> set ps) fcs)
        (dict_get rs1 (EventTypes_PowerLevels, '''')) = Inr ls"
      "iterative_spec ext ev rid rv ls rs1 = Inr rs2" "r = dict_update rs2 u"
    by (auto simp: resolution_def)
  obtain rs1' where rs1': "iterative_spec ext ev rid rv ps u' = Inr rs1'" "dict_get rs1 = dict_get rs1'"
    using iterative_cong[OF assms(4) s(1)] by blast
  obtain rs2' where rs2': "iterative_spec ext ev rid rv ls rs1' = Inr rs2'" "dict_get rs2 = dict_get rs2'"
    using iterative_cong[OF rs1'(2) s(3)] by blast
  have "mset fcs' = mset fcs" using assms(1-3) by (simp add: set_eq_iff_mset_eq_distinct)
  then have "mset (filter (\<lambda>i. i \<notin> set ps) fcs') = mset (filter (\<lambda>i. i \<notin> set ps) fcs)" by simp
  from mainline_sort_perm[OF s(2) this]
  have "mainline_sort_spec fuel ev rid (filter (\<lambda>i. i \<notin> set ps) fcs')
      (dict_get rs1' (EventTypes_PowerLevels, '''')) = Inr ls" by (simp add: rs1'(2))
  moreover have "kahn (power_events ev fcs') (conflicted_auth ev fcs') (power_key ev rid) {} ps"
    using k unfolding power_events_cong[OF assms(1)] conflicted_auth_cong[OF assms(1)] .
  moreover have "(\<forall>i \<in> set fcs'. known_in_room ev rid i \<and> (\<exists>b. is_power_event (the (ev i)) = Inr b)) \<and>
     (\<forall>i \<in> power_events ev fcs'. \<exists>l. sender_level_spec ev rid i = Inr l)"
    using assms(7) unfolding resolution_def power_events_cong[OF assms(1)] assms(1) by blast
  ultimately have "resolution fuel ext ev rid rv u' fcs' (dict_update rs2' u')"
    unfolding resolution_def using rs1'(1) rs2'(1) by blast
  moreover have "dict_get r = dict_get (dict_update rs2' u')"
    unfolding s(4) by (rule dict_get_update_cong[OF rs2'(2) assms(4-6)])
  ultimately show ?thesis by blast
qed

text \<open>Two inputs that are the same set of states: the order of the state sets, their repetition and
  the order inside the dictionaries do not count.\<close>

definition same_states :: "state_ids list \<Rightarrow> state_ids list \<Rightarrow> bool" where
  "same_states ss ss' \<longleftrightarrow> (\<forall>s \<in> set ss \<union> set ss'. wf_dict s) \<and> dict_get ` set ss = dict_get ` set ss'"

lemma same_statesD:
  assumes "same_states ss ss'"
  shows "unanimous ss = unanimous ss'" and "candidates ss = candidates ss'"
    and "(\<lambda>s. set (map snd s)) ` set ss = (\<lambda>s. set (map snd s)) ` set ss'"
proof -
  let ?S = "dict_get ` set ss" and ?S' = "dict_get ` set ss'"
  have eq: "?S = ?S'" using assms by (simp add: same_states_def)
  have "unanimous t k i \<longleftrightarrow> dict_get ` set t \<noteq> {} \<and> (\<forall>m \<in> dict_get ` set t. m k = Some i)" for t k i
    by (auto simp: unanimous_def)
  then show "unanimous ss = unanimous ss'" by (intro ext) (simp only: eq)
  have "candidates t k = {i. \<exists>m \<in> dict_get ` set t. m k = Some i}" for t k
    by (auto simp: candidates_def)
  then show "candidates ss = candidates ss'" by (intro ext) (simp only: eq)
  have vals: "set (map snd s) = ran (dict_get s)" if "wf_dict s" for s :: state_ids
    using that by (simp add: wf_dict_def ran_distinct)
  have "(\<lambda>s. set (map snd s)) ` set t = ran ` dict_get ` set t" if "\<forall>s \<in> set t. wf_dict s" for t :: "state_ids list"
    using that vals by (force simp: image_image)
  then show "(\<lambda>s. set (map snd s)) ` set ss = (\<lambda>s. set (map snd s)) ` set ss'"
    using assms eq by (simp add: same_states_def)
qed

text \<open>What the database promises about auth chain differences: they depend on the state sets as sets.\<close>

locale difference_store = event_store +
  assumes difference_sets: "set ` set is = set ` set js \<Longrightarrow>
    set (get_auth_chain_difference store rid is) = set (get_auth_chain_difference store rid js)"
begin

lemma resolve_same_states:
  assumes same: "same_states ss ss'"
    and res: "resolve_events_with_store fuel ext store rid rv ss None = Inr r"
  shows "\<exists>r'. resolve_events_with_store fuel ext store rid rv ss' None = Inr r' \<and> dict_get r = dict_get r'"
proof -
  note d = same_statesD[OF same]
  obtain u c where sep: "seperate ss = (u, c)" by force
  obtain u' c' where sep': "seperate ss' = (u', c')" by force
  note s = seperate_spec[OF sep] and s' = seperate_spec[OF sep']
  have "dict_get u k = dict_get u' k" for k
    using s(1)[of k] s'(1)[of k] d(1) by (metis option.exhaust)
  then have u: "dict_get u = dict_get u'" by blast
  have ci: "conflicted_ids ss = conflicted_ids ss'" by (simp add: conflicted_ids_def d)
  have wf: "wf_dict []" by (simp add: wf_dict_def)
  have spec: "resolve_spec fuel ext store rid rv ss [] r"
    using res resolve_iff[OF wf] by (simp add: resolve_None)
  have "\<exists>r'. resolve_spec fuel ext store rid rv ss' [] r' \<and> dict_get r = dict_get r'"
  proof (cases "conflicted_ids ss = {}")
    case True
    with spec sep sep' u ci show ?thesis by (auto simp: resolve_spec_def)
  next
    case False
    let ?D = "\<lambda>ss. remdups (get_auth_chain_difference store rid (map (\<lambda>s. remdups (map snd s)) ss))"
    have diff: "compute_auth_chain_difference fuel store rid t [] = Inr (?D t)" for t
      by (simp add: compute_auth_chain_difference_def compute_events_to_auth_chain_def)
    let ?fcs = "\<lambda>c ss. filter (\<lambda>i. lookup store [] i \<noteq> None) (remdups (concat (map snd c) @ ?D ss))"
    have "set (?D ss) = set (?D ss')"
      unfolding set_remdups using d(3) by (intro difference_sets) (simp add: image_image)
    then have sets: "set (?fcs c ss) = set (?fcs c' ss')"
      using seperate_conflicted_ids(1)[OF sep] seperate_conflicted_ids(1)[OF sep'] ci
      by (simp del: set_concat)
    from spec sep False have "resolution fuel ext (lookup store []) rid rv u (?fcs c ss) r"
      by (auto simp: resolve_spec_def diff)
    from resolution_cong[OF sets _ _ u s(3) s'(3) this]
    obtain r' where "resolution fuel ext (lookup store []) rid rv u' (?fcs c' ss') r'" "dict_get r = dict_get r'"
      by auto
    with sep' False ci show ?thesis by (auto simp: resolve_spec_def diff)
  qed
  then show ?thesis using resolve_iff[OF wf] by (auto simp: resolve_None)
qed

end

section \<open>Where the result comes from\<close>

lemma resolution_unconflicted:
  assumes "resolution fuel ext ev rid rv u fcs r" and "wf_dict u" and "dict_get u k = Some i"
  shows "dict_get r k = Some i"
  using assms by (auto simp: resolution_def dict_get_update dict_get_rev map_add_def)

lemma resolution_provenance:
  assumes "resolution fuel ext ev rid rv u fcs r" and "wf_dict u" and "dict_get r (ty, k) = Some i"
  shows "dict_get u (ty, k) = Some i \<or> i \<in> set fcs \<and>
    (\<exists>e rs. ev i = Some e \<and> ev_type e = ty \<and> ev_state_key e = Some k \<and> passes ext ev rid rv e rs)"
proof -
  from assms(1) obtain ps rs1 ls rs2 where
    k: "kahn (power_events ev fcs) (conflicted_auth ev fcs) (power_key ev rid) {} ps"
    and s: "iterative_spec ext ev rid rv ps u = Inr rs1"
      "mainline_sort_spec fuel ev rid (filter (\<lambda>i. i \<notin> set ps) fcs)
        (dict_get rs1 (EventTypes_PowerLevels, '''')) = Inr ls"
      "iterative_spec ext ev rid rv ls rs1 = Inr rs2" "r = dict_update rs2 u"
    by (auto simp: resolution_def)
  have "power_events ev fcs \<subseteq> set fcs"
    unfolding power_events_def
    by (rule auth_closure_least) (auto simp: conflicted_auth_def split: option.splits)
  with k have ps: "set ps \<subseteq> set fcs" using kahn_in_closure by blast
  have ls: "set ls \<subseteq> set fcs" using mainline_sort_spec_subset[OF s(2)] by auto
  from assms(2,3) s(4) have "dict_get u (ty, k) = Some i \<or> dict_get rs2 (ty, k) = Some i"
    by (auto simp: dict_get_update dict_get_rev map_add_def split: option.splits)
  with iterative_provenance(2)[OF s(3), of ty k i] iterative_provenance(2)[OF s(1), of ty k i] ps ls
  show ?thesis by blast
qed

section \<open>Auth chain differences in memory\<close>

text \<open>The auth chain of a list of events, by depth-first search; a store in memory computes auth chain
  differences from it.\<close>

definition auth_ids :: "event_map \<Rightarrow> string \<Rightarrow> string list" where
  "auth_ids evs i = (case dict_get evs i of None \<Rightarrow> [] | Some e \<Rightarrow> auth_event_ids e)"

definition chain_universe :: "event_map \<Rightarrow> string set" where
  "chain_universe evs = (\<Union>e \<in> snd ` set evs. set (auth_event_ids e))"

lemma auth_ids_universe: "set (auth_ids evs i) \<subseteq> chain_universe evs"
proof (cases "dict_get evs i")
  case (Some e)
  then have "e \<in> snd ` set evs" by (auto dest!: map_of_SomeD intro: rev_image_eqI)
  with Some show ?thesis by (auto simp: auth_ids_def chain_universe_def)
qed (simp add: auth_ids_def)

lemma finite_chain_universe: "finite (chain_universe evs)"
  by (simp add: chain_universe_def)

function get_auth_chain :: "event_map \<Rightarrow> string list \<Rightarrow> string list \<Rightarrow> string list" where
  "get_auth_chain evs [] res = res"
| "get_auth_chain evs (i # stack) res =
     (if i \<in> set res then get_auth_chain evs stack res
      else get_auth_chain evs (rev (auth_ids evs i) @ stack) (set_add i res))"
  by pat_completeness auto
termination
proof (relation "measures [\<lambda>(evs, st, res). card ((chain_universe evs \<union> set st) - set res), \<lambda>(evs, st, res). length st]")
  fix evs :: event_map and i :: string and stack res :: "string list"
  assume new: "i \<notin> set res"
  have "card ((chain_universe evs \<union> set (rev (auth_ids evs i) @ stack)) - set (set_add i res)) <
      card ((chain_universe evs \<union> set (i # stack)) - set res)"
    using auth_ids_universe[of evs i] new finite_chain_universe by (intro psubset_card_mono) auto
  then show "((evs, rev (auth_ids evs i) @ stack, set_add i res), (evs, i # stack, res))
      \<in> measures [\<lambda>(evs, st, res). card ((chain_universe evs \<union> set st) - set res), \<lambda>(evs, st, res). length st]"
    by simp
next
  fix evs :: event_map and i :: string and stack res :: "string list"
  assume "i \<in> set res"
  then have "(chain_universe evs \<union> set (i # stack)) - set res = (chain_universe evs \<union> set stack) - set res" by auto
  then show "((evs, stack, res), (evs, i # stack, res))
      \<in> measures [\<lambda>(evs, st, res). card ((chain_universe evs \<union> set st) - set res), \<lambda>(evs, st, res). length st]"
    by simp
qed simp

lemma get_auth_chain_closed:
  assumes "\<And>i. i \<in> set res \<Longrightarrow> set (auth_ids evs i) \<subseteq> set res \<union> set st"
  shows "set (get_auth_chain evs st res) = {j. \<exists>i \<in> set st \<union> set res. (i, j) \<in> {(a, b). b \<in> set (auth_ids evs a)}\<^sup>*}"
  using assms
proof (induction evs st res rule: get_auth_chain.induct)
  case (1 evs res)
  let ?R = "{(a, b). b \<in> set (auth_ids evs a)}"
  have "j \<in> set res" if "(i, j) \<in> ?R\<^sup>*" "i \<in> set res" for i j
    using that by (induction rule: rtrancl_induct) (use 1 in auto)
  then show ?case by auto
next
  case (2 evs i st res)
  let ?R = "{(a, b). b \<in> set (auth_ids evs a)}"
  let ?C = "\<lambda>S. {j. \<exists>i \<in> S. (i, j) \<in> ?R\<^sup>*}"
  show ?case
  proof (cases "i \<in> set res")
    case True
    have "set (get_auth_chain evs st res) = ?C (set st \<union> set res)"
      using 2(1)[OF True] 2(3) True by auto
    with True show ?thesis by (simp add: insert_absorb)
  next
    case False
    have "set (get_auth_chain evs (rev (auth_ids evs i) @ st) (set_add i res)) =
        ?C (set (rev (auth_ids evs i) @ st) \<union> set (set_add i res))"
      by (rule 2(2)[OF False]) (use 2(3) in auto)
    also have "\<dots> = ?C (set (i # st) \<union> set res)"
      by (auto intro: converse_rtrancl_into_rtrancl)
    finally show ?thesis using False by simp
  qed
qed

definition auth_chain_difference :: "event_map \<Rightarrow> string \<Rightarrow> string list list \<Rightarrow> string list" where
  "auth_chain_difference evs rid auth_sets =
     (let chains = map (\<lambda>a. get_auth_chain evs a []) auth_sets
      in filter (\<lambda>i. \<exists>c \<in> set chains. i \<notin> set c) (remdups (concat chains)))"

interpretation memory_difference: difference_store "dict_store evs (auth_chain_difference evs)" for evs
proof unfold_locales
  fix "is" js :: "string list list" and rid :: string
  assume eq: "set ` set is = set ` set js"
  let ?C = "\<lambda>S. {j. \<exists>i \<in> S. (i, j) \<in> {(a, b). b \<in> set (auth_ids evs a)}\<^sup>*}"
  have chain: "set (get_auth_chain evs a []) = ?C (set a)" for a
    using get_auth_chain_closed[of "[]" evs a] by simp
  have diff: "set (auth_chain_difference evs rid l) =
      {i. (\<exists>S \<in> set ` set l. i \<in> ?C S) \<and> (\<exists>S \<in> set ` set l. i \<notin> ?C S)}" for l
    unfolding auth_chain_difference_def Let_def using chain by auto
  show "set (get_auth_chain_difference (dict_store evs (auth_chain_difference evs)) rid is) =
      set (get_auth_chain_difference (dict_store evs (auth_chain_difference evs)) rid js)"
    by (simp only: dict_store_def state_res_store.simps diff eq)
qed

end
