(* ===== verification/Auth_Safety.thy ===== *)
theory Auth_Safety
  imports Event_Auth
begin

text \<open>
  What an accepted event implies. The membership rules are restated as an inductive relation
  \<open>may_change\<close>, one rule per way a membership may change, and the code is shown to accept exactly
  what the relation allows. The power level rules are shown to let nobody hand out, or take away,
  more power than they hold. The size and signature checks and the state-independent rules are
  characterised by what they accept and by the error each branch raises.
\<close>

section \<open>Membership changes as a relation\<close>

text \<open>The user who authorises a restricted join is in the room and may invite.\<close>

definition authorised_by :: "event \<Rightarrow> event state_map \<Rightarrow> int \<Rightarrow> string \<Rightarrow> bool" where
  "authorised_by e m ilevel u \<longleftrightarrow>
     dict_get (content e) AUTHORISING_USER = Some (JStr u) \<and>
     (\<exists>me. m (EventTypes_Member, u) = Some me \<and> membership me = Inr Membership_JOIN) \<and>
     (\<exists>l. get_user_power_level (JStr u) m = Inr l \<and> ilevel \<le> l)"

text \<open>The join rules under which being in the room, or invited, is enough to join.\<close>

definition join_rule_allows_invited :: "room_version \<Rightarrow> json \<Rightarrow> bool" where
  "join_rule_allows_invited rv jr \<longleftrightarrow>
     jr = JoinRules_INVITE \<or> knock_join_rule rv \<and> jr = JoinRules_KNOCK \<or>
     restricted_join_rule rv \<and> jr = JoinRules_RESTRICTED \<or>
     knock_restricted_join_rule rv \<and> jr = JoinRules_KNOCK_RESTRICTED"

inductive may_change ::
    "room_version \<Rightarrow> event \<Rightarrow> event state_map \<Rightarrow> membership_context \<Rightarrow> json \<Rightarrow> bool"
  for rv :: room_version and e :: event and m :: "event state_map" and c :: membership_context where
  invite: "\<lbrakk>caller_in_room c; \<not> target_banned c; \<not> target_in_room c; invite_level c \<le> user_level c\<rbrakk>
    \<Longrightarrow> may_change rv e m c Membership_INVITE"
| join_public: "\<lbrakk>sender e = target_user_id c; \<not> target_banned c; join_rule c = JoinRules_PUBLIC\<rbrakk>
    \<Longrightarrow> may_change rv e m c Membership_JOIN"
| join_invited: "\<lbrakk>sender e = target_user_id c; \<not> target_banned c; caller_in_room c \<or> caller_invited c;
      join_rule_allows_invited rv (join_rule c)\<rbrakk>
    \<Longrightarrow> may_change rv e m c Membership_JOIN"
| join_authorised: "\<lbrakk>sender e = target_user_id c; \<not> target_banned c;
      restricted_join_rule rv \<and> join_rule c = JoinRules_RESTRICTED \<or>
      knock_restricted_join_rule rv \<and> join_rule c = JoinRules_KNOCK_RESTRICTED;
      authorised_by e m (invite_level c) u\<rbrakk>
    \<Longrightarrow> may_change rv e m c Membership_JOIN"
| decline: "\<lbrakk>target_user_id c = sender e; caller_invited c \<or> caller_knocked c\<rbrakk>
    \<Longrightarrow> may_change rv e m c Membership_LEAVE"
| leave: "\<lbrakk>target_user_id c = sender e; caller_in_room c; target_banned c \<Longrightarrow> ban_level c \<le> user_level c\<rbrakk>
    \<Longrightarrow> may_change rv e m c Membership_LEAVE"
| kick: "\<lbrakk>target_user_id c \<noteq> sender e; caller_in_room c; target_banned c \<Longrightarrow> ban_level c \<le> user_level c;
      get_named_level m ''kick'' 50 = Inr l; l \<le> user_level c; target_level c < user_level c\<rbrakk>
    \<Longrightarrow> may_change rv e m c Membership_LEAVE"
| ban: "\<lbrakk>caller_in_room c; ban_level c \<le> user_level c; target_level c < user_level c\<rbrakk>
    \<Longrightarrow> may_change rv e m c Membership_BAN"
| knock: "\<lbrakk>knock_join_rule rv; join_rule c = JoinRules_KNOCK \<or>
      knock_restricted_join_rule rv \<and> join_rule c = JoinRules_KNOCK_RESTRICTED;
      target_user_id c = sender e; \<not> target_in_room c; \<not> caller_invited c; \<not> target_banned c\<rbrakk>
    \<Longrightarrow> may_change rv e m c Membership_KNOCK"

inductive_cases may_inviteE: "may_change rv e m c Membership_INVITE"
inductive_cases may_joinE: "may_change rv e m c Membership_JOIN"
inductive_cases may_leaveE: "may_change rv e m c Membership_LEAVE"
inductive_cases may_banE: "may_change rv e m c Membership_BAN"
inductive_cases may_knockE: "may_change rv e m c Membership_KNOCK"

lemma may_change_known:
  "may_change rv e m c ms \<Longrightarrow> ms \<in> {Membership_INVITE, Membership_JOIN, Membership_LEAVE,
     Membership_BAN} \<or> knock_join_rule rv \<and> ms = Membership_KNOCK"
  by (induction rule: may_change.induct) auto

lemma check_invite_iff:
  "caller_in_room c \<Longrightarrow> check_invite c = Inr () \<longleftrightarrow> may_change rv e m c Membership_INVITE"
  by (auto simp: check_invite_def intro: may_change.invite elim: may_inviteE)

lemma check_ban_iff:
  "caller_in_room c \<Longrightarrow> check_ban c = Inr () \<longleftrightarrow> may_change rv e m c Membership_BAN"
  by (auto simp: check_ban_def intro: may_change.ban elim: may_banE)

lemma check_knock_iff:
  "knock_join_rule rv \<Longrightarrow> check_knock rv e c = Inr () \<longleftrightarrow> may_change rv e m c Membership_KNOCK"
  by (auto simp: check_knock_def intro: may_change.knock elim: may_knockE)

lemma check_leave_iff:
  assumes "caller_in_room c" and "\<not> (caller_invited c \<or> caller_knocked c) \<or> target_user_id c \<noteq> sender e"
  shows "check_leave e m c = Inr () \<longleftrightarrow> may_change rv e m c Membership_LEAVE"
proof
  assume a: "check_leave e m c = Inr ()"
  show "may_change rv e m c Membership_LEAVE"
  proof (cases "target_user_id c = sender e")
    case True
    with a assms show ?thesis by (auto simp: check_leave_def intro: may_change.leave split: if_splits)
  next
    case False
    with a obtain l where "get_named_level m ''kick'' 50 = Inr l" "l \<le> user_level c"
      "target_level c < user_level c" "target_banned c \<Longrightarrow> ban_level c \<le> user_level c"
      by (auto simp: check_leave_def py_bind_Inr_iff split: if_splits)
    with False assms(1) show ?thesis by (auto intro: may_change.kick)
  qed
next
  assume "may_change rv e m c Membership_LEAVE"
  then show "check_leave e m c = Inr ()"
    using assms by (cases rule: may_leaveE) (auto simp: check_leave_def py_bind_Inr_iff)
qed

lemma check_join_authorised_iff:
  "check_join_authorised e m il = Inr () \<longleftrightarrow> (\<exists>u. authorised_by e m il u)"
proof (cases "dict_get (content e) AUTHORISING_USER")
  case None
  then show ?thesis by (simp add: check_join_authorised_def or_default_def authorised_by_def)
next
  case (Some v)
  show ?thesis
  proof (cases v)
    case (JStr u)
    then show ?thesis
      using Some by (auto simp: check_join_authorised_def or_default_def authorised_by_def py_bind_Inr_iff check_joined_room_def
          not_less split: option.splits)
  qed (auto simp: Some check_join_authorised_def or_default_def authorised_by_def auth_get_def check_joined_room_def)
qed

lemma check_join_iff:
  "check_join rv e m c = Inr () \<longleftrightarrow> may_change rv e m c Membership_JOIN"
proof
  assume a: "check_join rv e m c = Inr ()"
  then have s: "sender e = target_user_id c" and b: "\<not> target_banned c"
    by (auto simp: check_join_def split: if_splits)
  let ?R = "restricted_join_rule rv \<and> join_rule c = JoinRules_RESTRICTED \<or>
      knock_restricted_join_rule rv \<and> join_rule c = JoinRules_KNOCK_RESTRICTED"
  consider "join_rule c = JoinRules_PUBLIC" | "join_rule c \<noteq> JoinRules_PUBLIC" "?R"
      "caller_in_room c \<or> caller_invited c"
    | "join_rule c \<noteq> JoinRules_PUBLIC" "?R" "\<not> caller_in_room c" "\<not> caller_invited c"
    | "join_rule c \<noteq> JoinRules_PUBLIC" "\<not> ?R" by blast
  then show "may_change rv e m c Membership_JOIN"
  proof cases
    case 1
    with s b show ?thesis by (rule may_change.join_public)
  next
    case 2
    with s b show ?thesis
      by (intro may_change.join_invited) (auto simp: join_rule_allows_invited_def)
  next
    case 3
    with a s b obtain u where "authorised_by e m (invite_level c) u"
      by (auto simp: check_join_def check_join_authorised_iff)
    with s b 3 show ?thesis by (intro may_change.join_authorised)
  next
    case 4
    with a s b show ?thesis
      by (intro may_change.join_invited)
        (auto simp: check_join_def join_rule_allows_invited_def split: if_splits)
  qed
next
  assume "may_change rv e m c Membership_JOIN"
  then show "check_join rv e m c = Inr ()"
  proof (cases rule: may_change.cases)
    case join_public
    then show ?thesis by (simp add: check_join_def)
  next
    case join_invited
    then show ?thesis by (auto simp: check_join_def join_rule_allows_invited_def)
  next
    case (join_authorised u)
    then have "check_join_authorised e m (invite_level c) = Inr ()"
      by (auto simp: check_join_authorised_iff)
    with join_authorised show ?thesis by (auto simp: check_join_def)
  qed
qed

section \<open>The membership rules implement the relation\<close>

text \<open>A change that needs a joined caller: anything but a join, a knock and declining.\<close>

lemma may_change_needs_caller:
  assumes "may_change rv e m c ms" and "ms \<noteq> Membership_JOIN" and "ms \<noteq> Membership_KNOCK"
  shows "caller_in_room c \<or>
    ms = Membership_LEAVE \<and> target_user_id c = sender e \<and> (caller_invited c \<or> caller_knocked c)"
  using assms by (cases rule: may_change.cases) auto

lemma check_membership_change_iff:
  assumes "ms = Membership_JOIN \<or> ms = Membership_KNOCK \<or> caller_in_room c"
    and "ms = Membership_LEAVE \<Longrightarrow> \<not> (caller_invited c \<or> caller_knocked c) \<or> target_user_id c \<noteq> sender e"
  shows "check_membership_change rv e m ms c = Inr () \<longleftrightarrow> may_change rv e m c ms"
proof -
  consider "ms = Membership_INVITE" | "ms = Membership_JOIN" | "ms = Membership_LEAVE"
    | "ms = Membership_BAN" | "ms = Membership_KNOCK" "knock_join_rule rv"
    | "ms \<notin> {Membership_INVITE, Membership_JOIN, Membership_LEAVE, Membership_BAN}"
      "\<not> (knock_join_rule rv \<and> ms = Membership_KNOCK)"
    by blast
  then show ?thesis
  proof cases
    case 1
    with assms(1) show ?thesis by (simp add: check_membership_change_def check_invite_iff)
  next
    case 2
    then show ?thesis by (simp add: check_membership_change_def check_join_iff)
  next
    case 3
    with assms show ?thesis by (simp add: check_membership_change_def check_leave_iff)
  next
    case 4
    with assms(1) show ?thesis by (simp add: check_membership_change_def check_ban_iff)
  next
    case 5
    then show ?thesis by (simp add: check_membership_change_def check_knock_iff)
  next
    case 6
    then have "\<not> may_change rv e m c ms" using may_change_known by blast
    with 6 show ?thesis by (auto simp: check_membership_change_def)
  qed
qed

text \<open>The whole function: the creator's first join, an invite that redeems a third-party invite, or
  a change the relation allows.\<close>

definition membership_change_spec ::
    "externals \<Rightarrow> room_version \<Rightarrow> event \<Rightarrow> event state_map \<Rightarrow> bool" where
  "membership_change_spec ext rv e m \<longleftrightarrow>
     (\<exists>ms. membership e = Inr ms \<and>
       (is_creator_join rv e m ms = Inr True \<or>
        (\<exists>c. is_creator_join rv e m ms = Inr False \<and> get_membership_context rv e m = Inr c \<and>
          (if ms = Membership_INVITE \<and> dict_has (content e) ''third_party_invite''
           then verify_third_party_invite ext e m = Inr True \<and> \<not> target_banned c
           else may_change rv e m c ms))))"

lemma membership_change_with_context:
  assumes "\<not> (ms = Membership_INVITE \<and> dict_has (content e) ''third_party_invite'')"
  shows "(if ms \<noteq> Membership_JOIN \<and> ms \<noteq> Membership_KNOCK \<and>
             (caller_invited c \<or> caller_knocked c) \<and> ms = Membership_LEAVE \<and>
             target_user_id c = sender e
          then Inr ()
          else if ms \<noteq> Membership_JOIN \<and> ms \<noteq> Membership_KNOCK \<and> \<not> caller_in_room c
          then Inl (UnstableSpecAuthError 403 NOT_JOINED)
          else check_membership_change rv e m ms c) = Inr () \<longleftrightarrow> may_change rv e m c ms"
proof -
  consider "ms = Membership_LEAVE" "caller_invited c \<or> caller_knocked c" "target_user_id c = sender e"
    | "\<not> (ms = Membership_LEAVE \<and> (caller_invited c \<or> caller_knocked c) \<and> target_user_id c = sender e)"
      "ms \<noteq> Membership_JOIN" "ms \<noteq> Membership_KNOCK" "\<not> caller_in_room c"
    | "\<not> (ms = Membership_LEAVE \<and> (caller_invited c \<or> caller_knocked c) \<and> target_user_id c = sender e)"
      "ms = Membership_JOIN \<or> ms = Membership_KNOCK \<or> caller_in_room c"
    by blast
  then show ?thesis
  proof cases
    case 1
    then show ?thesis by (auto intro: may_change.decline)
  next
    case 2
    then have "\<not> may_change rv e m c ms" using may_change_needs_caller by blast
    with 2 show ?thesis by auto
  next
    case 3
    have "check_membership_change rv e m ms c = Inr () \<longleftrightarrow> may_change rv e m c ms"
      by (rule check_membership_change_iff) (use 3 in auto)
    with 3 show ?thesis by auto
  qed
qed

lemma ex_membership: "membership e = Inr ms \<Longrightarrow> (\<exists>ms'. membership e = Inr ms' \<and> P ms') \<longleftrightarrow> P ms"
  by auto

lemma membership_change_spec_cases:
  assumes "membership e = Inr ms" and "is_creator_join rv e m ms = Inr b"
  shows "membership_change_spec ext rv e m \<longleftrightarrow> b \<or>
     (\<exists>c. get_membership_context rv e m = Inr c \<and>
       (if ms = Membership_INVITE \<and> dict_has (content e) ''third_party_invite''
        then verify_third_party_invite ext e m = Inr True \<and> \<not> target_banned c
        else may_change rv e m c ms))"
  unfolding membership_change_spec_def
  by (simp only: ex_membership[OF assms(1)] assms(2)) (cases b, auto)

lemma is_membership_change_allowed_iff:
  "is_membership_change_allowed ext rv e m = Inr () \<longleftrightarrow> membership_change_spec ext rv e m"
proof (cases "membership e")
  case (Inl err)
  then have "membership e \<noteq> Inr ms" for ms by simp
  with Inl show ?thesis unfolding is_membership_change_allowed_def membership_change_spec_def by auto
next
  case (Inr ms)
  show ?thesis
  proof (cases "is_creator_join rv e m ms")
    case (Inl err)
    have "\<not> membership_change_spec ext rv e m"
      unfolding membership_change_spec_def ex_membership[OF Inr] Inl by simp
    then show ?thesis
      unfolding is_membership_change_allowed_def Inr py_bind.simps Inl by simp
  next
    case cj: (Inr b)
    note spec = membership_change_spec_cases[OF Inr cj]
    show ?thesis
    proof (cases b)
      case True
      then show ?thesis
        unfolding is_membership_change_allowed_def spec Inr cj py_bind.simps by simp
    next
      case False
      show ?thesis
      proof (cases "ms = Membership_INVITE \<and> dict_has (content e) ''third_party_invite''")
        case tp: True
        show ?thesis
          unfolding is_membership_change_allowed_def spec Inr cj py_bind.simps if_not_P[OF False]
            if_P[OF tp] py_bind_Inr_iff using False by (auto split: if_splits)
      next
        case ntp: False
        show ?thesis
          unfolding is_membership_change_allowed_def spec Inr cj py_bind.simps if_not_P[OF False]
            if_not_P[OF ntp] py_bind_Inr_iff membership_change_with_context[OF ntp]
          using False by simp
      qed
    qed
  qed
qed

section \<open>What an accepted membership change implies\<close>

definition has_membership :: "event state_map \<Rightarrow> string \<Rightarrow> json \<Rightarrow> bool" where
  "has_membership m u ms \<longleftrightarrow> (\<exists>me. m (EventTypes_Member, u) = Some me \<and> membership me = Inr ms)"

lemma member_of_Some:
  "member_of (m (EventTypes_Member, u)) = Inr x \<Longrightarrow> x = Some ms \<longleftrightarrow> has_membership m u ms"
  by (auto simp: member_of_def has_membership_def py_bind_Inr_iff split: option.splits)

lemma get_membership_contextD:
  assumes "get_membership_context rv e m = Inr c"
  shows "ev_state_key e = Some (target_user_id c)"
    and "get_user_power_level (JStr (sender e)) m = Inr (user_level c)"
    and "get_user_power_level (JStr (target_user_id c)) m = Inr (target_level c)"
    and "get_named_level m ''ban'' 50 = Inr (ban_level c)"
    and "get_named_level m ''invite'' 0 = Inr (invite_level c)"
    and "caller_in_room c \<longleftrightarrow> has_membership m (sender e) Membership_JOIN"
    and "target_banned c \<longleftrightarrow> has_membership m (target_user_id c) Membership_BAN"
  using assms unfolding get_membership_context_def
  by (auto simp: py_bind_Inr_iff member_of_Some split: if_splits)

lemma is_creator_join_only_join:
  "is_creator_join rv e m ms = Inr True \<Longrightarrow> ms = Membership_JOIN"
  by (auto simp: is_creator_join_def split: if_splits)

text \<open>An accepted change that is not the creator's first join has a context.\<close>

lemma accepted_changeE:
  assumes "is_membership_change_allowed ext rv e m = Inr ()" and "membership e = Inr ms"
    and "is_creator_join rv e m ms \<noteq> Inr True"
  obtains c where "get_membership_context rv e m = Inr c"
    and "if ms = Membership_INVITE \<and> dict_has (content e) ''third_party_invite''
         then verify_third_party_invite ext e m = Inr True \<and> \<not> target_banned c
         else may_change rv e m c ms"
proof -
  from assms(1) have "membership_change_spec ext rv e m"
    by (simp only: is_membership_change_allowed_iff)
  then show thesis
    using that assms(3) unfolding membership_change_spec_def ex_membership[OF assms(2)] by blast
qed

lemma banned_user_stays_out:
  assumes "has_membership m u Membership_BAN" and "ev_state_key e = Some u"
    and "membership e = Inr ms" and "ms \<in> {Membership_JOIN, Membership_INVITE, Membership_KNOCK}"
    and "is_creator_join rv e m ms \<noteq> Inr True"
  shows "is_membership_change_allowed ext rv e m \<noteq> Inr ()"
proof
  assume "is_membership_change_allowed ext rv e m = Inr ()"
  then obtain c where c: "get_membership_context rv e m = Inr c"
    and r: "if ms = Membership_INVITE \<and> dict_has (content e) ''third_party_invite''
         then verify_third_party_invite ext e m = Inr True \<and> \<not> target_banned c
         else may_change rv e m c ms"
    using assms(3,5) by (rule accepted_changeE)
  have "target_banned c"
    using get_membership_contextD[OF c] assms(1,2) by simp
  with r assms(4) show False
    by (auto split: if_splits elim: may_inviteE may_joinE may_knockE)
qed

lemma removal_needs_power:
  assumes "is_membership_change_allowed ext rv e m = Inr ()" and "membership e = Inr ms"
    and "ev_state_key e = Some u"
    and "ms = Membership_BAN \<or> ms = Membership_LEAVE \<and> u \<noteq> sender e"
  shows "has_membership m (sender e) Membership_JOIN"
    and "\<exists>ul tl. get_user_power_level (JStr (sender e)) m = Inr ul \<and>
           get_user_power_level (JStr u) m = Inr tl \<and> tl < ul \<and>
           (ms = Membership_BAN \<or> has_membership m u Membership_BAN \<longrightarrow>
             (\<exists>bl. get_named_level m ''ban'' 50 = Inr bl \<and> bl \<le> ul)) \<and>
           (ms = Membership_LEAVE \<longrightarrow> (\<exists>kl. get_named_level m ''kick'' 50 = Inr kl \<and> kl \<le> ul))"
proof -
  have nj: "is_creator_join rv e m ms \<noteq> Inr True"
    using assms(4) is_creator_join_only_join by auto
  obtain c where c: "get_membership_context rv e m = Inr c"
    and r: "if ms = Membership_INVITE \<and> dict_has (content e) ''third_party_invite''
         then verify_third_party_invite ext e m = Inr True \<and> \<not> target_banned c
         else may_change rv e m c ms"
    using accepted_changeE[OF assms(1,2) nj] .
  note d = get_membership_contextD[OF c]
  have u: "u = target_user_id c" using d(1) assms(3) by simp
  from r assms(4) have may: "may_change rv e m c ms" by auto
  then have facts: "caller_in_room c \<and> target_level c < user_level c \<and>
      (ms = Membership_BAN \<or> target_banned c \<longrightarrow> ban_level c \<le> user_level c) \<and>
      (ms = Membership_LEAVE \<longrightarrow> (\<exists>kl. get_named_level m ''kick'' 50 = Inr kl \<and> kl \<le> user_level c))"
    using assms(4) u by (cases rule: may_change.cases) auto
  show "has_membership m (sender e) Membership_JOIN" using facts d(6) by simp
  show "\<exists>ul tl. get_user_power_level (JStr (sender e)) m = Inr ul \<and>
           get_user_power_level (JStr u) m = Inr tl \<and> tl < ul \<and>
           (ms = Membership_BAN \<or> has_membership m u Membership_BAN \<longrightarrow>
             (\<exists>bl. get_named_level m ''ban'' 50 = Inr bl \<and> bl \<le> ul)) \<and>
           (ms = Membership_LEAVE \<longrightarrow> (\<exists>kl. get_named_level m ''kick'' 50 = Inr kl \<and> kl \<le> ul))"
    using facts d u by (intro exI[of _ "user_level c"] exI[of _ "target_level c"]) simp
qed

section \<open>Power levels\<close>

lemma check_level_change_Inr:
  assumes "check_level_change u ul old new r = Inr ()"
  shows "\<exists>o' n. level_at old r = Inr o' \<and> level_at new r = Inr n \<and>
    (n \<noteq> o' \<longrightarrow> (\<forall>l. n = Some l \<longrightarrow> l \<le> ul) \<and>
       (\<forall>l. o' = Some l \<longrightarrow> l \<le> ul \<and> (snd r = Some ''users'' \<and> fst r \<noteq> JStr u \<longrightarrow> l < ul)))"
  using assms unfolding check_level_change_def
  by (auto simp: py_bind_Inr_iff not_less le_less split: if_splits option.splits)

lemma level_at_absent:
  assumes "get_subdict cont dir = Inr d" and "\<not> dict_has d k"
  shows "level_at cont (JStr k, Some dir) = Inr None"
  using assms by (cases "dict_get_default cont dir (JObj [])") (auto simp: get_subdict_def level_at_def)

lemma dir_levels_complete:
  assumes "dir_levels old new dir = Inr ls"
    and "get_subdict old dir = Inr od" and "get_subdict new dir = Inr nd"
    and "dict_has od k \<or> dict_has nd k"
  shows "(JStr k, Some dir) \<in> set ls"
proof -
  have o': "dict_get_default old dir (JObj []) = JObj od" and n: "dict_get_default new dir (JObj []) = JObj nd"
    using assms(2,3) by (auto simp: get_subdict_def elim: as_dict.elims)
  let ?ks = "map JStr (dict_keys od) @ map JStr (dict_keys nd)"
  have "JStr k \<in> set ?ks"
    using assms(4) by (auto simp: dict_has_def dest: map_of_SomeD intro: rev_image_eqI)
  moreover have "ls = map (\<lambda>k. (k, Some dir)) (remdups ?ks)"
    using assms(1) unfolding dir_levels_def o' n py_list.simps py_bind.simps py_set_def
    by (simp split: if_splits del: map_map)
  ultimately show ?thesis by (simp del: map_map)
qed

text \<open>Every level of a user that an accepted change alters stays within the sender's own level, and
  another user's level is only altered if it was below the sender's.\<close>

lemma check_power_levels_users:
  assumes ok: "check_power_levels rv e m = Inr ()"
    and ty: "ev_type e = EventTypes_PowerLevels" and sk: "ev_state_key e = Some ''''"
    and cur: "m (EventTypes_PowerLevels, '''') = Some cur"
  shows "\<exists>ul. get_user_power_level (JStr (sender e)) m = Inr ul \<and>
    (\<forall>u. \<exists>o' n. level_at (content cur) (JStr u, Some ''users'') = Inr o' \<and>
       level_at (content e) (JStr u, Some ''users'') = Inr n \<and>
       (n \<noteq> o' \<longrightarrow> (\<forall>l. n = Some l \<longrightarrow> l \<le> ul) \<and>
          (\<forall>l. o' = Some l \<longrightarrow> l \<le> ul \<and> (u \<noteq> sender e \<longrightarrow> l < ul))))"
proof -
  from ok cur ty sk obtain nd ul ls where nd: "get_subdict (content e) ''users'' = Inr nd"
    and ul: "get_user_power_level (JStr (sender e)) m = Inr ul"
    and ls: "levels_to_check rv (content cur) (content e) = Inr ls"
    and all: "py_for (\<lambda>r _. check_level_change (sender e) ul (content cur) (content e) r) ls () = Inr ()"
    unfolding check_power_levels_def by (auto simp: py_bind_Inr_iff)
  from ul cur obtain od where od: "get_subdict (content cur) ''users'' = Inr od"
    by (auto simp: get_user_power_level_def get_power_level_event_def py_bind_Inr_iff)
  from ls obtain us where us: "dir_levels (content cur) (content e) ''users'' = Inr us" "set us \<subseteq> set ls"
    unfolding levels_to_check_def py_bind_Inr_iff by fastforce
  have "\<exists>o' n. level_at (content cur) (JStr u, Some ''users'') = Inr o' \<and>
       level_at (content e) (JStr u, Some ''users'') = Inr n \<and>
       (n \<noteq> o' \<longrightarrow> (\<forall>l. n = Some l \<longrightarrow> l \<le> ul) \<and>
          (\<forall>l. o' = Some l \<longrightarrow> l \<le> ul \<and> (u \<noteq> sender e \<longrightarrow> l < ul)))" for u
  proof (cases "dict_has od u \<or> dict_has nd u")
    case True
    with dir_levels_complete[OF us(1) od nd] us(2) have "(JStr u, Some ''users'') \<in> set ls" by blast
    with all have "check_level_change (sender e) ul (content cur) (content e) (JStr u, Some ''users'') = Inr ()"
      by (simp add: py_for_unit_Inr_iff)
    from check_level_change_Inr[OF this] show ?thesis by simp
  next
    case False
    then show ?thesis using level_at_absent[OF od] level_at_absent[OF nd] by simp
  qed
  with ul show ?thesis by blast
qed

text \<open>The same for the seven plain levels.\<close>

lemma check_power_levels_named:
  assumes ok: "check_power_levels rv e m = Inr ()"
    and ty: "ev_type e = EventTypes_PowerLevels" and sk: "ev_state_key e = Some ''''"
    and cur: "m (EventTypes_PowerLevels, '''') = Some cur" and k: "k \<in> set int_level_keys"
  shows "\<exists>ul o' n. get_user_power_level (JStr (sender e)) m = Inr ul \<and>
    level_at (content cur) (JStr k, None) = Inr o' \<and> level_at (content e) (JStr k, None) = Inr n \<and>
    (n \<noteq> o' \<longrightarrow> (\<forall>l. n = Some l \<longrightarrow> l \<le> ul) \<and> (\<forall>l. o' = Some l \<longrightarrow> l \<le> ul))"
proof -
  from ok cur ty sk obtain ul ls where ul: "get_user_power_level (JStr (sender e)) m = Inr ul"
    and ls: "levels_to_check rv (content cur) (content e) = Inr ls"
    and all: "py_for (\<lambda>r _. check_level_change (sender e) ul (content cur) (content e) r) ls () = Inr ()"
    unfolding check_power_levels_def by (auto simp: py_bind_Inr_iff)
  have "(JStr k, None) \<in> set ls"
    using ls k by (auto simp: levels_to_check_def py_bind_Inr_iff)
  with all have "check_level_change (sender e) ul (content cur) (content e) (JStr k, None) = Inr ()"
    by (simp add: py_for_unit_Inr_iff)
  from check_level_change_Inr[OF this] ul show ?thesis by auto
qed

section \<open>Events that are not membership changes\<close>

lemma check_joined_room_iff:
  "check_joined_room (m (EventTypes_Member, u)) = Inr () \<longleftrightarrow> has_membership m u Membership_JOIN"
  by (auto simp: check_joined_room_def has_membership_def py_bind_Inr_iff split: option.splits)

lemma can_send_event_level:
  assumes "can_send_event ext e m = Inr ()"
  shows "\<exists>sl ul. get_send_level (ev_type e) (get_state_key e) (get_power_level_event m) = Inr sl \<and>
    get_user_power_level (JStr (sender e)) m = Inr ul \<and> sl \<le> ul"
  using assms by (auto simp: can_send_event_def py_bind_Inr_iff not_less split: if_splits)

lemma check_other_event_Inr:
  assumes "check_other_event ext e m = Inr e'"
  shows "has_membership m (sender e) Membership_JOIN"
    and "ev_type e = EventTypes_ThirdPartyInvite \<Longrightarrow>
      \<exists>il ul. get_named_level m ''invite'' 0 = Inr il \<and>
        get_user_power_level (JStr (sender e)) m = Inr ul \<and> il \<le> ul"
    and "ev_type e \<noteq> EventTypes_ThirdPartyInvite \<Longrightarrow> can_send_event ext e m = Inr ()"
    and "ev_type e = EventTypes_PowerLevels \<Longrightarrow> check_power_levels (ev_room_version e) e m = Inr ()"
proof -
  from assms show "has_membership m (sender e) Membership_JOIN"
    unfolding check_other_event_def py_bind_Inr_iff check_event_sender_in_room_def
    by (auto simp: check_joined_room_iff)
  show "\<exists>il ul. get_named_level m ''invite'' 0 = Inr il \<and>
        get_user_power_level (JStr (sender e)) m = Inr ul \<and> il \<le> ul"
    if "ev_type e = EventTypes_ThirdPartyInvite"
    using assms that unfolding check_other_event_def py_bind_Inr_iff
    by (auto simp: py_bind_Inr_iff not_less split: if_splits)
  show "can_send_event ext e m = Inr ()" if "ev_type e \<noteq> EventTypes_ThirdPartyInvite"
    using assms that unfolding check_other_event_def by (auto simp: py_bind_Inr_iff)
  show "check_power_levels (ev_room_version e) e m = Inr ()" if "ev_type e = EventTypes_PowerLevels"
    using assms that unfolding check_other_event_def by (auto simp: py_bind_Inr_iff)
qed

lemma accepted_other_event:
  assumes "check_state_dependent_auth_rules ext e evs = Inr e'"
    and "ev_type e \<noteq> EventTypes_Create" and "ev_type e \<noteq> EventTypes_Member"
    and "\<not> (ev_type e = EventTypes_Aliases \<and> special_case_aliases_auth (ev_room_version e))"
  obtains m where "auth_dict_of evs = Inr m" and "check_other_event ext e m = Inr e'"
  using assms unfolding check_state_dependent_auth_rules_def check_against_state_def
  by (auto simp: py_bind_Inr_iff split: if_splits)

text \<open>Redaction is the only rule that touches the event, and only its recheck flag.\<close>

lemma check_redaction_event:
  assumes "check_redaction rv e m = Inr (b, e')"
  shows "e' = e \<or> e' = e\<lparr>recheck_redaction := True\<rparr>"
proof (cases "\<exists>r. redacts e = Some (JStr r)")
  case True
  with assms show ?thesis
    by (auto simp: check_redaction_def py_bind_Inr_iff split: if_splits)
next
  case False
  then have "(case redacts e of Some (JStr r) \<Rightarrow> f r | _ \<Rightarrow> g) = g" for f and g :: "(bool \<times> event) py"
    by (auto split: option.splits json.splits)
  with assms show ?thesis
    by (auto simp: check_redaction_def py_bind_Inr_iff split: if_splits)
qed

lemma check_other_event_event:
  assumes "check_other_event ext e m = Inr e'"
  shows "e' = e \<or> ev_type e = EventTypes_Redaction \<and> e' = e\<lparr>recheck_redaction := True\<rparr>"
  using assms unfolding check_other_event_def
  by (auto simp: py_bind_Inr_iff dest: check_redaction_event split: if_splits)

lemma check_state_dependent_event:
  assumes "check_state_dependent_auth_rules ext e evs = Inr e'"
  shows "e' = e \<or> ev_type e = EventTypes_Redaction \<and> e' = e\<lparr>recheck_redaction := True\<rparr>"
  using assms unfolding check_state_dependent_auth_rules_def check_against_state_def
  by (auto simp: py_bind_Inr_iff dest: check_other_event_event split: if_splits)

section \<open>Size limits and signatures\<close>

definition id_fields :: "event \<Rightarrow> string \<Rightarrow> string list" where
  "id_fields e rid = [sender e, rid] @ (case get_state_key e of None \<Rightarrow> [] | Some k \<Rightarrow> [k]) @
     [ev_type e, event_id e]"

lemma check_size_limits_eq:
  assumes "ev_room_id e = Some rid"
  shows "check_size_limits ext e =
    (if MAX_PDU_SIZE < length (encode_canonical_json ext (pdu_json e)) \<or>
        (\<exists>s \<in> set (id_fields e rid). 255 < py_len s) then Inl (EventSizeError True)
     else if \<exists>s \<in> set (id_fields e rid). 255 < length s
     then Inl (EventSizeError (ev_room_version e \<notin> set LENIENT_EVENT_BYTE_LIMITS_ROOM_VERSIONS))
     else Inr ())"
  using assms by (cases "ev_state_key e")
    (simp_all add: check_size_limits_def id_fields_def room_id_def is_state_def Let_def)

lemma check_size_limits_no_room:
  assumes "ev_room_id e = None"
  shows "check_size_limits ext e \<noteq> Inr ()" and "check_size_limits ext e \<noteq> Inl (AuthError a b)"
  using assms by (auto simp: check_size_limits_def room_id_def)

lemma check_size_limits_not_auth: "check_size_limits ext e \<noteq> Inl (AuthError a b)"
  by (cases "ev_room_id e") (auto simp: check_size_limits_no_room check_size_limits_eq)

lemma validate_Inr:
  assumes "validate_event_for_room_version ext e = Inr ()"
  shows "check_size_limits ext e = Inr ()"
    and "\<exists>d. get_domain_from_id (sender e) = Inr d \<and>
      (signed_by e d \<or> ev_type e = EventTypes_Member \<and> membership e = Inr Membership_INVITE \<and>
         dict_has (content e) ''third_party_invite'')"
    and "format_version e = ROOM_V1_V2 \<Longrightarrow>
      \<exists>d. get_domain_from_id (event_id e) = Inr d \<and> signed_by e d"
    and "restricted_join_rule (ev_room_version e) \<Longrightarrow> ev_type e = EventTypes_Member \<Longrightarrow>
      membership e = Inr Membership_JOIN \<Longrightarrow> dict_get (content e) AUTHORISING_USER = Some v \<Longrightarrow>
      \<exists>u d. v = JStr u \<and> get_domain_from_id u = Inr d \<and> signed_by e d"
proof -
  note a = assms[unfolded validate_event_for_room_version_def py_bind_Inr_iff]
  show "check_size_limits ext e = Inr ()" using a by auto
  show "\<exists>d. get_domain_from_id (sender e) = Inr d \<and>
      (signed_by e d \<or> ev_type e = EventTypes_Member \<and> membership e = Inr Membership_INVITE \<and>
         dict_has (content e) ''third_party_invite'')"
    using a by (auto simp: py_bind_Inr_iff split: if_splits)
  show "\<exists>d. get_domain_from_id (event_id e) = Inr d \<and> signed_by e d"
    if "format_version e = ROOM_V1_V2"
    using a that by (auto simp: py_bind_Inr_iff split: if_splits)
  show "\<exists>u d. v = JStr u \<and> get_domain_from_id u = Inr d \<and> signed_by e d"
    if "restricted_join_rule (ev_room_version e)" "ev_type e = EventTypes_Member"
      "membership e = Inr Membership_JOIN" "dict_get (content e) AUTHORISING_USER = Some v"
    using a that by (cases v) (auto simp: py_bind_Inr_iff dict_has_def split: if_splits)
qed

section \<open>The state-independent rules\<close>

text \<open>What one accepted iteration of the loop over the auth events says.\<close>

definition good_auth_event :: "event \<Rightarrow> (string \<times> json) list \<Rightarrow> event \<Rightarrow> bool" where
  "good_auth_event e ks ae \<longleftrightarrow>
     ev_room_id ae = ev_room_id e \<and>
     (\<exists>k. ev_state_key ae = Some k \<and> (ev_type ae, JStr k) \<in> set ks) \<and>
     (rejected_reason ae = None \<or> rejected_reason ae = Some '''')"

lemma check_auth_event_Inr:
  assumes "check_auth_event e ks evs i d = Inr d'"
  shows "\<exists>ae k. evs i = Some ae \<and> good_auth_event e ks ae \<and> ev_state_key ae = Some k \<and>
    d (ev_type ae, k) = None \<and> d' = d((ev_type ae, k) \<mapsto> i)"
  using assms unfolding check_auth_event_def good_auth_event_def
  by (cases "evs i") (auto simp: py_bind_Inr_iff Let_def split: if_splits)

text \<open>The dictionary the loop builds has one entry per auth event, under that event's own key.\<close>

lemma auth_events_loop:
  assumes "py_for (check_auth_event e ks evs) is d = Inr d'"
  shows "\<forall>i \<in> set is. \<exists>ae. evs i = Some ae \<and> good_auth_event e ks ae"
    and "\<And>key i. d' key = Some i \<Longrightarrow> d key = Some i \<or> i \<in> set is \<and>
      (\<exists>ae. evs i = Some ae \<and> key = (ev_type ae, the (ev_state_key ae)))"
    and "\<And>key i. d key = Some i \<Longrightarrow> d' key = Some i"
    and "\<And>i. i \<in> set is \<Longrightarrow> \<exists>ae. evs i = Some ae \<and> d' (ev_type ae, the (ev_state_key ae)) = Some i"
proof -
  have "(\<forall>i \<in> set is. \<exists>ae. evs i = Some ae \<and> good_auth_event e ks ae) \<and>
    (\<forall>key i. d' key = Some i \<longrightarrow> d key = Some i \<or> i \<in> set is \<and>
      (\<exists>ae. evs i = Some ae \<and> key = (ev_type ae, the (ev_state_key ae)))) \<and>
    (\<forall>key i. d key = Some i \<longrightarrow> d' key = Some i) \<and>
    (\<forall>i \<in> set is. \<exists>ae. evs i = Some ae \<and> d' (ev_type ae, the (ev_state_key ae)) = Some i)"
    using assms
  proof (induction "is" arbitrary: d)
    case Nil
    then show ?case by simp
  next
    case (Cons i "is")
    from Cons.prems obtain d1 where d1: "check_auth_event e ks evs i d = Inr d1"
      and rest: "py_for (check_auth_event e ks evs) is d1 = Inr d'"
      by (auto simp: py_bind_Inr_iff)
    from check_auth_event_Inr[OF d1] obtain ae k where step: "evs i = Some ae"
      "good_auth_event e ks ae" "ev_state_key ae = Some k" "d (ev_type ae, k) = None"
      "d1 = d((ev_type ae, k) \<mapsto> i)" by blast
    have d'k: "d' (ev_type ae, k) = Some i"
      using Cons.IH[OF rest] step(5) by simp
    show ?case
      using Cons.IH[OF rest] step d'k
      by (simp add: step(5)) (smt (verit) fun_upd_apply option.distinct(1) option.sel)
  qed
  then show "\<forall>i \<in> set is. \<exists>ae. evs i = Some ae \<and> good_auth_event e ks ae"
    and "\<And>key i. d' key = Some i \<Longrightarrow> d key = Some i \<or> i \<in> set is \<and>
      (\<exists>ae. evs i = Some ae \<and> key = (ev_type ae, the (ev_state_key ae)))"
    and "\<And>key i. d key = Some i \<Longrightarrow> d' key = Some i"
    and "\<And>i. i \<in> set is \<Longrightarrow> \<exists>ae. evs i = Some ae \<and> d' (ev_type ae, the (ev_state_key ae)) = Some i"
    by blast+
qed

text \<open>What the store may answer: only events that were asked for, under their own ID.\<close>

lemma state_independent_accept:
  assumes ok: "check_state_independent_auth_rules get_events e batched = Inr ()"
    and nc: "ev_type e \<noteq> EventTypes_Create"
  obtains ks where "auth_types_for_event (ev_room_version e) e = Inr ks"
    and "\<And>i. i \<in> set (auth_event_ids e) \<Longrightarrow>
      \<exists>ae. gather_auth_events get_events e batched i = Some ae \<and> good_auth_event e ks ae"
    and "\<And>i j a b. i \<in> set (auth_event_ids e) \<Longrightarrow> j \<in> set (auth_event_ids e) \<Longrightarrow>
      gather_auth_events get_events e batched i = Some a \<Longrightarrow>
      gather_auth_events get_events e batched j = Some b \<Longrightarrow>
      (ev_type a, ev_state_key a) = (ev_type b, ev_state_key b) \<Longrightarrow> i = j"
    and "\<exists>i \<in> set (auth_event_ids e). \<exists>a. gather_auth_events get_events e batched i = Some a \<and>
      ev_type a = EventTypes_Create \<and> ev_state_key a = Some ''''"
proof -
  let ?g = "gather_auth_events get_events e batched"
  from ok nc obtain ks d i0 where ks: "auth_types_for_event (ev_room_version e) e = Inr ks"
    and loop: "py_for (check_auth_event e ks ?g) (auth_event_ids e) Map.empty = Inr d"
    and cr: "d (EventTypes_Create, '''') = Some i0"
    unfolding check_state_independent_auth_rules_def
    by (auto simp: py_bind_Inr_iff Let_def split: option.splits)
  note l = auth_events_loop[OF loop]
  show thesis
  proof (rule that[OF ks])
    fix i assume "i \<in> set (auth_event_ids e)"
    then show "\<exists>ae. ?g i = Some ae \<and> good_auth_event e ks ae" using l(1) by blast
  next
    fix i j a b
    assume "i \<in> set (auth_event_ids e)" "j \<in> set (auth_event_ids e)" "?g i = Some a" "?g j = Some b"
      "(ev_type a, ev_state_key a) = (ev_type b, ev_state_key b)"
    then show "i = j" using l(4)[of i] l(4)[of j] by auto
  next
    from l(2)[OF cr] obtain a where a: "i0 \<in> set (auth_event_ids e)" "?g i0 = Some a"
      "ev_type a = EventTypes_Create" "the (ev_state_key a) = ''''" by auto
    with l(1) have "ev_state_key a = Some ''''" by (force simp: good_auth_event_def)
    with a show "\<exists>i \<in> set (auth_event_ids e). \<exists>a. ?g i = Some a \<and>
      ev_type a = EventTypes_Create \<and> ev_state_key a = Some ''''" by blast
  qed
qed

text \<open>A duplicate auth event is refused.\<close>

lemma auth_events_distinct:
  assumes "py_for (check_auth_event e ks evs) is d = Inr d'"
    and "\<And>i ae. i \<in> set is \<Longrightarrow> evs i = Some ae \<Longrightarrow> d (ev_type ae, the (ev_state_key ae)) = None"
  shows "distinct is"
  using assms
proof (induction "is" arbitrary: d)
  case (Cons i "is")
  from Cons.prems(1) obtain d1 where d1: "check_auth_event e ks evs i d = Inr d1"
    and rest: "py_for (check_auth_event e ks evs) is d1 = Inr d'"
    by (auto simp: py_bind_Inr_iff)
  from check_auth_event_Inr[OF d1] obtain ae k where step: "evs i = Some ae"
    "ev_state_key ae = Some k" "d1 = d((ev_type ae, k) \<mapsto> i)" by blast
  have fresh: "d1 (ev_type b, the (ev_state_key b)) = None" if "j \<in> set is" "evs j = Some b" for j b
  proof -
    obtain pre post where sp: "is = pre @ j # post" using \<open>j \<in> set is\<close> by (auto simp: in_set_conv_decomp)
    with rest obtain d2 d3 where d2: "py_for (check_auth_event e ks evs) pre d1 = Inr d2"
      "check_auth_event e ks evs j d2 = Inr d3" by (auto simp: py_for_append py_bind_Inr_iff)
    from check_auth_event_Inr[OF d2(2)] that(2) have "d2 (ev_type b, the (ev_state_key b)) = None" by auto
    then show ?thesis using auth_events_loop(3)[OF d2(1)] by (metis option.exhaust)
  qed
  have "i \<notin> set is" using fresh[of i ae] step by auto
  moreover have "distinct is" by (rule Cons.IH[OF rest fresh])
  ultimately show ?case by simp
qed simp

end
