(* ===== verification/Auth_Locality.thy ===== *)
theory Auth_Locality
  imports Event_Auth
begin

text \<open>
  \<open>auth_types_for_event\<close> selects the part of the room state an event is checked against, so that
  only that part has to be fetched. Its contract is the locale \<open>sufficient_selection\<close>: two states
  that agree on the selected keys give the same verdict. The lemmas below say for each function of
  the auth rules which keys it reads; the interpretation puts them together.
\<close>

text \<open>Two states agree on a list of keys.\<close>

definition agree_on :: "(string \<times> json) list \<Rightarrow> 'v state_map \<Rightarrow> 'v state_map \<Rightarrow> bool" where
  "agree_on ks m m' \<longleftrightarrow> (\<forall>(ty, k) \<in> set ks. \<forall>s. k = JStr s \<longrightarrow> m (ty, s) = m' (ty, s))"

lemma agree_onD: "agree_on ks m m' \<Longrightarrow> (ty, JStr s) \<in> set ks \<Longrightarrow> m (ty, s) = m' (ty, s)"
  by (auto simp: agree_on_def)

lemma agree_on_sym: "agree_on ks m m' \<Longrightarrow> agree_on ks m' m"
  by (auto simp: agree_on_def)

locale sufficient_selection =
  fixes select :: "'e \<Rightarrow> (string \<times> json) list py"
    and verdict :: "'e \<Rightarrow> 'v state_map \<Rightarrow> 'r py"
    and in_scope :: "'e \<Rightarrow> bool"
  assumes verdict_local:
    "in_scope e \<Longrightarrow> select e = Inr ks \<Longrightarrow> agree_on ks m m' \<Longrightarrow> verdict e m = verdict e m'"
begin

text \<open>Restricting the state to the selected keys, as the database query does, is harmless, and so is
  any change outside them.\<close>

lemma verdict_restrict:
  assumes "in_scope e" and "select e = Inr ks"
  shows "verdict e (m |` {(ty, s). (ty, JStr s) \<in> set ks}) = verdict e m"
  by (rule verdict_local[OF assms]) (auto simp: agree_on_def restrict_map_def)

lemma verdict_update_other:
  assumes "in_scope e" and "select e = Inr ks" and "(ty, JStr s) \<notin> set ks"
  shows "verdict e (m((ty, s) := v)) = verdict e m"
  by (rule verdict_local[OF assms(1,2)]) (use assms(3) in \<open>auto simp: agree_on_def\<close>)

end

section \<open>The keys each function reads\<close>

lemma get_power_level_event_local:
  "m (EventTypes_PowerLevels, '''') = m' (EventTypes_PowerLevels, '''') \<Longrightarrow>
   get_power_level_event m = get_power_level_event m'"
  by (simp add: get_power_level_event_def)

lemma get_user_power_level_local:
  assumes "m (EventTypes_PowerLevels, '''') = m' (EventTypes_PowerLevels, '''')"
    and "m (EventTypes_Create, '''') = m' (EventTypes_Create, '''')"
  shows "get_user_power_level u m = get_user_power_level u m'"
  unfolding get_user_power_level_def get_power_level_event_def assms ..

lemma get_named_level_local:
  assumes "m (EventTypes_PowerLevels, '''') = m' (EventTypes_PowerLevels, '''')"
  shows "get_named_level m n d = get_named_level m' n d"
  unfolding get_named_level_def get_power_level_event_def assms ..

lemma can_federate_local:
  assumes "m (EventTypes_Create, '''') = m' (EventTypes_Create, '''')"
  shows "can_federate e m = can_federate e m'"
  unfolding can_federate_def assms ..

lemma is_creator_join_local:
  assumes "m (EventTypes_Create, '''') = m' (EventTypes_Create, '''')"
  shows "is_creator_join rv e m ms = is_creator_join rv e m' ms"
  unfolding is_creator_join_def assms ..

lemma check_leave_local:
  assumes "m (EventTypes_PowerLevels, '''') = m' (EventTypes_PowerLevels, '''')"
  shows "check_leave e m c = check_leave e m' c"
  unfolding check_leave_def get_named_level_local[of m m', OF assms] ..

lemma check_event_sender_in_room_local:
  assumes "m (EventTypes_Member, sender e) = m' (EventTypes_Member, sender e)"
  shows "check_event_sender_in_room e m = check_event_sender_in_room e m'"
  using assms by (simp add: check_event_sender_in_room_def)

lemma can_send_event_local:
  assumes "m (EventTypes_PowerLevels, '''') = m' (EventTypes_PowerLevels, '''')"
    and "m (EventTypes_Create, '''') = m' (EventTypes_Create, '''')"
  shows "can_send_event ext e m = can_send_event ext e m'"
  unfolding can_send_event_def get_power_level_event_local[of m m', OF assms(1)]
    get_user_power_level_local[of m m', OF assms] ..

lemma check_redaction_local:
  assumes "m (EventTypes_PowerLevels, '''') = m' (EventTypes_PowerLevels, '''')"
    and "m (EventTypes_Create, '''') = m' (EventTypes_Create, '''')"
  shows "check_redaction rv e m = check_redaction rv e m'"
  unfolding check_redaction_def get_named_level_local[of m m', OF assms(1)]
    get_user_power_level_local[of m m', OF assms] ..

text \<open>A power level event is compared with the state at its own key, so with an empty state key.\<close>

lemma check_power_levels_local:
  assumes "m (EventTypes_PowerLevels, '''') = m' (EventTypes_PowerLevels, '''')"
    and "m (EventTypes_Create, '''') = m' (EventTypes_Create, '''')"
    and "ev_type e = EventTypes_PowerLevels" and "\<And>k. ev_state_key e = Some k \<Longrightarrow> k = ''''"
  shows "check_power_levels rv e m = check_power_levels rv e m'"
proof -
  have "m (ev_type e, k) = m' (ev_type e, k)" if "ev_state_key e = Some k" for k
    using assms(1,3) assms(4)[OF that] by simp
  then show ?thesis
    unfolding check_power_levels_def get_user_power_level_local[of m m', OF assms(1,2)]
    by (auto intro!: py_bind_cong)
qed

section \<open>Membership changes\<close>

text \<open>The context depends on the selected keys except for the join rule, which is looked up even
  when no rule will read it.\<close>

lemma get_membership_context_local:
  assumes pl: "m (EventTypes_PowerLevels, '''') = m' (EventTypes_PowerLevels, '''')"
    and cr: "m (EventTypes_Create, '''') = m' (EventTypes_Create, '''')"
    and caller: "m (EventTypes_Member, sender e) = m' (EventTypes_Member, sender e)"
    and target: "\<And>k. ev_state_key e = Some k \<Longrightarrow>
      m (EventTypes_Member, k) = m' (EventTypes_Member, k)"
  shows "\<exists>jr. get_membership_context rv e m =
      py_bind (get_membership_context rv e m') (\<lambda>c. Inr (c\<lparr>join_rule := jr\<rparr>)) \<and>
      (m (EventTypes_JoinRules, '''') = m' (EventTypes_JoinRules, '''') \<longrightarrow>
         get_membership_context rv e m = get_membership_context rv e m')"
proof -
  define jr where "jr = (case m (EventTypes_JoinRules, '''') of None \<Rightarrow> JoinRules_INVITE
      | Some x \<Rightarrow> dict_get_default (content x) ''join_rule'' JoinRules_INVITE)"
  have *: "get_membership_context rv e m =
      py_bind (get_membership_context rv e m') (\<lambda>c. Inr (c\<lparr>join_rule := jr\<rparr>))"
    unfolding get_membership_context_def get_user_power_level_local[of m m', OF pl cr]
      get_named_level_local[of m m', OF pl] can_federate_local[of m m', OF cr] caller py_bind_assoc jr_def[symmetric]
    using target by (auto simp: py_bind_assoc intro!: py_bind_cong)
  have "get_membership_context rv e m = get_membership_context rv e m'"
    if "m (EventTypes_JoinRules, '''') = m' (EventTypes_JoinRules, '''')"
    unfolding get_membership_context_def get_user_power_level_local[of m m', OF pl cr]
      get_named_level_local[of m m', OF pl] can_federate_local[of m m', OF cr] caller that
    using target by (auto intro!: py_bind_cong)
  with * show ?thesis by blast
qed

lemma check_join_local:
  assumes pl: "m (EventTypes_PowerLevels, '''') = m' (EventTypes_PowerLevels, '''')"
    and cr: "m (EventTypes_Create, '''') = m' (EventTypes_Create, '''')"
    and auth: "\<And>u. restricted_join_rule rv \<Longrightarrow> dict_get (content e) AUTHORISING_USER = Some (JStr u) \<Longrightarrow>
      m (EventTypes_Member, u) = m' (EventTypes_Member, u)"
    and flags: "coherent_flags rv"
  shows "check_join rv e m c = check_join rv e m' c"
proof -
  have "check_join_authorised e m il = check_join_authorised e m' il" if "restricted_join_rule rv" for il
    using auth[OF that] unfolding check_join_authorised_def get_user_power_level_local[of m m', OF pl cr]
    by (auto simp: auth_get_def or_default_def split: option.splits json.splits)
  moreover have "restricted_join_rule rv"
    if "restricted_join_rule rv \<and> join_rule c = JoinRules_RESTRICTED \<or>
        knock_restricted_join_rule rv \<and> join_rule c = JoinRules_KNOCK_RESTRICTED"
    using that flags by (auto simp: coherent_flags_def)
  ultimately show ?thesis
    unfolding check_join_def by auto
qed

lemma verify_third_party_invite_local:
  assumes "\<And>t. third_party_token (content e) = Inr (JStr t) \<Longrightarrow>
     m (EventTypes_ThirdPartyInvite, t) = m' (EventTypes_ThirdPartyInvite, t)"
  shows "verify_third_party_invite ext e m = verify_third_party_invite ext e m'"
proof (cases "\<exists>i d. dict_get (content e) ''third_party_invite'' = Some (JObj i) \<and>
    dict_get i ''signed'' = Some (JObj d)")
  case True
  then obtain i d where i: "dict_get (content e) ''third_party_invite'' = Some (JObj i)"
    and d: "dict_get i ''signed'' = Some (JObj d)" by blast
  have tok: "auth_get m EventTypes_ThirdPartyInvite v = auth_get m' EventTypes_ThirdPartyInvite v"
    if "dict_getitem d ''token'' = Inr v" for v
  proof (cases v)
    case (JStr t)
    have "third_party_token (content e) = Inr (JStr t)"
      using i d that JStr by (simp add: third_party_token_def dict_getitem_def)
    from assms[OF this] JStr show ?thesis by simp
  qed (simp_all add: auth_get_def)
  show ?thesis
    unfolding verify_third_party_invite_def i d option.case json.case
    by (intro if_cong py_bind_cong refl) (simp_all add: tok)
next
  case False
  then show ?thesis
    unfolding verify_third_party_invite_def
    by (cases "dict_get (content e) ''third_party_invite''")
      (auto split: json.split option.split)
qed

lemma add_key_Inr: "add_key ty k ks = Inr ks' \<longleftrightarrow> hashable k \<and> ks' = ks @ [(ty, k)]"
  by (auto simp: add_key_def)

lemma auth_types_steps:
  assumes "auth_types_for_event rv e = Inr ks" and ty: "ev_type e = EventTypes_Member"
  obtains ms t1 skey t3 where "membership e = Inr ms" and "ev_state_key e = Some skey"
    and "t1 = [(EventTypes_PowerLevels, JStr ''''), (EventTypes_Member, JStr (sender e)),
          (EventTypes_Create, JStr '''')] @
          (if ms \<in> {Membership_JOIN, Membership_INVITE, Membership_KNOCK}
           then [(EventTypes_JoinRules, JStr '''')] else []) @ [(EventTypes_Member, JStr skey)]"
    and "(if ms = Membership_INVITE \<and> dict_has (content e) ''third_party_invite''
          then py_bind (third_party_token (content e)) (\<lambda>t. add_key EventTypes_ThirdPartyInvite t t1)
          else Inr t1) = Inr t3"
    and "(if restricted_join_rule rv \<and> ms = Membership_JOIN \<and> dict_has (content e) AUTHORISING_USER
          then py_bind (dict_getitem (content e) AUTHORISING_USER) (\<lambda>u. add_key EventTypes_Member u t3)
          else Inr t3) = Inr ks"
proof -
  let ?b = "[(EventTypes_PowerLevels, JStr ''''), (EventTypes_Member, JStr (sender e)),
             (EventTypes_Create, JStr '''')]"
  have neq: "EventTypes_Member \<noteq> EventTypes_Create" by simp
  from assms(1) obtain ms t0 skey t1 t3 where ms: "membership e = Inr ms"
    and t0: "(if ms \<in> {Membership_JOIN, Membership_INVITE, Membership_KNOCK}
          then add_key EventTypes_JoinRules (JStr '''') ?b else Inr ?b) = Inr t0"
    and sk: "ev_state_key e = Some skey"
    and t1: "add_key EventTypes_Member (JStr skey) t0 = Inr t1"
    and t3: "(if ms = Membership_INVITE \<and> dict_has (content e) ''third_party_invite''
          then py_bind (third_party_token (content e)) (\<lambda>t. add_key EventTypes_ThirdPartyInvite t t1)
          else Inr t1) = Inr t3"
    and ks: "(if restricted_join_rule rv \<and> ms = Membership_JOIN \<and> dict_has (content e) AUTHORISING_USER
          then py_bind (dict_getitem (content e) AUTHORISING_USER) (\<lambda>u. add_key EventTypes_Member u t3)
          else Inr t3) = Inr ks"
    unfolding auth_types_for_event_def ty Let_def if_not_P[OF neq] not_not
      simp_thms if_False py_bind_Inr_iff state_key_Inr
    by blast
  have "t1 = ?b @ (if ms \<in> {Membership_JOIN, Membership_INVITE, Membership_KNOCK}
           then [(EventTypes_JoinRules, JStr '''')] else []) @ [(EventTypes_Member, JStr skey)]"
    using t0 t1 by (simp only: add_key_Inr split: if_splits) auto
  from that[OF ms sk this t3 ks] show thesis .
qed

lemma auth_types_member:
  assumes "auth_types_for_event rv e = Inr ks" and "ev_type e = EventTypes_Member"
  obtains ms skey where "membership e = Inr ms" and "ev_state_key e = Some skey"
    and "(EventTypes_PowerLevels, JStr '''') \<in> set ks" and "(EventTypes_Create, JStr '''') \<in> set ks"
    and "(EventTypes_Member, JStr (sender e)) \<in> set ks" and "(EventTypes_Member, JStr skey) \<in> set ks"
    and "ms \<in> {Membership_JOIN, Membership_INVITE, Membership_KNOCK} \<Longrightarrow>
         (EventTypes_JoinRules, JStr '''') \<in> set ks"
    and "\<And>t. ms = Membership_INVITE \<Longrightarrow> dict_has (content e) ''third_party_invite'' \<Longrightarrow>
         third_party_token (content e) = Inr t \<Longrightarrow> (EventTypes_ThirdPartyInvite, t) \<in> set ks"
    and "\<And>u. ms = Membership_JOIN \<Longrightarrow> restricted_join_rule rv \<Longrightarrow>
         dict_get (content e) AUTHORISING_USER = Some u \<Longrightarrow> (EventTypes_Member, u) \<in> set ks"
proof -
  obtain ms t1 skey t3 where steps: "membership e = Inr ms" "ev_state_key e = Some skey"
    and t1: "t1 = [(EventTypes_PowerLevels, JStr ''''), (EventTypes_Member, JStr (sender e)),
          (EventTypes_Create, JStr '''')] @
          (if ms \<in> {Membership_JOIN, Membership_INVITE, Membership_KNOCK}
           then [(EventTypes_JoinRules, JStr '''')] else []) @ [(EventTypes_Member, JStr skey)]"
    and t3: "(if ms = Membership_INVITE \<and> dict_has (content e) ''third_party_invite''
          then py_bind (third_party_token (content e)) (\<lambda>t. add_key EventTypes_ThirdPartyInvite t t1)
          else Inr t1) = Inr t3"
    and ks: "(if restricted_join_rule rv \<and> ms = Membership_JOIN \<and> dict_has (content e) AUTHORISING_USER
          then py_bind (dict_getitem (content e) AUTHORISING_USER) (\<lambda>u. add_key EventTypes_Member u t3)
          else Inr t3) = Inr ks"
    by (rule auth_types_steps[OF assms])
  have 1: "set t1 \<subseteq> set t3"
    using t3 by (auto simp only: py_bind_Inr_iff add_key_Inr set_append split: if_splits)
  have 2: "set t3 \<subseteq> set ks"
    using ks by (auto simp only: py_bind_Inr_iff add_key_Inr set_append split: if_splits)
  have tp: "(EventTypes_ThirdPartyInvite, t) \<in> set ks"
    if "ms = Membership_INVITE" "dict_has (content e) ''third_party_invite''"
      "third_party_token (content e) = Inr t" for t
    using t3 2 that by (auto simp only: add_key_Inr py_bind.simps set_append if_True simp_thms
        subset_eq list.set)
  have au: "(EventTypes_Member, u) \<in> set ks"
    if "ms = Membership_JOIN" "restricted_join_rule rv" "dict_get (content e) AUTHORISING_USER = Some u" for u
  proof -
    have "dict_has (content e) AUTHORISING_USER" and "dict_getitem (content e) AUTHORISING_USER = Inr u"
      using that(3) by (simp_all only: dict_has_def dict_getitem_Inr_iff) auto
    with ks that(1,2) show ?thesis by (auto simp only: add_key_Inr py_bind.simps set_append if_True
          simp_thms list.set)
  qed
  have sub: "set t1 \<subseteq> set ks" using 1 2 by blast
  have "(EventTypes_JoinRules, JStr '''') \<in> set t1"
    if "ms \<in> {Membership_JOIN, Membership_INVITE, Membership_KNOCK}"
    unfolding t1 if_P[OF that] by simp
  with sub have jr: "ms \<in> {Membership_JOIN, Membership_INVITE, Membership_KNOCK} \<Longrightarrow>
      (EventTypes_JoinRules, JStr '''') \<in> set ks" by blast
  have "{(EventTypes_PowerLevels, JStr ''''), (EventTypes_Create, JStr ''''),
      (EventTypes_Member, JStr (sender e)), (EventTypes_Member, JStr skey)} \<subseteq> set t1"
    unfolding t1 set_append by simp
  with sub show thesis by (intro that[OF steps _ _ _ _ jr tp au]) blast+
qed

lemma auth_types_base:
  assumes "auth_types_for_event rv e = Inr ks" and "ev_type e \<noteq> EventTypes_Create"
  shows "(EventTypes_PowerLevels, JStr '''') \<in> set ks \<and> (EventTypes_Create, JStr '''') \<in> set ks \<and>
    (EventTypes_Member, JStr (sender e)) \<in> set ks"
proof (cases "ev_type e = EventTypes_Member")
  case True
  show ?thesis by (rule auth_types_member[OF assms(1) True]) blast
next
  case False
  with assms have "ks = [(EventTypes_PowerLevels, JStr ''''), (EventTypes_Member, JStr (sender e)),
      (EventTypes_Create, JStr '''')]"
    by (simp add: auth_types_for_event_def Let_def)
  then show ?thesis by simp
qed

section \<open>The verdict is local\<close>

text \<open>The branches that never read the join rule.\<close>

lemma check_membership_change_join_rule:
  assumes "ms \<notin> {Membership_JOIN, Membership_INVITE, Membership_KNOCK}"
  shows "check_membership_change rv e m ms (c\<lparr>join_rule := jr\<rparr>) = check_membership_change rv e m ms c"
  using assms by (simp add: check_membership_change_def check_leave_def check_ban_def)

lemma check_membership_change_local:
  assumes pl: "m (EventTypes_PowerLevels, '''') = m' (EventTypes_PowerLevels, '''')"
    and cr: "m (EventTypes_Create, '''') = m' (EventTypes_Create, '''')"
    and auth: "\<And>u. ms = Membership_JOIN \<Longrightarrow> restricted_join_rule rv \<Longrightarrow>
      dict_get (content e) AUTHORISING_USER = Some (JStr u) \<Longrightarrow>
      m (EventTypes_Member, u) = m' (EventTypes_Member, u)"
    and flags: "coherent_flags rv"
  shows "check_membership_change rv e m ms c = check_membership_change rv e m' ms c"
proof -
  have "check_join rv e m c = check_join rv e m' c" if "ms = Membership_JOIN"
    by (rule check_join_local[OF pl cr auth[OF that] flags])
  then show ?thesis
    unfolding check_membership_change_def check_leave_local[of m m', OF pl] by simp
qed

lemma is_membership_change_allowed_local:
  assumes sel: "auth_types_for_event rv e = Inr ks" and ty: "ev_type e = EventTypes_Member"
    and agree: "agree_on ks m m'" and flags: "coherent_flags rv"
  shows "is_membership_change_allowed ext rv e m = is_membership_change_allowed ext rv e m'"
proof -
  obtain ms skey where ms: "membership e = Inr ms" and sk: "ev_state_key e = Some skey"
    and plk: "(EventTypes_PowerLevels, JStr '''') \<in> set ks" and crk: "(EventTypes_Create, JStr '''') \<in> set ks"
    and ck: "(EventTypes_Member, JStr (sender e)) \<in> set ks" and tk: "(EventTypes_Member, JStr skey) \<in> set ks"
    and jk: "ms \<in> {Membership_JOIN, Membership_INVITE, Membership_KNOCK} \<Longrightarrow>
         (EventTypes_JoinRules, JStr '''') \<in> set ks"
    and tpk: "\<And>t. ms = Membership_INVITE \<Longrightarrow> dict_has (content e) ''third_party_invite'' \<Longrightarrow>
         third_party_token (content e) = Inr t \<Longrightarrow> (EventTypes_ThirdPartyInvite, t) \<in> set ks"
    and auk: "\<And>u. ms = Membership_JOIN \<Longrightarrow> restricted_join_rule rv \<Longrightarrow>
         dict_get (content e) AUTHORISING_USER = Some u \<Longrightarrow> (EventTypes_Member, u) \<in> set ks"
    using auth_types_member[OF sel ty] by blast
  note ag = agree_onD[OF agree]
  note pl = ag[OF plk] and cr = ag[OF crk]
  have target: "m (EventTypes_Member, k) = m' (EventTypes_Member, k)" if "ev_state_key e = Some k" for k
    using ag[OF tk] sk that by simp
  obtain jr where ctx: "get_membership_context rv e m =
      py_bind (get_membership_context rv e m') (\<lambda>c. Inr (c\<lparr>join_rule := jr\<rparr>))"
    and ctx_eq: "m (EventTypes_JoinRules, '''') = m' (EventTypes_JoinRules, '''') \<Longrightarrow>
         get_membership_context rv e m = get_membership_context rv e m'"
    using get_membership_context_local[of m m' e rv, OF pl cr ag[OF ck] target] by blast
  have ch: "check_membership_change rv e m ms c = check_membership_change rv e m' ms c" for c
    by (rule check_membership_change_local[OF pl cr _ flags]) (use auk ag in blast)
  show ?thesis
  proof (cases "ms \<in> {Membership_JOIN, Membership_INVITE, Membership_KNOCK}")
    case True
    have tp: "verify_third_party_invite ext e m = verify_third_party_invite ext e m'"
      if "ms = Membership_INVITE \<and> dict_has (content e) ''third_party_invite''"
      by (rule verify_third_party_invite_local) (use that tpk ag in blast)
    show ?thesis
      unfolding is_membership_change_allowed_def ms py_bind.simps
        is_creator_join_local[of m m', OF cr] ctx_eq[OF ag[OF jk[OF True]]] ch
      by (intro py_bind_cong refl if_cong) (simp_all add: tp)
  next
    case False
    then have ni: "ms \<noteq> Membership_INVITE" by blast
    show ?thesis
      unfolding is_membership_change_allowed_def ms py_bind.simps py_bind_assoc
        is_creator_join_local[of m m', OF cr] ctx ch
      by (intro py_bind_cong refl if_cong)
        (simp_all add: ni check_membership_change_join_rule[OF False])
  qed
qed

lemma check_other_event_local:
  assumes "m (EventTypes_PowerLevels, '''') = m' (EventTypes_PowerLevels, '''')"
    and "m (EventTypes_Create, '''') = m' (EventTypes_Create, '''')"
    and "m (EventTypes_Member, sender e) = m' (EventTypes_Member, sender e)"
    and "ev_type e = EventTypes_PowerLevels \<Longrightarrow> ev_state_key e \<in> {None, Some ''''}"
  shows "check_other_event ext e m = check_other_event ext e m'"
proof -
  have "check_power_levels rv e m = check_power_levels rv e m'"
    if "ev_type e = EventTypes_PowerLevels" for rv
    by (rule check_power_levels_local[OF assms(1,2) that]) (use assms(4)[OF that] in auto)
  then show ?thesis
    unfolding check_other_event_def get_user_power_level_local[of m m', OF assms(1,2)]
      get_named_level_local[of m m', OF assms(1)] can_send_event_local[of m m', OF assms(1,2)]
      check_redaction_local[of m m', OF assms(1,2)] check_event_sender_in_room_local[of m e m', OF assms(3)]
    by (intro py_bind_cong refl if_cong) simp_all
qed

text \<open>The events of which the selection is a complete one: those of a room version with coherent
  flags, except power level events with a non-empty state key, which are compared with a state
  event the selection does not name.\<close>

definition selection_applies :: "event \<Rightarrow> bool" where
  "selection_applies e \<longleftrightarrow> ev_type e \<noteq> EventTypes_Create \<and> coherent_flags (ev_room_version e) \<and>
     (ev_type e = EventTypes_PowerLevels \<longrightarrow> ev_state_key e \<in> {None, Some ''''})"

lemma check_against_state_local:
  assumes scope: "selection_applies e"
    and sel: "auth_types_for_event (ev_room_version e) e = Inr ks" and agree: "agree_on ks m m'"
  shows "check_against_state ext e m = check_against_state ext e m'"
proof -
  from scope have nc: "ev_type e \<noteq> EventTypes_Create" and flags: "coherent_flags (ev_room_version e)"
    and pls: "ev_type e = EventTypes_PowerLevels \<Longrightarrow> ev_state_key e \<in> {None, Some ''''}"
    by (auto simp: selection_applies_def)
  note base = auth_types_base[OF sel nc]
  note pl = agree_onD[OF agree conjunct1[OF base]]
  note cr = agree_onD[OF agree conjunct1[OF conjunct2[OF base]]]
  note ca = agree_onD[OF agree conjunct2[OF conjunct2[OF base]]]
  have mem: "is_membership_change_allowed ext (ev_room_version e) e m =
        is_membership_change_allowed ext (ev_room_version e) e m'" if "ev_type e = EventTypes_Member"
    by (rule is_membership_change_allowed_local[OF sel that agree flags])
  show ?thesis
    unfolding check_against_state_def can_federate_local[of m m', OF cr]
    by (intro py_bind_cong refl if_cong)
      (simp_all add: mem check_other_event_local[of m m', OF pl cr ca pls])
qed

interpretation auth_selection: sufficient_selection
  "\<lambda>e. auth_types_for_event (ev_room_version e) e" "check_against_state ext" selection_applies
  for ext
  by unfold_locales (rule check_against_state_local)

end
