(* ===== verification/Example_Room.thy ===== *)
theory Example_Room
  imports State_V2_Resolve Auth_Safety Auth_Locality
begin

text \<open>
  A small room, with the events of its creation and a few later ones, at which the theorems of the
  development are applied to concrete inputs.
\<close>

definition mk_event :: "string \<Rightarrow> string \<Rightarrow> string \<Rightarrow> string option \<Rightarrow> obj \<Rightarrow> string list \<Rightarrow> int \<Rightarrow> event" where
  "mk_event i ty s k c auth ts =
     \<lparr>event_id = i, ev_type = ty, sender = s, ev_room_id = Some ''!r:h'', ev_state_key = k,
      content = c, auth_event_ids = auth, prev_event_ids = [], origin_server_ts = ts, depth = 1,
      redacts_key = None, signatures = [(''h'', [(''ed25519:1'', ''sig'')])],
      ev_room_version = RoomVersions_V10, rejected_reason = None, recheck_redaction = False,
      pdu_json = JObj []\<rparr>"

definition ex_create :: event where
  "ex_create = mk_event ''$c'' EventTypes_Create ''@a:h'' (Some '''') [(ROOM_CREATOR, JStr ''@a:h'')] [] 1"

definition ex_join_a :: event where
  "ex_join_a = mk_event ''$ja'' EventTypes_Member ''@a:h'' (Some ''@a:h'') [(''membership'', Membership_JOIN)] [''$c''] 2"

definition ex_power :: event where
  "ex_power = mk_event ''$p'' EventTypes_PowerLevels ''@a:h'' (Some '''')
     [(''users'', JObj [(''@a:h'', JInt 100)])] [''$c'', ''$ja''] 3"

definition ex_topic :: "string \<Rightarrow> int \<Rightarrow> event" where
  "ex_topic i ts = mk_event i ''m.room.topic'' ''@a:h'' (Some '''') [] [''$c'', ''$ja'', ''$p''] ts"

definition ex_events :: event_map where
  "ex_events = [(''$c'', ex_create), (''$ja'', ex_join_a), (''$p'', ex_power),
     (''$t1'', ex_topic ''$t1'' 4), (''$t2'', ex_topic ''$t2'' 5)]"

definition ex_externals :: externals where
  "ex_externals = \<lparr>valid_ipv6 = (\<lambda>_. False), decode_base64 = (\<lambda>_. Inl ValueError),
     decode_verify_key_bytes = (\<lambda>_ _. Inl ValueError), verify_signed_json = (\<lambda>_ _ _. Inl SignatureVerifyException),
     encode_canonical_json = (\<lambda>_. ''{}'')\<rparr>"

definition ex_store :: state_res_store where
  "ex_store = dict_store ex_events (auth_chain_difference ex_events)"

definition ex_state :: "string \<Rightarrow> state_ids" where
  "ex_state t = [((EventTypes_Create, ''''), ''$c''), ((EventTypes_Member, ''@a:h''), ''$ja''),
     ((EventTypes_PowerLevels, ''''), ''$p''), ((''m.room.topic'', ''''), t)]"

lemma ex_resolve:
  "resolve_events_with_store 5 ex_externals ex_store ''!r:h'' RoomVersions_V10 [ex_state ''$t1'', ex_state ''$t2''] None =
   Inr [((EventTypes_Create, ''''), ''$c''), ((EventTypes_Member, ''@a:h''), ''$ja''),
     ((EventTypes_PowerLevels, ''''), ''$p''), ((''m.room.topic'', ''''), ''$t2'')]"
  by code_simp

section \<open>States for the auth rules\<close>

definition ex_ban_b :: event where
  "ex_ban_b = mk_event ''$bb'' EventTypes_Member ''@a:h'' (Some ''@b:h'') [(''membership'', Membership_BAN)]
     [''$c'', ''$ja'', ''$p''] 6"

definition ex_join_b :: event where
  "ex_join_b = mk_event ''$jb'' EventTypes_Member ''@b:h'' (Some ''@b:h'') [(''membership'', Membership_JOIN)]
     [''$c'', ''$p''] 7"

definition ex_power2 :: event where
  "ex_power2 = mk_event ''$p2'' EventTypes_PowerLevels ''@a:h'' (Some '''')
     [(''users'', JObj [(''@a:h'', JInt 100), (''@b:h'', JInt 50)]), (''ban'', JInt 60)]
     [''$c'', ''$ja'', ''$p''] 8"

definition ex_map :: "event state_map" where
  "ex_map = map_of [((EventTypes_Create, ''''), ex_create), ((EventTypes_Member, ''@a:h''), ex_join_a),
     ((EventTypes_PowerLevels, ''''), ex_power)]"

definition ex_map_ban :: "event state_map" where
  "ex_map_ban = ex_map((EventTypes_Member, ''@b:h'') \<mapsto> ex_ban_b)"

lemma ex_ban_allowed: "is_membership_change_allowed ex_externals RoomVersions_V10 ex_ban_b ex_map = Inr ()"
  by code_simp

lemma ex_power2_allowed: "check_power_levels RoomVersions_V10 ex_power2 ex_map = Inr ()"
  by code_simp

lemma ex_topic_allowed:
  "check_state_dependent_auth_rules ex_externals (ex_topic ''$t1'' 4) [ex_create, ex_join_a, ex_power] = Inr (ex_topic ''$t1'' 4)"
  by code_simp

lemma ex_topic_size: "check_size_limits ex_externals (ex_topic ''$t1'' 4) = Inr ()"
  by (simp add: check_size_limits_eq[of _ "''!r:h''"] ex_topic_def mk_event_def id_fields_def ex_externals_def
      MAX_PDU_SIZE_def py_len_def utf8_continuation_def)

lemma ex_topic_valid: "validate_event_for_room_version ex_externals (ex_topic ''$t1'' 4) = Inr ()"
  unfolding validate_event_for_room_version_def ex_topic_size py_bind.simps by code_simp

lemma ex_topic_auth_events:
  "check_state_independent_auth_rules (\<lambda>ids. map_of (dict_store_get_events ex_events ids)) (ex_topic ''$t1'' 4) None = Inr ()"
  by code_simp

end
