(* ===== verification/Event_Objects.thy ===== *)
theory Event_Objects
  imports Event_Auth
begin

text \<open>
  Event objects: \<open>EventBase\<close> and its three subclasses in \<open>synapse/events/__init__.py\<close>, with the
  internal metadata of \<open>rust/src/events/internal_metadata.rs\<close>. An object wraps the decoded JSON
  dictionary; \<open>signatures\<close> and \<open>unsigned\<close> are taken out of it when the object is made. Interning and
  freezing do not change values and are not visible here.

  The record \<open>event\<close> of the theory \<open>Events\<close> is the view of such an object that the authorization
  rules read; \<open>represents\<close> in \<open>Redaction_Auth\<close> relates the two.
\<close>

section \<open>Converting to a dictionary\<close>

text \<open>\<open>dict(v)\<close>: of a mapping, or of an iterable of pairs. A key that is not a string has no place in a
  JSON object; such a pair is answered like an unhashable key.\<close>

definition pair_of :: "json \<Rightarrow> (string \<times> json) py" where
  "pair_of v = py_bind (py_list v) (\<lambda>xs.
     case xs of [k, w] \<Rightarrow> (case k of JStr s \<Rightarrow> Inr (s, w) | _ \<Rightarrow> Inl TypeError) | _ \<Rightarrow> Inl ValueError)"

fun py_dict_of :: "json \<Rightarrow> obj py" where
  "py_dict_of (JObj d) = Inr d"
| "py_dict_of v = py_bind (py_list v) (\<lambda>xs. py_bind (py_map pair_of xs) (\<lambda>ps. Inr (dict_update [] ps)))"

section \<open>Internal metadata\<close>

text \<open>The fields the constructor recognises; one with a value of the wrong type is dropped.\<close>

fun metadata_field :: "string \<times> json \<Rightarrow> bool" where
  "metadata_field (k, JBool _) \<longleftrightarrow>
     k \<in> {''out_of_band_membership'', ''recheck_redaction'', ''soft_failed'', ''proactively_send'', ''redacted''}"
| "metadata_field (k, JStr _) \<longleftrightarrow> k \<in> {''send_on_behalf_of'', ''txn_id'', ''device_id''}"
| "metadata_field (k, JInt n) \<longleftrightarrow> k = ''token_id'' \<and> - (2 ^ 63) \<le> n \<and> n < 2 ^ 63"
| "metadata_field (k, _) \<longleftrightarrow> False"

record internal_metadata =
  im_data :: obj
  im_stream_ordering :: "int option"
  im_instance_name :: "string option"
  im_outlier :: bool

definition EventInternalMetadata :: "obj \<Rightarrow> internal_metadata" where
  "EventInternalMetadata d =
     \<lparr>im_data = filter metadata_field d, im_stream_ordering = None, im_instance_name = None, im_outlier = False\<rparr>"

definition im_flag :: "string \<Rightarrow> internal_metadata \<Rightarrow> bool" where
  "im_flag k m \<longleftrightarrow> dict_get (im_data m) k = Some (JBool True)"

abbreviation is_soft_failed :: "internal_metadata \<Rightarrow> bool" where
  "is_soft_failed \<equiv> im_flag ''soft_failed''"

abbreviation is_redacted :: "internal_metadata \<Rightarrow> bool" where
  "is_redacted \<equiv> im_flag ''redacted''"

definition set_redacted :: "bool \<Rightarrow> internal_metadata \<Rightarrow> internal_metadata" where
  "set_redacted b m = m\<lparr>im_data := dict_set ''redacted'' (JBool b) (im_data m)\<rparr>"

section \<open>Event objects\<close>

record event_obj =
  obj_dict :: obj
  obj_stored_id :: "json option"
  obj_signatures :: obj
  obj_unsigned :: obj
  obj_version :: room_version
  obj_rejected_reason :: "string option"
  obj_metadata :: internal_metadata

text \<open>\<open>DictProperty\<close>: a missing key is an AttributeError.\<close>

definition dict_property :: "string \<Rightarrow> event_obj \<Rightarrow> json py" where
  "dict_property k e = (case dict_get (obj_dict e) k of None \<Rightarrow> Inl AttributeError | Some v \<Rightarrow> Inr v)"

definition dict_property_set :: "string \<Rightarrow> json \<Rightarrow> event_obj \<Rightarrow> event_obj" where
  "dict_property_set k v e = e\<lparr>obj_dict := dict_set k v (obj_dict e)\<rparr>"

definition dict_property_del :: "string \<Rightarrow> event_obj \<Rightarrow> event_obj py" where
  "dict_property_del k e =
     (if dict_has (obj_dict e) k then Inr (e\<lparr>obj_dict := dict_del k (obj_dict e)\<rparr>) else Inl AttributeError)"

definition obj_content :: "event_obj \<Rightarrow> json py" where
  "obj_content = dict_property ''content''"

definition obj_membership :: "event_obj \<Rightarrow> json py" where
  "obj_membership e = py_bind (obj_content e) (\<lambda>c. py_getitem c (JStr ''membership''))"

definition obj_redacts :: "event_obj \<Rightarrow> json option py" where
  "obj_redacts e =
     (if updated_redaction_rules (obj_version e)
      then py_bind (obj_content e) (\<lambda>c. py_bind (as_dict c) (\<lambda>d. Inr (dict_get d ''redacts'')))
      else Inr (dict_get (obj_dict e) ''redacts''))"

definition obj_get_state_key :: "event_obj \<Rightarrow> json option" where
  "obj_get_state_key e = dict_get (obj_dict e) ''state_key''"

text \<open>An explicit null state key reads like a missing one.\<close>

definition obj_is_state :: "event_obj \<Rightarrow> bool" where
  "obj_is_state e \<longleftrightarrow> (case obj_get_state_key e of None \<Rightarrow> False | Some v \<Rightarrow> v \<noteq> JNull)"

definition get_dict :: "event_obj \<Rightarrow> obj" where
  "get_dict e = dict_update (obj_dict e) [(''signatures'', JObj (obj_signatures e)), (''unsigned'', JObj (obj_unsigned e))]"

text \<open>\<open>time_now - age_ts\<close>: only a number can be subtracted.\<close>

fun subtract_from :: "int \<Rightarrow> json \<Rightarrow> int py" where
  "subtract_from n (JInt i) = Inr (n - i)"
| "subtract_from n (JBool b) = Inr (n - (if b then 1 else 0))"
| "subtract_from n (JFloat r) = Inr (truncate_rat (of_int n - r))"
| "subtract_from n JInf = Inl OverflowError"
| "subtract_from n _ = Inl TypeError"

definition get_pdu_json :: "int option \<Rightarrow> event_obj \<Rightarrow> obj py" where
  "get_pdu_json time_now e =
     py_bind (case (time_now, dict_get (obj_unsigned e) ''age_ts'') of
                (Some now, Some age_ts) \<Rightarrow>
                  py_bind (subtract_from now age_ts) (\<lambda>age.
                    Inr (dict_del ''age_ts'' (dict_set ''age'' (JInt age) (obj_unsigned e))))
              | _ \<Rightarrow> Inr (obj_unsigned e)) (\<lambda>u.
       Inr (dict_set ''unsigned'' (JObj (dict_del ''redacted_because'' u)) (get_dict e)))"

definition get_templated_pdu_json :: "event_obj \<Rightarrow> obj py" where
  "get_templated_pdu_json e =
     (if dict_has (obj_dict e) ''hashes'' then Inr (dict_del ''hashes'' (obj_dict e)) else Inl KeyError)"

definition obj_contains :: "event_obj \<Rightarrow> string \<Rightarrow> bool" where
  "obj_contains e k = dict_has (obj_dict e) k"

text \<open>The citations: pairs of an id and hashes in the first format, ids in the later ones.\<close>

definition first_of_pair :: "json \<Rightarrow> json py" where
  "first_of_pair v = py_bind (py_list v) (\<lambda>xs. case xs of [a, b] \<Rightarrow> Inr a | _ \<Rightarrow> Inl ValueError)"

definition cited_ids :: "string \<Rightarrow> event_obj \<Rightarrow> json list py" where
  "cited_ids k e = py_bind (dict_getitem (obj_dict e) k) (\<lambda>v.
     py_bind (py_list v) (\<lambda>xs.
       if event_format (obj_version e) = ROOM_V1_V2 then py_map first_of_pair xs else Inr xs))"

definition obj_prev_event_ids :: "event_obj \<Rightarrow> json list py" where
  "obj_prev_event_ids = cited_ids ''prev_events''"

definition obj_auth_event_ids :: "event_obj \<Rightarrow> json list py" where
  "obj_auth_event_ids = cited_ids ''auth_events''"

section \<open>Making an event from a dictionary\<close>

text \<open>\<open>{name: dict(sigs.items()) for name, sigs in event_dict.pop("signatures", {}).items()}\<close>\<close>

definition copy_signatures :: "obj \<Rightarrow> obj py" where
  "copy_signatures d =
     py_bind (as_dict (dict_get_default d ''signatures'' (JObj []))) (\<lambda>sigs.
       py_map (\<lambda>(name, v). py_bind (as_dict v) (\<lambda>s. Inr (name, JObj s))) sigs)"

definition make_event_from_dict :: "obj \<Rightarrow> room_version \<Rightarrow> obj \<Rightarrow> string option \<Rightarrow> event_obj py" where
  "make_event_from_dict event_dict rv metadata_dict rejected =
     py_bind (copy_signatures event_dict) (\<lambda>sigs.
     let d = dict_del ''signatures'' event_dict
     in py_bind (if event_format rv = ROOM_V1_V2 then Inr ()
                 else require (\<not> dict_has d ''event_id'') AssertionError) (\<lambda>_.
        py_bind (py_dict_of (dict_get_default d ''unsigned'' (JObj []))) (\<lambda>uns.
        let d = dict_del ''unsigned'' d
        in py_bind (if event_format rv = ROOM_V1_V2
                    then py_bind (dict_getitem d ''event_id'') (\<lambda>i. Inr (Some i)) else Inr None) (\<lambda>stored.
           Inr \<lparr>obj_dict = d, obj_stored_id = stored, obj_signatures = sigs, obj_unsigned = uns,
                obj_version = rv, obj_rejected_reason = rejected,
                obj_metadata = EventInternalMetadata metadata_dict\<rparr>))))"

section \<open>Relations and stripped state\<close>

record event_relation =
  parent_id :: string
  rel_type :: string
  aggregation_key :: "string option"

fun str_of :: "json option \<Rightarrow> string option" where
  "str_of (Some (JStr s)) = Some s"
| "str_of _ = None"

definition relation_from_event :: "event_obj \<Rightarrow> event_relation option py" where
  "relation_from_event e = py_bind (obj_content e) (\<lambda>c. py_bind (as_dict c) (\<lambda>d.
     Inr (case dict_get d ''m.relates_to'' of
            Some (JObj relation) \<Rightarrow>
              if relation = [] then None
              else (case str_of (dict_get relation ''rel_type'') of
                 None \<Rightarrow> None
               | Some rt \<Rightarrow>
                   (case str_of (dict_get relation ''event_id'') of
                      None \<Rightarrow> None
                    | Some pid \<Rightarrow>
                        Some \<lparr>parent_id = pid, rel_type = rt,
                              aggregation_key = (if rt = ''m.annotation''
                                then str_of (dict_get relation ''key'') else None)\<rparr>))
          | _ \<Rightarrow> None)))"

record stripped_state_event =
  ss_type :: string
  ss_state_key :: string
  ss_sender :: string
  ss_content :: obj

end
