(* ===== verification/Event_Utils.thy ===== *)
theory Event_Utils
  imports Event_Objects
begin

text \<open>
  \<open>synapse/events/utils.py\<close>: the redaction of events, the selection of fields for clients, the
  formats events are sent in, the repair of power levels and the check for canonical JSON.

  Redaction works on the JSON dictionary, whose values have any type: \<open>content\<close> is only read where the
  code reads it, with the exceptions Python raises on a value that is not a mapping.
\<close>

abbreviation EventTypes_RoomHistoryVisibility :: string where
  "EventTypes_RoomHistoryVisibility \<equiv> ''m.room.history_visibility''"

section \<open>Redaction\<close>

definition allowed_keys :: "room_version \<Rightarrow> string list" where
  "allowed_keys rv =
     [''event_id'', ''sender'', ''room_id'', ''hashes'', ''signatures'', ''content'', ''type'', ''state_key'',
      ''depth'', ''prev_events'', ''auth_events'', ''origin_server_ts''] @
     (if \<not> updated_redaction_rules rv then [''prev_state'', ''membership'', ''origin''] else [])"

text \<open>The inner function \<open>add_fields\<close>; every field reads \<open>event_dict["content"]\<close> again.\<close>

definition add_field :: "obj \<Rightarrow> string \<Rightarrow> obj \<Rightarrow> obj py" where
  "add_field event_dict field new_content =
     py_bind (dict_getitem event_dict ''content'') (\<lambda>c.
     py_bind (py_in (JStr field) c) (\<lambda>present.
       if present then py_bind (py_getitem c (JStr field)) (\<lambda>v. Inr (dict_set field v new_content))
       else Inr new_content))"

definition add_fields :: "obj \<Rightarrow> string list \<Rightarrow> obj \<Rightarrow> obj py" where
  "add_fields event_dict names new_content = py_for (add_field event_dict) names new_content"

text \<open>\<open>event_dict["content"].get(key)\<close>\<close>

definition content_get :: "obj \<Rightarrow> string \<Rightarrow> json option py" where
  "content_get event_dict k =
     py_bind (dict_getitem event_dict ''content'') (\<lambda>c. py_bind (as_dict c) (\<lambda>d. Inr (dict_get d k)))"

text \<open>Under the updated rules the \<open>signed\<close> part of a third-party invite stays.\<close>

definition keep_invite_signed :: "obj \<Rightarrow> obj \<Rightarrow> obj py" where
  "keep_invite_signed event_dict new_content =
     py_bind (content_get event_dict ''third_party_invite'') (\<lambda>third_party_invite.
       case third_party_invite of
         Some (JObj tpi) \<Rightarrow>
           Inr (dict_set ''third_party_invite''
             (JObj (case dict_get tpi ''signed'' of None \<Rightarrow> [] | Some s \<Rightarrow> [(''signed'', s)])) new_content)
       | _ \<Rightarrow> Inr new_content)"

definition prune_member_content :: "room_version \<Rightarrow> obj \<Rightarrow> obj py" where
  "prune_member_content rv event_dict =
     py_bind (add_fields event_dict [''membership''] []) (\<lambda>new_content.
     py_bind (if restricted_join_rule_fix rv then add_fields event_dict [AUTHORISING_USER] new_content
              else Inr new_content) (\<lambda>new_content.
       if updated_redaction_rules rv then keep_invite_signed event_dict new_content else Inr new_content))"

text \<open>The content that is left, or \<open>None\<close> for a create event under the updated rules, whose content is
  kept whatever it is.\<close>

definition prune_content :: "room_version \<Rightarrow> obj \<Rightarrow> json \<Rightarrow> obj option py" where
  "prune_content rv event_dict event_type =
     (let some = (\<lambda>r. py_bind r (\<lambda>d. Inr (Some d)))
      in if str_eq event_type EventTypes_Member then some (prune_member_content rv event_dict)
         else if str_eq event_type EventTypes_Create
         then (if updated_redaction_rules rv then Inr None
               else if \<not> implicit_room_creator rv then some (add_fields event_dict [''creator''] [])
               else Inr (Some []))
         else if str_eq event_type EventTypes_JoinRules
         then some (py_bind (add_fields event_dict [''join_rule''] []) (\<lambda>c.
                if restricted_join_rule rv then add_fields event_dict [''allow''] c else Inr c))
         else if str_eq event_type EventTypes_PowerLevels
         then some (py_bind (add_fields event_dict
                  [''users'', ''users_default'', ''events'', ''events_default'', ''state_default'', ''ban'',
                   ''kick'', ''redact''] []) (\<lambda>c.
                if updated_redaction_rules rv then add_fields event_dict [''invite''] c else Inr c))
         else if str_eq event_type EventTypes_Aliases \<and> special_case_aliases_auth rv
         then some (add_fields event_dict [''aliases''] [])
         else if str_eq event_type EventTypes_RoomHistoryVisibility
         then some (add_fields event_dict [''history_visibility''] [])
         else if str_eq event_type EventTypes_Redaction \<and> updated_redaction_rules rv
         then some (add_fields event_dict [''redacts''] [])
         else Inr (Some []))"

text \<open>The protected part of \<open>m.relates_to\<close>.\<close>

definition pruned_relation :: "obj \<Rightarrow> obj" where
  "pruned_relation relates_to = concat (map (\<lambda>field.
     case dict_get relates_to field of None \<Rightarrow> [] | Some v \<Rightarrow> [(field, v)]) [''rel_type'', ''event_id''])"

definition keep_relation :: "room_version \<Rightarrow> obj \<Rightarrow> json \<Rightarrow> json py" where
  "keep_relation rv event_dict new_content =
     (if msc3389_relation_redactions rv
      then py_bind (content_get event_dict ''m.relates_to'') (\<lambda>relates_to.
             case relates_to of
               Some (JObj r) \<Rightarrow>
                 if pruned_relation r \<noteq> []
                 then py_bind (as_dict new_content) (\<lambda>c.
                        Inr (JObj (dict_set ''m.relates_to'' (JObj (pruned_relation r)) c)))
                 else Inr new_content
             | _ \<Rightarrow> Inr new_content)
      else Inr new_content)"

text \<open>\<open>if key in event_unsigned: unsigned[key] = event_unsigned[key]\<close>\<close>

definition copy_unsigned :: "json \<Rightarrow> string \<Rightarrow> obj \<Rightarrow> obj py" where
  "copy_unsigned event_unsigned key unsigned =
     py_bind (py_in (JStr key) event_unsigned) (\<lambda>present.
       if present then py_bind (py_getitem event_unsigned (JStr key)) (\<lambda>v. Inr (dict_set key v unsigned))
       else Inr unsigned)"

definition prune_new_content :: "room_version \<Rightarrow> obj \<Rightarrow> json py" where
  "prune_new_content rv event_dict =
     py_bind (dict_getitem event_dict ''type'') (\<lambda>event_type.
     py_bind (prune_content rv event_dict event_type) (\<lambda>pruned.
     py_bind (case pruned of Some c \<Rightarrow> Inr (JObj c) | None \<Rightarrow> dict_getitem event_dict ''content'') (\<lambda>new_content.
       keep_relation rv event_dict new_content)))"

definition prune_event_dict :: "room_version \<Rightarrow> obj \<Rightarrow> obj py" where
  "prune_event_dict rv event_dict =
     py_bind (prune_new_content rv event_dict) (\<lambda>new_content.
     let allowed_fields = filter (\<lambda>(k, v). k \<in> set (allowed_keys rv)) event_dict;
         allowed_fields = dict_set ''content'' new_content allowed_fields;
         event_unsigned = dict_get_default event_dict ''unsigned'' (JObj [])
     in py_bind (py_for (copy_unsigned event_unsigned) [''age_ts'', ''replaces_state''] []) (\<lambda>unsigned.
          Inr (dict_set ''unsigned'' (JObj unsigned) allowed_fields)))"

text \<open>Both copy the metadata; a redacted event is marked. The reason of a rejection is not copied.\<close>

definition copy_metadata :: "internal_metadata \<Rightarrow> internal_metadata \<Rightarrow> internal_metadata" where
  "copy_metadata src dst = dst\<lparr>im_stream_ordering := im_stream_ordering src,
     im_instance_name := im_instance_name src, im_outlier := im_outlier src\<rparr>"

definition prune_event :: "event_obj \<Rightarrow> event_obj py" where
  "prune_event event =
     py_bind (prune_event_dict (obj_version event) (get_dict event)) (\<lambda>pruned_event_dict.
     py_bind (make_event_from_dict pruned_event_dict (obj_version event) (im_data (obj_metadata event)) None)
       (\<lambda>pruned_event.
         Inr (pruned_event\<lparr>obj_metadata :=
           set_redacted True (copy_metadata (obj_metadata event) (obj_metadata pruned_event))\<rparr>)))"

definition clone_event :: "event_obj \<Rightarrow> event_obj py" where
  "clone_event event =
     py_bind (make_event_from_dict (get_dict event) (obj_version event) (im_data (obj_metadata event)) None)
       (\<lambda>new_event.
         Inr (new_event\<lparr>obj_metadata := copy_metadata (obj_metadata event) (obj_metadata new_event)\<rparr>))"

section \<open>Selecting fields\<close>

text \<open>Following all but the last name of a path; every step must find a mapping.\<close>

fun drill :: "obj \<Rightarrow> string list \<Rightarrow> obj option" where
  "drill d [] = Some d"
| "drill d (f # fs) = (case dict_get d f of Some (JObj d') \<Rightarrow> drill d' fs | _ \<Rightarrow> None)"

text \<open>\<open>sub_out_dict.setdefault(sub_field, {})\<close> along the path, then the assignment.\<close>

fun put_path :: "obj \<Rightarrow> string list \<Rightarrow> string \<Rightarrow> json \<Rightarrow> obj py" where
  "put_path dst [] k v = Inr (dict_set k v dst)"
| "put_path dst (f # fs) k v =
     (case dict_get_default dst f (JObj []) of
        JObj sub \<Rightarrow> py_bind (put_path sub fs k v) (\<lambda>sub'. Inr (dict_set f (JObj sub') dst))
      | _ \<Rightarrow> Inl (if fs = [] then TypeError else AttributeError))"

definition copy_field :: "obj \<Rightarrow> obj \<Rightarrow> string list \<Rightarrow> obj py" where
  "copy_field src dst field =
     (if field = [] then Inr dst
      else if length field = 1
      then (case dict_get src (hd field) of None \<Rightarrow> Inr dst | Some v \<Rightarrow> Inr (dict_set (hd field) v dst))
      else
        let key_to_move = last field; path = butlast field
        in case drill src path of
             None \<Rightarrow> Inr dst
           | Some sub \<Rightarrow>
               (case dict_get sub key_to_move of
                  None \<Rightarrow> Inr dst
                | Some v \<Rightarrow> put_path dst path key_to_move v))"

abbreviation backslash :: char where "backslash \<equiv> CHR 0x5C"

text \<open>\<open>_escape_slash\<close> applied by the regular expression: a backslash and the character after it.\<close>

fun unescape :: "string \<Rightarrow> string" where
  "unescape (c # d # s) =
     (if c = backslash then (if d = backslash \<or> d = CHR ''.'' then [d] else [c, d]) @ unescape s
      else c # unescape (d # s))"
| "unescape s = s"

text \<open>The matches of the first expression are the dots with the backslashes right before them; \<open>n\<close>
  counts those. A match of odd length separates, at the dot.\<close>

fun split_loop :: "string \<Rightarrow> nat \<Rightarrow> string \<Rightarrow> string list" where
  "split_loop part n [] = [unescape (rev part)]"
| "split_loop part n (c # s) =
     (if c = CHR ''.''
      then (if even n then unescape (rev part) # split_loop [] 0 s else split_loop (c # part) 0 s)
      else split_loop (c # part) (if c = backslash then Suc n else 0) s)"

definition split_field :: "string \<Rightarrow> string list" where
  "split_field field = split_loop [] 0 field"

definition only_fields :: "obj \<Rightarrow> string list \<Rightarrow> obj py" where
  "only_fields dictionary names =
     (if names = [] then Inr dictionary
      else py_for (\<lambda>field_array out. copy_field dictionary out field_array) (map split_field names) [])"

section \<open>Formats for clients\<close>

definition dict_drop :: "string list \<Rightarrow> obj \<Rightarrow> obj" where
  "dict_drop ks d = fold dict_del ks d"

definition format_event_raw :: "obj \<Rightarrow> obj" where
  "format_event_raw d = d"

definition format_event_for_client_v2 :: "obj \<Rightarrow> obj" where
  "format_event_for_client_v2 d = dict_drop
     [''auth_events'', ''prev_events'', ''hashes'', ''signatures'', ''depth'', ''origin'', ''prev_state''] d"

definition format_event_for_client_v1 :: "obj \<Rightarrow> obj py" where
  "format_event_for_client_v1 d0 =
     (let d = format_event_for_client_v2 d0;
          d = (case dict_get d ''sender'' of
                 None \<Rightarrow> d | Some JNull \<Rightarrow> d | Some s \<Rightarrow> dict_set ''user_id'' s d)
      in py_for (\<lambda>key d. py_bind (dict_getitem d ''unsigned'') (\<lambda>u.
           py_bind (py_in (JStr key) u) (\<lambda>present.
             if present then py_bind (py_getitem u (JStr key)) (\<lambda>v. Inr (dict_set key v d)) else Inr d)))
           [''age'', ''redacted_because'', ''replaces_state'', ''prev_content'', ''invite_room_state'',
            ''knock_room_state''] d)"

definition format_event_for_client_v2_without_room_id :: "obj \<Rightarrow> obj" where
  "format_event_for_client_v2_without_room_id d = dict_del ''room_id'' (format_event_for_client_v2 d)"

section \<open>Power levels\<close>

text \<open>\<open>int(s, base=10)\<close> of a string is \<open>int(s)\<close>; a value that is neither an integer nor such a string is a
  TypeError.\<close>

definition copy_power_level_value_as_integer :: "json \<Rightarrow> obj \<Rightarrow> string \<Rightarrow> obj py" where
  "copy_power_level_value_as_integer old_value power_levels key =
     (case old_value of
        JInt n \<Rightarrow> Inr (dict_set key (JInt n) power_levels)
      | JStr s \<Rightarrow> (case int_of_str s of Some n \<Rightarrow> Inr (dict_set key (JInt n) power_levels) | None \<Rightarrow> Inl TypeError)
      | _ \<Rightarrow> Inl TypeError)"

definition copy_and_fixup_power_levels_contents :: "json \<Rightarrow> obj py" where
  "copy_and_fixup_power_levels_contents old_power_levels =
     (case old_power_levels of
        JObj old \<Rightarrow>
          py_for (\<lambda>(k, v) power_levels.
            case v of
              JObj inner \<Rightarrow>
                py_bind (py_for (\<lambda>(k1, v1) h. copy_power_level_value_as_integer v1 h k1) inner [])
                  (\<lambda>h. Inr (dict_set k (JObj h) power_levels))
            | _ \<Rightarrow> copy_power_level_value_as_integer v power_levels k) old []
      | _ \<Rightarrow> Inl TypeError)"

section \<open>Canonical JSON\<close>

definition CANONICALJSON_MAX_INT :: int where "CANONICALJSON_MAX_INT = 2 ^ 53 - 1"
definition CANONICALJSON_MIN_INT :: int where "CANONICALJSON_MIN_INT = - CANONICALJSON_MAX_INT"

fun validate_canonicaljson :: "json \<Rightarrow> unit py" where
  "validate_canonicaljson (JInt n) =
     (if n < CANONICALJSON_MIN_INT \<or> CANONICALJSON_MAX_INT < n then Inl (SynapseError 400 BAD_JSON) else Inr ())"
| "validate_canonicaljson (JFloat _) = Inl (SynapseError 400 BAD_JSON)"
| "validate_canonicaljson JInf = Inl (SynapseError 400 BAD_JSON)"
| "validate_canonicaljson (JObj d) = py_for (\<lambda>v _. validate_canonicaljson v) (map snd d) ()"
| "validate_canonicaljson (JList xs) = py_for (\<lambda>v _. validate_canonicaljson v) xs ()"
| "validate_canonicaljson _ = Inr ()"

section \<open>Stripped state\<close>

definition strip_event :: "event_obj \<Rightarrow> obj py" where
  "strip_event e =
     py_bind (dict_property ''type'' e) (\<lambda>t.
     py_bind (dict_property ''state_key'' e) (\<lambda>k.
     py_bind (obj_content e) (\<lambda>c.
     py_bind (dict_property ''sender'' e) (\<lambda>s.
       Inr [(''type'', t), (''state_key'', k), (''content'', c), (''sender'', s)]))))"

definition parse_stripped_state_event :: "json \<Rightarrow> stripped_state_event option" where
  "parse_stripped_state_event raw =
     (case raw of
        JObj d \<Rightarrow>
          (case (dict_get d ''type'', dict_get d ''state_key'', dict_get d ''sender'', dict_get d ''content'') of
             (Some (JStr t), Some (JStr k), Some (JStr s), Some (JObj c)) \<Rightarrow>
               Some \<lparr>ss_type = t, ss_state_key = k, ss_sender = s, ss_content = c\<rparr>
           | _ \<Rightarrow> None)
      | _ \<Rightarrow> None)"

text \<open>\<open>maybe_upsert_event_field\<close> on the unsigned data of an event, which is the container its callers
  pass: the change is undone when the event would become too large.\<close>

definition maybe_upsert_unsigned :: "externals \<Rightarrow> event_obj \<Rightarrow> string \<Rightarrow> json \<Rightarrow> (bool \<times> event_obj) py" where
  "maybe_upsert_unsigned ext e key v =
     (let e' = e\<lparr>obj_unsigned := dict_set key v (obj_unsigned e)\<rparr>
      in py_bind (get_pdu_json None e') (\<lambda>pdu.
           if length (encode_canonical_json ext (JObj pdu)) \<le> MAX_PDU_SIZE then Inr (True, e')
           else Inr (False,
             case dict_get (obj_unsigned e) key of
               Some old \<Rightarrow> e'\<lparr>obj_unsigned := dict_set key old (obj_unsigned e')\<rparr>
             | None \<Rightarrow> e'\<lparr>obj_unsigned := dict_del key (obj_unsigned e')\<rparr>)))"

end
