(* ===== verification/Redaction.thy ===== *)
theory Redaction
  imports Event_Utils
begin

text \<open>
  What redaction keeps. A redacted event is a fixed point of the redaction: redacting twice is
  redacting once. The content that is left is a selection of the fields of the content, described by
  \<open>pick\<close>; the fields are the ones the authorization rules read.
\<close>

section \<open>Dictionaries with distinct keys\<close>

lemma dict_set_same: "dict_get d k = Some v \<Longrightarrow> dict_set k v d = d"
  by (induction d) (auto split: if_splits)

lemma dict_set_absent: "dict_get d k = None \<Longrightarrow> dict_set k v d = d @ [(k, v)]"
  by (induction d) (auto split: if_splits)

lemma dict_get_filter_keys:
  "dict_get (filter (\<lambda>(k, v). P k) d) k = (if P k then dict_get d k else None)"
  by (induction d) auto

lemma filter_dict_set:
  "P k \<Longrightarrow> filter (\<lambda>(k, v). P k) (dict_set k v d) = dict_set k v (filter (\<lambda>(k, v). P k) d)"
  "\<not> P k \<Longrightarrow> filter (\<lambda>(k, v). P k) (dict_set k v d) = filter (\<lambda>(k, v). P k) d"
  by (induction d) (auto split: if_splits)

lemma dict_del_filter: "dict_del k d = filter (\<lambda>(k', v). k' \<noteq> k) d"
  by (induction d) (auto simp: AList.delete_eq)

lemma dict_del_set:
  "dict_del k (dict_set k v d) = dict_del k d"
  "k \<noteq> k' \<Longrightarrow> dict_del k (dict_set k' v d) = dict_set k' v (dict_del k d)"
  by (simp_all add: dict_del_filter filter_dict_set)

lemma dict_del_absent: "dict_get d k = None \<Longrightarrow> dict_del k d = d"
  by (simp add: AList.delete_eq map_of_eq_None_iff filter_id_conv) force

section \<open>Selected fields\<close>

definition pick :: "obj \<Rightarrow> string list \<Rightarrow> obj" where
  "pick c names = concat (map (\<lambda>k. case dict_get c k of None \<Rightarrow> [] | Some v \<Rightarrow> [(k, v)]) names)"

lemma pick_simps [simp]:
  "pick c [] = []"
  "pick c (k # ks) = (case dict_get c k of None \<Rightarrow> pick c ks | Some v \<Rightarrow> (k, v) # pick c ks)"
  by (simp_all add: pick_def split: option.splits)

lemma pick_append: "pick c (ks @ ks') = pick c ks @ pick c ks'"
  by (simp add: pick_def)

lemma dict_get_pick: "dict_get (pick c ks) k = (if k \<in> set ks then dict_get c k else None)"
  by (induction ks) (auto split: option.splits)

lemma pick_cong: "(\<And>k. k \<in> set ks \<Longrightarrow> dict_get c k = dict_get c' k) \<Longrightarrow> pick c ks = pick c' ks"
  unfolding pick_def by (intro arg_cong[where f = concat] map_cong) auto

text \<open>The content as far as it can be read field by field.\<close>

definition content_of :: "obj \<Rightarrow> obj" where
  "content_of d = (case dict_get d ''content'' of Some (JObj c) \<Rightarrow> c | _ \<Rightarrow> [])"

lemma add_field_obj:
  assumes "dict_get d ''content'' = Some (JObj c)"
  shows "add_field d k acc = Inr (case dict_get c k of None \<Rightarrow> acc | Some v \<Rightarrow> dict_set k v acc)"
  using assms by (auto simp: add_field_def dict_getitem_def dict_has_def split: option.splits)

lemma add_field_result:
  assumes "add_field d k acc = Inr r"
  shows "r = (case dict_get (content_of d) k of None \<Rightarrow> acc | Some v \<Rightarrow> dict_set k v acc)"
proof (cases "dict_get d ''content''")
  case (Some c)
  then show ?thesis
    using assms
    by (cases c) (auto simp: add_field_def content_of_def dict_getitem_def dict_has_def py_bind_Inr_iff
        split: option.splits if_splits)
qed (use assms in \<open>simp add: add_field_def dict_getitem_def\<close>)

lemma add_fields_result:
  assumes "add_fields d ks acc = Inr r" and "distinct ks" and "\<And>k. k \<in> set ks \<Longrightarrow> dict_get acc k = None"
  shows "r = acc @ pick (content_of d) ks"
  using assms unfolding add_fields_def
proof (induction ks arbitrary: acc)
  case (Cons k ks)
  from Cons.prems(1) obtain acc' where a: "add_field d k acc = Inr acc'" and r: "py_for (add_field d) ks acc' = Inr r"
    by (auto simp: py_bind_Inr_iff)
  have acc': "acc' = acc @ pick (content_of d) [k]"
    using add_field_result[OF a] Cons.prems(3)[of k] by (auto simp: dict_set_absent split: option.splits)
  have "dict_get acc' k' = None" if "k' \<in> set ks" for k'
    using Cons.prems(2) Cons.prems(3)[of k'] that unfolding acc' map_of_append
    by (simp add: map_add_def dict_get_pick del: pick_simps) metis
  from Cons.IH[OF r _ this] Cons.prems(2) have "r = acc' @ pick (content_of d) ks" by simp
  then show ?case using pick_append[of "content_of d" "[k]" ks] by (simp add: acc' del: pick_simps)
qed simp

lemma add_fields_obj:
  assumes "dict_get d ''content'' = Some (JObj c)" and "distinct ks" and "\<And>k. k \<in> set ks \<Longrightarrow> dict_get acc k = None"
  shows "add_fields d ks acc = Inr (acc @ pick c ks)"
proof -
  have "\<exists>r. add_fields d ks acc = Inr r" for acc
    unfolding add_fields_def by (induction ks arbitrary: acc) (auto simp: add_field_obj[OF assms(1)])
  then obtain r where r: "add_fields d ks acc = Inr r" by blast
  from add_fields_result[OF this assms(2,3)] r show ?thesis by (simp add: content_of_def assms(1))
qed


section \<open>The content that is left\<close>

definition kept_fields :: "room_version \<Rightarrow> json \<Rightarrow> string list" where
  "kept_fields rv t =
     (if str_eq t EventTypes_Member
      then ''membership'' # (if restricted_join_rule_fix rv then [AUTHORISING_USER] else [])
      else if str_eq t EventTypes_Create
      then (if \<not> implicit_room_creator rv then [''creator''] else [])
      else if str_eq t EventTypes_JoinRules
      then ''join_rule'' # (if restricted_join_rule rv then [''allow''] else [])
      else if str_eq t EventTypes_PowerLevels
      then [''users'', ''users_default'', ''events'', ''events_default'', ''state_default'', ''ban'', ''kick'',
            ''redact''] @ (if updated_redaction_rules rv then [''invite''] else [])
      else if str_eq t EventTypes_Aliases \<and> special_case_aliases_auth rv then [''aliases'']
      else if str_eq t EventTypes_RoomHistoryVisibility then [''history_visibility'']
      else if str_eq t EventTypes_Redaction \<and> updated_redaction_rules rv then [''redacts'']
      else [])"

definition obj_at :: "obj \<Rightarrow> string \<Rightarrow> obj option" where
  "obj_at c k = (case dict_get c k of Some (JObj d) \<Rightarrow> Some d | _ \<Rightarrow> None)"

lemma obj_at_simps:
  "dict_get c k = None \<Longrightarrow> obj_at c k = None" "dict_get c k = Some (JObj d) \<Longrightarrow> obj_at c k = Some d"
  by (simp_all add: obj_at_def)

lemma obj_at_cong: "dict_get c k = dict_get c' k \<Longrightarrow> obj_at c k = obj_at c' k"
  by (simp add: obj_at_def)

definition kept_invite :: "room_version \<Rightarrow> json \<Rightarrow> obj \<Rightarrow> obj" where
  "kept_invite rv t c =
     (if str_eq t EventTypes_Member \<and> updated_redaction_rules rv
      then (case obj_at c ''third_party_invite'' of
              Some tpi \<Rightarrow> [(''third_party_invite'', JObj (pick tpi [''signed'']))]
            | None \<Rightarrow> [])
      else [])"

definition keeps_all :: "room_version \<Rightarrow> json \<Rightarrow> bool" where
  "keeps_all rv t \<longleftrightarrow> str_eq t EventTypes_Create \<and> updated_redaction_rules rv"

definition kept_content :: "room_version \<Rightarrow> json \<Rightarrow> obj \<Rightarrow> obj" where
  "kept_content rv t c = (if keeps_all rv t then c else pick c (kept_fields rv t) @ kept_invite rv t c)"

text \<open>The protected part of the relation, when there is one.\<close>

definition kept_relation :: "room_version \<Rightarrow> obj \<Rightarrow> obj option" where
  "kept_relation rv c =
     (if msc3389_relation_redactions rv
      then (case obj_at c ''m.relates_to'' of
              Some r \<Rightarrow> if pruned_relation r \<noteq> [] then Some (pruned_relation r) else None
            | None \<Rightarrow> None)
      else None)"

definition with_relation :: "room_version \<Rightarrow> obj \<Rightarrow> obj \<Rightarrow> obj" where
  "with_relation rv c b = (case kept_relation rv c of None \<Rightarrow> b | Some r \<Rightarrow> dict_set ''m.relates_to'' (JObj r) b)"

lemma kept_fields_distinct: "distinct (kept_fields rv t)"
  by (simp add: kept_fields_def)

lemma kept_fields_fresh: "k \<in> set (kept_fields rv t) \<Longrightarrow> k \<noteq> ''third_party_invite'' \<and> k \<noteq> ''m.relates_to''"
  by (auto simp: kept_fields_def split: if_splits)

lemma kept_invite_keys: "x \<in> set (kept_invite rv t c) \<Longrightarrow> fst x = ''third_party_invite''"
proof -
  have "list_all (\<lambda>x. fst x = ''third_party_invite'') (kept_invite rv t c)"
    by (simp add: kept_invite_def split: option.splits)
  then show "x \<in> set (kept_invite rv t c) \<Longrightarrow> fst x = ''third_party_invite''"
    unfolding list_all_iff by blast
qed

lemma dict_get_kept_invite:
  assumes "k \<noteq> ''third_party_invite''"
  shows "dict_get (kept_invite rv t c) k = None"
  using assms kept_invite_keys[of _ rv t c] unfolding map_of_eq_None_iff by blast

lemma pick_pick: "pick (pick c ks) ks = pick c ks"
  by (rule pick_cong) (auto simp: dict_get_pick)

lemma pruned_relation_pick: "pruned_relation r = pick r [''rel_type'', ''event_id'']"
  by (simp add: pruned_relation_def pick_def)

lemma pruned_relation_idem: "pruned_relation (pruned_relation r) = pruned_relation r"
  unfolding pruned_relation_pick by (rule pick_pick)

lemma kept_relation_of:
  assumes "kept_relation rv c = Some r" and "dict_get c' ''m.relates_to'' = Some (JObj r)"
  shows "kept_relation rv c' = Some r"
  using assms by (auto simp: kept_relation_def obj_at_simps pruned_relation_idem split: if_splits option.splits)

lemma kept_relation_none: "dict_get c' ''m.relates_to'' = None \<Longrightarrow> kept_relation rv c' = None"
  by (simp add: kept_relation_def obj_at_simps)

lemma with_relation_other: "k \<noteq> ''m.relates_to'' \<Longrightarrow> dict_get (with_relation rv c b) k = dict_get b k"
  by (simp add: with_relation_def alist.get_put split: option.splits)

lemma with_relation_fresh:
  assumes "dict_get b ''m.relates_to'' = None"
  shows "with_relation rv (with_relation rv c b) b = with_relation rv c b"
proof (cases "kept_relation rv c")
  case None
  with assms kept_relation_none show ?thesis by (simp add: with_relation_def)
next
  case (Some r)
  then have "kept_relation rv (dict_set ''m.relates_to'' (JObj r) b) = Some r"
    by (rule kept_relation_of) (simp add: alist.get_put)
  with Some show ?thesis by (simp add: with_relation_def)
qed

lemma with_relation_self:
  "with_relation rv (with_relation rv c c) (with_relation rv c c) = with_relation rv c c"
proof (cases "kept_relation rv c")
  case None
  then show ?thesis by (simp add: with_relation_def)
next
  case (Some r)
  then have "kept_relation rv (dict_set ''m.relates_to'' (JObj r) c) = Some r"
    by (rule kept_relation_of) (simp add: alist.get_put)
  with Some show ?thesis by (simp add: with_relation_def dict_set_same alist.get_put)
qed

text \<open>The content a redaction leaves, as a function of the content.\<close>

definition redacted_content :: "room_version \<Rightarrow> json \<Rightarrow> obj \<Rightarrow> obj" where
  "redacted_content rv t c = with_relation rv c (kept_content rv t c)"

lemma dict_get_kept_content:
  assumes "\<not> keeps_all rv t"
  shows "dict_get (kept_content rv t c) k =
     (if k \<in> set (kept_fields rv t) then dict_get c k else dict_get (kept_invite rv t c) k)"
proof -
  have "dict_get (kept_invite rv t c) k = None" if "k \<in> set (kept_fields rv t)"
    using kept_fields_fresh[OF that] by (simp add: dict_get_kept_invite)
  with assms show ?thesis
    by (simp add: kept_content_def map_add_def dict_get_pick split: option.splits)
qed

lemma kept_invite_idem:
  assumes "dict_get c' ''third_party_invite'' = dict_get (kept_invite rv t c) ''third_party_invite''"
  shows "kept_invite rv t c' = kept_invite rv t c"
proof (cases "str_eq t EventTypes_Member \<and> updated_redaction_rules rv")
  case True
  show ?thesis
  proof (cases "obj_at c ''third_party_invite''")
    case None
    with assms True have "obj_at c' ''third_party_invite'' = None" by (simp add: kept_invite_def obj_at_simps)
    with None show ?thesis by (simp add: kept_invite_def)
  next
    case (Some tpi)
    with assms True have "obj_at c' ''third_party_invite'' = Some (pick tpi [''signed''])"
      by (simp add: kept_invite_def obj_at_simps del: pick_simps)
    with Some show ?thesis using pick_pick[of tpi "[''signed'']"] by (simp add: kept_invite_def del: pick_simps)
  qed
qed (auto simp: kept_invite_def)

lemma kept_content_cong:
  assumes "\<not> keeps_all rv t"
    and "\<And>k. k \<noteq> ''m.relates_to'' \<Longrightarrow> dict_get c' k = dict_get (kept_content rv t c) k"
  shows "kept_content rv t c' = kept_content rv t c"
proof -
  have "pick c' (kept_fields rv t) = pick c (kept_fields rv t)"
    by (rule pick_cong) (use kept_fields_fresh assms dict_get_kept_content in force)
  moreover have "''third_party_invite'' \<notin> set (kept_fields rv t)" using kept_fields_fresh by blast
  then have "kept_invite rv t c' = kept_invite rv t c"
    using assms(2)[of "''third_party_invite''"] dict_get_kept_content[OF assms(1), of c "''third_party_invite''"]
    by (intro kept_invite_idem) simp
  ultimately show ?thesis using assms(1) by (simp add: kept_content_def)
qed

lemma redacted_content_idem: "redacted_content rv t (redacted_content rv t c) = redacted_content rv t c"
proof (cases "keeps_all rv t")
  case True
  then have "redacted_content rv t c' = with_relation rv c' c'" for c'
    by (simp add: redacted_content_def kept_content_def)
  then show ?thesis by (simp add: with_relation_self)
next
  case False
  have "kept_content rv t (redacted_content rv t c) = kept_content rv t c"
    by (rule kept_content_cong[OF False]) (simp add: redacted_content_def with_relation_other)
  moreover have "dict_get (kept_content rv t c) ''m.relates_to'' = None"
    using kept_fields_fresh[of "''m.relates_to''" rv t]
    by (auto simp: dict_get_kept_content[OF False] dict_get_kept_invite)
  ultimately show ?thesis
    by (simp add: redacted_content_def[of rv t "redacted_content rv t c"])
      (simp add: redacted_content_def with_relation_fresh)
qed


section \<open>The redaction of a dictionary\<close>

lemma add_fields_append: "add_fields d (ks @ ks') acc = py_bind (add_fields d ks acc) (\<lambda>c. add_fields d ks' c)"
  by (simp add: add_fields_def py_for_append)

lemma add_fields_if:
  "py_bind (add_fields d ks acc) (\<lambda>c. if b then add_fields d ks' c else Inr c) =
     add_fields d (ks @ (if b then ks' else [])) acc"
  by (cases b; cases "add_fields d ks acc") (simp_all add: add_fields_append)

text \<open>Every branch but one adds the kept fields.\<close>

lemma prune_member_content_eq:
  "prune_member_content rv d =
     py_bind (add_fields d (kept_fields rv (JStr EventTypes_Member)) []) (\<lambda>c.
       if updated_redaction_rules rv then keep_invite_signed d c else Inr c)"
  using add_fields_if[of d "[''membership'']" "[]" "restricted_join_rule_fix rv" "[AUTHORISING_USER]"]
  by (simp add: prune_member_content_def kept_fields_def str_eq_def flip: py_bind_assoc)

lemma prune_content_eq:
  "prune_content rv d t =
     (if t = JStr EventTypes_Member then py_bind (prune_member_content rv d) (\<lambda>c. Inr (Some c))
      else if keeps_all rv t then Inr None
      else py_bind (add_fields d (kept_fields rv t) []) (\<lambda>c. Inr (Some c)))"
proof -
  have empty: "add_fields d [] [] = Inr []" by (simp add: add_fields_def)
  show ?thesis
    using add_fields_if[of d "[''join_rule'']" "[]" "restricted_join_rule rv" "[''allow'']"]
      add_fields_if[of d "[''users'', ''users_default'', ''events'', ''events_default'', ''state_default'', ''ban'',
        ''kick'', ''redact'']" "[]" "updated_redaction_rules rv" "[''invite'']"]
    by (auto simp: prune_content_def kept_fields_def keeps_all_def Let_def str_eq_def empty)
qed

lemma content_get_obj: "dict_get d ''content'' = Some (JObj c) \<Longrightarrow> content_get d k = Inr (dict_get c k)"
  by (simp add: content_get_def dict_getitem_def)

lemma content_get_result:
  assumes "content_get d k = Inr v"
  shows "dict_get d ''content'' = Some (JObj (content_of d)) \<and> v = dict_get (content_of d) k"
proof -
  from assms obtain j c where j: "dict_get d ''content'' = Some j" and c: "as_dict j = Inr c" and v: "v = dict_get c k"
    by (auto simp: content_get_def py_bind_Inr_iff dict_getitem_Inr_iff)
  then have "j = JObj c" by (cases j) auto
  with j v show ?thesis by (simp add: content_of_def)
qed

lemma keep_invite_signed_obj:
  assumes "dict_get d ''content'' = Some (JObj c)" and "dict_get b ''third_party_invite'' = None"
  shows "keep_invite_signed d b = Inr (b @ (case obj_at c ''third_party_invite'' of
     Some tpi \<Rightarrow> [(''third_party_invite'', JObj (pick tpi [''signed'']))] | None \<Rightarrow> []))"
proof -
  have "(case dict_get i ''signed'' of None \<Rightarrow> [] | Some s \<Rightarrow> [(''signed'', s)]) = pick i [''signed'']" for i
    by (simp split: option.splits)
  then show ?thesis
    using assms(2)
    by (simp add: keep_invite_signed_def content_get_obj[OF assms(1)] obj_at_def dict_set_absent
        split: option.split json.split del: pick_simps)
qed

lemma prune_content_obj:
  assumes "dict_get d ''content'' = Some (JObj c)"
  shows "prune_content rv d t = Inr (if keeps_all rv t then None else Some (kept_content rv t c))"
proof -
  have fields: "add_fields d (kept_fields rv t) [] = Inr (pick c (kept_fields rv t))"
    using add_fields_obj[OF assms kept_fields_distinct, of rv t "[]"] by simp
  have fresh: "dict_get (pick c (kept_fields rv t)) ''third_party_invite'' = None"
    using kept_fields_fresh[of _ rv t] by (auto simp: dict_get_pick)
  show ?thesis
  proof (cases "t = JStr EventTypes_Member")
    case True
    have "prune_member_content rv d = Inr (kept_content rv t c)"
      using fields keep_invite_signed_obj[OF assms fresh] True
      by (simp add: prune_member_content_eq kept_content_def kept_invite_def keeps_all_def str_eq_def)
    then show ?thesis by (simp add: prune_content_eq True keeps_all_def str_eq_def)
  next
    case False
    then show ?thesis
      using fields by (simp add: prune_content_eq kept_content_def kept_invite_def str_eq_def)
  qed
qed


lemma prune_content_result:
  assumes "prune_content rv d t = Inr p"
  shows "p = (if keeps_all rv t then None else Some (kept_content rv t (content_of d)))"
proof (cases "\<exists>c. dict_get d ''content'' = Some (JObj c)")
  case True
  then obtain c where c: "dict_get d ''content'' = Some (JObj c)" by blast
  with prune_content_obj[OF c, of rv t] assms show ?thesis by (simp add: content_of_def)
next
  case False
  then have no_get: "content_get d k \<noteq> Inr v" for k v using content_get_result[of d k v] by blast
  have fields: "c = pick (content_of d) (kept_fields rv t)" if "add_fields d (kept_fields rv t) [] = Inr c" for c
    using add_fields_result[OF that kept_fields_distinct] by simp
  show ?thesis
  proof (cases "t = JStr EventTypes_Member")
    case True
    with assms obtain c where c: "add_fields d (kept_fields rv t) [] = Inr c" and "\<not> updated_redaction_rules rv"
      and "p = Some c"
      using no_get by (auto simp: prune_content_eq prune_member_content_eq keep_invite_signed_def py_bind_Inr_iff
          split: if_splits)
    with fields[OF c] True show ?thesis by (simp add: kept_content_def kept_invite_def keeps_all_def str_eq_def)
  next
    case False
    with assms fields show ?thesis
      by (auto simp: prune_content_eq kept_content_def kept_invite_def str_eq_def py_bind_Inr_iff split: if_splits)
  qed
qed

lemma keep_relation_obj:
  assumes "dict_get d ''content'' = Some (JObj c)"
  shows "keep_relation rv d (JObj b) = Inr (JObj (with_relation rv c b))"
  by (simp add: keep_relation_def content_get_obj[OF assms] with_relation_def kept_relation_def obj_at_def
      split: option.split json.split)

lemma keep_relation_not_obj:
  assumes "\<And>c. dict_get d ''content'' \<noteq> Some (JObj c)" and "keep_relation rv d v = Inr w"
  shows "\<not> msc3389_relation_redactions rv \<and> w = v"
proof -
  have no_get: "content_get d k \<noteq> Inr v" for k v using content_get_result[of d k v] assms(1) by blast
  with assms(2) show ?thesis by (auto simp: keep_relation_def py_bind_Inr_iff split: if_splits)
qed

lemma prune_new_content_obj:
  assumes "dict_get d ''type'' = Some t" and "dict_get d ''content'' = Some (JObj c)"
  shows "prune_new_content rv d = Inr (JObj (redacted_content rv t c))"
  using assms
  by (simp add: prune_new_content_def dict_getitem_def prune_content_obj[OF assms(2)] keep_relation_obj[OF assms(2)]
      redacted_content_def kept_content_def)

text \<open>Redacting what a redaction left changes nothing.\<close>

lemma prune_new_content_idem:
  assumes "prune_new_content rv d = Inr C"
    and "dict_get d' ''type'' = dict_get d ''type''" and "dict_get d' ''content'' = Some C"
  shows "prune_new_content rv d' = Inr C"
proof -
  from assms(1) obtain t p v where t: "dict_get d ''type'' = Some t" and p: "prune_content rv d t = Inr p"
    and v: "(case p of Some c \<Rightarrow> Inr (JObj c) | None \<Rightarrow> dict_getitem d ''content'') = Inr v"
    and C: "keep_relation rv d v = Inr C"
    by (auto simp: prune_new_content_def py_bind_Inr_iff dict_getitem_Inr_iff)
  note t' = assms(2)[unfolded t]
  show ?thesis
  proof (cases "\<exists>c. dict_get d ''content'' = Some (JObj c)")
    case True
    then obtain c where c: "dict_get d ''content'' = Some (JObj c)" by blast
    have "C = JObj (redacted_content rv t c)" using prune_new_content_obj[OF t c] assms(1) by simp
    with prune_new_content_obj[OF t', of "redacted_content rv t c" rv] assms(3) show ?thesis
      by (simp add: redacted_content_idem)
  next
    case False
    with C have msc: "\<not> msc3389_relation_redactions rv" and "C = v" using keep_relation_not_obj by blast+
    have c0: "content_of d = []" using False by (auto simp: content_of_def split: option.split json.split)
    show ?thesis
    proof (cases "keeps_all rv t")
      case True
      then have all: "prune_content rv d' t = Inr None" by (auto simp: prune_content_eq keeps_all_def str_eq_def)
      show ?thesis
        using msc assms(3) by (simp add: prune_new_content_def dict_getitem_def t' all keep_relation_def)
    next
      case False
      have "p = Some (kept_content rv t [])" using prune_content_result[OF p] False c0 by simp
      then have C: "C = JObj (kept_content rv t [])" using v \<open>C = v\<close> by simp
      have "pick [] ks = []" for ks by (induction ks) auto
      then have "kept_content rv t [] = []"
        by (simp add: kept_content_def kept_invite_def obj_at_def)
      moreover have "redacted_content rv t [] = kept_content rv t []"
        using msc by (simp add: redacted_content_def with_relation_def kept_relation_def)
      ultimately show ?thesis
        using prune_new_content_obj[OF t', of "[]" rv] assms(3) C by simp
    qed
  qed
qed

lemma prune_new_content_cong:
  assumes "dict_get d' ''type'' = dict_get d ''type''" and "dict_get d' ''content'' = dict_get d ''content''"
  shows "prune_new_content rv d' = prune_new_content rv d"
proof -
  have items: "dict_getitem d' ''type'' = dict_getitem d ''type''" "dict_getitem d' ''content'' = dict_getitem d ''content''"
    by (simp_all add: dict_getitem_def assms)
  then have field: "add_field d' = add_field d" and get: "content_get d' = content_get d"
    by (simp_all only: fun_eq_iff add_field_def content_get_def simp_thms)
  from field have fields: "add_fields d' = add_fields d"
    by (intro ext) (simp only: add_fields_def)
  with get have "prune_content rv d' = prune_content rv d" and "keep_relation rv d' = keep_relation rv d"
    by (simp_all only: fun_eq_iff prune_content_def prune_member_content_def keep_invite_signed_def
        keep_relation_def simp_thms)
  with items show ?thesis by (simp only: prune_new_content_def)
qed


section \<open>The redaction of an event\<close>

text \<open>The unsigned data that is left.\<close>

definition redacted_unsigned :: "json \<Rightarrow> obj py" where
  "redacted_unsigned u = py_for (copy_unsigned u) [''age_ts'', ''replaces_state''] []"

lemma redacted_unsigned_obj: "redacted_unsigned (JObj u) = Inr (pick u [''age_ts'', ''replaces_state''])"
  by (simp add: redacted_unsigned_def copy_unsigned_def dict_has_def dict_getitem_def split: option.splits)

lemma prune_event_dict_eq:
  "prune_event_dict rv d =
     py_bind (prune_new_content rv d) (\<lambda>C.
     py_bind (redacted_unsigned (dict_get_default d ''unsigned'' (JObj []))) (\<lambda>u.
       Inr (dict_set ''unsigned'' (JObj u) (dict_set ''content'' C (filter (\<lambda>(k, v). k \<in> set (allowed_keys rv)) d)))))"
  by (simp add: prune_event_dict_def redacted_unsigned_def Let_def)

lemma allowed_keys_facts:
  "''unsigned'' \<notin> set (allowed_keys rv)" "''content'' \<in> set (allowed_keys rv)" "''type'' \<in> set (allowed_keys rv)"
  "''signatures'' \<in> set (allowed_keys rv)" "''event_id'' \<in> set (allowed_keys rv)"
  by (simp_all add: allowed_keys_def)

lemma redacted_unsigned_result:
  assumes "redacted_unsigned j = Inr u"
  shows "redacted_unsigned (JObj u) = Inr u"
proof -
  have "\<exists>v. u = pick v [''age_ts'', ''replaces_state'']"
  proof (cases j)
    case (JObj v)
    with assms redacted_unsigned_obj show ?thesis by auto
  next
    case (JStr s)
    with assms have "u = pick [] [''age_ts'', ''replaces_state'']"
      by (auto simp: redacted_unsigned_def copy_unsigned_def py_bind_Inr_iff split: if_splits)
    then show ?thesis by blast
  next
    case (JList xs)
    with assms have "u = pick [] [''age_ts'', ''replaces_state'']"
      by (auto simp: redacted_unsigned_def copy_unsigned_def py_bind_Inr_iff split: if_splits)
    then show ?thesis by blast
  qed (use assms in \<open>simp_all add: redacted_unsigned_def copy_unsigned_def\<close>)
  then show ?thesis by (auto simp: redacted_unsigned_obj pick_pick simp del: pick_simps)
qed

lemma prune_event_dict_idem:
  assumes "prune_event_dict rv d = Inr d'"
  shows "prune_event_dict rv d' = Inr d'"
proof -
  let ?allowed = "filter (\<lambda>(k, v). k \<in> set (allowed_keys rv))"
  from assms obtain C u where C: "prune_new_content rv d = Inr C"
    and u: "redacted_unsigned (dict_get_default d ''unsigned'' (JObj [])) = Inr u"
    and d': "d' = dict_set ''unsigned'' (JObj u) (dict_set ''content'' C (?allowed d))"
    by (auto simp: prune_event_dict_eq py_bind_Inr_iff)
  have get: "dict_get d' ''type'' = dict_get d ''type''" "dict_get d' ''content'' = Some C"
    "dict_get_default d' ''unsigned'' (JObj []) = JObj u"
    by (simp_all add: d' alist.get_put dict_get_filter_keys allowed_keys_facts dict_get_default_def)
  have "?allowed d' = dict_set ''content'' C (?allowed d)"
    by (simp add: d' filter_dict_set allowed_keys_facts)
  then have "dict_set ''content'' C (?allowed d') = dict_set ''content'' C (?allowed d)"
    by (simp add: dict_set_same alist.get_put)
  then show ?thesis
    by (simp add: prune_event_dict_eq prune_new_content_idem[OF C get(1,2)] get(3) redacted_unsigned_result[OF u])
      (simp add: d')
qed


text \<open>What the constructor of an event object guarantees.\<close>

definition is_JObj :: "json \<Rightarrow> bool" where
  "is_JObj v \<longleftrightarrow> (\<exists>d. v = JObj d)"

definition wf_event_obj :: "event_obj \<Rightarrow> bool" where
  "wf_event_obj e \<longleftrightarrow>
     wf_dict (obj_dict e) \<and>
     dict_get (obj_dict e) ''signatures'' = None \<and> dict_get (obj_dict e) ''unsigned'' = None \<and>
     list_all (\<lambda>(k, v). is_JObj v) (obj_signatures e) \<and>
     list_all metadata_field (im_data (obj_metadata e)) \<and>
     (if event_format (obj_version e) = ROOM_V1_V2
      then dict_get (obj_dict e) ''event_id'' = obj_stored_id e \<and> obj_stored_id e \<noteq> None
      else obj_stored_id e = None \<and> dict_get (obj_dict e) ''event_id'' = None)"

lemma copy_signatures_map:
  assumes "list_all (\<lambda>(k, v). is_JObj v) sigs"
  shows "py_map (\<lambda>(name, v). py_bind (as_dict v) (\<lambda>s. Inr (name, JObj s))) sigs = Inr sigs"
  using assms by (induction sigs) (auto simp: is_JObj_def)

lemma copy_signatures_wf:
  "py_map (\<lambda>(name, v). py_bind (as_dict v) (\<lambda>s. Inr (name, JObj s))) sigs = Inr sigs' \<Longrightarrow>
     list_all (\<lambda>(k, v). is_JObj v) sigs'"
  by (induction sigs arbitrary: sigs') (auto simp: py_bind_Inr_iff is_JObj_def)

lemma dict_get_del: "dict_get (dict_del k d) k' = (if k' = k then None else dict_get d k')"
  by (simp add: alist.get_del)

lemma make_event_from_dict_wf:
  assumes "make_event_from_dict d rv md rej = Inr e" and "wf_dict d"
  shows "wf_event_obj e"
proof -
  from assms(1) obtain sigs uns stored where sigs: "copy_signatures d = Inr sigs"
    and id: "event_format rv \<noteq> ROOM_V1_V2 \<Longrightarrow> \<not> dict_has (dict_del ''signatures'' d) ''event_id''"
    and stored: "(if event_format rv = ROOM_V1_V2
        then py_bind (dict_getitem (dict_del ''unsigned'' (dict_del ''signatures'' d)) ''event_id'') (\<lambda>i. Inr (Some i))
        else Inr None) = Inr stored"
    and e: "e = \<lparr>obj_dict = dict_del ''unsigned'' (dict_del ''signatures'' d), obj_stored_id = stored,
      obj_signatures = sigs, obj_unsigned = uns, obj_version = rv, obj_rejected_reason = rej,
      obj_metadata = EventInternalMetadata md\<rparr>"
    by (auto simp: make_event_from_dict_def Let_def py_bind_Inr_iff split: if_splits)
  have "list_all (\<lambda>(k, v). is_JObj v) sigs"
    using sigs copy_signatures_wf by (auto simp: copy_signatures_def py_bind_Inr_iff)
  moreover have "list_all metadata_field (im_data (EventInternalMetadata md))"
    by (simp add: EventInternalMetadata_def list_all_iff)
  moreover have "if event_format rv = ROOM_V1_V2
      then dict_get (obj_dict e) ''event_id'' = stored \<and> stored \<noteq> None
      else stored = None \<and> dict_get (obj_dict e) ''event_id'' = None"
  proof (cases "event_format rv = ROOM_V1_V2")
    case True
    with stored show ?thesis by (auto simp: py_bind_Inr_iff dict_getitem_Inr_iff e)
  next
    case False
    with stored id show ?thesis by (auto simp: e dict_has_def dict_get_del)
  qed
  moreover have "wf_dict (obj_dict e)" and "dict_get (obj_dict e) ''signatures'' = None"
    and "dict_get (obj_dict e) ''unsigned'' = None"
    using assms(2) by (simp_all add: e dict_get_del alist.wf_del)
  ultimately show ?thesis
    unfolding wf_event_obj_def by (simp only: e event_obj.simps simp_thms)
qed

text \<open>The redaction of an object, without the way through the dictionary.\<close>

definition redacted_obj :: "event_obj \<Rightarrow> json \<Rightarrow> event_obj" where
  "redacted_obj e C = e\<lparr>
     obj_dict := dict_set ''content'' C (filter (\<lambda>(k, v). k \<in> set (allowed_keys (obj_version e))) (obj_dict e)),
     obj_unsigned := pick (obj_unsigned e) [''age_ts'', ''replaces_state''],
     obj_rejected_reason := None,
     obj_metadata := set_redacted True (obj_metadata e)\<rparr>"

lemma get_dict_eq:
  assumes "wf_event_obj e"
  shows "get_dict e = obj_dict e @ [(''signatures'', JObj (obj_signatures e)), (''unsigned'', JObj (obj_unsigned e))]"
proof -
  have "dict_set ''signatures'' (JObj (obj_signatures e)) (obj_dict e) = obj_dict e @ [(''signatures'', JObj (obj_signatures e))]"
    using assms by (intro dict_set_absent) (simp add: wf_event_obj_def)
  moreover have "dict_set ''unsigned'' (JObj (obj_unsigned e)) (obj_dict e @ [(''signatures'', JObj (obj_signatures e))]) =
      (obj_dict e @ [(''signatures'', JObj (obj_signatures e))]) @ [(''unsigned'', JObj (obj_unsigned e))]"
    using assms by (intro dict_set_absent) (simp add: wf_event_obj_def map_add_def)
  ultimately show ?thesis by (simp add: get_dict_def dict_update_def)
qed

lemma dict_get_get_dict:
  "wf_event_obj e \<Longrightarrow> dict_get (get_dict e) k =
     (if k = ''signatures'' then Some (JObj (obj_signatures e))
      else if k = ''unsigned'' then Some (JObj (obj_unsigned e)) else dict_get (obj_dict e) k)"
  by (simp add: get_dict_def dict_update_def alist.get_put)

lemma filter_metadata [simp]: "list_all metadata_field d \<Longrightarrow> filter metadata_field d = d"
  by (induction d) auto

lemma make_event_obj:
  assumes "dict_get_default d ''signatures'' (JObj []) = JObj sigs" and "list_all (\<lambda>(k, v). is_JObj v) sigs"
    and "dict_get_default d ''unsigned'' (JObj []) = JObj uns"
    and "if event_format rv = ROOM_V1_V2 then dict_get d ''event_id'' = stored \<and> stored \<noteq> None
      else dict_get d ''event_id'' = None \<and> stored = None"
  shows "make_event_from_dict d rv md rej =
     Inr \<lparr>obj_dict = dict_del ''unsigned'' (dict_del ''signatures'' d), obj_stored_id = stored, obj_signatures = sigs,
          obj_unsigned = uns, obj_version = rv, obj_rejected_reason = rej, obj_metadata = EventInternalMetadata md\<rparr>"
proof -
  have "copy_signatures d = Inr sigs" by (simp add: copy_signatures_def assms(1) copy_signatures_map[OF assms(2)])
  moreover have "dict_get_default (dict_del ''signatures'' d) ''unsigned'' (JObj []) = JObj uns"
    using assms(3) by (simp add: dict_get_default_def dict_get_del)
  ultimately show ?thesis
    using assms(4)
    by (cases "event_format rv = ROOM_V1_V2")
      (auto simp: make_event_from_dict_def Let_def dict_getitem_def dict_has_def dict_get_del)
qed

lemma allowed_get_dict:
  fixes rv
  defines "allowed \<equiv> filter (\<lambda>(k, v). k \<in> set (allowed_keys rv))"
  assumes "wf_event_obj e"
  shows "dict_del ''unsigned'' (dict_del ''signatures'' (allowed (get_dict e))) = allowed (obj_dict e)"
proof -
  have none: "dict_get (allowed (obj_dict e)) ''signatures'' = None" "dict_get (allowed (obj_dict e)) ''unsigned'' = None"
    using assms(2) by (simp_all add: allowed_def dict_get_filter_keys wf_event_obj_def)
  have "allowed (get_dict e) = allowed (obj_dict e) @ [(''signatures'', JObj (obj_signatures e))]"
    by (simp add: get_dict_eq[OF assms(2)] allowed_def allowed_keys_facts)
  moreover have "dict_del ''signatures'' (allowed (obj_dict e) @ [(''signatures'', JObj (obj_signatures e))]) = allowed (obj_dict e)"
    using dict_del_absent[OF none(1)] by (simp add: dict_del_filter)
  ultimately show ?thesis by (simp add: dict_del_absent none)
qed

lemma prune_event_eq:
  assumes "wf_event_obj e"
  shows "prune_event e = py_bind (prune_new_content (obj_version e) (obj_dict e)) (\<lambda>C. Inr (redacted_obj e C))"
proof (cases "prune_new_content (obj_version e) (obj_dict e)")
  case (Inl err)
  have "prune_new_content (obj_version e) (get_dict e) = Inl err"
    using Inl prune_new_content_cong[of "get_dict e" "obj_dict e"] assms by (simp add: dict_get_get_dict)
  then show ?thesis using Inl by (simp add: prune_event_def prune_event_dict_eq)
next
  case (Inr C)
  let ?rv = "obj_version e"
  let ?allowed = "filter (\<lambda>(k, v). k \<in> set (allowed_keys ?rv))"
  let ?uns = "pick (obj_unsigned e) [''age_ts'', ''replaces_state'']"
  let ?d = "dict_set ''unsigned'' (JObj ?uns) (dict_set ''content'' C (?allowed (get_dict e)))"
  have "prune_new_content ?rv (get_dict e) = Inr C"
    using Inr prune_new_content_cong[of "get_dict e" "obj_dict e"] assms by (simp add: dict_get_get_dict)
  moreover have "dict_get_default (get_dict e) ''unsigned'' (JObj []) = JObj (obj_unsigned e)"
    using assms by (simp add: dict_get_default_def dict_get_get_dict)
  ultimately have pruned: "prune_event_dict ?rv (get_dict e) = Inr ?d"
    by (simp add: prune_event_dict_eq redacted_unsigned_obj del: pick_simps)
  have sigs: "dict_get_default ?d ''signatures'' (JObj []) = JObj (obj_signatures e)"
    using assms by (simp add: dict_get_default_def dict_get_filter_keys allowed_keys_facts dict_get_get_dict alist.get_put del: pick_simps)
  have dict: "dict_del ''unsigned'' (dict_del ''signatures'' ?d) = dict_set ''content'' C (?allowed (obj_dict e))"
    using allowed_get_dict[OF assms] by (simp add: dict_del_set del: pick_simps)
  have uns: "dict_get_default ?d ''unsigned'' (JObj []) = JObj ?uns"
    by (simp add: dict_get_default_def alist.get_put del: pick_simps)
  have id: "if event_format ?rv = ROOM_V1_V2 then dict_get ?d ''event_id'' = obj_stored_id e \<and> obj_stored_id e \<noteq> None
      else dict_get ?d ''event_id'' = None \<and> obj_stored_id e = None"
  proof -
    have "dict_get ?d ''event_id'' = dict_get (obj_dict e) ''event_id''"
      using dict_get_get_dict[OF assms, of "''event_id''"]
      by (simp add: alist.get_put dict_get_filter_keys allowed_keys_facts del: pick_simps)
    with assms show ?thesis unfolding wf_event_obj_def
      by (cases "event_format (obj_version e) = ROOM_V1_V2") simp_all
  qed
  have "make_event_from_dict ?d ?rv (im_data (obj_metadata e)) None =
      Inr \<lparr>obj_dict = dict_set ''content'' C (?allowed (obj_dict e)), obj_stored_id = obj_stored_id e,
        obj_signatures = obj_signatures e, obj_unsigned = ?uns, obj_version = ?rv, obj_rejected_reason = None,
        obj_metadata = EventInternalMetadata (im_data (obj_metadata e))\<rparr>"
    using assms dict by (subst make_event_obj[OF sigs _ uns id]) (auto simp: wf_event_obj_def)
  then show ?thesis
    using assms
    by (simp add: prune_event_def pruned Inr redacted_obj_def EventInternalMetadata_def copy_metadata_def
        set_redacted_def wf_event_obj_def del: pick_simps)
qed


lemma list_all_dict_set: "list_all P d \<Longrightarrow> P (k, v) \<Longrightarrow> list_all P (dict_set k v d)"
  by (induction d) auto

lemma wf_redacted_obj:
  assumes "wf_event_obj e"
  shows "wf_event_obj (redacted_obj e C)"
proof -
  have "list_all metadata_field (im_data (set_redacted True (obj_metadata e)))"
    using assms by (simp add: wf_event_obj_def set_redacted_def list_all_dict_set)
  then show ?thesis
    using assms
    by (simp add: wf_event_obj_def redacted_obj_def alist.get_put alist.wf_put dict_get_filter_keys allowed_keys_facts
        del: pick_simps)
qed

lemma set_redacted_idem: "set_redacted True (set_redacted True m) = set_redacted True m"
  by (simp add: set_redacted_def dict_set_same alist.get_put)

lemma prune_event_idem:
  assumes "wf_event_obj e" and "prune_event e = Inr e'"
  shows "prune_event e' = Inr e'"
proof -
  let ?allowed = "filter (\<lambda>(k, v). k \<in> set (allowed_keys (obj_version e)))"
  from assms obtain C where C: "prune_new_content (obj_version e) (obj_dict e) = Inr C" and e': "e' = redacted_obj e C"
    by (auto simp: prune_event_eq py_bind_Inr_iff)
  have "prune_new_content (obj_version e) (obj_dict e') = Inr C"
    by (rule prune_new_content_idem[OF C])
      (simp_all add: e' redacted_obj_def alist.get_put dict_get_filter_keys allowed_keys_facts)
  then have *: "prune_event e' = Inr (redacted_obj e' C)"
    using wf_redacted_obj[OF assms(1), of C] by (simp add: prune_event_eq e') (simp add: redacted_obj_def)
  have "?allowed (dict_set ''content'' C (?allowed (obj_dict e))) = dict_set ''content'' C (?allowed (obj_dict e))"
    by (simp add: filter_dict_set allowed_keys_facts)
  then have "dict_set ''content'' C (?allowed (dict_set ''content'' C (?allowed (obj_dict e)))) = dict_set ''content'' C (?allowed (obj_dict e))"
    by (simp add: dict_set_same alist.get_put)
  then have "redacted_obj e' C = e'"
    by (simp add: e' redacted_obj_def set_redacted_idem pick_pick del: pick_simps)
  with * show ?thesis by simp
qed

end
