(* ===== verification/Event_Signing.thy ===== *)
theory Event_Signing
  imports Redaction
begin

text \<open>
  \<open>synapse/crypto/event_signing.py\<close> and the event ids that rest on it. The hash function, base64 and
  the signing of JSON are arguments: the record \<open>signing_ops\<close> extends the \<open>externals\<close> of the
  authorization rules.

  In the later room versions the id of an event is its reference hash, the hash of the redacted
  event without its signatures and unsigned data. Redacting an event, signing it again or editing
  its unsigned data does not change it.
\<close>

record signing_ops = externals +
  sha256 :: "string \<Rightarrow> string"
  encode_base64 :: "string \<Rightarrow> string"
  encode_base64_urlsafe :: "string \<Rightarrow> string"
  sign_json :: "obj \<Rightarrow> string \<Rightarrow> string \<Rightarrow> obj py"

text \<open>\<open>hashlib.sha256(bytes)\<close>: its name and its digest.\<close>

definition hash_json :: "signing_ops \<Rightarrow> obj \<Rightarrow> string \<times> string" where
  "hash_json ops d = (''sha256'', sha256 ops (encode_canonical_json ops (JObj d)))"

definition compute_content_hash :: "signing_ops \<Rightarrow> obj \<Rightarrow> string \<times> string" where
  "compute_content_hash ops event_dict = hash_json ops (dict_drop
     [''age_ts'', ''unsigned'', ''signatures'', ''hashes'', ''outlier'', ''destinations''] event_dict)"

definition check_event_content_hash :: "signing_ops \<Rightarrow> event_obj \<Rightarrow> bool py" where
  "check_event_content_hash ops event =
     py_bind (get_pdu_json None event) (\<lambda>pdu.
     case compute_content_hash ops pdu of (name, expected_hash) \<Rightarrow>
       case dict_get (obj_dict event) ''hashes'' of
         Some (JObj hashes) \<Rightarrow>
           (case dict_get hashes name of
              None \<Rightarrow> Inl (SynapseError 400 UNAUTHORIZED)
            | Some message_hash_base64 \<Rightarrow>
                (case decode_base64 ops message_hash_base64 of
                   Inl _ \<Rightarrow> Inl (SynapseError 400 UNAUTHORIZED)
                 | Inr message_hash_bytes \<Rightarrow> Inr (message_hash_bytes = expected_hash)))
       | _ \<Rightarrow> Inl (SynapseError 400 UNAUTHORIZED))"

definition compute_event_reference_hash :: "signing_ops \<Rightarrow> event_obj \<Rightarrow> (string \<times> string) py" where
  "compute_event_reference_hash ops event =
     py_bind (prune_event event) (\<lambda>tmp_event.
     py_bind (get_pdu_json None tmp_event) (\<lambda>event_dict.
       Inr (hash_json ops (dict_drop [''signatures'', ''age_ts'', ''unsigned''] event_dict))))"

text \<open>\<open>event_id\<close> of the three event classes. The value they cache is the value they compute.\<close>

definition obj_event_id :: "signing_ops \<Rightarrow> event_obj \<Rightarrow> json py" where
  "obj_event_id ops e =
     (case event_format (obj_version e) of
        ROOM_V1_V2 \<Rightarrow> (case obj_stored_id e of None \<Rightarrow> Inl AttributeError | Some i \<Rightarrow> Inr i)
      | ROOM_V3 \<Rightarrow> py_bind (compute_event_reference_hash ops e) (\<lambda>(name, digest).
          Inr (JStr (CHR ''$'' # encode_base64 ops digest)))
      | ROOM_V4_PLUS \<Rightarrow> py_bind (compute_event_reference_hash ops e) (\<lambda>(name, digest).
          Inr (JStr (CHR ''$'' # encode_base64_urlsafe ops digest))))"

definition compute_event_signature :: "signing_ops \<Rightarrow> room_version \<Rightarrow> obj \<Rightarrow> string \<Rightarrow> string \<Rightarrow> json py" where
  "compute_event_signature ops rv event_dict signature_name signing_key =
     py_bind (prune_event_dict rv event_dict) (\<lambda>redact_json.
     py_bind (sign_json ops (dict_drop [''age_ts'', ''unsigned''] redact_json) signature_name signing_key)
       (\<lambda>signed. dict_getitem signed ''signatures''))"

definition add_hashes_and_signatures ::
    "signing_ops \<Rightarrow> room_version \<Rightarrow> obj \<Rightarrow> string \<Rightarrow> string \<Rightarrow> obj py" where
  "add_hashes_and_signatures ops rv event_dict signature_name signing_key =
     (case compute_content_hash ops event_dict of (name, digest) \<Rightarrow>
       case dict_get_default event_dict ''hashes'' (JObj []) of
         JObj hashes \<Rightarrow>
           let event_dict = dict_set ''hashes'' (JObj (dict_set name (JStr (encode_base64 ops digest)) hashes)) event_dict
           in py_bind (compute_event_signature ops rv event_dict signature_name signing_key) (\<lambda>sigs.
                Inr (dict_set ''signatures'' sigs event_dict))
       | _ \<Rightarrow> Inl TypeError)"

section \<open>The identity of an event\<close>

lemma dict_drop_simps [simp]: "dict_drop [] d = d" "dict_drop (k # ks) d = dict_drop ks (dict_del k d)"
  by (simp_all add: dict_drop_def)

lemma pdu_without_extras:
  assumes "wf_event_obj e"
  shows "dict_drop [''signatures'', ''age_ts'', ''unsigned''] (dict_set ''unsigned'' v (get_dict e)) = dict_del ''age_ts'' (obj_dict e)"
proof -
  have "dict_del ''unsigned'' (dict_del ''age_ts'' (dict_del ''signatures'' (get_dict e))) = dict_del ''age_ts'' (obj_dict e)"
  proof -
    have sig: "dict_del ''signatures'' (obj_dict e) = obj_dict e"
      and uns: "dict_del ''unsigned'' (dict_del ''age_ts'' (obj_dict e)) = dict_del ''age_ts'' (obj_dict e)"
      using assms by (simp_all add: wf_event_obj_def dict_del_absent dict_get_del)
    have "dict_del k (d @ d') = dict_del k d @ dict_del k d'" for k and d d' :: obj
      by (simp add: dict_del_filter)
    then show ?thesis using sig uns by (simp add: get_dict_eq[OF assms])
  qed
  then show ?thesis by (simp add: dict_del_set)
qed

lemma compute_event_reference_hash_eq:
  assumes "wf_event_obj e"
  shows "compute_event_reference_hash ops e =
     py_bind (prune_new_content (obj_version e) (obj_dict e)) (\<lambda>C.
       Inr (hash_json ops (dict_del ''age_ts'' (obj_dict (redacted_obj e C)))))"
  using pdu_without_extras[OF wf_redacted_obj[OF assms]]
  by (cases "prune_new_content (obj_version e) (obj_dict e)")
    (simp_all add: compute_event_reference_hash_def prune_event_eq[OF assms] get_pdu_json_def)


lemma reference_hash_pruned:
  "wf_event_obj e \<Longrightarrow> prune_event e = Inr e' \<Longrightarrow>
     compute_event_reference_hash ops e' = compute_event_reference_hash ops e"
  using prune_event_idem[of e e'] by (simp add: compute_event_reference_hash_def)

lemma prune_event_keeps:
  assumes "wf_event_obj e" and "prune_event e = Inr e'"
  shows "wf_event_obj e'" and "obj_version e' = obj_version e" and "obj_stored_id e' = obj_stored_id e"
    and "obj_signatures e' = obj_signatures e"
  using assms wf_redacted_obj[OF assms(1)] by (auto simp: prune_event_eq py_bind_Inr_iff redacted_obj_def)

lemma obj_event_id_pruned:
  assumes "wf_event_obj e" and "prune_event e = Inr e'"
  shows "obj_event_id ops e' = obj_event_id ops e"
  using prune_event_keeps[OF assms] reference_hash_pruned[OF assms]
  by (simp add: obj_event_id_def split: event_format_version.splits)

text \<open>Only the dictionary, the version and the stored id go into the id.\<close>

lemma obj_event_id_cong:
  assumes "wf_event_obj e" and "wf_event_obj e'"
    and "obj_dict e' = obj_dict e" and "obj_version e' = obj_version e" and "obj_stored_id e' = obj_stored_id e"
  shows "obj_event_id ops e' = obj_event_id ops e"
proof -
  have "compute_event_reference_hash ops e' = compute_event_reference_hash ops e"
    using assms by (simp add: compute_event_reference_hash_eq redacted_obj_def)
  with assms show ?thesis by (simp add: obj_event_id_def split: event_format_version.splits)
qed

lemma compute_event_signature_pruned:
  "prune_event_dict rv d = Inr d' \<Longrightarrow>
     compute_event_signature ops rv d' name key = compute_event_signature ops rv d name key"
  using prune_event_dict_idem[of rv d d'] by (simp add: compute_event_signature_def)

text \<open>Signing adds the hash before it signs, and neither touches anything else.\<close>

lemma add_hashes_and_signatures_keeps:
  assumes "add_hashes_and_signatures ops rv d name key = Inr d'"
    and "k \<noteq> ''hashes''" and "k \<noteq> ''signatures''"
  shows "dict_get d' k = dict_get d k"
  using assms
  by (auto simp: add_hashes_and_signatures_def Let_def py_bind_Inr_iff alist.get_put split: prod.splits json.splits)

lemma content_hash_ignores:
  assumes "\<And>k. k \<notin> {''age_ts'', ''unsigned'', ''signatures'', ''hashes'', ''outlier'', ''destinations''} \<Longrightarrow>
     dict_get d' k = dict_get d k"
    and canon: "\<And>a b. (\<And>k. dict_get a k = dict_get b k) \<Longrightarrow> encode_canonical_json ops (JObj a) = encode_canonical_json ops (JObj b)"
  shows "compute_content_hash ops d' = compute_content_hash ops d"
proof -
  let ?ks = "[''age_ts'', ''unsigned'', ''signatures'', ''hashes'', ''outlier'', ''destinations'']"
  have "dict_get (dict_drop ?ks d') k = dict_get (dict_drop ?ks d) k" for k
    using assms(1)[of k] by (auto simp: dict_get_del)
  from canon[OF this] show ?thesis by (simp add: compute_content_hash_def hash_json_def)
qed

text \<open>A dictionary that was signed passes the check of its content hash once it is an event.\<close>

lemma hashed_event_checks:
  assumes wf: "wf_event_obj e" and made: "add_hashes_and_signatures ops rv d name key = Inr d'"
    and same: "\<And>k. k \<notin> {''age_ts'', ''unsigned'', ''signatures'', ''outlier'', ''destinations''} \<Longrightarrow>
      dict_get (obj_dict e) k = dict_get d' k"
    and canon: "\<And>a b. (\<And>k. dict_get a k = dict_get b k) \<Longrightarrow> encode_canonical_json ops (JObj a) = encode_canonical_json ops (JObj b)"
    and base64: "\<And>s. decode_base64 ops (JStr (encode_base64 ops s)) = Inr s"
  shows "check_event_content_hash ops e = Inr True"
proof -
  obtain n h where nh: "compute_content_hash ops d = (n, h)" by (cases "compute_content_hash ops d")
  from made obtain hs where "dict_get d' ''hashes'' = Some (JObj (dict_set n (JStr (encode_base64 ops h)) hs))"
    by (auto simp: add_hashes_and_signatures_def nh Let_def py_bind_Inr_iff alist.get_put split: json.splits)
  then have hashes: "dict_get (obj_dict e) ''hashes'' = Some (JObj (dict_set n (JStr (encode_base64 ops h)) hs))"
    by (simp add: same)
  obtain pdu where pdu: "get_pdu_json None e = Inr pdu"
    and get: "\<And>k. k \<noteq> ''unsigned'' \<Longrightarrow> k \<noteq> ''signatures'' \<Longrightarrow> dict_get pdu k = dict_get (obj_dict e) k"
    by (simp add: get_pdu_json_def alist.get_put dict_get_get_dict[OF wf])
  have "compute_content_hash ops pdu = compute_content_hash ops d"
    by (rule content_hash_ignores[OF _ canon])
      (use get same add_hashes_and_signatures_keeps[OF made] in auto)
  then show ?thesis
    by (simp add: check_event_content_hash_def pdu nh hashes alist.get_put base64)
qed

end
