(* ===== verification/Redaction_Auth.thy ===== *)
theory Redaction_Auth
  imports Event_Signing
begin

text \<open>
  Redaction and authorization. \<open>represents\<close> relates an event object to the record the authorization
  rules read; \<open>redact_view\<close> is what the redaction of the object is on that record.

  Under the updated redaction rules (room version 11) the redaction keeps every field of the room
  state that the rules read, except the notification levels and the keys of third-party invites. So
  redacting events of the state changes no verdict on an event that is neither a change of the power
  levels nor an invite by a third-party token.
\<close>

definition recheck_flag :: "event_obj \<Rightarrow> bool" where
  "recheck_flag o' = im_flag ''recheck_redaction'' (obj_metadata o')"

definition represents :: "signing_ops \<Rightarrow> event_obj \<Rightarrow> event \<Rightarrow> bool" where
  "represents ops ob e \<longleftrightarrow>
     obj_event_id ops ob = Inr (JStr (event_id e)) \<and>
     dict_get (obj_dict ob) ''type'' = Some (JStr (ev_type e)) \<and>
     dict_get (obj_dict ob) ''sender'' = Some (JStr (sender e)) \<and>
     dict_get (obj_dict ob) ''room_id'' = map_option JStr (ev_room_id e) \<and>
     dict_get (obj_dict ob) ''state_key'' = map_option JStr (ev_state_key e) \<and>
     dict_get (obj_dict ob) ''content'' = Some (JObj (content e)) \<and>
     obj_auth_event_ids ob = Inr (map JStr (auth_event_ids e)) \<and>
     obj_prev_event_ids ob = Inr (map JStr (prev_event_ids e)) \<and>
     dict_get (obj_dict ob) ''origin_server_ts'' = Some (JInt (origin_server_ts e)) \<and>
     dict_get (obj_dict ob) ''depth'' = Some (JInt (depth e)) \<and>
     dict_get (obj_dict ob) ''redacts'' = redacts_key e \<and>
     obj_version ob = ev_room_version e \<and>
     obj_rejected_reason ob = rejected_reason e \<and>
     recheck_flag ob = recheck_redaction e"

definition redact_view :: "event \<Rightarrow> event" where
  "redact_view e = e\<lparr>content := redacted_content (ev_room_version e) (JStr (ev_type e)) (content e),
     redacts_key := None, rejected_reason := None\<rparr>"

lemma cited_ids_cong:
  "obj_version o' = obj_version ob \<Longrightarrow> dict_get (obj_dict o') k = dict_get (obj_dict ob) k \<Longrightarrow>
     cited_ids k o' = cited_ids k ob"
  by (simp add: cited_ids_def dict_getitem_def)

lemma represents_redacted:
  assumes wf: "wf_event_obj ob" and rep: "represents ops ob e"
  shows "\<exists>o'. prune_event ob = Inr o' \<and> represents ops o' (redact_view e)"
proof -
  let ?o = "redacted_obj ob (JObj (redacted_content (ev_room_version e) (JStr (ev_type e)) (content e)))"
  have pruned: "prune_event ob = Inr ?o"
    using prune_event_eq[OF wf] prune_new_content_obj[of "obj_dict ob" "JStr (ev_type e)" "content e"] rep
    by (simp add: represents_def)
  have get: "dict_get (obj_dict ?o) k = (if k = ''content'' then Some (JObj (content (redact_view e)))
      else if k \<in> set (allowed_keys (obj_version ob)) then dict_get (obj_dict ob) k else None)" for k
    by (simp add: redacted_obj_def redact_view_def alist.get_put dict_get_filter_keys)
  have "obj_event_id ops ?o = obj_event_id ops ob" by (rule obj_event_id_pruned[OF wf pruned])
  moreover have "obj_version ?o = obj_version ob" and "obj_rejected_reason ?o = None" and "recheck_flag ?o = recheck_flag ob"
    by (simp_all add: redacted_obj_def recheck_flag_def im_flag_def set_redacted_def alist.get_put)
  moreover from \<open>obj_version ?o = obj_version ob\<close> have "cited_ids ''auth_events'' ?o = cited_ids ''auth_events'' ob"
    by (rule cited_ids_cong) (simp add: get allowed_keys_def)
  moreover from \<open>obj_version ?o = obj_version ob\<close> have "cited_ids ''prev_events'' ?o = cited_ids ''prev_events'' ob"
    by (rule cited_ids_cong) (simp add: get allowed_keys_def)
  ultimately have "represents ops ?o (redact_view e)"
    using rep unfolding represents_def
    by (simp add: get allowed_keys_def obj_auth_event_ids_def obj_prev_event_ids_def) (simp add: redact_view_def)
  with pruned show ?thesis by blast
qed

section \<open>What the rules read of the room state\<close>

lemma redacted_content_field:
  assumes "k \<in> set (kept_fields rv t) \<or> keeps_all rv t \<and> k \<noteq> ''m.relates_to''"
  shows "dict_get (redacted_content rv t c) k = dict_get c k"
proof -
  have "k \<noteq> ''m.relates_to''" using assms kept_fields_fresh by blast
  then have "dict_get (redacted_content rv t c) k = dict_get (kept_content rv t c) k"
    by (simp add: redacted_content_def with_relation_other)
  also have "\<dots> = dict_get c k"
    using assms by (cases "keeps_all rv t") (simp_all add: dict_get_kept_content, simp add: kept_content_def)
  finally show ?thesis .
qed

text \<open>Every event stands under its own type, in a room with the updated rules.\<close>

definition updated_state :: "event state_map \<Rightarrow> bool" where
  "updated_state m \<longleftrightarrow> (\<forall>t k e. m (t, k) = Some e \<longrightarrow> ev_type e = t \<and> updated_redaction_rules (ev_room_version e))"

text \<open>The fields of the state that the rules read.\<close>

definition read_fields :: "string \<Rightarrow> string list" where
  "read_fields t =
     (if t = EventTypes_Member then [''membership'']
      else if t = EventTypes_JoinRules then [''join_rule'']
      else if t = EventTypes_PowerLevels
      then [''users'', ''users_default'', ''events'', ''events_default'', ''state_default'', ''ban'', ''kick'',
            ''redact'', ''invite'']
      else if t = EventTypes_Create then [ROOM_CREATOR, FEDERATE]
      else [])"

definition agrees :: "event \<Rightarrow> event \<Rightarrow> bool" where
  "agrees e e' \<longleftrightarrow> sender e' = sender e \<and> event_id e' = event_id e \<and> ev_room_version e' = ev_room_version e \<and>
     (\<forall>f \<in> set (read_fields (ev_type e)). dict_get (content e') f = dict_get (content e) f)"

lemma redact_view_agrees:
  assumes "updated_redaction_rules (ev_room_version e)"
  shows "agrees e (redact_view e)"
proof -
  have "f \<in> set (kept_fields (ev_room_version e) (JStr (ev_type e))) \<or>
      keeps_all (ev_room_version e) (JStr (ev_type e)) \<and> f \<noteq> ''m.relates_to''"
    if "f \<in> set (read_fields (ev_type e))" for f
    using assms that by (auto simp: read_fields_def kept_fields_def keeps_all_def str_eq_def split: if_splits)
  then show ?thesis by (simp add: agrees_def redact_view_def redacted_content_field)
qed

definition same_reads :: "event state_map \<Rightarrow> event state_map \<Rightarrow> bool" where
  "same_reads m m' \<longleftrightarrow> (\<forall>t k. case m (t, k) of
     None \<Rightarrow> m' (t, k) = None
   | Some e \<Rightarrow> ev_type e = t \<and> (\<exists>e'. m' (t, k) = Some e' \<and> agrees e e'))"

lemma same_reads_cases:
  assumes "same_reads m m'"
  obtains "m (t, k) = None" "m' (t, k) = None"
  | e e' where "m (t, k) = Some e" "m' (t, k) = Some e'" "sender e' = sender e" "event_id e' = event_id e"
      "ev_room_version e' = ev_room_version e"
      "\<And>f. f \<in> set (read_fields t) \<Longrightarrow> dict_get (content e') f = dict_get (content e) f"
proof -
  have *: "case m (t, k) of None \<Rightarrow> m' (t, k) = None
    | Some e \<Rightarrow> ev_type e = t \<and> (\<exists>e'. m' (t, k) = Some e' \<and> agrees e e')" for t k
    using assms unfolding same_reads_def by blast
  show thesis
  proof (cases "m (t, k)")
    case None
    with *[of t k] that(1) show ?thesis by simp
  next
    case (Some e)
    with *[of t k] obtain e' where "ev_type e = t" "m' (t, k) = Some e'" "agrees e e'" by auto
    with Some that(2)[of e e'] show ?thesis by (simp add: agrees_def)
  qed
qed

section \<open>The verdicts\<close>

lemma member_same:
  assumes "same_reads m m'"
  shows "member_of (m' (EventTypes_Member, u)) = member_of (m (EventTypes_Member, u))"
    and "check_joined_room (m' (EventTypes_Member, u)) = check_joined_room (m (EventTypes_Member, u))"
  by (cases rule: same_reads_cases[OF assms, of EventTypes_Member u];
      simp add: member_of_def check_joined_room_def membership_def dict_getitem_def read_fields_def)+

lemma user_level_same:
  assumes "same_reads m m'"
  shows "get_user_power_level u m' = get_user_power_level u m"
proof (cases rule: same_reads_cases[OF assms, of EventTypes_PowerLevels "''''"])
  case 1
  then show ?thesis
    by (cases rule: same_reads_cases[OF assms, of EventTypes_Create "''''"])
      (simp_all add: get_user_power_level_def get_power_level_event_def dict_getitem_def read_fields_def)
next
  case (2 e e')
  then show ?thesis
    by (simp add: get_user_power_level_def get_power_level_event_def get_subdict_def dict_get_default_def read_fields_def)
qed

lemma named_level_same:
  assumes "same_reads m m'" and "name \<in> {''ban'', ''kick'', ''redact'', ''invite''}"
  shows "get_named_level m' name dflt = get_named_level m name dflt"
  using assms(2)
  by (cases rule: same_reads_cases[OF assms(1), of EventTypes_PowerLevels "''''"])
    (auto simp: get_named_level_def get_power_level_event_def read_fields_def)

lemma send_level_same:
  assumes "same_reads m m'"
  shows "get_send_level t k (get_power_level_event m') = get_send_level t k (get_power_level_event m)"
  by (cases rule: same_reads_cases[OF assms, of EventTypes_PowerLevels "''''"])
    (simp_all add: get_send_level_def get_power_level_event_def get_subdict_def dict_get_default_def read_fields_def Let_def)

lemma can_federate_same:
  assumes "same_reads m m'"
  shows "can_federate event m' = can_federate event m"
  by (cases rule: same_reads_cases[OF assms, of EventTypes_Create "''''"])
    (simp_all add: can_federate_def dict_get_default_def read_fields_def)

lemma creator_join_same:
  assumes "same_reads m m'"
  shows "is_creator_join rv event m' ms = is_creator_join rv event m ms"
  by (cases rule: same_reads_cases[OF assms, of EventTypes_Create "''''"])
    (simp_all add: is_creator_join_def dict_getitem_def read_fields_def)

lemma join_rule_same:
  assumes "same_reads m m'"
  shows "(case m' (EventTypes_JoinRules, '''') of None \<Rightarrow> d | Some e \<Rightarrow> dict_get_default (content e) ''join_rule'' d) =
     (case m (EventTypes_JoinRules, '''') of None \<Rightarrow> d | Some e \<Rightarrow> dict_get_default (content e) ''join_rule'' d)"
  by (cases rule: same_reads_cases[OF assms, of EventTypes_JoinRules "''''"])
    (simp_all add: dict_get_default_def read_fields_def)

lemma membership_context_same:
  assumes "same_reads m m'"
  shows "get_membership_context rv event m' = get_membership_context rv event m"
  unfolding get_membership_context_def can_federate_same[OF assms] member_same[OF assms] user_level_same[OF assms]
    join_rule_same[OF assms]
  using named_level_same[OF assms, of "''invite''"] named_level_same[OF assms, of "''ban''"]
  by (simp only: insert_iff simp_thms)

lemma authorised_join_same:
  assumes "same_reads m m'"
  shows "check_join_authorised event m' l = check_join_authorised event m l"
proof -
  have *: "py_bind (auth_get m' EventTypes_Member u) (\<lambda>x. py_bind (check_joined_room x) f) =
      py_bind (auth_get m EventTypes_Member u) (\<lambda>x. py_bind (check_joined_room x) f)" for u f
    by (cases u) (simp_all add: auth_get_def member_same[OF assms])
  show ?thesis unfolding check_join_authorised_def user_level_same[OF assms] * ..
qed

lemma membership_change_same:
  assumes "same_reads m m'"
  shows "check_membership_change rv event m' ms c = check_membership_change rv event m ms c"
  using named_level_same[OF assms, of "''kick''"]
  by (simp add: check_membership_change_def check_join_def check_leave_def authorised_join_same[OF assms])

lemma check_against_state_same:
  assumes "same_reads m m'" and "ev_type event \<noteq> EventTypes_PowerLevels"
    and "\<not> (ev_type event = EventTypes_Member \<and> dict_has (content event) ''third_party_invite'')"
  shows "check_against_state ext event m' = check_against_state ext event m"
proof -
  have member: "is_membership_change_allowed ext rv event m' = is_membership_change_allowed ext rv event m"
    if "\<not> dict_has (content event) ''third_party_invite''" for rv
    unfolding is_membership_change_allowed_def creator_join_same[OF assms(1)] membership_context_same[OF assms(1)]
      membership_change_same[OF assms(1)]
    by (simp only: that simp_thms if_False)
  have "can_send_event ext event m' = can_send_event ext event m"
    unfolding can_send_event_def send_level_same[OF assms(1)] user_level_same[OF assms(1)] ..
  then have other: "check_other_event ext event m' = check_other_event ext event m"
    using assms(2) named_level_same[OF assms(1), of "''invite''"] named_level_same[OF assms(1), of "''redact''"]
    by (simp add: check_other_event_def check_event_sender_in_room_def member_same[OF assms(1)]
        user_level_same[OF assms(1)] check_redaction_def)
  show ?thesis
  proof (cases "ev_type event = EventTypes_Member")
    case True
    with assms(3) have "\<not> dict_has (content event) ''third_party_invite''" by simp
    from member[OF this] show ?thesis
      unfolding check_against_state_def can_federate_same[OF assms(1)] by (simp only: True if_True simp_thms)
  next
    case False
    with other show ?thesis
      unfolding check_against_state_def can_federate_same[OF assms(1)] by (simp only: False if_False simp_thms)
  qed
qed

section \<open>States of redacted events\<close>

text \<open>Some events of the state have been redacted: the record that was read from the object is now read
  from its redaction.\<close>

definition redacted_state :: "signing_ops \<Rightarrow> event state_map \<Rightarrow> event state_map \<Rightarrow> bool" where
  "redacted_state ops m m' \<longleftrightarrow> (\<forall>k. m' k = m k \<or>
     (\<exists>e e' ob ob'. m k = Some e \<and> m' k = Some e' \<and> wf_event_obj ob \<and> represents ops ob e \<and>
        prune_event ob = Inr ob' \<and> represents ops ob' e'))"

lemma represents_agrees:
  assumes "represents ops ob e" and "represents ops ob e'"
  shows "agrees e e' \<and> agrees e' e"
  using assms by (auto simp: represents_def agrees_def)

lemma agrees_trans: "agrees e e' \<Longrightarrow> agrees e' e'' \<Longrightarrow> ev_type e' = ev_type e \<Longrightarrow> agrees e e''"
  by (simp add: agrees_def)

lemma redacted_state_same_reads:
  assumes "redacted_state ops m m'" and "updated_state m"
  shows "same_reads m m'"
  unfolding same_reads_def
proof (intro allI)
  fix t k
  have "m' (t, k) = m (t, k) \<or>
     (\<exists>e e' ob ob'. m (t, k) = Some e \<and> m' (t, k) = Some e' \<and> wf_event_obj ob \<and> represents ops ob e \<and>
        prune_event ob = Inr ob' \<and> represents ops ob' e')"
    using assms(1) unfolding redacted_state_def by blast
  moreover have upd: "ev_type e = t \<and> updated_redaction_rules (ev_room_version e)" if "m (t, k) = Some e" for e
    using assms(2) that unfolding updated_state_def by blast
  moreover have "agrees e e'" if "wf_event_obj ob" "represents ops ob e" "prune_event ob = Inr ob'" "represents ops ob' e'"
      "m (t, k) = Some e" for e e' ob ob'
  proof -
    from represents_redacted[OF that(1,2)] that(3) have "represents ops ob' (redact_view e)" by auto
    from represents_agrees[OF this that(4)] have "agrees (redact_view e) e'" ..
    with redact_view_agrees[of e] upd[OF that(5)] show ?thesis
      by (auto intro: agrees_trans simp: redact_view_def)
  qed
  ultimately show "case m (t, k) of None \<Rightarrow> m' (t, k) = None
    | Some e \<Rightarrow> ev_type e = t \<and> (\<exists>e'. m' (t, k) = Some e' \<and> agrees e e')"
    by (auto simp: agrees_def split: option.splits)
qed

end
