(* ===== verification/Py_Strings.thy ===== *)
theory Py_Strings
  imports Py_Json
begin

text \<open>
  The strings tokens are made of: \<open>str(n)\<close>, which \<open>int\<close> reads back, \<open>s.split(c)\<close> and
  \<open>c.join(xs)\<close>. The interpreter's limit on the number of digits is not modelled.
\<close>

section \<open>Numbers\<close>

definition digit_char :: "nat \<Rightarrow> char" where
  "digit_char d = char_of (48 + d)"

fun str_nat :: "nat \<Rightarrow> string" where
  "str_nat n = (if n < 10 then [digit_char n] else str_nat (n div 10) @ [digit_char (n mod 10)])"

declare str_nat.simps [simp del]

definition str_int :: "int \<Rightarrow> string" where
  "str_int n = (if n < 0 then CHR ''-'' # str_nat (nat (- n)) else str_nat (nat n))"

definition int_str :: "string \<Rightarrow> int py" where
  "int_str s = py_int (JStr s)"

lemma of_char_digit: "d < 10 \<Longrightarrow> of_char (digit_char d) = (48 + int d :: int)"
proof -
  assume "d < 10"
  then have "(of_char (digit_char d) :: nat) = 48 + d" by (simp add: digit_char_def)
  then show ?thesis using of_nat_of_char[of "digit_char d", where ?'a = int] by simp
qed

lemma is_digit_char [simp]: "d < 10 \<Longrightarrow> is_digit (digit_char d)"
  by (simp add: is_digit_def of_char_digit)

lemma str_nat_digits: "c \<in> set (str_nat n) \<Longrightarrow> is_digit c"
proof (induction n rule: str_nat.induct)
  case (1 n)
  then show ?case by (subst (asm) str_nat.simps) (auto split: if_splits)
qed

lemma str_nat_nonempty: "str_nat n \<noteq> []"
  by (subst str_nat.simps) auto

lemma digits_value_append:
  "\<forall>c \<in> set s. is_digit c \<Longrightarrow> digits_value acc True (s @ t) =
     (case digits_value acc True s of None \<Rightarrow> None | Some n \<Rightarrow> digits_value n True t)"
  by (induction s arbitrary: acc) auto

lemma digits_value_nonempty:
  assumes "s \<noteq> []" and "\<forall>c \<in> set s. is_digit c"
  shows "digits_value acc False (s @ t) =
     (case digits_value acc False s of None \<Rightarrow> None | Some n \<Rightarrow> digits_value n True t)"
  using assms by (cases s) (auto simp: digits_value_append)

lemma digits_value_str_nat: "digits_value 0 False (str_nat n) = Some (int n)"
proof (induction n rule: str_nat.induct)
  case (1 n)
  show ?case
  proof (cases "n < 10")
    case True
    then show ?thesis by (subst str_nat.simps) (simp add: of_char_digit)
  next
    case False
    with 1 have IH: "digits_value 0 False (str_nat (n div 10)) = Some (int (n div 10))" by simp
    have "digits_value 0 False (str_nat n) = digits_value 0 False (str_nat (n div 10) @ [digit_char (n mod 10)])"
      using False by (subst str_nat.simps) simp
    also have "\<dots> = digits_value (int (n div 10)) True [digit_char (n mod 10)]"
      using str_nat_digits by (subst digits_value_nonempty) (auto simp: str_nat_nonempty IH)
    also have "\<dots> = Some (int n)" by (simp add: of_char_digit zdiv_int zmod_int)
    finally show ?thesis .
  qed
qed

lemma str_int_chars: "c \<in> set (str_int n) \<Longrightarrow> is_digit c \<or> c = CHR ''-''"
  by (auto simp: str_int_def dest: str_nat_digits split: if_splits)

lemma str_int_free: "\<not> is_digit c \<Longrightarrow> c \<noteq> CHR ''-'' \<Longrightarrow> c \<notin> set (str_int n)"
  using str_int_chars by blast

lemma str_int_no_space: "c \<in> set (str_int n) \<Longrightarrow> \<not> is_space c"
  using str_int_chars by (fastforce simp: is_space_def is_digit_def Let_def)

lemma str_int_nonempty: "str_int n \<noteq> []"
  by (simp add: str_int_def str_nat_nonempty)

lemma dropWhile_none: "\<forall>c \<in> set s. \<not> P c \<Longrightarrow> dropWhile P s = s"
  by (cases s) auto

lemma strip_spaces_id: "\<forall>c \<in> set s. \<not> is_space c \<Longrightarrow> strip_spaces s = s"
  unfolding strip_spaces_def by (simp add: dropWhile_none)

lemma str_int_sign: "0 \<le> n \<Longrightarrow> \<exists>c cs. str_int n = c # cs \<and> is_digit c"
  using str_nat_nonempty[of "nat n"] str_nat_digits[of _ "nat n"]
  by (cases "str_nat (nat n)") (auto simp: str_int_def)

text \<open>Printing and parsing a number.\<close>

lemma int_str_int [simp]: "int_str (str_int n) = Inr n"
proof -
  have strip: "strip_spaces (str_int n) = str_int n" using str_int_no_space by (blast intro: strip_spaces_id)
  show ?thesis
  proof (cases "n < 0")
    case True
    then have s: "str_int n = CHR ''-'' # str_nat (nat (- n))" by (simp add: str_int_def)
    show ?thesis using True unfolding int_str_def py_int.simps int_of_str_def strip
      by (simp add: s digits_value_str_nat)
  next
    case False
    then obtain c cs where c: "str_int n = c # cs" "is_digit c" using str_int_sign[of n] by auto
    then have "c \<noteq> CHR ''-''" "c \<noteq> CHR ''+''" by (auto simp: is_digit_def)
    moreover have "digits_value 0 False (c # cs) = Some n"
      using False digits_value_str_nat[of "nat n"] c(1) by (simp add: str_int_def)
    ultimately show ?thesis unfolding int_str_def py_int.simps int_of_str_def strip by (simp add: c(1))
  qed
qed

section \<open>Splitting and joining\<close>

fun split_on :: "char \<Rightarrow> string \<Rightarrow> string list" where
  "split_on c [] = [[]]"
| "split_on c (x # xs) =
     (if x = c then [] # split_on c xs
      else case split_on c xs of [] \<Rightarrow> [[x]] | w # ws \<Rightarrow> (x # w) # ws)"

text \<open>\<open>s.split(c, 1)\<close>.\<close>

definition split_once :: "char \<Rightarrow> string \<Rightarrow> string list" where
  "split_once c s = (case find_char c s of None \<Rightarrow> [s] | Some i \<Rightarrow> [take i s, drop (Suc i) s])"

fun join_with :: "char \<Rightarrow> string list \<Rightarrow> string" where
  "join_with c [] = []"
| "join_with c [x] = x"
| "join_with c (x # y # xs) = x @ c # join_with c (y # xs)"

lemma split_on_free: "c \<notin> set x \<Longrightarrow> split_on c x = [x]"
  by (induction x) auto

lemma split_on_append: "c \<notin> set x \<Longrightarrow> split_on c (x @ c # s) = x # split_on c s"
  by (induction x) auto

lemma split_join: "xs \<noteq> [] \<Longrightarrow> \<forall>x \<in> set xs. c \<notin> set x \<Longrightarrow> split_on c (join_with c xs) = xs"
  by (induction c xs rule: join_with.induct) (auto simp: split_on_free split_on_append)

lemma split_once_append: "c \<notin> set x \<Longrightarrow> split_once c (x @ c # s) = [x, s]"
  by (simp add: split_once_def find_char_append)

lemma set_join_with: "set (join_with c xs) \<subseteq> insert c (\<Union>x \<in> set xs. set x)"
  by (induction c xs rule: join_with.induct) auto

lemma join_with_Cons: "xs \<noteq> [] \<Longrightarrow> join_with c (x # xs) = x @ c # join_with c xs"
  by (cases xs) auto

end
