(* ===== verification/State_Filter.thy ===== *)
theory State_Filter
  imports Events Py_Strings
begin

text \<open>
  \<open>StateFilter\<close> of \<open>synapse/types/state.py\<close>: the description of a part of a room's state that the
  state caches and the database queries exchange. A frozen set of state keys is a list without
  duplicates, \<open>None\<close> (every state key of the type) is \<open>None\<close>; \<open>StateFilter\<close> is the constructor of the
  source, which canonicalises what it is given.

  \<open>matches f t k\<close> is the meaning of a filter. The operations are related to it: two canonical filters
  with the same meaning are the same filter, \<open>filter_state\<close> and the SQL clause select what the filter
  matches, the splits and the expansion keep what they promise, and \<open>approx_difference\<close> is the
  narrowest filter that still covers the difference.
\<close>

section \<open>The filter\<close>

record state_filter =
  types :: "(string, string list option) dict"
  include_others :: bool

text \<open>The constructor with \<open>__attrs_post_init__\<close>.\<close>

definition StateFilter :: "(string, string list option) dict \<Rightarrow> bool \<Rightarrow> state_filter" where
  "StateFilter ts others =
     (if others
      then \<lparr>types = filter (\<lambda>(k, v). v \<noteq> None) ts, include_others = others\<rparr>
      else \<lparr>types = filter (\<lambda>(k, v). v = None \<or> v \<noteq> Some []) ts, include_others = others\<rparr>)"

definition ALL_STATE_FILTER :: state_filter where
  "ALL_STATE_FILTER = StateFilter [] True"

definition ALL_NON_MEMBER_STATE_FILTER :: state_filter where
  "ALL_NON_MEMBER_STATE_FILTER = StateFilter [(EventTypes_Member, Some [])] True"

definition NONE_STATE_FILTER :: state_filter where
  "NONE_STATE_FILTER = StateFilter [] False"

definition filter_all :: state_filter where
  "filter_all = ALL_STATE_FILTER"

definition filter_none :: state_filter where
  "filter_none = NONE_STATE_FILTER"

text \<open>One iteration of \<open>from_types\<close>: a wildcard, once there, stays.\<close>

definition from_types_step ::
    "string \<times> string option \<Rightarrow> (string, string list option) dict \<Rightarrow> (string, string list option) dict" where
  "from_types_step x type_dict = (case x of (typ, s) \<Rightarrow>
     if dict_get type_dict typ = Some None then type_dict
     else case s of
       None \<Rightarrow> dict_set typ None type_dict
     | Some key \<Rightarrow>
         let d = dict_setdefault typ (Some []) type_dict
         in case dict_get d typ of
              Some (Some keys) \<Rightarrow> dict_set typ (Some (set_add key keys)) d
            | _ \<Rightarrow> d)"

definition from_types :: "(string \<times> string option) list \<Rightarrow> state_filter" where
  "from_types ts = StateFilter (fold from_types_step ts []) False"

definition to_types :: "state_filter \<Rightarrow> (string \<times> string option) list" where
  "to_types f = concat (map (\<lambda>(event_type, state_keys).
     case state_keys of None \<Rightarrow> [(event_type, None)]
     | Some ks \<Rightarrow> map (\<lambda>state_key. (event_type, Some state_key)) ks) (types f))"

definition from_lazy_load_member_list :: "string list \<Rightarrow> state_filter" where
  "from_lazy_load_member_list members = StateFilter [(EventTypes_Member, Some (remdups members))] True"

definition freeze :: "(string, string list option) dict \<Rightarrow> bool \<Rightarrow> state_filter" where
  "freeze ts others = StateFilter (map (\<lambda>(k, v). (k, map_option remdups v)) ts) others"

section \<open>Queries\<close>

definition is_full :: "state_filter \<Rightarrow> bool" where
  "is_full f \<longleftrightarrow> include_others f \<and> types f = []"

definition has_wildcards :: "state_filter \<Rightarrow> bool" where
  "has_wildcards f \<longleftrightarrow> include_others f \<or> list_ex (\<lambda>(t, state_keys). state_keys = None) (types f)"

definition concrete_types :: "state_filter \<Rightarrow> (string \<times> string) list" where
  "concrete_types f = concat (map (\<lambda>(t, state_keys).
     case state_keys of None \<Rightarrow> [] | Some ks \<Rightarrow> map (\<lambda>s. (t, s)) ks) (types f))"

definition wildcard_types :: "state_filter \<Rightarrow> string list" where
  "wildcard_types f = map fst (filter (\<lambda>(t, state_keys). state_keys = None) (types f))"

definition max_entries_returned :: "state_filter \<Rightarrow> nat option" where
  "max_entries_returned f =
     (if has_wildcards f then None else Some (length (concrete_types f)))"

text \<open>The left operand of \<open>in\<close> can be anything; only a pair of strings does not raise.\<close>

datatype py_key = PyTuple "json list" | NotTuple

fun contains :: "state_filter \<Rightarrow> py_key \<Rightarrow> bool py" where
  "contains f (PyTuple [JStr typ, JStr skey]) =
     Inr (case dict_get (types f) typ of
            Some state_keys \<Rightarrow> (case state_keys of None \<Rightarrow> True | Some ks \<Rightarrow> skey \<in> set ks)
          | None \<Rightarrow> include_others f)"
| "contains f _ = Inl TypeError"

definition filter_bool :: "state_filter \<Rightarrow> bool" where
  "filter_bool f = (if include_others f then True else types f \<noteq> [])"

definition filter_state :: "state_filter \<Rightarrow> (string \<times> string, 'a) dict \<Rightarrow> (string \<times> string, 'a) dict" where
  "filter_state f state_dict =
     (if is_full f then state_dict
      else filter (\<lambda>((typ, state_key), v).
             case dict_get (types f) typ of
               Some state_keys \<Rightarrow> (case state_keys of None \<Rightarrow> True | Some ks \<Rightarrow> state_key \<in> set ks)
             | None \<Rightarrow> include_others f) state_dict)"

definition must_await_full_state :: "state_filter \<Rightarrow> (string \<Rightarrow> bool) \<Rightarrow> bool" where
  "must_await_full_state f is_mine_id =
     (case dict_get (types f) EventTypes_Member of
        None \<Rightarrow> include_others f
      | Some None \<Rightarrow> True
      | Some (Some member_state_keys) \<Rightarrow> list_ex (\<lambda>state_key. \<not> is_mine_id state_key) member_state_keys)"

text \<open>\<open>sep.join(xs)\<close>\<close>

fun join_str :: "string \<Rightarrow> string list \<Rightarrow> string" where
  "join_str sep [] = []"
| "join_str sep [x] = x"
| "join_str sep (x # y # xs) = x @ sep @ join_str sep (y # xs)"

text \<open>The clause of the SQL query and the arguments of its placeholders.\<close>

definition make_sql_filter_clause :: "state_filter \<Rightarrow> string \<times> string list" where
  "make_sql_filter_clause f =
     (if is_full f then ('''', [])
      else if \<not> include_others f \<and> types f = [] then (''1 = 2'', [])
      else
        let clauses = concat (map (\<lambda>(etype, state_keys).
              case state_keys of None \<Rightarrow> [''(type = ?)'']
              | Some ks \<Rightarrow> map (\<lambda>_. ''(type = ? AND state_key = ?)'') ks) (types f));
            where_args = concat (map (\<lambda>(etype, state_keys).
              case state_keys of None \<Rightarrow> [etype]
              | Some ks \<Rightarrow> concat (map (\<lambda>state_key. [etype, state_key]) ks)) (types f));
            where_clause = join_str '' OR '' clauses
        in if include_others f
           then ((if where_clause \<noteq> [] then where_clause @ '' OR '' else where_clause) @
                   ''type NOT IN ('' @ join_str '','' (map (\<lambda>_. ''?'') (types f)) @ '')'',
                 where_args @ dict_keys (types f))
           else (where_clause, where_args))"

section \<open>Derived filters\<close>

definition return_expanded :: "state_filter \<Rightarrow> state_filter" where
  "return_expanded f =
     (if is_full f then f
      else if \<not> has_wildcards f then f
      else
        let get_all_members = (case dict_get (types f) EventTypes_Member of
              Some state_keys \<Rightarrow> state_keys = None | None \<Rightarrow> include_others f);
            has_non_member_wildcard = (include_others f \<or>
              list_ex (\<lambda>(t, state_keys). t \<noteq> EventTypes_Member \<and> state_keys = None) (types f))
        in if \<not> has_non_member_wildcard then f
           else if get_all_members then filter_all
           else case dict_get (types f) EventTypes_Member of
                  Some state_keys \<Rightarrow> StateFilter [(EventTypes_Member, state_keys)] True
                | None \<Rightarrow> ALL_NON_MEMBER_STATE_FILTER)"

definition get_member_split :: "state_filter \<Rightarrow> state_filter \<times> state_filter" where
  "get_member_split f =
     (let member_filter = (case dict_get (types f) EventTypes_Member of
            Some None \<Rightarrow> filter_all
          | Some (Some state_keys) \<Rightarrow> StateFilter [(EventTypes_Member, Some state_keys)] False
          | None \<Rightarrow> if include_others f then filter_all else filter_none);
          non_member_filter =
            StateFilter (filter (\<lambda>(k, v). k \<noteq> EventTypes_Member) (types f)) (include_others f)
      in (member_filter, non_member_filter))"

definition decompose_into_four_parts ::
    "state_filter \<Rightarrow> (bool \<times> string list) \<times> (string list \<times> (string \<times> string) list)" where
  "decompose_into_four_parts f =
     (let is_all = include_others f;
          excluded_types = (if is_all then remdups (dict_keys (types f)) else []);
          wildcards = remdups (map fst (filter (\<lambda>(t, s). s = None) (types f)));
          concrete_keys = remdups (concrete_types f)
      in ((is_all, excluded_types), (wildcards, concrete_keys)))"

text \<open>The loop over the concrete keys; a set already in the dictionary is extended in place.\<close>

definition recompose_key ::
    "bool \<Rightarrow> string \<times> string \<Rightarrow> (string, string list option) dict \<Rightarrow> (string, string list option) dict" where
  "recompose_key all_part x new_types = (case x of (state_type, skey) \<Rightarrow>
     case dict_get new_types state_type of
       Some (Some entry) \<Rightarrow> dict_set state_type (Some (set_add skey entry)) new_types
     | Some None \<Rightarrow> new_types
     | None \<Rightarrow> if \<not> all_part then dict_set state_type (Some [skey]) new_types else new_types)"

definition recompose_from_four_parts ::
    "bool \<Rightarrow> string list \<Rightarrow> string list \<Rightarrow> (string \<times> string) list \<Rightarrow> state_filter" where
  "recompose_from_four_parts all_part minus_wildcards plus_wildcards plus_state_keys =
     (let new_types = (if all_part then dict_update [] (map (\<lambda>t. (t, Some [])) minus_wildcards) else []);
          new_types = dict_update new_types (map (\<lambda>t. (t, None)) plus_wildcards);
          new_types = fold (recompose_key all_part) plus_state_keys new_types
      in freeze new_types all_part)"

definition approx_difference :: "state_filter \<Rightarrow> state_filter \<Rightarrow> state_filter" where
  "approx_difference f other =
     (case (decompose_into_four_parts f, decompose_into_four_parts other) of
        (((self_all, self_excludes), (self_wildcards, self_concrete_keys)),
         ((other_all, other_excludes), (other_wildcards, other_concrete_keys))) \<Rightarrow>
        let new_excludes = self_excludes @ filter (\<lambda>t. t \<notin> set self_excludes) other_wildcards;
            new_wildcards = filter (\<lambda>t. t \<notin> set other_wildcards) self_wildcards;
            new_concrete_keys = filter (\<lambda>(t, k). t \<notin> set other_wildcards \<and> (t, k) \<notin> set other_concrete_keys)
              self_concrete_keys
        in if other_all
           then
             let widened = (if self_all
                   then remdups (new_wildcards @ filter (\<lambda>t. t \<notin> set self_excludes) other_excludes)
                   else new_wildcards);
                 narrowed = filter (\<lambda>t. t \<in> set other_excludes) widened;
                 kept_keys = filter (\<lambda>(t, k). t \<in> set other_excludes) new_concrete_keys
             in recompose_from_four_parts False [] narrowed kept_keys
           else recompose_from_four_parts self_all new_excludes new_wildcards new_concrete_keys)"

section \<open>The meaning of a filter\<close>

text \<open>What a dictionary of types selects of one type: \<open>None\<close> is everything.\<close>

definition selection :: "(string, string list option) dict \<Rightarrow> bool \<Rightarrow> string \<Rightarrow> string set option" where
  "selection ts others t = (case dict_get ts t of
     Some keys \<Rightarrow> map_option set keys | None \<Rightarrow> if others then None else Some {})"

abbreviation selects :: "state_filter \<Rightarrow> string \<Rightarrow> string set option" where
  "selects f \<equiv> selection (types f) (include_others f)"

definition matches :: "state_filter \<Rightarrow> string \<Rightarrow> string \<Rightarrow> bool" where
  "matches f t k \<longleftrightarrow> (case selects f t of None \<Rightarrow> True | Some keys \<Rightarrow> k \<in> keys)"

lemma matches_iff:
  "matches f t k \<longleftrightarrow> (case dict_get (types f) t of
     Some state_keys \<Rightarrow> (case state_keys of None \<Rightarrow> True | Some ks \<Rightarrow> k \<in> set ks)
   | None \<Rightarrow> include_others f)"
  by (auto simp: matches_def selection_def split: option.splits)

text \<open>The canonical form: no duplicates, with \<open>include_others\<close> no wildcard, without it no empty set.\<close>

definition frozen :: "string list \<Rightarrow> bool" where
  "frozen ks \<longleftrightarrow> distinct ks"

lemma frozen_simps [simp]: "frozen []" "frozen [k]" "frozen (remdups ks)" "frozen (set_add k ks) = frozen ks"
  by (simp_all add: frozen_def)

definition canonical :: "state_filter \<Rightarrow> bool" where
  "canonical f \<longleftrightarrow> wf_dict (types f) \<and>
     (\<forall>(t, keys) \<in> set (types f).
        (case keys of None \<Rightarrow> \<not> include_others f | Some ks \<Rightarrow> frozen ks \<and> (ks = [] \<longrightarrow> include_others f)))"

lemma include_others_StateFilter [simp]: "include_others (StateFilter ts b) = b"
  by (simp add: StateFilter_def)

lemma dict_get_types_StateFilter:
  "wf_dict ts \<Longrightarrow> dict_get (types (StateFilter ts b)) t =
     (case dict_get ts t of None \<Rightarrow> None
      | Some v \<Rightarrow> if (if b then v \<noteq> None else v \<noteq> Some []) then Some v else None)"
  by (auto simp: StateFilter_def dict_get_filter split: option.splits)

text \<open>Canonicalising does not change the meaning.\<close>

lemma selects_StateFilter [simp]:
  "wf_dict ts \<Longrightarrow> selection (types (StateFilter ts b)) b t = selection ts b t"
  by (auto simp: selection_def dict_get_types_StateFilter split: option.splits if_splits)

lemma canonical_StateFilter:
  assumes "wf_dict ts" and "\<And>t ks. (t, Some ks) \<in> set ts \<Longrightarrow> frozen ks"
  shows "canonical (StateFilter ts b)"
  using assms by (fastforce simp: canonical_def StateFilter_def split: option.splits)

text \<open>\<open>selects\<close> of a canonical filter in terms of its entries.\<close>

lemma canonical_entry:
  assumes "canonical f" and "dict_get (types f) t = Some keys"
  shows "case keys of None \<Rightarrow> \<not> include_others f | Some ks \<Rightarrow> frozen ks \<and> (ks = [] \<longrightarrow> include_others f)"
  using assms map_of_SomeD[OF assms(2)] by (auto simp: canonical_def)

lemma canonical_wf: "canonical f \<Longrightarrow> wf_dict (types f)"
  by (simp add: canonical_def)

section \<open>Constructors\<close>

lemma selection_update_Some:
  "selection (dict_set t (Some ks) d) b t' = (if t' = t then Some (set ks) else selection d b t')"
  by (simp add: selection_def alist.get_put)

lemma selection_update_None:
  "selection (dict_set t None d) b t' = (if t' = t then None else selection d b t')"
  by (simp add: selection_def alist.get_put)

lemmas selection_update = selection_update_Some selection_update_None

definition wf_types :: "(string, string list option) dict \<Rightarrow> bool" where
  "wf_types d \<longleftrightarrow> wf_dict d \<and> (\<forall>t ks. dict_get d t = Some (Some ks) \<longrightarrow> frozen ks)"

lemma wf_types_set: "wf_types d \<Longrightarrow> (\<And>ks. v = Some ks \<Longrightarrow> frozen ks) \<Longrightarrow> wf_types (dict_set t v d)"
  unfolding wf_types_def by (auto simp: alist.get_put alist.wf_put)

lemma wf_types_Nil [simp]: "wf_types []"
  by (simp add: wf_types_def)

lemma canonical_of_wf_types: "wf_types d \<Longrightarrow> canonical (StateFilter d b)"
proof (rule canonical_StateFilter)
  assume d: "wf_types d"
  then show "wf_dict d" by (simp add: wf_types_def)
  show "frozen ks" if "(t, Some ks) \<in> set d" for t ks
    using d that by (auto simp: wf_types_def wf_dict_def)
qed

lemma wf_types_setdefault: "wf_types d \<Longrightarrow> frozen ks \<Longrightarrow> wf_types (dict_setdefault t (Some ks) d)"
  by (auto simp: dict_setdefault_def split: option.splits intro: wf_types_set)

lemma wf_types_from_types_step:
  assumes "wf_types d"
  shows "wf_types (from_types_step x d)"
proof -
  obtain ty s where x: "x = (ty, s)" by (cases x)
  have d: "wf_types (dict_setdefault ty (Some []) d)" using assms by (simp add: wf_types_setdefault)
  have "wf_types (dict_set ty (Some (set_add k ks)) (dict_setdefault ty (Some []) d))"
    if "dict_get (dict_setdefault ty (Some []) d) ty = Some (Some ks)" for k ks
    using d that by (intro wf_types_set) (auto simp: wf_types_def)
  with d assms show ?thesis
    by (auto simp: x from_types_step_def Let_def split: option.splits intro: wf_types_set)
qed

lemma selection_from_types_step:
  "selection (from_types_step (ty, s) d) False t =
     (if t = ty then (case s of None \<Rightarrow> None | Some k \<Rightarrow> map_option (insert k) (selection d False t))
      else selection d False t)"
  by (auto simp: from_types_step_def Let_def dict_setdefault_def alist.get_put selection_def
      split: option.splits)

lemma selection_from_types_fold:
  "selection (fold from_types_step ts d) False t =
     (if (t, None) \<in> set ts then None else map_option (\<lambda>S. S \<union> {k. (t, Some k) \<in> set ts}) (selection d False t))"
proof (induction ts arbitrary: d)
  case Nil
  then show ?case by (simp add: option.map_ident)
next
  case (Cons x ts)
  obtain ty s where x: "x = (ty, s)" by (cases x)
  show ?case
    by (cases "selection d False t"; cases s)
      (auto simp: x Cons.IH selection_from_types_step)
qed

lemma wf_types_from_types_fold: "wf_types d \<Longrightarrow> wf_types (fold from_types_step ts d)"
  by (induction ts arbitrary: d) (auto simp: wf_types_from_types_step)

lemma selects_from_types:
  "selects (from_types ts) t = (if (t, None) \<in> set ts then None else Some {k. (t, Some k) \<in> set ts})"
proof -
  have "wf_dict (fold from_types_step ts [])"
    using wf_types_from_types_fold[of "[]" ts] by (simp add: wf_types_def)
  then show ?thesis
    by (simp add: from_types_def selection_from_types_fold) (simp add: selection_def)
qed

lemma canonical_from_types: "canonical (from_types ts)"
  unfolding from_types_def by (intro canonical_of_wf_types wf_types_from_types_fold) simp

text \<open>\<open>to_types\<close> lists every wildcard and every concrete key.\<close>

lemma to_types_mem:
  assumes "wf_dict (types f)"
  shows "(t, None) \<in> set (to_types f) \<longleftrightarrow> dict_get (types f) t = Some None"
    and "(t, Some k) \<in> set (to_types f) \<longleftrightarrow> (\<exists>ks. dict_get (types f) t = Some (Some ks) \<and> k \<in> set ks)"
proof -
  have *: "(t, v) \<in> set (types f) \<longleftrightarrow> dict_get (types f) t = Some v" for v
    using assms by (simp only: wf_dict_def map_of_eq_Some_iff)
  have "(t, None) \<in> set (to_types f) \<longleftrightarrow> (t, None) \<in> set (types f)"
    by (auto simp: to_types_def split: option.splits)
  then show "(t, None) \<in> set (to_types f) \<longleftrightarrow> dict_get (types f) t = Some None" by (simp add: *)
  have "(t, Some k) \<in> set (to_types f) \<longleftrightarrow> (\<exists>ks. (t, Some ks) \<in> set (types f) \<and> k \<in> set ks)"
    by (auto simp: to_types_def split: option.splits)
  then show "(t, Some k) \<in> set (to_types f) \<longleftrightarrow> (\<exists>ks. dict_get (types f) t = Some (Some ks) \<and> k \<in> set ks)"
    by (simp add: *)
qed

lemma selects_from_to_types:
  assumes "canonical f" and "\<not> include_others f"
  shows "selects (from_types (to_types f)) t = selects f t"
  using assms canonical_wf[OF assms(1)]
  by (auto simp: selects_from_types to_types_mem) (auto simp: selection_def split: option.splits)


section \<open>Canonical filters are determined by what they match\<close>

lemma infinite_strings: "infinite (UNIV :: string set)"
  by (rule infinite_UNIV_listI)

lemma fresh_string: "finite (S :: string set) \<Longrightarrow> \<exists>x. x \<notin> S"
  using infinite_strings by (metis UNIV_I finite_subset subsetI)

lemma finite_selection: "selection d b t = Some S \<Longrightarrow> finite S"
  by (auto simp: selection_def split: option.splits if_splits)

lemma selects_eqI:
  assumes "\<And>t k. matches f t k \<longleftrightarrow> matches g t k"
  shows "selects f t = selects g t"
proof -
  have *: "S \<noteq> UNIV" if "finite S" for S :: "string set" using that infinite_strings by auto
  show ?thesis
    using assms[of t] by (cases "selects f t"; cases "selects g t")
      (auto simp: matches_def dest!: finite_selection *)
qed

text \<open>Away from the types a filter names, \<open>include_others\<close> decides.\<close>

lemma include_others_of_selects:
  assumes "\<And>t. selects f t = selects g t"
  shows "include_others f = include_others g"
proof -
  have "finite (fst ` set (types f) \<union> fst ` set (types g))" by simp
  from fresh_string[OF this] obtain t where "dict_get (types f) t = None" "dict_get (types g) t = None"
    by (auto simp: map_of_eq_None_iff)
  with assms[of t] show ?thesis by (auto simp: selection_def split: if_splits)
qed

lemma canonical_dom:
  assumes "canonical f"
  shows "dict_get (types f) t = None \<longleftrightarrow> selects f t = (if include_others f then None else Some {})"
  using canonical_entry[OF assms, of t] by (auto simp: selection_def split: option.splits)

definition same_types :: "(string, string list option) dict \<Rightarrow> (string, string list option) dict \<Rightarrow> bool" where
  "same_types d d' \<longleftrightarrow> (\<forall>t. map_option (map_option set) (dict_get d t) = map_option (map_option set) (dict_get d' t))"

lemma canonical_unique:
  assumes "canonical f" and "canonical g" and "\<And>t. selects f t = selects g t"
  shows "include_others f = include_others g \<and> same_types (types f) (types g)"
proof
  show io: "include_others f = include_others g" by (rule include_others_of_selects[OF assms(3)])
  have "map_option (map_option set) (dict_get (types f) t) = map_option (map_option set) (dict_get (types g) t)" for t
  proof (cases "dict_get (types f) t")
    case None
    then have "dict_get (types g) t = None"
      using canonical_dom[OF assms(1), of t] canonical_dom[OF assms(2), of t] assms(3)[of t] io by simp
    with None show ?thesis by simp
  next
    case (Some v)
    then obtain w where w: "dict_get (types g) t = Some w"
      using canonical_dom[OF assms(1), of t] canonical_dom[OF assms(2), of t] assms(3)[of t] io by auto
    with Some assms(3)[of t] show ?thesis by (simp add: selection_def)
  qed
  then show "same_types (types f) (types g)" by (simp add: same_types_def)
qed

section \<open>The four parts\<close>

lemma concrete_types_mem:
  "(t, k) \<in> set (concrete_types f) \<longleftrightarrow> (\<exists>ks. (t, Some ks) \<in> set (types f) \<and> k \<in> set ks)"
proof
  assume "\<exists>ks. (t, Some ks) \<in> set (types f) \<and> k \<in> set ks"
  then obtain ks where "(t, Some ks) \<in> set (types f)" and "k \<in> set ks" by blast
  then show "(t, k) \<in> set (concrete_types f)"
    by (auto simp: concrete_types_def intro!: bexI[of _ "(t, Some ks)"])
qed (auto simp: concrete_types_def split: option.splits)

lemma decompose_into_four_parts_mem:
  assumes "canonical f" and "decompose_into_four_parts f = ((a, E), (W, C))"
  shows "a = include_others f"
    and "t \<in> set E \<longleftrightarrow> a \<and> dict_get (types f) t \<noteq> None"
    and "t \<in> set W \<longleftrightarrow> dict_get (types f) t = Some None"
    and "(t, k) \<in> set C \<longleftrightarrow> (\<exists>ks. dict_get (types f) t = Some (Some ks) \<and> k \<in> set ks)"
proof -
  have *: "(t, v) \<in> set (types f) \<longleftrightarrow> dict_get (types f) t = Some v" for t v
    using canonical_wf[OF assms(1)] by (simp only: wf_dict_def map_of_eq_Some_iff)
  note d = assms(2)[unfolded decompose_into_four_parts_def Let_def]
  show "a = include_others f" using d by simp
  show "t \<in> set E \<longleftrightarrow> a \<and> dict_get (types f) t \<noteq> None"
    using d by (force simp: map_of_eq_None_iff split: if_splits)
  have "t \<in> set W \<longleftrightarrow> (t, None) \<in> set (types f)" using d by force
  then show "t \<in> set W \<longleftrightarrow> dict_get (types f) t = Some None" by (simp only: *)
  have "(t, k) \<in> set C \<longleftrightarrow> (\<exists>ks. (t, Some ks) \<in> set (types f) \<and> k \<in> set ks)"
    using d concrete_types_mem by auto
  then show "(t, k) \<in> set C \<longleftrightarrow> (\<exists>ks. dict_get (types f) t = Some (Some ks) \<and> k \<in> set ks)"
    by (simp only: *)
qed

lemma selection_recompose_key:
  "selection (recompose_key b (ty, k) d) b t =
     (if t = ty then map_option (insert k) (selection d b t) else selection d b t)"
  by (auto simp: recompose_key_def selection_def alist.get_put split: option.splits)

lemma wf_types_recompose_key: "wf_types d \<Longrightarrow> wf_types (recompose_key b x d)"
  by (cases x) (auto simp: recompose_key_def wf_types_def alist.get_put alist.wf_put split: option.splits)

lemma selection_recompose_fold:
  "selection (fold (recompose_key b) cs d) b t = map_option (\<lambda>S. S \<union> {k. (t, k) \<in> set cs}) (selection d b t)"
proof (induction cs arbitrary: d)
  case Nil
  then show ?case by (simp add: option.map_ident)
next
  case (Cons x cs)
  obtain ty k where x: "x = (ty, k)" by (cases x)
  show ?case
    by (cases "selection d b t") (auto simp: x Cons.IH selection_recompose_key)
qed

lemma wf_types_recompose_fold: "wf_types d \<Longrightarrow> wf_types (fold (recompose_key b) cs d)"
  by (induction cs arbitrary: d) (auto simp: wf_types_recompose_key)

lemma dict_get_const: "dict_get (map (\<lambda>t. (t, v)) ts) t = (if t \<in> set ts then Some v else None)"
  by (induction ts) auto

lemma dict_get_update_const:
  "dict_get (dict_update d (map (\<lambda>t. (t, v)) ts)) t = (if t \<in> set ts then Some v else dict_get d t)"
  by (simp add: dict_get_update rev_map dict_get_const map_add_def split: option.splits)

lemma wf_types_update_const:
  "wf_types d \<Longrightarrow> v = None \<or> v = Some [] \<Longrightarrow> wf_types (dict_update d (map (\<lambda>t. (t, v)) ts))"
  by (auto simp: wf_types_def wf_dict_update dict_get_update_const split: if_splits)

lemma selection_update_const:
  "selection (dict_update d (map (\<lambda>t. (t, v)) ts)) b t = (if t \<in> set ts then map_option set v else selection d b t)"
  by (simp add: selection_def dict_get_update_const)

lemma dict_get_map_value: "dict_get (map (\<lambda>(k, v). (k, g v)) d) = map_option g \<circ> dict_get d"
  by (induction d) (auto simp: fun_eq_iff)

lemma wf_dict_map_value [simp]: "wf_dict (map (\<lambda>(k, v). (k, g v)) d) = wf_dict d"
proof -
  have "map fst (map (\<lambda>(k, v). (k, g v)) d) = map fst d" by (induction d) auto
  then show ?thesis unfolding wf_dict_def by (simp only:)
qed

lemma selects_freeze:
  assumes "wf_dict d"
  shows "selects (freeze d b) t = selection d b t"
  using assms by (simp add: freeze_def)
    (auto simp: selection_def dict_get_map_value option.map_comp comp_def split: option.splits)

lemma include_others_freeze [simp]: "include_others (freeze d b) = b"
  by (simp add: freeze_def)

lemma canonical_freeze: "wf_dict d \<Longrightarrow> canonical (freeze d b)"
  unfolding freeze_def
  by (rule canonical_of_wf_types) (auto simp: wf_types_def dict_get_map_value)

lemma recompose_types:
  fixes b M W
  defines "d \<equiv> dict_update (if b then dict_update [] (map (\<lambda>t. (t, Some [])) M) else []) (map (\<lambda>t. (t, None)) W)"
  shows "wf_types d"
    and "selection d b t = (if t \<in> set W then None else if b \<and> t \<notin> set M then None else Some {})"
  by (auto simp: d_def wf_types_update_const selection_update_const) (auto simp: selection_def)

lemma selects_recompose:
  "selects (recompose_from_four_parts b M W C) t =
     (if t \<in> set W \<or> b \<and> t \<notin> set M then None else Some {k. (t, k) \<in> set C})"
proof -
  let ?d = "dict_update (if b then dict_update [] (map (\<lambda>t. (t, Some [])) M) else []) (map (\<lambda>t. (t, None)) W)"
  have "wf_dict (fold (recompose_key b) C ?d)"
    using wf_types_recompose_fold[OF recompose_types(1)] by (simp only: wf_types_def)
  then have "selects (recompose_from_four_parts b M W C) t = selection (fold (recompose_key b) C ?d) b t"
    by (simp only: recompose_from_four_parts_def Let_def selects_freeze)
  also have "\<dots> = map_option (\<lambda>S. S \<union> {k. (t, k) \<in> set C}) (selection ?d b t)"
    by (rule selection_recompose_fold)
  finally show ?thesis by (auto simp only: recompose_types(2)) simp_all
qed

lemma canonical_recompose: "canonical (recompose_from_four_parts b M W C)"
  unfolding recompose_from_four_parts_def Let_def
  by (rule canonical_freeze)
    (use wf_types_recompose_fold[OF recompose_types(1)] in \<open>simp only: wf_types_def\<close>)


section \<open>The difference\<close>

lemma selects_of_parts:
  assumes "canonical f" and "decompose_into_four_parts f = ((a, E), (W, C))"
  shows "selects f t = (if t \<in> set W \<or> a \<and> t \<notin> set E then None else Some {k. (t, k) \<in> set C})"
  using canonical_entry[OF assms(1), of t]
  by (cases "dict_get (types f) t")
    (auto simp: selection_def decompose_into_four_parts_mem[OF assms] split: option.splits)

definition difference_selection :: "string set option \<Rightarrow> string set option \<Rightarrow> string set option" where
  "difference_selection s s' = (case s' of
     None \<Rightarrow> Some {}
   | Some T \<Rightarrow> (case s of None \<Rightarrow> None | Some S \<Rightarrow> Some (S - T)))"

lemma selects_approx_difference:
  assumes "canonical f" and "canonical g"
  shows "selects (approx_difference f g) t = difference_selection (selects f t) (selects g t)"
proof -
  obtain a E W C where f: "decompose_into_four_parts f = ((a, E), (W, C))" by (metis surj_pair)
  obtain b E' W' C' where g: "decompose_into_four_parts g = ((b, E'), (W', C'))" by (metis surj_pair)
  note df = decompose_into_four_parts_mem[OF assms(1) f] and dg = decompose_into_four_parts_mem[OF assms(2) g]
  show ?thesis
    unfolding selects_of_parts[OF assms(1) f] selects_of_parts[OF assms(2) g]
    using canonical_entry[OF assms(1), of t] canonical_entry[OF assms(2), of t]
    by (auto simp: approx_difference_def f g Let_def selects_recompose difference_selection_def df dg
        split: option.splits)
qed

lemma canonical_approx_difference: "canonical (approx_difference f g)"
  by (auto simp: approx_difference_def Let_def canonical_recompose split: prod.splits)

lemma matches_approx_difference:
  assumes "canonical f" and "canonical g"
  shows "matches (approx_difference f g) t k \<longleftrightarrow>
     (case selects g t of None \<Rightarrow> False | Some T \<Rightarrow> matches f t k \<and> (selects f t = None \<or> k \<notin> T))"
  by (auto simp: matches_def selects_approx_difference[OF assms] difference_selection_def split: option.splits)

text \<open>A filter that covers infinitely many keys of a type covers them all, which is why the
  difference keeps the wildcards of the first filter where the second names single keys.\<close>

lemma selects_cofinite:
  assumes "finite T" and "\<And>k. k \<notin> T \<Longrightarrow> matches h t k"
  shows "selects h t = None"
proof (rule ccontr)
  assume "selects h t \<noteq> None"
  then obtain S where S: "selects h t = Some S" by auto
  have "finite (S \<union> T)" using finite_selection[OF S] assms(1) by simp
  from fresh_string[OF this] obtain k where "k \<notin> S" "k \<notin> T" by auto
  with assms(2)[of k] S show False by (simp add: matches_def)
qed

lemma approx_difference_least:
  assumes "canonical f" and "canonical g"
    and covers: "\<And>t k. matches f t k \<Longrightarrow> \<not> matches g t k \<Longrightarrow> matches h t k"
    and k: "matches (approx_difference f g) t k"
  shows "matches h t k"
proof -
  from k obtain T where T: "selects g t = Some T" and fk: "matches f t k" and c: "selects f t = None \<or> k \<notin> T"
    by (auto simp: matches_approx_difference[OF assms(1,2)] split: option.splits)
  show ?thesis
  proof (cases "k \<in> T")
    case False
    with covers fk T show ?thesis by (simp add: matches_def)
  next
    case True
    with c have "matches f t k'" for k' by (simp add: matches_def)
    then have "matches h t k'" if "k' \<notin> T" for k' using covers[of t k'] T that by (simp add: matches_def)
    from selects_cofinite[OF finite_selection[OF T] this] show ?thesis by (simp add: matches_def)
  qed
qed

section \<open>Splitting and expanding\<close>

lemma matches_full [simp]: "matches filter_all t k" "\<not> matches filter_none t k"
  by (simp_all add: matches_def filter_all_def ALL_STATE_FILTER_def filter_none_def NONE_STATE_FILTER_def
      StateFilter_def selection_def)

lemma is_full_matches: "is_full f \<Longrightarrow> matches f t k"
  by (simp add: is_full_def matches_def selection_def)

lemma matches_StateFilter:
  "wf_dict d \<Longrightarrow> matches (StateFilter d b) t k \<longleftrightarrow> (case selection d b t of None \<Rightarrow> True | Some S \<Rightarrow> k \<in> S)"
  by (simp add: matches_def)

lemma member_split_member:
  "matches (fst (get_member_split f)) EventTypes_Member k \<longleftrightarrow> matches f EventTypes_Member k"
  by (auto simp: get_member_split_def Let_def matches_StateFilter split: option.splits)
    (auto simp: matches_def selection_def)

lemma member_split_other:
  assumes "wf_dict (types f)" and "t \<noteq> EventTypes_Member"
  shows "matches (snd (get_member_split f)) t k \<longleftrightarrow> matches f t k"
  using assms by (auto simp: get_member_split_def Let_def matches_StateFilter)
    (auto simp: matches_def selection_def dict_get_filter split: option.splits if_splits)

lemma canonical_singleton: "frozen ks \<Longrightarrow> canonical (StateFilter [(t, Some ks)] b)"
  by (rule canonical_of_wf_types) (auto simp: wf_types_def)

lemma canonical_constants: "canonical filter_all" "canonical filter_none" "canonical ALL_NON_MEMBER_STATE_FILTER"
  by (simp_all add: filter_all_def ALL_STATE_FILTER_def filter_none_def NONE_STATE_FILTER_def
      ALL_NON_MEMBER_STATE_FILTER_def canonical_singleton canonical_of_wf_types)

lemma canonical_wf_types: "canonical f \<Longrightarrow> wf_types (types f)"
  using canonical_entry[of f] by (fastforce simp: wf_types_def canonical_wf)

lemma canonical_member_split:
  assumes "canonical f"
  shows "canonical (fst (get_member_split f))" and "canonical (snd (get_member_split f))"
proof -
  have w: "wf_types (types f)" by (rule canonical_wf_types[OF assms])
  then show "canonical (fst (get_member_split f))"
    by (auto simp: get_member_split_def Let_def canonical_constants wf_types_def intro!: canonical_singleton
        split: option.splits)
  show "canonical (snd (get_member_split f))"
    using w by (auto simp: get_member_split_def Let_def wf_types_def dict_get_filter
        intro!: canonical_of_wf_types split: option.splits)
qed

lemma canonical_return_expanded:
  assumes "canonical f"
  shows "canonical (return_expanded f)"
proof -
  have "frozen ks" if "dict_get (types f) EventTypes_Member = Some (Some ks)" for ks
    using canonical_wf_types[OF assms] that by (simp add: wf_types_def)
  with assms show ?thesis
    by (auto simp: return_expanded_def Let_def canonical_constants intro: canonical_singleton split: option.splits)
qed

lemma return_expanded_member:
  assumes "canonical f"
  shows "matches (return_expanded f) EventTypes_Member k \<longleftrightarrow> matches f EventTypes_Member k"
  by (auto simp: return_expanded_def Let_def ALL_NON_MEMBER_STATE_FILTER_def matches_StateFilter split: option.splits)
    (auto simp: matches_def selection_def)

lemma return_expanded_other:
  assumes "t \<noteq> EventTypes_Member"
  shows "matches f t k \<Longrightarrow> matches (return_expanded f) t k"
  using assms
  by (auto simp: return_expanded_def Let_def ALL_NON_MEMBER_STATE_FILTER_def matches_StateFilter split: option.splits)
    (auto simp: selection_def)

text \<open>After the expansion a wildcard on a type other than the memberships is gone: either
  everything but memberships is wanted, or only single keys are.\<close>

lemma return_expanded_no_wildcard:
  assumes "canonical f" and "t \<noteq> EventTypes_Member" and "\<not> include_others (return_expanded f)"
  shows "dict_get (types (return_expanded f)) t \<noteq> Some None"
  using assms map_of_SomeD[of "types f" t None]
  by (auto simp: return_expanded_def Let_def is_full_def has_wildcards_def list_ex_iff filter_all_def ALL_STATE_FILTER_def
      ALL_NON_MEMBER_STATE_FILTER_def split: if_splits option.splits)


section \<open>What the SQL clause selects\<close>

text \<open>The language of the clauses: alternatives that compare the columns \<open>type\<close> and \<open>state_key\<close> with
  placeholders. The placeholders take the arguments from left to right.\<close>

datatype sql_atom = TypeIs | TypeAndKeyAre | TypeNotIn nat | Never

text \<open>\<open>?,?,?)\<close> with at least one mark.\<close>

fun parse_marks :: "string \<Rightarrow> (nat \<times> string) option" where
  "parse_marks (c # d # s) =
     (if c \<noteq> CHR ''?'' then None
      else if d = CHR '')'' then Some (1, s)
      else if d = CHR '','' then map_option (\<lambda>(n, r). (Suc n, r)) (parse_marks s)
      else None)"
| "parse_marks _ = None"

definition strip_prefix :: "string \<Rightarrow> string \<Rightarrow> string option" where
  "strip_prefix p s = (if take (length p) s = p then Some (drop (length p) s) else None)"

definition parse_atom :: "string \<Rightarrow> (sql_atom \<times> string) option" where
  "parse_atom s =
     (case strip_prefix ''(type = ? AND state_key = ?)'' s of Some r \<Rightarrow> Some (TypeAndKeyAre, r)
      | None \<Rightarrow>
     (case strip_prefix ''(type = ?)'' s of Some r \<Rightarrow> Some (TypeIs, r)
      | None \<Rightarrow>
     (case strip_prefix ''1 = 2'' s of Some r \<Rightarrow> Some (Never, r)
      | None \<Rightarrow>
     (case strip_prefix ''type NOT IN ('' s of
        Some r \<Rightarrow> map_option (\<lambda>(n, r'). (TypeNotIn n, r')) (parse_marks r)
      | None \<Rightarrow> None))))"

lemma strip_prefix_length: "strip_prefix p s = Some r \<Longrightarrow> p \<noteq> [] \<Longrightarrow> length r < length s"
  by (cases s; cases p) (auto simp: strip_prefix_def split: if_splits)

lemma parse_marks_length: "parse_marks s = Some (n, r) \<Longrightarrow> length r < length s"
  by (induction s arbitrary: n rule: parse_marks.induct) (fastforce split: if_splits)+

lemma parse_atom_length: "parse_atom s = Some (a, r) \<Longrightarrow> length r < length s"
  by (auto simp: parse_atom_def split: option.splits dest!: strip_prefix_length parse_marks_length)

function parse_clause :: "string \<Rightarrow> sql_atom list option" where
  "parse_clause s =
     (case parse_atom s of
        None \<Rightarrow> None
      | Some (a, r) \<Rightarrow>
          if r = [] then Some [a]
          else case strip_prefix '' OR '' r of
                 None \<Rightarrow> None
               | Some r' \<Rightarrow> map_option (Cons a) (parse_clause r'))"
  by pat_completeness auto
termination
  by (relation "measure length") (auto dest!: parse_atom_length strip_prefix_length)

declare parse_clause.simps [simp del]

text \<open>The value of the alternatives on a row, or \<open>None\<close> when the number of arguments is wrong.\<close>

fun eval_atoms :: "sql_atom list \<Rightarrow> string list \<Rightarrow> string \<Rightarrow> string \<Rightarrow> bool option" where
  "eval_atoms [] args t k = (if args = [] then Some False else None)"
| "eval_atoms (TypeIs # as) (x # args) t k = map_option (\<lambda>b. t = x \<or> b) (eval_atoms as args t k)"
| "eval_atoms (TypeAndKeyAre # as) (x # y # args) t k =
     map_option (\<lambda>b. t = x \<and> k = y \<or> b) (eval_atoms as args t k)"
| "eval_atoms (TypeNotIn n # as) args t k =
     (if n \<le> length args
      then map_option (\<lambda>b. t \<notin> set (take n args) \<or> b) (eval_atoms as (drop n args) t k) else None)"
| "eval_atoms (Never # as) args t k = eval_atoms as args t k"
| "eval_atoms _ _ _ _ = None"

text \<open>An empty clause puts no condition on the rows.\<close>

definition sql_where :: "string \<times> string list \<Rightarrow> string \<Rightarrow> string \<Rightarrow> bool option" where
  "sql_where q t k = (case q of (clause, args) \<Rightarrow>
     if clause = [] then (if args = [] then Some True else None)
     else case parse_clause clause of None \<Rightarrow> None | Some as \<Rightarrow> eval_atoms as args t k)"

fun render_atom :: "sql_atom \<Rightarrow> string" where
  "render_atom TypeIs = ''(type = ?)''"
| "render_atom TypeAndKeyAre = ''(type = ? AND state_key = ?)''"
| "render_atom (TypeNotIn n) = ''type NOT IN ('' @ join_str '','' (replicate n ''?'') @ '')''"
| "render_atom Never = ''1 = 2''"

lemma strip_prefix_append [simp]: "strip_prefix p (p @ s) = Some s"
  by (simp add: strip_prefix_def)

lemma parse_marks_render:
  "0 < n \<Longrightarrow> parse_marks (join_str '','' (replicate n ''?'') @ '')'' @ s) = Some (n, s)"
proof (induction n)
  case (Suc n)
  then show ?case by (cases n) auto
qed simp

lemma parse_atom_render:
  assumes "\<And>n. a = TypeNotIn n \<Longrightarrow> 0 < n"
  shows "parse_atom (render_atom a @ s) = Some (a, s)"
proof (cases a)
  case (TypeNotIn n)
  with assms parse_marks_render[of n s] show ?thesis by (simp add: parse_atom_def strip_prefix_def)
qed (simp_all add: parse_atom_def strip_prefix_def)

lemma parse_clause_render:
  assumes "as \<noteq> []" and "\<And>n. TypeNotIn n \<in> set as \<Longrightarrow> 0 < n"
  shows "parse_clause (join_str '' OR '' (map render_atom as)) = Some as"
  using assms
proof (induction as)
  case (Cons a as)
  show ?case
  proof (cases as)
    case Nil
    with Cons.prems parse_atom_render[of a "[]"] show ?thesis
      by (subst parse_clause.simps) simp
  next
    case (Cons b bs)
    with Cons.prems Cons.IH
    have IH: "parse_clause (join_str '' OR '' (map render_atom as)) = Some as" by auto
    let ?rest = "'' OR '' @ join_str '' OR '' (map render_atom as)"
    have s: "join_str '' OR '' (map render_atom (a # as)) = render_atom a @ ?rest"
      using Cons by simp
    have atom: "parse_atom (render_atom a @ ?rest) = Some (a, ?rest)"
      by (rule parse_atom_render) (use Cons.prems in auto)
    have strip: "strip_prefix '' OR '' ?rest = Some (join_str '' OR '' (map render_atom as))"
      by (rule strip_prefix_append)
    have ne: "?rest \<noteq> []" by simp
    show ?thesis
      unfolding s by (subst parse_clause.simps) (simp only: atom strip ne IH option.case prod.case if_False option.map)
  qed
qed simp


definition entry_atoms :: "string \<times> string list option \<Rightarrow> sql_atom list" where
  "entry_atoms e = (case snd e of None \<Rightarrow> [TypeIs] | Some ks \<Rightarrow> map (\<lambda>_. TypeAndKeyAre) ks)"

definition entry_args :: "string \<times> string list option \<Rightarrow> string list" where
  "entry_args e = (case snd e of None \<Rightarrow> [fst e] | Some ks \<Rightarrow> concat (map (\<lambda>k. [fst e, k]) ks))"

definition entry_matches :: "string \<Rightarrow> string \<Rightarrow> string \<times> string list option \<Rightarrow> bool" where
  "entry_matches t k e \<longleftrightarrow> t = fst e \<and> (case snd e of None \<Rightarrow> True | Some ks \<Rightarrow> k \<in> set ks)"

lemma eval_entry:
  "eval_atoms (entry_atoms e @ as) (entry_args e @ args) t k =
     map_option (\<lambda>b. entry_matches t k e \<or> b) (eval_atoms as args t k)"
proof (cases "snd e")
  case None
  then show ?thesis by (simp add: entry_atoms_def entry_args_def entry_matches_def)
next
  case (Some ks)
  have "eval_atoms (map (\<lambda>_. TypeAndKeyAre) ks @ as) (concat (map (\<lambda>k. [ty, k]) ks) @ args) t k =
      map_option (\<lambda>b. t = ty \<and> k \<in> set ks \<or> b) (eval_atoms as args t k)" for ty
    by (induction ks) (auto simp: option.map_comp comp_def option.map_ident intro!: map_option_cong)
  then show ?thesis by (simp add: Some entry_atoms_def entry_args_def entry_matches_def)
qed

lemma eval_entries:
  "eval_atoms (concat (map entry_atoms es) @ as) (concat (map entry_args es) @ args) t k =
     map_option (\<lambda>b. list_ex (entry_matches t k) es \<or> b) (eval_atoms as args t k)"
  by (induction es) (auto simp: eval_entry option.map_comp comp_def option.map_ident intro!: map_option_cong)

lemma list_ex_entry_matches:
  assumes "wf_dict (types f)"
  shows "list_ex (entry_matches t k) (types f) \<longleftrightarrow> dict_get (types f) t \<noteq> None \<and> matches f t k"
proof -
  have *: "(t, v) \<in> set (types f) \<longleftrightarrow> dict_get (types f) t = Some v" for v
    using assms by (simp only: wf_dict_def map_of_eq_Some_iff)
  have "list_ex (entry_matches t k) (types f) \<longleftrightarrow>
      (\<exists>v. (t, v) \<in> set (types f) \<and> (case v of None \<Rightarrow> True | Some ks \<Rightarrow> k \<in> set ks))"
    by (force simp: list_ex_iff entry_matches_def)
  then show ?thesis by (auto simp: * matches_iff split: option.splits)
qed

text \<open>The atoms the clause consists of, when it is neither empty nor \<open>1 = 2\<close>.\<close>

definition clause_atoms :: "state_filter \<Rightarrow> sql_atom list" where
  "clause_atoms f = concat (map entry_atoms (types f)) @
     (if include_others f then [TypeNotIn (length (types f))] else [])"

lemma join_str_snoc: "xs \<noteq> [] \<Longrightarrow> join_str sep (xs @ [x]) = join_str sep xs @ sep @ x"
  by (induction sep xs rule: join_str.induct) auto

lemma join_str_Nil_iff: "\<forall>x \<in> set xs. x \<noteq> [] \<Longrightarrow> join_str sep xs = [] \<longleftrightarrow> xs = []"
  by (induction sep xs rule: join_str.induct) auto

lemma join_str_extend:
  assumes "\<forall>x \<in> set xs. x \<noteq> []"
  shows "(if join_str sep xs \<noteq> [] then join_str sep xs @ sep else join_str sep xs) @ x = join_str sep (xs @ [x])"
  using join_str_Nil_iff[OF assms] by (cases "xs = []") (auto simp: join_str_snoc)

lemma entry_clauses:
  "map render_atom (concat (map entry_atoms ts)) = concat (map (\<lambda>(etype, state_keys).
     case state_keys of None \<Rightarrow> [''(type = ?)'']
     | Some ks \<Rightarrow> map (\<lambda>_. ''(type = ? AND state_key = ?)'') ks) ts)"
  by (induction ts) (auto simp: entry_atoms_def split: option.splits)

lemma make_sql_filter_clause_eq:
  assumes "\<not> is_full f" and "include_others f \<or> types f \<noteq> []"
  shows "make_sql_filter_clause f =
     (join_str '' OR '' (map render_atom (clause_atoms f)),
      concat (map entry_args (types f)) @ (if include_others f then dict_keys (types f) else []))"
proof -
  let ?cs = "map render_atom (concat (map entry_atoms (types f)))"
  have args: "concat (map (\<lambda>(etype, state_keys). case state_keys of None \<Rightarrow> [etype]
        | Some ks \<Rightarrow> concat (map (\<lambda>k. [etype, k]) ks)) (types f)) = concat (map entry_args (types f))"
    by (rule arg_cong[where f = concat]) (auto simp: entry_args_def split: option.splits)
  have "\<forall>x \<in> set ?cs. x \<noteq> []" by (auto simp: entry_atoms_def split: option.splits)
  from join_str_extend[OF this]
  have tail: "(if join_str '' OR '' ?cs \<noteq> [] then join_str '' OR '' ?cs @ '' OR '' else join_str '' OR '' ?cs) @ x =
      join_str '' OR '' (?cs @ [x])" for x .
  note tail = tail[of "render_atom (TypeNotIn (length (types f)))"]
  show ?thesis
    using assms tail
    unfolding make_sql_filter_clause_def Let_def entry_clauses[symmetric] args clause_atoms_def
    by (simp add: map_replicate_const)
qed

lemma render_atom_nonempty: "render_atom a \<noteq> []"
  by (cases a) simp_all

lemma clause_atoms_nonempty:
  assumes "canonical f" and "include_others f \<or> types f \<noteq> []"
  shows "clause_atoms f \<noteq> []"
proof (cases "include_others f")
  case False
  with assms(2) obtain t v d where d: "types f = (t, v) # d" by (cases "types f") auto
  then have "v \<noteq> Some []" using assms(1) False by (auto simp: canonical_def)
  then show ?thesis by (auto simp: clause_atoms_def d entry_atoms_def split: option.splits)
qed (simp add: clause_atoms_def)

lemma sql_where_matches:
  assumes "canonical f"
  shows "sql_where (make_sql_filter_clause f) t k = Some (matches f t k)"
proof -
  consider "is_full f" | "\<not> include_others f" "types f = []" | "\<not> is_full f" "include_others f \<or> types f \<noteq> []"
    by blast
  then show ?thesis
  proof cases
    case 1
    then show ?thesis by (simp add: make_sql_filter_clause_def sql_where_def is_full_matches)
  next
    case 2
    then have "make_sql_filter_clause f = (''1 = 2'', [])" by (simp add: make_sql_filter_clause_def is_full_def)
    moreover have "parse_clause ''1 = 2'' = Some [Never]" using parse_clause_render[of "[Never]"] by simp
    ultimately show ?thesis using 2 by (simp add: sql_where_def matches_def selection_def)
  next
    case 3
    let ?clause = "join_str '' OR '' (map render_atom (clause_atoms f))"
    let ?args = "concat (map entry_args (types f)) @ (if include_others f then dict_keys (types f) else [])"
    have ne: "clause_atoms f \<noteq> []" by (rule clause_atoms_nonempty[OF assms 3(2)])
    have pos: "0 < n" if "TypeNotIn n \<in> set (clause_atoms f)" for n
      using that 3 by (auto simp: clause_atoms_def entry_atoms_def is_full_def split: if_splits option.splits)
    have "?clause \<noteq> []"
      by (subst join_str_Nil_iff) (use ne render_atom_nonempty in auto)
    then have "sql_where (make_sql_filter_clause f) t k = eval_atoms (clause_atoms f) ?args t k"
      by (simp add: make_sql_filter_clause_eq[OF 3] sql_where_def parse_clause_render[OF ne pos])
    also have "\<dots> = Some (list_ex (entry_matches t k) (types f) \<or> include_others f \<and> dict_get (types f) t = None)"
      using eval_entries[of "types f" "[]" "[]" t k]
      by (cases "include_others f") (simp_all add: clause_atoms_def eval_entries map_of_eq_None_iff)
    also have "\<dots> = Some (matches f t k)"
      using list_ex_entry_matches[OF canonical_wf[OF assms], of t k]
      by (auto simp: matches_iff split: option.splits)
    finally show ?thesis .
  qed
qed

section \<open>Selecting from a state\<close>

lemma contains_matches: "contains f (PyTuple [JStr t, JStr k]) = Inr (matches f t k)"
  by (simp add: matches_iff)

lemma filter_state_eq: "filter_state f d = filter (\<lambda>((t, k), v). matches f t k) d"
proof (cases "is_full f")
  case True
  then show ?thesis by (auto simp: filter_state_def is_full_matches intro!: filter_True[symmetric])
qed (auto simp: filter_state_def matches_iff intro!: filter_cong)

text \<open>A filter has wildcards when no finite set of entries is all it matches; otherwise it lists what
  it matches, each entry once.\<close>

lemma matched_concrete:
  assumes "canonical f" and "\<not> has_wildcards f"
  shows "{(t, k). matches f t k} = set (concrete_types f)"
proof -
  have *: "(t, v) \<in> set (types f) \<longleftrightarrow> dict_get (types f) t = Some v" for t v
    using canonical_wf[OF assms(1)] by (simp only: wf_dict_def map_of_eq_Some_iff)
  have "dict_get (types f) t \<noteq> Some None" and "\<not> include_others f" for t
    using assms(2) by (auto simp: has_wildcards_def list_ex_iff simp flip: *)
  then have "matches f t k \<longleftrightarrow> (t, k) \<in> set (concrete_types f)" for t k
    by (fastforce simp: concrete_types_mem * matches_iff split: option.splits)
  then show ?thesis by auto
qed

lemma distinct_concrete_types:
  assumes "canonical f"
  shows "distinct (concrete_types f)"
proof -
  have "distinct (concat (map (\<lambda>(t, state_keys). case state_keys of None \<Rightarrow> [] | Some ks \<Rightarrow> map (\<lambda>s. (t, s)) ks) d))"
    if "wf_dict d" and "\<And>t ks. (t, Some ks) \<in> set d \<Longrightarrow> frozen ks" for d :: "(string, string list option) dict"
    using that
  proof (induction d)
    case (Cons x d)
    obtain t v where x: "x = (t, v)" by (cases x)
    have "frozen ks" if "v = Some ks" for ks using Cons.prems(2)[of t ks] that by (simp add: x)
    moreover have "distinct (concat (map (\<lambda>(t, state_keys). case state_keys of None \<Rightarrow> [] | Some ks \<Rightarrow> map (\<lambda>s. (t, s)) ks) d))"
      by (rule Cons.IH) (use Cons.prems in \<open>auto simp: wf_dict_def\<close>)
    moreover have "t \<notin> fst ` set d" using Cons.prems(1) by (simp add: wf_dict_def x)
    ultimately show ?case
      by (cases v) (auto simp: x distinct_map inj_on_def frozen_def split: option.splits, force)
  qed simp
  moreover have "frozen ks" if "(t, Some ks) \<in> set (types f)" for t ks
    using assms that by (auto simp: canonical_def)
  ultimately show ?thesis
    using canonical_wf[OF assms] unfolding concrete_types_def by blast
qed

lemma has_wildcards_infinite:
  assumes "canonical f" and "has_wildcards f"
  shows "infinite {(t, k). matches f t k}"
proof -
  obtain t where t: "selects f t = None"
  proof (cases "include_others f")
    case True
    have "finite (fst ` set (types f))" by simp
    from fresh_string[OF this] obtain t where "dict_get (types f) t = None" by (auto simp: map_of_eq_None_iff)
    with True have "selects f t = None" by (simp add: selection_def)
    with that show thesis by blast
  next
    case False
    with assms(2) obtain t where "(t, None) \<in> set (types f)" by (auto simp: has_wildcards_def list_ex_iff)
    with canonical_wf[OF assms(1)] have "dict_get (types f) t = Some None"
      by (simp only: wf_dict_def map_of_eq_Some_iff)
    then have "selects f t = None" by (simp add: selection_def)
    with that show thesis by blast
  qed
  then have sub: "range (Pair t) \<subseteq> {(t, k). matches f t k}" by (auto simp: matches_def)
  have "infinite (range (Pair t :: string \<Rightarrow> string \<times> string))"
    using infinite_strings by (auto dest!: finite_imageD simp: inj_on_def)
  with sub show ?thesis by (metis finite_subset)
qed

lemma max_entries_returned_card:
  assumes "canonical f"
  shows "max_entries_returned f =
     (if finite {(t, k). matches f t k} then Some (card {(t, k). matches f t k}) else None)"
  using assms has_wildcards_infinite[OF assms] matched_concrete[OF assms] distinct_concrete_types[OF assms]
  by (auto simp: max_entries_returned_def distinct_card)

lemma must_await_full_state_iff:
  assumes "\<exists>u. \<not> is_mine_id u"
  shows "must_await_full_state f is_mine_id \<longleftrightarrow> (\<exists>u. matches f EventTypes_Member u \<and> \<not> is_mine_id u)"
  using assms by (auto simp: must_await_full_state_def matches_iff list_ex_iff split: option.splits)

lemma filter_bool_iff:
  assumes "canonical f"
  shows "filter_bool f \<longleftrightarrow> (\<exists>t k. matches f t k)"
proof (cases "filter_bool f \<and> \<not> has_wildcards f")
  case True
  then obtain t v d where d: "types f = (t, v) # d" and "\<not> include_others f"
    by (cases "types f") (auto simp: filter_bool_def has_wildcards_def)
  moreover have "v \<noteq> None" using True d by (auto simp: has_wildcards_def)
  ultimately obtain k ks where "v = Some (k # ks)"
    using assms by (cases v; cases "the v") (auto simp: canonical_def)
  with d have "matches f t k" by (simp add: matches_iff)
  with True show ?thesis by blast
next
  case False
  have "\<exists>t k. matches f t k" if "has_wildcards f"
    using has_wildcards_infinite[OF assms that] by (metis (mono_tags, lifting) case_prodE finite.emptyI ex_in_conv mem_Collect_eq)
  moreover have "\<not> matches f t k" if "\<not> filter_bool f" for t k
    using that by (simp add: filter_bool_def matches_iff split: if_splits)
  ultimately show ?thesis using False by blast
qed


lemma canonical_lazy_load: "canonical (from_lazy_load_member_list us)"
  by (simp add: from_lazy_load_member_list_def canonical_singleton)

end
