(* ===== verification/Visibility.thy ===== *)
theory Visibility
  imports Event_Signing State_Filter
begin

text \<open>
  \<open>synapse/visibility.py\<close>: which events a user or another server may see. The database is the record
  \<open>visibility_storage\<close>; the state of the room at an event is a state map of event objects. The check for
  a server ends in \<open>event_visible_to_server\<close> of \<open>rust/src/events/filter.rs\<close>.
\<close>

section \<open>Constants\<close>

definition VISIBILITY_PRIORITY :: "json list" where
  "VISIBILITY_PRIORITY = [JStr ''world_readable'', JStr ''shared'', JStr ''invited'', JStr ''joined'']"

definition MEMBERSHIP_PRIORITY :: "json list" where
  "MEMBERSHIP_PRIORITY = [Membership_JOIN, Membership_INVITE, Membership_KNOCK, Membership_LEAVE, Membership_BAN]"

abbreviation HistoryVisibility_SHARED :: json where "HistoryVisibility_SHARED \<equiv> JStr ''shared''"
abbreviation HistoryVisibility_WORLD_READABLE :: json where "HistoryVisibility_WORLD_READABLE \<equiv> JStr ''world_readable''"
abbreviation HistoryVisibility_INVITED :: json where "HistoryVisibility_INVITED \<equiv> JStr ''invited''"
abbreviation HistoryVisibility_JOINED :: json where "HistoryVisibility_JOINED \<equiv> JStr ''joined''"
abbreviation EventTypes_Dummy :: string where "EventTypes_Dummy \<equiv> ''org.matrix.dummy_event''"

text \<open>\<open>priority.index(v)\<close>: a ValueError when it is not there.\<close>

fun index_of :: "json list \<Rightarrow> json \<Rightarrow> nat py" where
  "index_of [] v = Inl ValueError"
| "index_of (x # xs) v = (if x = v then Inr 0 else py_bind (index_of xs v) (\<lambda>n. Inr (Suc n)))"

record retention_policy =
  min_lifetime :: "int option"
  max_lifetime :: "int option"

text \<open>\<open>v < n\<close> for a number \<open>v\<close>.\<close>

definition json_less :: "json \<Rightarrow> int \<Rightarrow> bool py" where
  "json_less v n = (case num_of v of
     Some r \<Rightarrow> Inr (r < of_int n) | None \<Rightarrow> if v = JInf then Inr False else Inl TypeError)"

section \<open>The checks\<close>

text \<open>\<open>event.type == t and event.state_key == k\<close>\<close>

definition is_state_entry :: "event_obj \<Rightarrow> string \<Rightarrow> string \<Rightarrow> bool py" where
  "is_state_entry event t k =
     py_bind (dict_property ''type'' event) (\<lambda>ty.
       if str_eq ty t then py_bind (dict_property ''state_key'' event) (\<lambda>sk. Inr (str_eq sk k)) else Inr False)"

text \<open>\<open>event.unsigned.get("prev_content", {}).get(key, None)\<close>\<close>

definition prev_content_get :: "event_obj \<Rightarrow> string \<Rightarrow> json py" where
  "prev_content_get event k =
     py_bind (get_subdict (obj_unsigned event) ''prev_content'') (\<lambda>d. Inr (dict_get_default d k JNull))"

datatype check_filter = MAYBE_ALLOWED | DENIED

definition check_filter_send_to_client ::
    "event_obj \<Rightarrow> int \<Rightarrow> retention_policy \<Rightarrow> bool \<Rightarrow> check_filter py" where
  "check_filter_send_to_client event now policy sender_ignored =
     py_bind (dict_property ''type'' event) (\<lambda>ty.
     if str_eq ty EventTypes_Dummy then Inr DENIED
     else if \<not> obj_is_state event \<and> sender_ignored then Inr DENIED
     else if str_eq ty EventTypes_Aliases then Inr DENIED
     else if \<not> obj_is_state event
     then (case max_lifetime policy of
             None \<Rightarrow> Inr MAYBE_ALLOWED
           | Some lifetime \<Rightarrow>
               py_bind (dict_property ''origin_server_ts'' event) (\<lambda>ts.
               py_bind (json_less ts (now - lifetime)) (\<lambda>old. Inr (if old then DENIED else MAYBE_ALLOWED))))
     else Inr MAYBE_ALLOWED)"

datatype check_visibility = ALLOWED | MAYBE_DENIED

definition check_history_visibility :: "event_obj \<Rightarrow> json \<Rightarrow> bool \<Rightarrow> check_visibility py" where
  "check_history_visibility event visibility is_peeking =
     py_bind (dict_property ''type'' event) (\<lambda>ty.
     py_bind (if str_eq ty EventTypes_RoomHistoryVisibility
              then py_bind (prev_content_get event ''history_visibility'') (\<lambda>prev.
                   let prev_visibility = (if prev \<notin> set VISIBILITY_PRIORITY then HistoryVisibility_SHARED else prev)
                   in py_bind (index_of VISIBILITY_PRIORITY visibility) (\<lambda>new_priority.
                      py_bind (index_of VISIBILITY_PRIORITY prev_visibility) (\<lambda>old_priority.
                        Inr (if old_priority < new_priority then prev_visibility else visibility))))
              else Inr visibility) (\<lambda>visibility.
     Inr (if visibility = HistoryVisibility_SHARED \<and> \<not> is_peeking then ALLOWED
          else if visibility = HistoryVisibility_WORLD_READABLE then ALLOWED
          else MAYBE_DENIED)))"

definition get_effective_room_visibility_from_state :: "event_obj state_map \<Rightarrow> json py" where
  "get_effective_room_visibility_from_state state =
     (case state (EventTypes_RoomHistoryVisibility, '''') of
        None \<Rightarrow> Inr HistoryVisibility_SHARED
      | Some visibility_event \<Rightarrow>
          py_bind (obj_content visibility_event) (\<lambda>c. py_bind (as_dict c) (\<lambda>d.
            let visibility = dict_get_default d ''history_visibility'' HistoryVisibility_SHARED
            in Inr (if visibility \<notin> set VISIBILITY_PRIORITY then HistoryVisibility_SHARED else visibility))))"

record check_membership_return =
  cm_allowed :: bool
  cm_joined :: bool

text \<open>The user's own membership event: \<open>Inl\<close> is the early return on a leave, \<open>Inr\<close> the more joined of
  the old and the new membership.\<close>

definition own_membership :: "event_obj \<Rightarrow> (check_membership_return + json) py" where
  "own_membership event =
     py_bind (obj_content event) (\<lambda>c. py_bind (as_dict c) (\<lambda>d.
     let m = dict_get_default d ''membership'' JNull;
         ms = (if m \<notin> set MEMBERSHIP_PRIORITY then Membership_LEAVE else m)
     in py_bind (prev_content_get event ''membership'') (\<lambda>prev.
        let prev_membership = (if prev \<notin> set MEMBERSHIP_PRIORITY then Membership_LEAVE else prev)
        in if ms = Membership_LEAVE \<and> (prev_membership = Membership_JOIN \<or> prev_membership = Membership_INVITE)
           then Inr (Inl \<lparr>cm_allowed = True, cm_joined = False\<rparr>)
           else py_bind (index_of MEMBERSHIP_PRIORITY ms) (\<lambda>new_priority.
                py_bind (index_of MEMBERSHIP_PRIORITY prev_membership) (\<lambda>old_priority.
                  Inr (Inr (if old_priority < new_priority then prev_membership else ms)))))))"

definition membership_verdict :: "json option \<Rightarrow> json \<Rightarrow> bool \<Rightarrow> check_membership_return" where
  "membership_verdict ms visibility is_peeking =
     (if ms = Some Membership_JOIN then \<lparr>cm_allowed = True, cm_joined = True\<rparr>
      else if visibility = HistoryVisibility_JOINED then \<lparr>cm_allowed = False, cm_joined = False\<rparr>
      else if visibility = HistoryVisibility_INVITED
      then \<lparr>cm_allowed = (ms = Some Membership_INVITE), cm_joined = False\<rparr>
      else if visibility = HistoryVisibility_SHARED \<and> is_peeking then \<lparr>cm_allowed = False, cm_joined = False\<rparr>
      else \<lparr>cm_allowed = True, cm_joined = False\<rparr>)"

definition check_membership ::
    "string \<Rightarrow> event_obj \<Rightarrow> json \<Rightarrow> event_obj state_map \<Rightarrow> bool \<Rightarrow> check_membership_return py" where
  "check_membership user event visibility state is_peeking =
     py_bind (is_state_entry event EventTypes_Member user) (\<lambda>own.
       if own
       then py_bind (own_membership event) (\<lambda>r.
              case r of Inl ret \<Rightarrow> Inr ret | Inr m \<Rightarrow> Inr (membership_verdict (Some m) visibility is_peeking))
       else case state (EventTypes_Member, user) of
              None \<Rightarrow> Inr (membership_verdict None visibility is_peeking)
            | Some membership_event \<Rightarrow>
                py_bind (obj_membership membership_event) (\<lambda>m.
                  Inr (membership_verdict (Some m) visibility is_peeking)))"

text \<open>\<open>_check_client_allowed_to_see_event\<close>. The event is returned as it is, redacted, or not at all.\<close>

definition check_client_allowed_to_see_event ::
    "signing_ops \<Rightarrow> string \<Rightarrow> event_obj \<Rightarrow> int \<Rightarrow> bool \<Rightarrow> bool \<Rightarrow> json list \<Rightarrow> bool \<Rightarrow> retention_policy \<Rightarrow>
     event_obj state_map option \<Rightarrow> bool \<Rightarrow> event_obj option py" where
  "check_client_allowed_to_see_event ops user event now filter_send_to_client is_peeking always_include_ids
       sender_ignored policy state sender_erased =
     py_bind (if filter_send_to_client then check_filter_send_to_client event now policy sender_ignored
              else Inr MAYBE_ALLOWED) (\<lambda>sendable.
     if sendable = DENIED then Inr None
     else
     py_bind (obj_event_id ops event) (\<lambda>eid.
     if eid \<in> set always_include_ids then Inr (Some event)
     else if im_outlier (obj_metadata event)
     then py_bind (is_state_entry event EventTypes_Member user) (\<lambda>own. Inr (if own then Some event else None))
     else case state of
       None \<Rightarrow> Inl PyException
     | Some st \<Rightarrow>
         py_bind (get_effective_room_visibility_from_state st) (\<lambda>visibility.
         py_bind (if \<not> sender_erased then check_history_visibility event visibility is_peeking
                  else Inr MAYBE_DENIED) (\<lambda>lax.
         if lax = ALLOWED then Inr (Some event)
         else
         py_bind (check_membership user event visibility st is_peeking) (\<lambda>r.
         if \<not> cm_allowed r then Inr None
         else if sender_erased \<and> \<not> cm_joined r
         then py_bind (prune_event event) (\<lambda>e. Inr (Some e))
         else Inr (Some event))))))"

section \<open>Filtering for a client\<close>

record visibility_storage =
  get_state_for_events :: "json list \<Rightarrow> state_filter \<Rightarrow> (json, event_obj state_map) dict"
  ignored_users :: "string \<Rightarrow> string list"
  are_users_erased :: "json list \<Rightarrow> (json, bool) dict"
  get_retention_policy_for_room :: "json \<Rightarrow> retention_policy"
  time_msec :: int

abbreviation HISTORY_VIS_KEY :: state_id where
  "HISTORY_VIS_KEY \<equiv> (EventTypes_RoomHistoryVisibility, '''')"

text \<open>The user's membership after the event, which is added to the unsigned data.\<close>

definition annotate_membership ::
    "string \<Rightarrow> event_obj \<Rightarrow> event_obj state_map option \<Rightarrow> event_obj \<Rightarrow> event_obj py" where
  "annotate_membership user event state_after filtered =
     py_bind (is_state_entry event EventTypes_Member user) (\<lambda>own.
     py_bind (if own then Inr (Some event)
              else case state_after of Some st \<Rightarrow> Inr (st (EventTypes_Member, user)) | None \<Rightarrow> Inl PyException)
       (\<lambda>user_membership_event.
     py_bind (case user_membership_event of None \<Rightarrow> Inr Membership_LEAVE | Some e \<Rightarrow> obj_membership e)
       (\<lambda>user_membership.
     py_bind (clone_event filtered) (\<lambda>cloned.
       Inr (cloned\<lparr>obj_unsigned := dict_set ''membership'' user_membership (obj_unsigned cloned)\<rparr>)))))"

text \<open>The inner function \<open>allowed\<close>. The retention policies are only there when the events are going to be
  sent to a client; without them the name is not bound.\<close>

definition client_allowed ::
    "signing_ops \<Rightarrow> visibility_storage \<Rightarrow> string \<Rightarrow> bool \<Rightarrow> json list \<Rightarrow> bool \<Rightarrow> (json, event_obj state_map) dict \<Rightarrow>
     (json, bool) dict \<Rightarrow> event_obj \<Rightarrow> event_obj option py" where
  "client_allowed ops st user is_peeking always_include_ids filter_send_to_client states erased event =
     py_bind (obj_event_id ops event) (\<lambda>eid.
     let state_after = dict_get states eid
     in py_bind (dict_property ''sender'' event) (\<lambda>snd_id.
        py_bind (if filter_send_to_client
                 then py_bind (dict_property ''room_id'' event) (\<lambda>rid. Inr (get_retention_policy_for_room st rid))
                 else Inl NameError) (\<lambda>policy.
        py_bind (check_client_allowed_to_see_event ops user event (time_msec st) filter_send_to_client is_peeking
                   always_include_ids (snd_id \<in> JStr ` set (ignored_users st user)) policy state_after
                   (dict_get_default erased snd_id False)) (\<lambda>filtered.
        case filtered of
          None \<Rightarrow> Inr None
        | Some f \<Rightarrow> py_bind (annotate_membership user event state_after f) (\<lambda>e. Inr (Some e))))))"

definition filter_events_for_client ::
    "signing_ops \<Rightarrow> visibility_storage \<Rightarrow> string \<Rightarrow> event_obj list \<Rightarrow> bool \<Rightarrow> json list \<Rightarrow> bool \<Rightarrow> event_obj list py" where
  "filter_events_for_client ops st user events is_peeking always_include_ids filter_send_to_client =
     (let events = filter (\<lambda>e. \<not> is_soft_failed (obj_metadata e)) events
      in py_bind (py_map (obj_event_id ops) (filter (\<lambda>e. \<not> im_outlier (obj_metadata e)) events)) (\<lambda>ids.
         let states = get_state_for_events st ids
               (from_types [(EventTypes_RoomHistoryVisibility, Some ''''), (EventTypes_Member, Some user)])
         in py_bind (py_map (dict_property ''sender'') events) (\<lambda>senders.
            let erased = are_users_erased st senders
            in py_bind (if filter_send_to_client then py_map (dict_property ''room_id'') events else Inr []) (\<lambda>room_ids.
               py_bind (py_map (client_allowed ops st user is_peeking always_include_ids filter_send_to_client states erased)
                          events) (\<lambda>filtered_events.
                 Inr (map the (filter (\<lambda>e. e \<noteq> None) filtered_events)))))))"

section \<open>One event for many users\<close>

record visibility_store =
  ignored_by :: "json \<Rightarrow> string list"
  retention_of :: "json \<Rightarrow> retention_policy"
  store_time_msec :: int
  store_get_events :: "json list \<Rightarrow> (json, event_obj) dict"

text \<open>\<open>context.get_prev_state_ids\<close> is a function of the filter.\<close>

definition get_state_map ::
    "visibility_store \<Rightarrow> event_obj \<Rightarrow> (state_filter \<Rightarrow> (state_id, json) dict) \<Rightarrow> state_filter \<Rightarrow> event_obj state_map py" where
  "get_state_map store event prev_state_ids f =
     (let ids = prev_state_ids f;
          event_map = store_get_events store (map snd ids);
          state_map = (\<lambda>k. case dict_get ids k of None \<Rightarrow> None | Some i \<Rightarrow> dict_get event_map i)
      in if obj_is_state event
         then py_bind (dict_property ''type'' event) (\<lambda>t.
              py_bind (dict_property ''state_key'' event) (\<lambda>k.
                case (t, k) of (JStr ty, JStr sk) \<Rightarrow> Inr (state_map((ty, sk) \<mapsto> event)) | _ \<Rightarrow> Inr state_map))
         else Inr state_map)"

text \<open>The loop that discards users, with the comprehension at the end.\<close>

definition not_denied :: "visibility_store \<Rightarrow> event_obj \<Rightarrow> retention_policy \<Rightarrow> string list \<Rightarrow> string list \<Rightarrow> string list py" where
  "not_denied store event policy ignored user_ids =
     py_for (\<lambda>u allowed_ids.
       py_bind (check_filter_send_to_client event (store_time_msec store) policy (u \<in> set ignored)) (\<lambda>c.
         Inr (if c = DENIED then filter (\<lambda>v. v \<noteq> u) allowed_ids else allowed_ids))) user_ids (remdups user_ids)"

definition allowed_members ::
    "event_obj \<Rightarrow> json \<Rightarrow> event_obj state_map \<Rightarrow> bool \<Rightarrow> string list \<Rightarrow> string list py" where
  "allowed_members event visibility state is_peeking user_ids =
     py_for (\<lambda>u acc. py_bind (check_membership u event visibility state is_peeking) (\<lambda>r.
       Inr (if cm_allowed r then acc @ [u] else acc))) user_ids []"

definition filter_event_for_clients_with_state ::
    "visibility_store \<Rightarrow> string list \<Rightarrow> event_obj \<Rightarrow> (state_filter \<Rightarrow> (state_id, json) dict) \<Rightarrow> bool \<Rightarrow> bool \<Rightarrow>
     string list py" where
  "filter_event_for_clients_with_state store user_ids event prev_state_ids is_peeking filter_send_to_client =
     (if is_soft_failed (obj_metadata event) then Inr []
      else if user_ids = [] then Inr []
      else
      py_bind (if filter_send_to_client
               then py_bind (dict_property ''sender'' event) (\<lambda>s.
                    py_bind (dict_property ''room_id'' event) (\<lambda>rid.
                      not_denied store event (retention_of store rid) (ignored_by store s) user_ids))
               else Inr (remdups user_ids)) (\<lambda>allowed_user_ids.
      if im_outlier (obj_metadata event)
      then py_bind (dict_property ''type'' event) (\<lambda>ty.
             if str_eq ty EventTypes_Member
             then py_bind (dict_property ''state_key'' event) (\<lambda>sk.
                    Inr (case sk of JStr u \<Rightarrow> if u \<in> set allowed_user_ids then [u] else [] | _ \<Rightarrow> []))
             else Inr [])
      else
      py_bind (get_state_map store event prev_state_ids (from_types [(EventTypes_RoomHistoryVisibility, Some '''')]))
        (\<lambda>visibility_state_map.
      py_bind (get_effective_room_visibility_from_state visibility_state_map) (\<lambda>visibility.
      py_bind (check_history_visibility event visibility is_peeking) (\<lambda>lax.
      if lax = ALLOWED then Inr allowed_user_ids
      else
      py_bind (get_state_map store event prev_state_ids (from_types
                 (map (\<lambda>u. (EventTypes_Member, Some u)) allowed_user_ids @ [(EventTypes_RoomHistoryVisibility, Some '''')])))
        (\<lambda>state_map. allowed_members event visibility state_map is_peeking allowed_user_ids))))))"


section \<open>Filtering for a server\<close>

text \<open>\<open>UserID::try_from\<close> and \<open>server_name\<close> of \<open>rust/src/identifier.rs\<close>; a failure becomes a ValueError.\<close>

definition user_server_name :: "string \<Rightarrow> string py" where
  "user_server_name s =
     (if \<not> starts_with s ''@'' then Inl ValueError
      else case find_char CHR '':'' s of None \<Rightarrow> Inl ValueError | Some i \<Rightarrow> Inr (drop (Suc i) s))"

fun visible_by_membership :: "string \<Rightarrow> string \<Rightarrow> (string \<times> string) list \<Rightarrow> bool py" where
  "visible_by_membership target vis [] = Inr False"
| "visible_by_membership target vis ((sk, ms) # rest) =
     py_bind (user_server_name sk) (\<lambda>server_name.
       if server_name \<noteq> target then Inl ValueError
       else if ms = ''invite'' then (if vis = ''invited'' then Inr True else visible_by_membership target vis rest)
       else if ms = ''join'' then Inr True
       else visible_by_membership target vis rest)"

definition event_visible_to_server ::
    "string \<Rightarrow> string \<Rightarrow> string \<Rightarrow> (string, bool) dict \<Rightarrow> bool \<Rightarrow> (string \<times> string) list \<Rightarrow> bool py" where
  "event_visible_to_server sender_id target vis erased partial_state_invisible memberships =
     (if dict_get_default erased sender_id False then Inr False
      else if partial_state_invisible then Inr False
      else if vis \<noteq> ''invited'' \<and> vis \<noteq> ''joined'' then Inr True
      else visible_by_membership target vis memberships)"

record server_storage =
  get_state_ids_for_events :: "json list \<Rightarrow> state_filter \<Rightarrow> (json, (state_id, json) dict) dict"
  srv_get_events :: "json list \<Rightarrow> (json, event_obj) dict"
  srv_users_erased :: "json list \<Rightarrow> (string, bool) dict"
  is_partial_state_room :: "json \<Rightarrow> bool"

text \<open>The iteration of \<open>_event_to_history_vis\<close> for one event.\<close>

definition history_vis_of ::
    "(json, (state_id, json) dict) dict \<Rightarrow> (json, event_obj) dict \<Rightarrow> json \<Rightarrow> string py" where
  "history_vis_of event_to_state_ids vis_events eid =
     (case (case dict_get event_to_state_ids eid of None \<Rightarrow> None | Some state_ids \<Rightarrow> dict_get state_ids HISTORY_VIS_KEY) of
        None \<Rightarrow> Inr ''shared''
      | Some visibility_id \<Rightarrow>
          py_bind (dict_getitem vis_events visibility_id) (\<lambda>vis_event.
          py_bind (obj_content vis_event) (\<lambda>c. py_bind (as_dict c) (\<lambda>d.
            case dict_get_default d ''history_visibility'' (JStr ''shared'') of
              JStr vis \<Rightarrow> Inr vis | _ \<Rightarrow> Inl AssertionError))))"

definition event_to_history_vis :: "signing_ops \<Rightarrow> server_storage \<Rightarrow> event_obj list \<Rightarrow> (json, string) dict py" where
  "event_to_history_vis ops st events =
     py_bind (py_map (obj_event_id ops) (filter (\<lambda>e. \<not> im_outlier (obj_metadata e)) events)) (\<lambda>ids.
     let event_to_state_ids = get_state_ids_for_events st ids (from_types [(EventTypes_RoomHistoryVisibility, Some '''')]);
         visibility_ids = remdups (List.map_filter (\<lambda>(i, state_ids). dict_get state_ids HISTORY_VIS_KEY) event_to_state_ids);
         vis_events = srv_get_events st visibility_ids
     in py_for (\<lambda>event result.
          py_bind (obj_event_id ops event) (\<lambda>eid.
          py_bind (history_vis_of event_to_state_ids vis_events eid) (\<lambda>vis. Inr (dict_set eid vis result)))) events [])"

text \<open>The inner function \<open>include\<close>.\<close>

definition include_member :: "string \<Rightarrow> string \<Rightarrow> bool" where
  "include_member server_name sk =
     (case find_char CHR '':'' sk of None \<Rightarrow> False | Some idx \<Rightarrow> drop (Suc idx) sk = server_name)"

text \<open>\<open>(event.state_key, event.membership)\<close> as the two strings the Rust function takes.\<close>

definition member_pair :: "event_obj \<Rightarrow> (string \<times> string) py" where
  "member_pair e = py_bind (dict_property ''state_key'' e) (\<lambda>k. py_bind (obj_membership e) (\<lambda>m.
     case (k, m) of (JStr sk, JStr ms) \<Rightarrow> Inr (sk, ms) | _ \<Rightarrow> Inl TypeError))"

definition event_to_memberships ::
    "signing_ops \<Rightarrow> server_storage \<Rightarrow> event_obj list \<Rightarrow> string \<Rightarrow> (json, (string \<times> string) list) dict py" where
  "event_to_memberships ops st events server_name =
     (if events = [] then Inr []
      else py_bind (py_map (obj_event_id ops) events) (\<lambda>ids.
      let event_to_state_ids = get_state_ids_for_events st ids (from_types [(EventTypes_Member, None)]);
          event_id_to_state_key = dict_update [] (concat (map (\<lambda>(i, key_to_eid). map (\<lambda>(key, eid). (eid, key)) key_to_eid)
            event_to_state_ids));
          event_map = srv_get_events st (map fst (filter (\<lambda>(eid, (t, sk)). include_member server_name sk) event_id_to_state_key))
      in py_map (\<lambda>(eid, key_to_eid).
           py_bind (py_map member_pair (List.map_filter (\<lambda>(key, inner). dict_get event_map inner) key_to_eid))
             (\<lambda>ms. Inr (eid, ms))) event_to_state_ids))"

definition partial_state_invisible ::
    "signing_ops \<Rightarrow> server_storage \<Rightarrow> string \<Rightarrow> event_obj \<Rightarrow> json list \<Rightarrow> json list py" where
  "partial_state_invisible ops st local_server_name e acc =
     py_bind (dict_property ''sender'' e) (\<lambda>s.
     py_bind (case s of JStr u \<Rightarrow> get_domain_from_id u | _ \<Rightarrow> Inl AttributeError) (\<lambda>sender_domain.
     if sender_domain \<noteq> local_server_name
     then py_bind (dict_property ''room_id'' e) (\<lambda>rid.
            if is_partial_state_room st rid
            then py_bind (obj_event_id ops e) (\<lambda>eid. Inr (set_add eid acc)) else Inr acc)
     else Inr acc))"

text \<open>The decision for one event and what is sent of it.\<close>

definition server_decision ::
    "signing_ops \<Rightarrow> string \<Rightarrow> (json, string) dict \<Rightarrow> (string, bool) dict \<Rightarrow> json list \<Rightarrow>
     (json, (string \<times> string) list) dict \<Rightarrow> event_obj \<Rightarrow> bool py" where
  "server_decision ops target vis_of erased invisible memberships e =
     py_bind (dict_property ''sender'' e) (\<lambda>s.
     py_bind (obj_event_id ops e) (\<lambda>eid.
     py_bind (dict_getitem vis_of eid) (\<lambda>vis.
     case s of
       JStr snd_id \<Rightarrow>
         event_visible_to_server snd_id target vis erased (eid \<in> set invisible) (dict_get_default memberships eid [])
     | _ \<Rightarrow> Inl TypeError)))"

definition filter_events_for_server ::
    "signing_ops \<Rightarrow> server_storage \<Rightarrow> string \<Rightarrow> string \<Rightarrow> event_obj list \<Rightarrow> bool \<Rightarrow> bool \<Rightarrow> bool \<Rightarrow> event_obj list py" where
  "filter_events_for_server ops st target_server_name local_server_name events redact filter_out_erased_senders
       filter_out_remote_partial_state_events =
     py_bind (if filter_out_erased_senders
              then py_bind (py_map (dict_property ''sender'') events) (\<lambda>ss. Inr (srv_users_erased st ss))
              else Inr []) (\<lambda>erased.
     py_bind (if filter_out_remote_partial_state_events
              then py_for (partial_state_invisible ops st local_server_name) events [] else Inr []) (\<lambda>invisible.
     py_bind (event_to_history_vis ops st events) (\<lambda>vis_of.
     py_bind (py_map (\<lambda>e. py_bind (obj_event_id ops e) (\<lambda>eid.
                py_bind (dict_getitem vis_of eid) (\<lambda>vis. Inr (e, vis \<notin> {''shared'', ''world_readable''})))) events) (\<lambda>marked.
     py_bind (event_to_memberships ops st (map fst (filter snd marked)) target_server_name) (\<lambda>memberships.
       py_for (\<lambda>e to_return.
         py_bind (server_decision ops target_server_name vis_of erased invisible memberships e) (\<lambda>visible.
           if visible then Inr (to_return @ [e])
           else if redact then py_bind (prune_event e) (\<lambda>p. Inr (to_return @ [p]))
           else Inr to_return)) events [])))))"

end
