(* ===== verification/Visibility_Props.thy ===== *)
theory Visibility_Props
  imports Visibility
begin

text \<open>
  What the visibility checks guarantee. Restricted history is shown to members only
  (\<open>client_restricted\<close>); the path that checks one event for many users and the path that checks many
  events for one user agree (\<open>clients_agree\<close>), where the two read the room state through different
  filters; another server is sent an event in full only when the rules allow it
  (\<open>server_filter_result\<close>).
\<close>

section \<open>Loops that select\<close>

lemma not_denied_result:
  assumes "not_denied store event policy ignored us = Inr A" and "u \<in> set us"
  shows "\<exists>c. check_filter_send_to_client event (store_time_msec store) policy (u \<in> set ignored) = Inr c \<and>
     (u \<in> set A \<longleftrightarrow> c \<noteq> DENIED)"
proof -
  let ?c = "\<lambda>u. check_filter_send_to_client event (store_time_msec store) policy (u \<in> set ignored)"
  let ?f = "\<lambda>u acc. py_bind (?c u) (\<lambda>c. Inr (if c = DENIED then filter (\<lambda>v. v \<noteq> u) acc else acc))"
  have "(\<forall>u \<in> set us. \<exists>c. ?c u = Inr c) \<and> set A = {u \<in> set acc. u \<notin> set us \<or> ?c u \<noteq> Inr DENIED}"
    if "py_for ?f us acc = Inr A" for us acc
    using that
  proof (induction us arbitrary: acc)
    case (Cons v us)
    from Cons.prems obtain c where c: "?c v = Inr c"
      and rest: "py_for ?f us (if c = DENIED then filter (\<lambda>x. x \<noteq> v) acc else acc) = Inr A"
      by (auto simp: py_bind_Inr_iff)
    from Cons.IH[OF rest] c show ?case by (auto split: if_splits)
  qed simp
  from this[OF assms(1)[unfolded not_denied_def]] assms(2) show ?thesis by force
qed

lemma not_denied_subset: "not_denied store event policy ignored us = Inr A \<Longrightarrow> set A \<subseteq> set us"
proof -
  let ?f = "\<lambda>u acc. py_bind (check_filter_send_to_client event (store_time_msec store) policy (u \<in> set ignored))
    (\<lambda>c. Inr (if c = DENIED then filter (\<lambda>v. v \<noteq> u) acc else acc))"
  have "set A \<subseteq> set acc" if "py_for ?f us acc = Inr A" for us acc
    using that
  proof (induction us arbitrary: acc)
    case (Cons v us)
    then show ?case by (force simp: py_bind_Inr_iff split: if_splits)
  qed simp
  from this[of us "remdups us"] show "not_denied store event policy ignored us = Inr A \<Longrightarrow> set A \<subseteq> set us"
    by (simp add: not_denied_def)
qed

lemma allowed_members_result:
  assumes "allowed_members event vis state peeking us = Inr A"
  shows "set A \<subseteq> set us"
    and "u \<in> set us \<Longrightarrow> \<exists>r. check_membership u event vis state peeking = Inr r \<and> (u \<in> set A \<longleftrightarrow> cm_allowed r)"
proof -
  let ?f = "\<lambda>u acc. py_bind (check_membership u event vis state peeking) (\<lambda>r. Inr (if cm_allowed r then acc @ [u] else acc))"
  have *: "(\<forall>u \<in> set us. \<exists>r. check_membership u event vis state peeking = Inr r) \<and>
      set A = set acc \<union> {u \<in> set us. \<exists>r. check_membership u event vis state peeking = Inr r \<and> cm_allowed r}"
    if "py_for ?f us acc = Inr A" for us acc
    using that
  proof (induction us arbitrary: acc)
    case (Cons v us)
    from Cons.prems obtain r where r: "check_membership v event vis state peeking = Inr r"
      and rest: "py_for ?f us (if cm_allowed r then acc @ [v] else acc) = Inr A"
      by (auto simp: py_bind_Inr_iff)
    from Cons.IH[OF rest] r show ?case by (auto split: if_splits)
  qed simp
  from *[OF assms[unfolded allowed_members_def]]
  show "set A \<subseteq> set us" and "u \<in> set us \<Longrightarrow> \<exists>r. check_membership u event vis state peeking = Inr r \<and> (u \<in> set A \<longleftrightarrow> cm_allowed r)"
    by force+
qed

section \<open>Reading the state through a filter\<close>

text \<open>What the database promises: a query for part of the state returns that part, and a query for
  events returns what is stored under their ids.\<close>

definition reads_state ::
    "(state_filter \<Rightarrow> (state_id, json) dict) \<Rightarrow> (json list \<Rightarrow> (json, event_obj) dict) \<Rightarrow> (state_id, json) dict \<Rightarrow>
     (json \<rightharpoonup> event_obj) \<Rightarrow> bool" where
  "reads_state prev_state_ids get_events_by_id state_ids stored \<longleftrightarrow>
     wf_dict state_ids \<and> (\<forall>f. prev_state_ids f = filter_state f state_ids) \<and>
     (\<forall>ids i. dict_get (get_events_by_id ids) i = (if i \<in> set ids then stored i else None))"

definition full_state :: "(state_id, json) dict \<Rightarrow> (json \<rightharpoonup> event_obj) \<Rightarrow> event_obj state_map" where
  "full_state state_ids stored k = (case dict_get state_ids k of None \<Rightarrow> None | Some i \<Rightarrow> stored i)"

lemma lookup_filtered:
  assumes "reads_state prev get_evs state_ids stored"
  shows "(case dict_get (prev f) (t, k) of None \<Rightarrow> None | Some i \<Rightarrow> dict_get (get_evs (map snd (prev f))) i) =
   (if matches f t k then full_state state_ids stored (t, k) else None)"
proof -
  have get: "dict_get (prev f) (t, k) = (if matches f t k then dict_get state_ids (t, k) else None)"
    using assms by (auto simp: reads_state_def filter_state_eq dict_get_filter split: option.splits)
  have "i \<in> snd ` set (prev f)" if "dict_get (prev f) (t, k) = Some i" for i
    using map_of_SomeD[OF that] by force
  with get assms show ?thesis by (auto simp: reads_state_def full_state_def split: option.splits)
qed

text \<open>The state after the event: the state before it, with the event itself when it is a state event.\<close>

definition state_after :: "event_obj \<Rightarrow> event_obj state_map \<Rightarrow> event_obj state_map" where
  "state_after event m =
     (if obj_is_state event
      then (case (dict_get (obj_dict event) ''type'', dict_get (obj_dict event) ''state_key'') of
              (Some (JStr t), Some (JStr k)) \<Rightarrow> m((t, k) \<mapsto> event) | _ \<Rightarrow> m)
      else m)"

lemma get_state_map_result:
  assumes "reads_state prev (store_get_events store) state_ids stored"
    and "get_state_map store event prev f = Inr m" and "matches f t k"
  shows "m (t, k) = state_after event (full_state state_ids stored) (t, k)"
proof -
  let ?base = "\<lambda>k. case dict_get (prev f) k of None \<Rightarrow> None
    | Some i \<Rightarrow> dict_get (store_get_events store (map snd (prev f))) i"
  have "m = state_after event ?base"
    using assms(2)
    by (auto simp: get_state_map_def Let_def state_after_def dict_property_def py_bind_Inr_iff
        split: if_splits option.splits json.splits)
  then show ?thesis
    using lookup_filtered[OF assms(1), of f t k] assms(3)
    by (auto simp: state_after_def split: option.splits json.splits)
qed

lemma from_types_matches: "matches (from_types ts) t k \<longleftrightarrow> (t, None) \<in> set ts \<or> (t, Some k) \<in> set ts"
  by (simp add: matches_def selects_from_types)


section \<open>The two paths to a client agree\<close>

lemma effective_visibility_cong:
  "m HISTORY_VIS_KEY = m' HISTORY_VIS_KEY \<Longrightarrow>
     get_effective_room_visibility_from_state m = get_effective_room_visibility_from_state m'"
  by (simp add: get_effective_room_visibility_from_state_def)

lemma check_membership_cong:
  "m (EventTypes_Member, u) = m' (EventTypes_Member, u) \<Longrightarrow>
     check_membership u event vis m peeking = check_membership u event vis m' peeking"
  by (simp only: check_membership_def)

text \<open>The first stage: users whose check for sending is not denied.\<close>

lemma sendable_users:
  assumes "(if fs then py_bind (dict_property ''sender'' event) (\<lambda>s. py_bind (dict_property ''room_id'' event) (\<lambda>rid.
       not_denied store event (retention_of store rid) (ignored_by store s) us)) else Inr (remdups us)) = Inr A"
    and "dict_get (obj_dict event) ''sender'' = Some s" and "dict_get (obj_dict event) ''room_id'' = Some rid"
    and "u \<in> set us"
  shows "\<exists>c. (if fs then check_filter_send_to_client event (store_time_msec store) (retention_of store rid)
       (u \<in> set (ignored_by store s)) else Inr MAYBE_ALLOWED) = Inr c \<and> (u \<in> set A \<longleftrightarrow> c \<noteq> DENIED)"
proof (cases fs)
  case True
  with assms(1-3) have "not_denied store event (retention_of store rid) (ignored_by store s) us = Inr A"
    by (simp add: dict_property_def)
  from not_denied_result[OF this assms(4)] True show ?thesis by simp
qed (use assms(1,4) in auto)

lemma outlier_users:
  assumes "py_bind (dict_property ''type'' event) (\<lambda>ty.
       if str_eq ty EventTypes_Member
       then py_bind (dict_property ''state_key'' event) (\<lambda>sk.
              Inr (case sk of JStr u \<Rightarrow> if u \<in> set A then [u] else [] | _ \<Rightarrow> []))
       else Inr []) = Inr S"
  shows "\<exists>own. is_state_entry event EventTypes_Member u = Inr own \<and> (u \<in> set S \<longleftrightarrow> own \<and> u \<in> set A)"
proof -
  from assms obtain ty where ty: "dict_property ''type'' event = Inr ty"
    and S: "(if str_eq ty EventTypes_Member
       then py_bind (dict_property ''state_key'' event) (\<lambda>sk.
              Inr (case sk of JStr u \<Rightarrow> if u \<in> set A then [u] else [] | _ \<Rightarrow> []))
       else Inr []) = Inr S"
    unfolding py_bind_Inr_iff by blast
  show ?thesis
  proof (cases "str_eq ty EventTypes_Member")
    case True
    with S obtain sk where sk: "dict_property ''state_key'' event = Inr sk"
      and S: "S = (case sk of JStr u \<Rightarrow> if u \<in> set A then [u] else [] | _ \<Rightarrow> [])"
      by (simp only: if_True py_bind_Inr_iff) blast
    have "is_state_entry event EventTypes_Member u = Inr (sk = JStr u)"
      by (simp add: is_state_entry_def ty True sk str_eq_def[of sk])
    moreover have "u \<in> set S \<longleftrightarrow> sk = JStr u \<and> u \<in> set A" by (cases sk) (auto simp: S)
    ultimately show ?thesis by blast
  next
    case False
    with S ty have "is_state_entry event EventTypes_Member u = Inr False" and "S = []"
      by (simp_all add: is_state_entry_def)
    then show ?thesis by (intro exI[of _ False]) simp
  qed
qed

lemma clients_agree:
  assumes reads: "reads_state prev (store_get_events store) state_ids stored"
    and run: "filter_event_for_clients_with_state store us event prev peeking fs = Inr S"
    and live: "\<not> is_soft_failed (obj_metadata event)" and u: "u \<in> set us" and eid: "obj_event_id ops event = Inr eid"
    and s: "dict_get (obj_dict event) ''sender'' = Some s" and rid: "dict_get (obj_dict event) ''room_id'' = Some rid"
  shows "check_client_allowed_to_see_event ops u event (store_time_msec store) fs peeking []
       (u \<in> set (ignored_by store s)) (retention_of store rid)
       (Some (state_after event (full_state state_ids stored))) False = Inr (if u \<in> set S then Some event else None)"
    (is "?check = _")
proof -
  let ?st = "state_after event (full_state state_ids stored)"
  from u have "us \<noteq> []" by auto
  with run live obtain A where A: "(if fs then py_bind (dict_property ''sender'' event) (\<lambda>s. py_bind (dict_property ''room_id'' event) (\<lambda>rid.
       not_denied store event (retention_of store rid) (ignored_by store s) us)) else Inr (remdups us)) = Inr A"
    and rest: "(if im_outlier (obj_metadata event)
      then py_bind (dict_property ''type'' event) (\<lambda>ty.
             if str_eq ty EventTypes_Member
             then py_bind (dict_property ''state_key'' event) (\<lambda>sk.
                    Inr (case sk of JStr u \<Rightarrow> if u \<in> set A then [u] else [] | _ \<Rightarrow> []))
             else Inr [])
      else
      py_bind (get_state_map store event prev (from_types [(EventTypes_RoomHistoryVisibility, Some '''')])) (\<lambda>m1.
      py_bind (get_effective_room_visibility_from_state m1) (\<lambda>visibility.
      py_bind (check_history_visibility event visibility peeking) (\<lambda>lax.
      if lax = ALLOWED then Inr A
      else
      py_bind (get_state_map store event prev (from_types
                 (map (\<lambda>u. (EventTypes_Member, Some u)) A @ [(EventTypes_RoomHistoryVisibility, Some '''')])))
        (\<lambda>m2. allowed_members event visibility m2 peeking A))))) = Inr S"
    by (auto simp: filter_event_for_clients_with_state_def py_bind_Inr_iff)
  from sendable_users[OF A s rid u] obtain c where c: "(if fs then check_filter_send_to_client event
       (store_time_msec store) (retention_of store rid) (u \<in> set (ignored_by store s)) else Inr MAYBE_ALLOWED) = Inr c"
    and uA: "u \<in> set A \<longleftrightarrow> c \<noteq> DENIED" by blast
  show ?thesis
  proof (cases "im_outlier (obj_metadata event)")
    case True
    from outlier_users[OF rest[unfolded if_P[OF True]], of u] obtain own
      where "is_state_entry event EventTypes_Member u = Inr own" and "u \<in> set S \<longleftrightarrow> own \<and> u \<in> set A" by blast
    with True show ?thesis
      by (cases "c = DENIED") (simp_all add: check_client_allowed_to_see_event_def c eid uA)
  next
    case False
    with rest obtain m1 vis lax where m1: "get_state_map store event prev (from_types [(EventTypes_RoomHistoryVisibility, Some '''')]) = Inr m1"
      and vis: "get_effective_room_visibility_from_state m1 = Inr vis"
      and lax: "check_history_visibility event vis peeking = Inr lax"
      and S: "(if lax = ALLOWED then Inr A else py_bind (get_state_map store event prev (from_types
                 (map (\<lambda>u. (EventTypes_Member, Some u)) A @ [(EventTypes_RoomHistoryVisibility, Some '''')])))
        (\<lambda>m2. allowed_members event vis m2 peeking A)) = Inr S"
      by (auto simp: py_bind_Inr_iff)
    have vis': "get_effective_room_visibility_from_state ?st = Inr vis"
      using vis effective_visibility_cong[of m1 ?st] get_state_map_result[OF reads m1] by (simp add: from_types_matches)
    show ?thesis
    proof (cases "lax = ALLOWED \<or> c = DENIED")
      case True
      have "set S \<subseteq> set A"
        using S allowed_members_result(1) by (fastforce simp: py_bind_Inr_iff split: if_splits)
      then show ?thesis
        using True S uA False vis' lax
        by (auto simp: check_client_allowed_to_see_event_def c eid split: if_splits)
    next
      case nlax: False
      with S obtain m2 where m2: "get_state_map store event prev (from_types
            (map (\<lambda>u. (EventTypes_Member, Some u)) A @ [(EventTypes_RoomHistoryVisibility, Some '''')])) = Inr m2"
        and S2: "allowed_members event vis m2 peeking A = Inr S"
        by (auto simp: py_bind_Inr_iff)
      from nlax uA have "u \<in> set A" by simp
      with allowed_members_result(2)[OF S2 this] obtain r where r: "check_membership u event vis m2 peeking = Inr r"
        and uS: "u \<in> set S \<longleftrightarrow> cm_allowed r" by blast
      have "m2 (EventTypes_Member, u) = ?st (EventTypes_Member, u)"
        by (rule get_state_map_result[OF reads m2]) (use \<open>u \<in> set A\<close> in \<open>auto simp: from_types_matches\<close>)
      then have "check_membership u event vis ?st peeking = Inr r" using r check_membership_cong by metis
      then show ?thesis
        using nlax False vis' lax uS by (simp add: check_client_allowed_to_see_event_def c eid)
    qed
  qed
qed


section \<open>Restricted history\<close>

definition membership_in :: "event_obj state_map \<Rightarrow> string \<Rightarrow> json \<Rightarrow> bool" where
  "membership_in st u ms \<longleftrightarrow> (case st (EventTypes_Member, u) of None \<Rightarrow> False | Some me \<Rightarrow> obj_membership me = Inr ms)"

lemma membership_verdict_iff:
  "cm_joined (membership_verdict ms vis peeking) \<longleftrightarrow> ms = Some Membership_JOIN"
  "cm_allowed (membership_verdict ms vis peeking) \<longleftrightarrow> ms = Some Membership_JOIN \<or>
     vis = HistoryVisibility_INVITED \<and> ms = Some Membership_INVITE \<or>
     vis = HistoryVisibility_SHARED \<and> \<not> peeking \<or>
     vis \<notin> {HistoryVisibility_JOINED, HistoryVisibility_INVITED, HistoryVisibility_SHARED}"
  by (auto simp: membership_verdict_def)

lemma check_membership_allowed:
  assumes "check_membership u event vis st peeking = Inr r" and "is_state_entry event EventTypes_Member u = Inr False"
  shows "cm_joined r \<longleftrightarrow> membership_in st u Membership_JOIN"
    and "cm_allowed r \<longleftrightarrow> membership_in st u Membership_JOIN \<or>
      vis = HistoryVisibility_INVITED \<and> membership_in st u Membership_INVITE \<or>
      vis = HistoryVisibility_SHARED \<and> \<not> peeking \<or>
      vis \<notin> {HistoryVisibility_JOINED, HistoryVisibility_INVITED, HistoryVisibility_SHARED}"
proof -
  obtain ms where r: "r = membership_verdict ms vis peeking" and "\<And>v. membership_in st u v \<longleftrightarrow> ms = Some v"
    using assms by (cases "st (EventTypes_Member, u)") (auto simp: check_membership_def membership_in_def py_bind_Inr_iff)
  then show "cm_joined r \<longleftrightarrow> membership_in st u Membership_JOIN"
    and "cm_allowed r \<longleftrightarrow> membership_in st u Membership_JOIN \<or>
      vis = HistoryVisibility_INVITED \<and> membership_in st u Membership_INVITE \<or>
      vis = HistoryVisibility_SHARED \<and> \<not> peeking \<or>
      vis \<notin> {HistoryVisibility_JOINED, HistoryVisibility_INVITED, HistoryVisibility_SHARED}"
    by (simp_all only: membership_verdict_iff simp_thms)
qed

lemma history_visibility_allowed:
  assumes "check_history_visibility event vis peeking = Inr c"
    and "dict_get (obj_dict event) ''type'' \<noteq> Some (JStr EventTypes_RoomHistoryVisibility)"
  shows "c = ALLOWED \<longleftrightarrow> vis = HistoryVisibility_SHARED \<and> \<not> peeking \<or> vis = HistoryVisibility_WORLD_READABLE"
proof -
  from assms(1) obtain ty where "dict_property ''type'' event = Inr ty"
    by (auto simp: check_history_visibility_def py_bind_Inr_iff)
  moreover from this assms(2) have "\<not> str_eq ty EventTypes_RoomHistoryVisibility"
    by (auto simp: dict_property_def str_eq_def split: option.splits)
  ultimately show ?thesis using assms(1) by (auto simp: check_history_visibility_def split: if_splits)
qed

lemma client_visible_iff:
  assumes run: "check_client_allowed_to_see_event ops u event now fs peeking always ign policy (Some st) erased = Inr r"
    and sent: "(if fs then check_filter_send_to_client event now policy ign else Inr MAYBE_ALLOWED) = Inr MAYBE_ALLOWED"
    and eid: "obj_event_id ops event = Inr eid" "eid \<notin> set always"
    and inlier: "\<not> im_outlier (obj_metadata event)"
    and vis: "get_effective_room_visibility_from_state st = Inr vis"
    and other: "is_state_entry event EventTypes_Member u = Inr False"
      "dict_get (obj_dict event) ''type'' \<noteq> Some (JStr EventTypes_RoomHistoryVisibility)"
  shows "r \<noteq> None \<longleftrightarrow> membership_in st u Membership_JOIN \<or>
      vis = HistoryVisibility_INVITED \<and> membership_in st u Membership_INVITE \<or>
      vis = HistoryVisibility_SHARED \<and> \<not> peeking \<or> vis = HistoryVisibility_WORLD_READABLE"
    and "r = Some e' \<Longrightarrow> if erased \<and> \<not> membership_in st u Membership_JOIN then prune_event event = Inr e' else e' = event"
proof -
  have known: "vis \<in> set VISIBILITY_PRIORITY"
    using vis by (auto simp: get_effective_room_visibility_from_state_def VISIBILITY_PRIORITY_def Let_def py_bind_Inr_iff
        split: option.splits if_splits)
  from run sent eid inlier vis obtain lax
    where lax: "(if \<not> erased then check_history_visibility event vis peeking else Inr MAYBE_DENIED) = Inr lax"
    and rest: "(if lax = ALLOWED then Inr (Some event)
         else py_bind (check_membership u event vis st peeking) (\<lambda>r.
         if \<not> cm_allowed r then Inr None
         else if erased \<and> \<not> cm_joined r then py_bind (prune_event event) (\<lambda>e. Inr (Some e))
         else Inr (Some event))) = Inr r"
    by (auto simp: check_client_allowed_to_see_event_def py_bind_Inr_iff)
  have lax_iff: "lax = ALLOWED \<longleftrightarrow> \<not> erased \<and> (vis = HistoryVisibility_SHARED \<and> \<not> peeking \<or> vis = HistoryVisibility_WORLD_READABLE)"
    using lax history_visibility_allowed[OF _ other(2), of vis peeking lax] by (auto split: if_splits)
  note members = check_membership_allowed[OF _ other(1)]
  show "r \<noteq> None \<longleftrightarrow> membership_in st u Membership_JOIN \<or>
      vis = HistoryVisibility_INVITED \<and> membership_in st u Membership_INVITE \<or>
      vis = HistoryVisibility_SHARED \<and> \<not> peeking \<or> vis = HistoryVisibility_WORLD_READABLE"
  proof (cases "lax = ALLOWED")
    case True
    with rest have "r \<noteq> None" by auto
    with True lax_iff show ?thesis by blast
  next
    case False
    with rest obtain cr where cr: "check_membership u event vis st peeking = Inr cr" and "r \<noteq> None \<longleftrightarrow> cm_allowed cr"
      by (auto simp: py_bind_Inr_iff split: if_splits)
    moreover have "vis \<in> {HistoryVisibility_JOINED, HistoryVisibility_INVITED, HistoryVisibility_SHARED} \<or>
        vis = HistoryVisibility_WORLD_READABLE"
      using known by (auto simp: VISIBILITY_PRIORITY_def)
    moreover have "HistoryVisibility_WORLD_READABLE \<notin> {HistoryVisibility_JOINED, HistoryVisibility_INVITED, HistoryVisibility_SHARED}"
      by simp
    ultimately show ?thesis using members(2)[OF cr] by metis
  qed
  show "if erased \<and> \<not> membership_in st u Membership_JOIN then prune_event event = Inr e' else e' = event" if "r = Some e'"
    using rest lax_iff members(1) that by (fastforce simp: py_bind_Inr_iff split: if_splits)
qed


section \<open>Filtering for a server\<close>

text \<open>What the database answers: the filtered state at an event, and the stored events.\<close>

definition serves_state :: "server_storage \<Rightarrow> (json \<Rightarrow> (state_id, json) dict) \<Rightarrow> (json \<rightharpoonup> event_obj) \<Rightarrow> bool" where
  "serves_state st state_of stored \<longleftrightarrow>
     (\<forall>i. wf_dict (state_of i)) \<and>
     (\<forall>ids f i. dict_get (get_state_ids_for_events st ids f) i =
        (if i \<in> set ids then Some (filter_state f (state_of i)) else None)) \<and>
     (\<forall>ids i. dict_get (srv_get_events st ids) i = (if i \<in> set ids then stored i else None))"

text \<open>The visibility setting at an event: an outlier, or no setting, counts as shared.\<close>

definition setting_at :: "(json \<Rightarrow> (state_id, json) dict) \<Rightarrow> (json \<rightharpoonup> event_obj) \<Rightarrow> json \<Rightarrow> string \<Rightarrow> bool" where
  "setting_at state_of stored eid vis \<longleftrightarrow>
     (\<exists>i ve d. dict_get (state_of eid) HISTORY_VIS_KEY = Some i \<and> stored i = Some ve \<and>
        obj_content ve = Inr (JObj d) \<and> dict_get d ''history_visibility'' = Some (JStr vis))"

definition server_member_at ::
    "(json \<Rightarrow> (state_id, json) dict) \<Rightarrow> (json \<rightharpoonup> event_obj) \<Rightarrow> json \<Rightarrow> string \<Rightarrow> string \<Rightarrow> bool" where
  "server_member_at state_of stored eid server ms \<longleftrightarrow>
     (\<exists>key i me sk. (key, i) \<in> set (state_of eid) \<and> fst key = EventTypes_Member \<and> stored i = Some me \<and>
        member_pair me = Inr (sk, ms) \<and> user_server_name sk = Inr server)"

lemma serves_state_ids:
  assumes "serves_state st state_of stored" and "dict_get (get_state_ids_for_events st ids f) i = Some d"
  shows "d = filter_state f (state_of i)" and "wf_dict (state_of i)"
proof -
  have "dict_get (get_state_ids_for_events st ids f) i = (if i \<in> set ids then Some (filter_state f (state_of i)) else None)"
    and wf: "wf_dict (state_of i)"
    using assms(1) unfolding serves_state_def by blast+
  with assms(2) show "d = filter_state f (state_of i)" by (simp split: if_splits)
  show "wf_dict (state_of i)" by (rule wf)
qed

lemma serves_state_event:
  assumes "serves_state st state_of stored" and "dict_get (srv_get_events st ids) i = Some e"
  shows "stored i = Some e"
proof -
  have "dict_get (srv_get_events st ids) i = (if i \<in> set ids then stored i else None)"
    using assms(1) unfolding serves_state_def by blast
  with assms(2) show ?thesis by (simp split: if_splits)
qed

lemma py_map_image: "py_map f xs = Inr ys \<Longrightarrow> x \<in> set xs \<Longrightarrow> f x = Inr y \<Longrightarrow> y \<in> set ys"
  unfolding py_map_Inr_iff by (induction rule: list_all2_induct) auto

lemma py_map_source: "py_map f xs = Inr ys \<Longrightarrow> y \<in> set ys \<Longrightarrow> \<exists>x \<in> set xs. f x = Inr y"
  unfolding py_map_Inr_iff by (induction rule: list_all2_induct) auto

lemma visible_by_membership_member:
  "visible_by_membership target vis ms = Inr True \<Longrightarrow>
     \<exists>(sk, m) \<in> set ms. user_server_name sk = Inr target \<and> (m = ''join'' \<or> m = ''invite'' \<and> vis = ''invited'')"
  by (induction target vis ms rule: visible_by_membership.induct) (auto simp: py_bind_Inr_iff split: if_splits)

lemma dict_getitem_filter_state:
  "wf_dict d \<Longrightarrow> dict_get (filter_state f d) (t, k) = Some i \<Longrightarrow> dict_get d (t, k) = Some i"
  by (auto simp: filter_state_eq dict_get_filter split: option.splits if_splits)

lemma history_vis_of_restricted:
  assumes "serves_state st state_of stored"
    and "history_vis_of (get_state_ids_for_events st ids f) (srv_get_events st is) eid = Inr vis" and "vis \<noteq> ''shared''"
  shows "setting_at state_of stored eid vis"
proof -
  from assms(2,3) obtain state_ids i where ids: "dict_get (get_state_ids_for_events st ids f) eid = Some state_ids"
    and i: "dict_get state_ids HISTORY_VIS_KEY = Some i"
    and run: "py_bind (dict_getitem (srv_get_events st is) i) (\<lambda>vis_event.
          py_bind (obj_content vis_event) (\<lambda>c. py_bind (as_dict c) (\<lambda>d.
            case dict_get_default d ''history_visibility'' (JStr ''shared'') of
              JStr vis \<Rightarrow> Inr vis | _ \<Rightarrow> Inl AssertionError))) = Inr vis"
    by (auto simp: history_vis_of_def split: option.splits)
  from run obtain ve c d where ve: "dict_get (srv_get_events st is) i = Some ve" and c: "obj_content ve = Inr c"
    and d: "as_dict c = Inr d"
    and v: "(case dict_get_default d ''history_visibility'' (JStr ''shared'') of
              JStr vis \<Rightarrow> Inr vis | _ \<Rightarrow> Inl AssertionError) = Inr vis"
    by (auto simp: py_bind_Inr_iff dict_getitem_Inr_iff)
  have "dict_get_default d ''history_visibility'' (JStr ''shared'') = JStr vis"
    using v by (cases "dict_get_default d ''history_visibility'' (JStr ''shared'')") auto
  then have "dict_get d ''history_visibility'' = Some (JStr vis)"
    using assms(3) by (auto simp: dict_get_default_def split: option.splits)
  moreover have "c = JObj d" using d by (cases c) auto
  moreover have "stored i = Some ve" by (rule serves_state_event[OF assms(1) ve])
  moreover have "dict_get (state_of eid) HISTORY_VIS_KEY = Some i"
    using dict_getitem_filter_state[OF serves_state_ids(2)[OF assms(1) ids]] i
    unfolding serves_state_ids(1)[OF assms(1) ids] .
  ultimately show ?thesis using c by (auto simp: setting_at_def)
qed

lemma event_to_history_vis_result:
  assumes "event_to_history_vis ops st events = Inr V" and "dict_get V eid = Some vis"
  shows "\<exists>ids is. (\<forall>e i. e \<in> set events \<and> \<not> im_outlier (obj_metadata e) \<and> obj_event_id ops e = Inr i \<longrightarrow> i \<in> set ids) \<and>
    history_vis_of (get_state_ids_for_events st ids (from_types [(EventTypes_RoomHistoryVisibility, Some '''')]))
      (srv_get_events st is) eid = Inr vis"
proof -
  from assms(1) obtain ids "is"
    where ids: "py_map (obj_event_id ops) (filter (\<lambda>e. \<not> im_outlier (obj_metadata e)) events) = Inr ids"
    and run: "py_for (\<lambda>event result.
          py_bind (obj_event_id ops event) (\<lambda>eid.
          py_bind (history_vis_of (get_state_ids_for_events st ids (from_types [(EventTypes_RoomHistoryVisibility, Some '''')]))
            (srv_get_events st is) eid) (\<lambda>vis. Inr (dict_set eid vis result)))) events [] = Inr V"
    by (auto simp: event_to_history_vis_def Let_def py_bind_Inr_iff)
  let ?I = "\<lambda>V. \<forall>eid vis. dict_get V eid = Some vis \<longrightarrow>
    history_vis_of (get_state_ids_for_events st ids (from_types [(EventTypes_RoomHistoryVisibility, Some '''')])) (srv_get_events st is) eid = Inr vis"
  have "?I V" by (rule py_for_invariant[OF run]) (auto simp: py_bind_Inr_iff alist.get_put split: if_splits)
  moreover have "i \<in> set ids" if "e \<in> set events" "\<not> im_outlier (obj_metadata e)" "obj_event_id ops e = Inr i" for e i
    using py_map_image[OF ids, of e i] that by simp
  ultimately show ?thesis using assms(2) by blast
qed

lemma event_to_memberships_result:
  assumes "serves_state st state_of stored" and "event_to_memberships ops st evs server = Inr M"
    and "dict_get M eid = Some ms" and "(sk, m) \<in> set ms"
  shows "\<exists>key i me. (key, i) \<in> set (state_of eid) \<and> fst key = EventTypes_Member \<and> stored i = Some me \<and> member_pair me = Inr (sk, m)"
proof -
  let ?f = "from_types [(EventTypes_Member, None)]"
  from assms(2,3) obtain ids "is" where M: "list_all2 (\<lambda>(eid, key_to_eid) y.
           py_bind (py_map member_pair (List.map_filter (\<lambda>(key, inner). dict_get (srv_get_events st is) inner) key_to_eid))
             (\<lambda>ms. Inr (eid, ms)) = Inr y) (get_state_ids_for_events st ids ?f) M"
    by (auto simp: event_to_memberships_def Let_def py_bind_Inr_iff py_map_Inr_iff case_prod_unfold split: if_splits)
  have keys: "\<exists>kes. dict_get E eid = Some kes \<and> py_map member_pair (List.map_filter (\<lambda>(key, inner). dict_get (srv_get_events st is) inner) kes) = Inr ms"
    if "list_all2 (\<lambda>(eid, key_to_eid) y.
           py_bind (py_map member_pair (List.map_filter (\<lambda>(key, inner). dict_get (srv_get_events st is) inner) key_to_eid))
             (\<lambda>ms. Inr (eid, ms)) = Inr y) E M" and "dict_get M eid = Some ms" for E M
    using that by (induction E M rule: list_all2_induct) (auto simp: py_bind_Inr_iff split: if_splits)
  from keys[OF M assms(3)] obtain kes where kes: "dict_get (get_state_ids_for_events st ids ?f) eid = Some kes"
    and ms: "py_map member_pair (List.map_filter (\<lambda>(key, inner). dict_get (srv_get_events st is) inner) kes) = Inr ms" by blast
  from py_map_source[OF ms assms(4)] obtain me where "me \<in> set (List.map_filter (\<lambda>(key, inner). dict_get (srv_get_events st is) inner) kes)"
    and pair: "member_pair me = Inr (sk, m)" ..
  then obtain key i where ki: "(key, i) \<in> set kes" and "dict_get (srv_get_events st is) i = Some me"
    by (auto simp: List.map_filter_def)
  then have "stored i = Some me" using serves_state_event[OF assms(1)] by blast
  moreover have "kes = filter_state ?f (state_of eid)" by (rule serves_state_ids(1)[OF assms(1) kes])
  then have "(key, i) \<in> set (state_of eid) \<and> fst key = EventTypes_Member"
    using ki by (cases key) (simp add: filter_state_eq from_types_matches)
  ultimately show ?thesis using pair by blast
qed


text \<open>The rules: nothing of an erased sender or of a room whose state is incomplete, and restricted
  history only to servers with a member.\<close>

definition server_may_see ::
    "(json \<Rightarrow> (state_id, json) dict) \<Rightarrow> (json \<rightharpoonup> event_obj) \<Rightarrow> string \<Rightarrow> json \<Rightarrow> bool" where
  "server_may_see state_of stored server eid \<longleftrightarrow>
     (setting_at state_of stored eid ''joined'' \<longrightarrow> server_member_at state_of stored eid server ''join'') \<and>
     (setting_at state_of stored eid ''invited'' \<longrightarrow>
        server_member_at state_of stored eid server ''join'' \<or> server_member_at state_of stored eid server ''invite'')"

lemma setting_at_unique: "setting_at state_of stored eid v \<Longrightarrow> setting_at state_of stored eid w \<Longrightarrow> v = w"
  by (auto simp: setting_at_def)

lemma history_vis_of_complete:
  assumes "serves_state st state_of stored" and "eid \<in> set ids" and "setting_at state_of stored eid v"
    and "history_vis_of (get_state_ids_for_events st ids (from_types [(EventTypes_RoomHistoryVisibility, Some '''')]))
      (srv_get_events st is) eid = Inr vis"
  shows "vis = v"
proof -
  let ?f = "from_types [(EventTypes_RoomHistoryVisibility, Some '''')]"
  from assms(3) obtain i ve d where i: "dict_get (state_of eid) HISTORY_VIS_KEY = Some i" and ve: "stored i = Some ve"
    and d: "obj_content ve = Inr (JObj d)" "dict_get d ''history_visibility'' = Some (JStr v)"
    by (auto simp: setting_at_def)
  have wf: "wf_dict (state_of eid)"
    and E: "dict_get (get_state_ids_for_events st ids ?f) eid = Some (filter_state ?f (state_of eid))"
    using assms(1,2) unfolding serves_state_def by (blast, presburger)
  have "dict_get (filter_state ?f (state_of eid)) HISTORY_VIS_KEY = Some i"
    using wf i by (simp add: filter_state_eq dict_get_filter from_types_matches)
  with assms(4) E obtain ve' where "dict_get (srv_get_events st is) i = Some ve'"
    and run: "py_bind (obj_content ve') (\<lambda>c. py_bind (as_dict c) (\<lambda>d.
            case dict_get_default d ''history_visibility'' (JStr ''shared'') of
              JStr vis \<Rightarrow> Inr vis | _ \<Rightarrow> Inl AssertionError)) = Inr vis"
    by (auto simp: history_vis_of_def py_bind_Inr_iff dict_getitem_Inr_iff)
  then have "ve' = ve" using serves_state_event[OF assms(1)] ve by (metis option.inject)
  with run d show ?thesis by (simp add: dict_get_default_def)
qed


lemma server_decision_sound:
  assumes serves: "serves_state st state_of stored" and V: "event_to_history_vis ops st events = Inr V"
    and M: "event_to_memberships ops st evs server = Inr M"
    and yes: "server_decision ops server V erased invisible M e = Inr True"
    and e: "e \<in> set events" "\<not> im_outlier (obj_metadata e)" "obj_event_id ops e = Inr eid"
  shows "server_may_see state_of stored server eid"
proof -
  from yes e(3) obtain j vis where vis: "dict_get V eid = Some vis"
    and j: "(case j of JStr s \<Rightarrow> event_visible_to_server s server vis erased (eid \<in> set invisible) (dict_get_default M eid [])
      | _ \<Rightarrow> Inl TypeError) = Inr True"
    unfolding server_decision_def py_bind_Inr_iff dict_getitem_Inr_iff by auto
  from j obtain s where
    see: "event_visible_to_server s server vis erased (eid \<in> set invisible) (dict_get_default M eid []) = Inr True"
    by (cases j) auto
  from event_to_history_vis_result[OF V vis] e obtain ids "is" where ids: "eid \<in> set ids"
    and hist: "history_vis_of (get_state_ids_for_events st ids (from_types [(EventTypes_RoomHistoryVisibility, Some '''')]))
      (srv_get_events st is) eid = Inr vis" by blast
  note set_vis = history_vis_of_complete[OF serves ids _ hist]
  have member: "\<exists>m. server_member_at state_of stored eid server m \<and> (m = ''join'' \<or> m = ''invite'' \<and> vis = ''invited'')"
    if "vis = ''joined'' \<or> vis = ''invited''"
  proof -
    have "visible_by_membership server vis (dict_get_default M eid []) = Inr True"
      using see that by (auto simp: event_visible_to_server_def split: if_splits)
    from visible_by_membership_member[OF this] obtain sk m where skm: "(sk, m) \<in> set (dict_get_default M eid [])"
      and server: "user_server_name sk = Inr server" and m: "m = ''join'' \<or> m = ''invite'' \<and> vis = ''invited''" by auto
    from skm obtain ms where "dict_get M eid = Some ms" and "(sk, m) \<in> set ms"
      by (cases "dict_get M eid") (auto simp: dict_get_default_def)
    from event_to_memberships_result[OF serves M this] server m show ?thesis
      unfolding server_member_at_def by blast
  qed
  show ?thesis
    unfolding server_may_see_def
  proof (intro conjI impI)
    assume "setting_at state_of stored eid ''joined''"
    then have "vis = ''joined''" using set_vis by blast
    with member show "server_member_at state_of stored eid server ''join''" by auto
  next
    assume "setting_at state_of stored eid ''invited''"
    then have "vis = ''invited''" using set_vis by blast
    with member show "server_member_at state_of stored eid server ''join'' \<or> server_member_at state_of stored eid server ''invite''"
      by auto
  qed
qed

lemma server_filter_result:
  assumes serves: "serves_state st state_of stored"
    and run: "filter_events_for_server ops st server local events redact fe fp = Inr out" and x: "x \<in> set out"
  shows "\<exists>e \<in> set events. redact \<and> prune_event e = Inr x \<or>
     x = e \<and> (\<forall>eid. obj_event_id ops e = Inr eid \<longrightarrow> \<not> im_outlier (obj_metadata e) \<longrightarrow> server_may_see state_of stored server eid)"
proof -
  from run obtain erased invisible V marked M where V: "event_to_history_vis ops st events = Inr V"
    and M: "event_to_memberships ops st (map fst (filter snd marked)) server = Inr M"
    and loop: "py_for (\<lambda>e to_return.
         py_bind (server_decision ops server V erased invisible M e) (\<lambda>visible.
           if visible then Inr (to_return @ [e])
           else if redact then py_bind (prune_event e) (\<lambda>p. Inr (to_return @ [p]))
           else Inr to_return)) events [] = Inr out"
    unfolding filter_events_for_server_def py_bind_Inr_iff by blast
  let ?R = "\<lambda>x. \<exists>e \<in> set events. redact \<and> prune_event e = Inr x \<or>
     x = e \<and> (\<forall>eid. obj_event_id ops e = Inr eid \<longrightarrow> \<not> im_outlier (obj_metadata e) \<longrightarrow> server_may_see state_of stored server eid)"
  have "\<forall>x \<in> set out. ?R x"
  proof (rule py_for_invariant[OF loop])
    fix e acc acc'
    assume e: "e \<in> set events" and acc: "\<forall>x \<in> set acc. ?R x"
      and step: "py_bind (server_decision ops server V erased invisible M e) (\<lambda>visible.
           if visible then Inr (acc @ [e])
           else if redact then py_bind (prune_event e) (\<lambda>p. Inr (acc @ [p])) else Inr acc) = Inr acc'"
    from step obtain b where b: "server_decision ops server V erased invisible M e = Inr b"
      and acc': "(if b then Inr (acc @ [e]) else if redact then py_bind (prune_event e) (\<lambda>p. Inr (acc @ [p])) else Inr acc) = Inr acc'"
      unfolding py_bind_Inr_iff by blast
    have "?R e" if b
    proof -
      from b that have "server_decision ops server V erased invisible M e = Inr True" by simp
      from server_decision_sound[OF serves V M this e] e show ?thesis by blast
    qed
    with acc acc' e show "\<forall>x \<in> set acc'. ?R x"
      by (auto simp: py_bind_Inr_iff split: if_splits)
  qed simp
  with x show ?thesis by blast
qed

end
