(* ===== verification/Example_Events.thy ===== *)
theory Example_Events
  imports Example_Room Redaction_Auth Visibility_Props
begin

text \<open>
  Event objects of a small room with version 11, and a store that holds them, for the theorems on
  redaction and visibility.
\<close>

definition ex_ops :: signing_ops where
  "ex_ops = \<lparr>valid_ipv6 = (\<lambda>_. False),
     decode_base64 = (\<lambda>v. case v of JStr s \<Rightarrow> Inr s | _ \<Rightarrow> Inl ValueError),
     decode_verify_key_bytes = (\<lambda>_ _. Inl ValueError), verify_signed_json = (\<lambda>_ _ _. Inl SignatureVerifyException),
     encode_canonical_json = (\<lambda>v. case v of
       JObj d \<Rightarrow> (case dict_get d ''type'' of Some (JStr t) \<Rightarrow> t | _ \<Rightarrow> []) @
         (case dict_get d ''state_key'' of Some (JStr k) \<Rightarrow> k | _ \<Rightarrow> [])
     | _ \<Rightarrow> []),
     sha256 = (\<lambda>s. s), encode_base64 = (\<lambda>s. s), encode_base64_urlsafe = (\<lambda>s. s),
     sign_json = (\<lambda>d name key. Inr (dict_set ''signatures'' (JObj [(name, JObj [])]) d))\<rparr>"

definition ex_dict :: "string \<Rightarrow> string \<Rightarrow> string option \<Rightarrow> obj \<Rightarrow> obj" where
  "ex_dict ty s k c =
     [(''type'', JStr ty), (''sender'', JStr s), (''room_id'', JStr ''!r:h''), (''content'', JObj c),
      (''auth_events'', JList []), (''prev_events'', JList []), (''origin_server_ts'', JInt 5), (''depth'', JInt 1),
      (''hashes'', JObj []), (''extra'', JBool True), (''unsigned'', JObj [(''age_ts'', JInt 1), (''age'', JInt 2)])] @
     (case k of None \<Rightarrow> [] | Some sk \<Rightarrow> [(''state_key'', JStr sk)])"

definition ex_object :: "string \<Rightarrow> string \<Rightarrow> string option \<Rightarrow> obj \<Rightarrow> event_obj" where
  "ex_object ty s k c = projr (make_event_from_dict (ex_dict ty s k c) RoomVersions_V11 [] None)"

definition ex_record :: "string \<Rightarrow> string \<Rightarrow> string \<Rightarrow> string \<Rightarrow> obj \<Rightarrow> event" where
  "ex_record i ty s k c =
     \<lparr>event_id = i, ev_type = ty, sender = s, ev_room_id = Some ''!r:h'', ev_state_key = Some k,
      content = c, auth_event_ids = [], prev_event_ids = [], origin_server_ts = 5, depth = 1,
      redacts_key = None, signatures = [], ev_room_version = RoomVersions_V11, rejected_reason = None,
      recheck_redaction = False, pdu_json = JObj []\<rparr>"

lemma ex_object_made:
  "make_event_from_dict (ex_dict ty s k c) RoomVersions_V11 [] None = Inr (ex_object ty s k c)"
  by (simp add: ex_object_def ex_dict_def make_event_from_dict_def copy_signatures_def dict_get_default_def
      dict_has_def RoomVersions_V11_def split: option.split)

lemma ex_dict_wf: "wf_dict (ex_dict ty s k c)"
  by (simp add: wf_dict_def ex_dict_def split: option.split)

lemma ex_object_wf: "wf_event_obj (ex_object ty s k c)"
  by (rule make_event_from_dict_wf[OF ex_object_made ex_dict_wf])

section \<open>A redacted power levels event\<close>

abbreviation ex_levels :: obj where
  "ex_levels \<equiv> [(''users'', JObj [(''@a:h'', JInt 100)]), (''notifications'', JObj [(''room'', JInt 20)]), (''invite'', JInt 10)]"

abbreviation ex_levels_kept :: obj where
  "ex_levels_kept \<equiv> [(''users'', JObj [(''@a:h'', JInt 100)]), (''invite'', JInt 10)]"

definition ex_levels_obj :: event_obj where
  "ex_levels_obj = ex_object EventTypes_PowerLevels ''@a:h'' (Some '''') ex_levels"

definition ex_levels_pruned :: event_obj where
  "ex_levels_pruned = projr (prune_event ex_levels_obj)"

lemma ex_levels_prune: "prune_event ex_levels_obj = Inr ex_levels_pruned"
proof -
  have "isl (prune_event ex_levels_obj) = False" by code_simp
  then show ?thesis by (cases "prune_event ex_levels_obj") (auto simp: ex_levels_pruned_def)
qed

definition ex_levels_event :: event where
  "ex_levels_event = ex_record ''$m.room.power_levels'' EventTypes_PowerLevels ''@a:h'' '''' ex_levels"

definition ex_levels_event' :: event where
  "ex_levels_event' = ex_record ''$m.room.power_levels'' EventTypes_PowerLevels ''@a:h'' '''' ex_levels_kept"

lemma ex_levels_represented: "represents ex_ops ex_levels_obj ex_levels_event"
  by code_simp

lemma ex_levels_pruned_represented: "represents ex_ops ex_levels_pruned ex_levels_event'"
  by code_simp

definition ex_map11 :: "event state_map" where
  "ex_map11 = map_of [((EventTypes_PowerLevels, ''''), ex_levels_event),
     ((EventTypes_Create, ''''), ex_record ''$c'' EventTypes_Create ''@a:h'' '''' []),
     ((EventTypes_Member, ''@a:h''), ex_record ''$ja'' EventTypes_Member ''@a:h'' ''@a:h'' [(''membership'', Membership_JOIN)])]"

definition ex_map11' :: "event state_map" where
  "ex_map11' = ex_map11((EventTypes_PowerLevels, '''') \<mapsto> ex_levels_event')"

lemma ex_map11_updated: "updated_state ex_map11"
  by (auto simp: updated_state_def ex_map11_def ex_levels_event_def ex_record_def RoomVersions_V11_def split: if_splits)

lemma ex_map11_redacted: "redacted_state ex_ops ex_map11 ex_map11'"
proof -
  have "wf_event_obj ex_levels_obj" by (simp add: ex_levels_obj_def ex_object_wf)
  then have "\<exists>e e' ob ob'. ex_map11 (EventTypes_PowerLevels, '''') = Some e \<and> ex_map11' (EventTypes_PowerLevels, '''') = Some e' \<and>
      wf_event_obj ob \<and> represents ex_ops ob e \<and> prune_event ob = Inr ob' \<and> represents ex_ops ob' e'"
    using ex_levels_represented ex_levels_pruned_represented ex_levels_prune
    by (intro exI[of _ ex_levels_event] exI[of _ ex_levels_event'] exI[of _ ex_levels_obj] exI[of _ ex_levels_pruned] conjI)
      (simp_all add: ex_map11_def ex_map11'_def)
  then show ?thesis by (auto simp: redacted_state_def ex_map11'_def)
qed


section \<open>A message in a room with restricted history\<close>

definition ex_message :: event_obj where
  "ex_message = ex_object ''m.room.message'' ''@a:h'' None [(''body'', JStr ''hi'')]"

definition ex_visibility :: event_obj where
  "ex_visibility = ex_object EventTypes_RoomHistoryVisibility ''@a:h'' (Some '''') [(''history_visibility'', JStr ''joined'')]"

definition ex_member :: event_obj where
  "ex_member = ex_object EventTypes_Member ''@a:h'' (Some ''@a:h'') [(''membership'', Membership_JOIN)]"

definition ex_state_ids :: "(state_id, json) dict" where
  "ex_state_ids = [(HISTORY_VIS_KEY, JStr ''$v''), ((EventTypes_Member, ''@a:h''), JStr ''$ja'')]"

definition ex_stored :: "(json, event_obj) dict" where
  "ex_stored = [(JStr ''$v'', ex_visibility), (JStr ''$ja'', ex_member)]"

definition ex_get_events :: "json list \<Rightarrow> (json, event_obj) dict" where
  "ex_get_events ids = filter (\<lambda>(i, e). i \<in> set ids) ex_stored"

definition ex_visibility_store :: visibility_store where
  "ex_visibility_store = \<lparr>ignored_by = (\<lambda>_. []), retention_of = (\<lambda>_. \<lparr>min_lifetime = None, max_lifetime = None\<rparr>),
     store_time_msec = 10, store_get_events = ex_get_events\<rparr>"

lemma ex_reads_state: "reads_state (\<lambda>f. filter_state f ex_state_ids) ex_get_events ex_state_ids (dict_get ex_stored)"
  by (auto simp: reads_state_def ex_state_ids_def wf_dict_def ex_get_events_def dict_get_filter_keys)

text \<open>The server \<open>h\<close> has a member in the room, the server \<open>x\<close> has none.\<close>

definition ex_state_of :: "json \<Rightarrow> (state_id, json) dict" where
  "ex_state_of i = (if i = JStr ''$m.room.message'' then ex_state_ids else [])"

definition ex_server_storage :: server_storage where
  "ex_server_storage = \<lparr>get_state_ids_for_events = (\<lambda>ids f. map (\<lambda>i. (i, filter_state f (ex_state_of i))) ids),
     srv_get_events = ex_get_events, srv_users_erased = (\<lambda>_. []), is_partial_state_room = (\<lambda>_. False)\<rparr>"

lemma ex_serves_state: "serves_state ex_server_storage ex_state_of (dict_get ex_stored)"
proof -
  have "wf_dict (ex_state_of i)" for i by (simp add: ex_state_of_def ex_state_ids_def wf_dict_def)
  moreover have "dict_get (map (\<lambda>i. (i, g i)) ids) i = (if i \<in> set ids then Some (g i) else None)" for i ids and g :: "json \<Rightarrow> (state_id, json) dict"
    by (induction ids) auto
  ultimately show ?thesis
    by (simp add: serves_state_def ex_server_storage_def ex_get_events_def dict_get_filter_keys)
qed

end
