(* ===== verification/Linked_List.thy ===== *)
theory Linked_List
  imports Prelude
begin

text \<open>
  \<open>synapse/util/linked_list.py\<close>: nodes of circular doubly linked lists. Nodes are objects with
  identity, so they live in an explicit store from addresses to records; \<open>free_addr\<close> is the next
  address to be allocated. Several lists share the store. The locks only make each operation atomic.

  \<open>ring\<close> says which list of nodes hangs off a root. Each operation is shown to return, to do to that
  list what it is meant to do, and to leave alone every node outside of it.
\<close>

section \<open>Nodes and their store\<close>

text \<open>\<open>last_access\<close> belongs to the subclass \<open>_TimedListNode\<close> of \<open>lrucache.py\<close>.\<close>

record 'e list_node =
  cache_entry :: "'e option"
  prev_node :: "nat option"
  next_node :: "nat option"
  last_access :: "int option"

record 'e node_store =
  node_at :: "nat \<Rightarrow> 'e list_node option"
  free_addr :: nat

definition ListNode :: "'e option \<Rightarrow> 'e list_node" where
  "ListNode e = \<lparr>cache_entry = e, prev_node = None, next_node = None, last_access = None\<rparr>"

text \<open>Reading an attribute of an object, and assigning one.\<close>

definition read_node :: "'e node_store \<Rightarrow> nat \<Rightarrow> 'e list_node py" where
  "read_node h a = (case node_at h a of None \<Rightarrow> Inl AttributeError | Some n \<Rightarrow> Inr n)"

definition update_node :: "nat \<Rightarrow> ('e list_node \<Rightarrow> 'e list_node) \<Rightarrow> 'e node_store \<Rightarrow> 'e node_store" where
  "update_node a f h = h\<lparr>node_at := (node_at h)(a := map_option f (node_at h a))\<rparr>"

abbreviation set_prev :: "nat \<Rightarrow> nat option \<Rightarrow> 'e node_store \<Rightarrow> 'e node_store" where
  "set_prev a p \<equiv> update_node a (\<lambda>n. n\<lparr>prev_node := p\<rparr>)"

abbreviation set_next :: "nat \<Rightarrow> nat option \<Rightarrow> 'e node_store \<Rightarrow> 'e node_store" where
  "set_next a p \<equiv> update_node a (\<lambda>n. n\<lparr>next_node := p\<rparr>)"

definition new_node :: "'e list_node \<Rightarrow> 'e node_store \<Rightarrow> nat \<times> 'e node_store" where
  "new_node n h = (free_addr h, \<lparr>node_at = (node_at h)(free_addr h \<mapsto> n), free_addr = Suc (free_addr h)\<rparr>)"

definition create_root_node :: "'e node_store \<Rightarrow> nat \<times> 'e node_store" where
  "create_root_node h =
     (let (r, h) = new_node (ListNode None) h
      in (r, set_next r (Some r) (set_prev r (Some r) h)))"

definition refs_remove_node_from_list :: "nat \<Rightarrow> 'e node_store \<Rightarrow> 'e node_store py" where
  "refs_remove_node_from_list self h =
     py_bind (read_node h self) (\<lambda>n.
       case (prev_node n, next_node n) of
         (Some p, Some nx) \<Rightarrow>
           Inr (set_next self None (set_prev self None (set_prev nx (Some p) (set_next p (Some nx) h))))
       | _ \<Rightarrow> Inr h)"

definition refs_insert_after :: "nat \<Rightarrow> nat \<Rightarrow> 'e node_store \<Rightarrow> 'e node_store py" where
  "refs_insert_after self node h =
     py_bind (read_node h self) (\<lambda>n.
     py_bind (require (prev_node n = None) AssertionError) (\<lambda>_.
     py_bind (require (next_node n = None) AssertionError) (\<lambda>_.
     py_bind (read_node h node) (\<lambda>m.
     py_bind (require (prev_node m \<noteq> None) AssertionError) (\<lambda>_.
     case next_node m of
       None \<Rightarrow> Inl AssertionError
     | Some nx \<Rightarrow>
         Inr (set_prev nx (Some self) (set_next node (Some self) (set_next self (Some nx) (set_prev self (Some node) h)))))))))"

definition insert_after :: "'e \<Rightarrow> nat \<Rightarrow> 'e node_store \<Rightarrow> (nat \<times> 'e node_store) py" where
  "insert_after e node h =
     (let (a, h) = new_node (ListNode (Some e)) h
      in py_bind (refs_insert_after a node h) (\<lambda>h. Inr (a, h)))"

definition remove_from_list :: "nat \<Rightarrow> 'e node_store \<Rightarrow> 'e node_store py" where
  "remove_from_list self h =
     py_bind (refs_remove_node_from_list self h) (\<lambda>h. Inr (update_node self (\<lambda>n. n\<lparr>cache_entry := None\<rparr>) h))"

definition move_after :: "nat \<Rightarrow> nat \<Rightarrow> 'e node_store \<Rightarrow> 'e node_store py" where
  "move_after self node h =
     py_bind (read_node h self) (\<lambda>n.
     py_bind (require (prev_node n \<noteq> None) AssertionError) (\<lambda>_.
     py_bind (require (next_node n \<noteq> None) AssertionError) (\<lambda>_.
     py_bind (read_node h node) (\<lambda>m.
     py_bind (require (prev_node m \<noteq> None) AssertionError) (\<lambda>_.
     py_bind (require (next_node m \<noteq> None) AssertionError) (\<lambda>_.
     py_bind (require (self \<noteq> node) AssertionError) (\<lambda>_.
     py_bind (refs_remove_node_from_list self h) (refs_insert_after self node))))))))"

definition get_cache_entry :: "'e node_store \<Rightarrow> nat \<Rightarrow> 'e option py" where
  "get_cache_entry h a = py_bind (read_node h a) (\<lambda>n. Inr (cache_entry n))"

section \<open>The pointers of a store\<close>

definition nxt :: "'e node_store \<Rightarrow> nat \<Rightarrow> nat option" where
  "nxt h a = Option.bind (node_at h a) next_node"

definition prv :: "'e node_store \<Rightarrow> nat \<Rightarrow> nat option" where
  "prv h a = Option.bind (node_at h a) prev_node"

text \<open>What the list operations do not change of a node.\<close>

definition payload :: "'e node_store \<Rightarrow> nat \<Rightarrow> ('e option \<times> int option) option" where
  "payload h a = map_option (\<lambda>n. (cache_entry n, last_access n)) (node_at h a)"

definition alloc :: "'e node_store \<Rightarrow> nat \<Rightarrow> bool" where
  "alloc h a \<longleftrightarrow> node_at h a \<noteq> None"

definition wf_store :: "'e node_store \<Rightarrow> bool" where
  "wf_store h \<longleftrightarrow> (\<forall>a. alloc h a \<longrightarrow> a < free_addr h)"

lemma set_prev_views [simp]:
  "nxt (set_prev a p h) = nxt h"
  "alloc h a \<Longrightarrow> prv (set_prev a p h) = (prv h)(a := p)"
  "payload (set_prev a p h) = payload h" "alloc (set_prev a p h) = alloc h"
  "free_addr (set_prev a p h) = free_addr h"
  by (cases "node_at h a"; auto simp: nxt_def prv_def payload_def alloc_def update_node_def fun_eq_iff)+

lemma set_next_views [simp]:
  "alloc h a \<Longrightarrow> nxt (set_next a p h) = (nxt h)(a := p)"
  "prv (set_next a p h) = prv h"
  "payload (set_next a p h) = payload h" "alloc (set_next a p h) = alloc h"
  "free_addr (set_next a p h) = free_addr h"
  by (cases "node_at h a"; auto simp: nxt_def prv_def payload_def alloc_def update_node_def fun_eq_iff)+

lemma set_payload_views [simp]:
  "nxt (update_node a (\<lambda>n. n\<lparr>cache_entry := e\<rparr>) h) = nxt h" "prv (update_node a (\<lambda>n. n\<lparr>cache_entry := e\<rparr>) h) = prv h"
  "alloc (update_node a (\<lambda>n. n\<lparr>cache_entry := e\<rparr>) h) = alloc h"
  "free_addr (update_node a (\<lambda>n. n\<lparr>cache_entry := e\<rparr>) h) = free_addr h"
  "payload (update_node a (\<lambda>n. n\<lparr>cache_entry := e\<rparr>) h) = (payload h)(a := map_option (\<lambda>(_, t). (e, t)) (payload h a))"
  by (cases "node_at h a"; auto simp: nxt_def prv_def payload_def alloc_def update_node_def fun_eq_iff)+

lemma set_access_views [simp]:
  "nxt (update_node a (\<lambda>n. n\<lparr>last_access := t\<rparr>) h) = nxt h" "prv (update_node a (\<lambda>n. n\<lparr>last_access := t\<rparr>) h) = prv h"
  "alloc (update_node a (\<lambda>n. n\<lparr>last_access := t\<rparr>) h) = alloc h"
  "free_addr (update_node a (\<lambda>n. n\<lparr>last_access := t\<rparr>) h) = free_addr h"
  "payload (update_node a (\<lambda>n. n\<lparr>last_access := t\<rparr>) h) = (payload h)(a := map_option (\<lambda>(e, _). (e, t)) (payload h a))"
  by (cases "node_at h a"; auto simp: nxt_def prv_def payload_def alloc_def update_node_def fun_eq_iff)+

lemma new_node_views:
  assumes "new_node (ListNode e) h = (a, h')" and "\<not> alloc h (free_addr h)"
  shows "a = free_addr h" "nxt h' = nxt h" "prv h' = prv h" "alloc h' = (alloc h)(a := True)"
    and "payload h' = (payload h)(a \<mapsto> (e, None))" "free_addr h' = Suc a"
  using assms by (auto simp: new_node_def ListNode_def nxt_def prv_def payload_def alloc_def fun_eq_iff)

lemma alloc_pointers: "nxt h a = Some b \<Longrightarrow> alloc h a" "prv h a = Some b \<Longrightarrow> alloc h a"
  by (auto simp: nxt_def prv_def alloc_def bind_eq_Some_conv)

lemma read_node_alloc:
  "alloc h a \<Longrightarrow> \<exists>n. read_node h a = Inr n \<and> next_node n = nxt h a \<and> prev_node n = prv h a \<and>
     payload h a = Some (cache_entry n, last_access n)"
  by (auto simp: alloc_def read_node_def nxt_def prv_def payload_def)

lemma refs_remove_result:
  assumes "nxt h self = Some n" and "prv h self = Some p" and "alloc h n" and "alloc h p"
  shows "\<exists>h'. refs_remove_node_from_list self h = Inr h' \<and> nxt h' = (nxt h)(p := Some n, self := None) \<and>
    prv h' = (prv h)(n := Some p, self := None) \<and> payload h' = payload h \<and> alloc h' = alloc h \<and> free_addr h' = free_addr h"
proof -
  have "alloc h self" using assms(1) by (rule alloc_pointers)
  from read_node_alloc[OF this] assms show ?thesis
    by (auto simp: refs_remove_node_from_list_def alloc_pointers)
qed

lemma refs_insert_result:
  assumes "alloc h self" and "nxt h self = None" and "prv h self = None"
    and "nxt h node = Some n" and "prv h node = Some p" and "alloc h n"
  shows "\<exists>h'. refs_insert_after self node h = Inr h' \<and> nxt h' = (nxt h)(self := Some n, node := Some self) \<and>
    prv h' = (prv h)(self := Some node, n := Some self) \<and> payload h' = payload h \<and> alloc h' = alloc h \<and> free_addr h' = free_addr h"
proof -
  have "alloc h node" using assms(4) by (rule alloc_pointers)
  from read_node_alloc[OF assms(1)] read_node_alloc[OF this] assms show ?thesis
    by (auto simp: refs_insert_after_def alloc_pointers)
qed

section \<open>Chains and rings\<close>

text \<open>From \<open>a\<close> the next pointers lead through \<open>xs\<close> to \<open>b\<close>, and the previous pointers lead back.\<close>

fun chain :: "(nat \<Rightarrow> nat option) \<Rightarrow> (nat \<Rightarrow> nat option) \<Rightarrow> nat \<Rightarrow> nat list \<Rightarrow> nat \<Rightarrow> bool" where
  "chain f g a [] b \<longleftrightarrow> f a = Some b \<and> g b = Some a"
| "chain f g a (x # xs) b \<longleftrightarrow> f a = Some x \<and> g x = Some a \<and> chain f g x xs b"

definition ring :: "'e node_store \<Rightarrow> nat \<Rightarrow> nat list \<Rightarrow> bool" where
  "ring h r xs \<longleftrightarrow> distinct (r # xs) \<and> chain (nxt h) (prv h) r xs r"

lemma chain_append: "chain f g a (xs @ x # ys) b \<longleftrightarrow> chain f g a xs x \<and> chain f g x ys b"
  by (induction xs arbitrary: a) auto

lemma chain_cong:
  assumes "\<And>x. x \<in> set (a # xs) \<Longrightarrow> f x = f' x" and "\<And>x. x \<in> set (b # xs) \<Longrightarrow> g x = g' x"
  shows "chain f g a xs b = chain f' g' a xs b"
  using assms by (induction xs arbitrary: a) auto

lemma chain_next: "chain f g a xs b \<Longrightarrow> f a = Some (hd (xs @ [b]))"
  by (cases xs) auto

lemma chain_prev: "chain f g a xs b \<Longrightarrow> g b = Some (last (a # xs))"
  by (induction xs arbitrary: a) auto

text \<open>Taking a node out of a chain, and putting one at its start.\<close>

lemma chain_remove:
  assumes "chain f g a us x" and "chain f g x vs b" and "distinct (a # us @ x # vs)" and "b \<notin> set (us @ x # vs)"
    and "f' = f(last (a # us) \<mapsto> hd (vs @ [b]), x := None)" and "g' = g(hd (vs @ [b]) \<mapsto> last (a # us), x := None)"
  shows "chain f' g' a (us @ vs) b"
  using assms
proof (induction us arbitrary: a)
  case Nil
  show ?case
  proof (cases vs)
    case (Cons v ws)
    with Nil have "chain f g v ws b" by simp
    moreover have "chain f g v ws b = chain f' g' v ws b" by (rule chain_cong) (use Nil Cons in auto)
    moreover have "f' a = Some v" "g' v = Some a" using Nil Cons by auto
    ultimately show ?thesis using Cons by simp
  qed (use Nil in auto)
next
  case (Cons u us)
  have "last (u # us) \<noteq> a" using Cons.prems(3) last_in_set[of "u # us"] by auto
  moreover have "hd (vs @ [b]) \<noteq> u" using Cons.prems(3,4) by (cases vs) auto
  ultimately have "f' a = Some u" "g' u = Some a" using Cons.prems by auto
  moreover have "chain f' g' u (us @ vs) b" by (rule Cons.IH) (use Cons.prems in auto)
  ultimately show ?case by simp
qed

lemma chain_insert:
  assumes "chain f g a xs b" and "distinct (a # xs)" and "n \<notin> set (a # b # xs)" and "b \<notin> set xs"
    and "f' = f(n \<mapsto> hd (xs @ [b]), a \<mapsto> n)" and "g' = g(n \<mapsto> a, hd (xs @ [b]) \<mapsto> n)"
  shows "chain f' g' a (n # xs) b"
proof (cases xs)
  case (Cons y ys)
  with assms(1) have "chain f g y ys b" by simp
  moreover have "chain f g y ys b = chain f' g' y ys b" by (rule chain_cong) (use assms Cons in auto)
  moreover have "f' a = Some n" "g' n = Some a" "f' n = Some y" "g' y = Some n" using assms Cons by auto
  ultimately show ?thesis using Cons by simp
qed (use assms in auto)

section \<open>The operations on rings\<close>

text \<open>Two stores with the same links outside of a set of nodes.\<close>

definition links_kept :: "nat set \<Rightarrow> 'e node_store \<Rightarrow> 'e node_store \<Rightarrow> bool" where
  "links_kept A h h' \<longleftrightarrow> (\<forall>a. a \<notin> A \<longrightarrow> nxt h' a = nxt h a \<and> prv h' a = prv h a)"

lemma ring_distinct: "ring h r xs \<Longrightarrow> distinct (r # xs)"
  by (simp add: ring_def)

lemma ring_kept:
  assumes "ring h r xs" and "links_kept A h h'" and "set (r # xs) \<inter> A = {}"
  shows "ring h' r xs"
proof -
  have "chain (nxt h) (prv h) r xs r = chain (nxt h') (prv h') r xs r"
    using assms(2,3) by (intro chain_cong) (auto simp: links_kept_def)
  with assms(1) show ?thesis by (simp add: ring_def)
qed

lemma ring_member:
  assumes "ring h r xs" and "x \<in> set (r # xs)"
  shows "\<exists>n \<in> set (r # xs). nxt h x = Some n" and "\<exists>p \<in> set (r # xs). prv h x = Some p" and "alloc h x"
proof -
  let ?c = "chain (nxt h) (prv h)"
  from assms(1) have ring: "?c r xs r" by (simp add: ring_def)
  consider "x = r" | us vs where "xs = us @ x # vs" using assms(2) by (auto simp: in_set_conv_decomp)
  then have "\<exists>n p. nxt h x = Some n \<and> prv h x = Some p \<and> n \<in> set (r # xs) \<and> p \<in> set (r # xs)"
  proof cases
    case 1
    have "hd (xs @ [r]) \<in> set (r # xs)" "last (r # xs) \<in> set (r # xs)" by (cases xs; simp)+
    with 1 chain_next[OF ring] chain_prev[OF ring] show ?thesis by blast
  next
    case (2 us vs)
    with ring have c: "?c r us x" "?c x vs r" by (simp_all add: chain_append)
    have "hd (vs @ [r]) \<in> set (r # xs)" "last (r # us) \<in> set (r # xs)" using 2 by (cases vs; simp)+
    with chain_next[OF c(2)] chain_prev[OF c(1)] show ?thesis by blast
  qed
  then show "\<exists>n \<in> set (r # xs). nxt h x = Some n" "\<exists>p \<in> set (r # xs). prv h x = Some p" "alloc h x"
    by (auto intro: alloc_pointers)
qed

lemma ring_last: "ring h r xs \<Longrightarrow> prv h r = Some (last (r # xs))"
  unfolding ring_def by (blast dest: chain_prev)

lemma ring_prev: "ring h r (us @ x # vs) \<Longrightarrow> prv h x = Some (last (r # us))"
  unfolding ring_def chain_append by (blast dest: chain_prev)

lemma insert_after_ring:
  assumes "wf_store h" and "ring h r xs"
  obtains h' where "insert_after e r h = Inr (free_addr h, h')" and "ring h' r (free_addr h # xs)" and "wf_store h'"
    and "payload h' = (payload h)(free_addr h \<mapsto> (Some e, None))" and "free_addr h' = Suc (free_addr h)"
    and "links_kept (insert (free_addr h) (set (r # xs))) h h'"
proof -
  let ?a = "free_addr h"
  obtain a g where new: "new_node (ListNode (Some e)) h = (a, g)" by fastforce
  have unused: "\<not> alloc h ?a" using assms(1) by (auto simp: wf_store_def)
  note g = new_node_views[OF new unused]
  have a: "nxt h ?a = None" "prv h ?a = None" using unused by (auto simp: alloc_def nxt_def prv_def)
  have chain: "chain (nxt h) (prv h) r xs r" and dist: "distinct (r # xs)" using assms(2) by (simp_all add: ring_def)
  have fresh: "?a \<notin> set (r # xs)" using ring_member(3)[OF assms(2)] unused by blast
  have n: "nxt g r = Some (hd (xs @ [r]))" using chain_next[OF chain] g by simp
  have mem: "hd (xs @ [r]) \<in> set (r # xs)" by (cases xs) auto
  then have "alloc g (hd (xs @ [r]))" using ring_member(3)[OF assms(2)] g by simp
  then obtain h' where h': "refs_insert_after a r g = Inr h'"
      "nxt h' = (nxt g)(a \<mapsto> hd (xs @ [r]), r \<mapsto> a)" "prv h' = (prv g)(a \<mapsto> r, hd (xs @ [r]) \<mapsto> a)"
      "payload h' = payload g" "alloc h' = alloc g" "free_addr h' = free_addr g"
    using refs_insert_result[of g a r "hd (xs @ [r])" "last (r # xs)"] n a g chain_prev[OF chain] by auto
  show thesis
  proof
    show "insert_after e r h = Inr (?a, h')" using new h'(1) g(1) by (simp add: insert_after_def)
    have "chain (nxt h') (prv h') r (?a # xs) r"
      by (rule chain_insert[OF chain dist]) (use fresh dist h' g in auto)
    then show "ring h' r (?a # xs)" using dist fresh by (auto simp: ring_def)
    show "wf_store h'" using assms(1) h' g by (auto simp: wf_store_def less_Suc_eq)
    show "links_kept (insert ?a (set (r # xs))) h h'" using h' g mem by (auto simp: links_kept_def)
  qed (use h' g in auto)
qed

lemma refs_remove_ring:
  assumes "ring h r (us @ x # vs)"
  obtains h' where "refs_remove_node_from_list x h = Inr h'" and "ring h' r (us @ vs)" and "nxt h' x = None" and "prv h' x = None"
    and "payload h' = payload h" and "alloc h' = alloc h" and "free_addr h' = free_addr h"
    and "links_kept (set (r # us @ x # vs)) h h'"
proof -
  have chains: "chain (nxt h) (prv h) r us x" "chain (nxt h) (prv h) x vs r" and dist: "distinct (r # us @ x # vs)"
    using assms by (simp_all add: ring_def chain_append)
  have mem: "hd (vs @ [r]) \<in> set (r # us @ x # vs)" "last (r # us) \<in> set (r # us @ x # vs)" by (cases vs; simp)+
  obtain h' where h': "refs_remove_node_from_list x h = Inr h'"
      "nxt h' = (nxt h)(last (r # us) \<mapsto> hd (vs @ [r]), x := None)" "prv h' = (prv h)(hd (vs @ [r]) \<mapsto> last (r # us), x := None)"
      "payload h' = payload h" "alloc h' = alloc h" "free_addr h' = free_addr h"
    using refs_remove_result[OF chain_next[OF chains(2)] chain_prev[OF chains(1)]] ring_member(3)[OF assms] mem by auto
  show thesis
  proof
    have "chain (nxt h') (prv h') r (us @ vs) r"
      by (rule chain_remove[OF chains]) (use dist h' in auto)
    then show "ring h' r (us @ vs)" using dist by (simp add: ring_def)
    show "links_kept (set (r # us @ x # vs)) h h'" using h' mem by (auto simp: links_kept_def)
  qed (use h' in auto)
qed

lemma remove_from_list_ring:
  assumes "ring h r (us @ x # vs)"
  obtains h' where "remove_from_list x h = Inr h'" and "ring h' r (us @ vs)" and "nxt h' x = None" and "prv h' x = None"
    and "payload h' = (payload h)(x := map_option (\<lambda>(_, t). (None, t)) (payload h x))" and "alloc h' = alloc h"
    and "free_addr h' = free_addr h" and "links_kept (set (r # us @ x # vs)) h h'"
proof -
  from refs_remove_ring[OF assms] obtain g where g: "refs_remove_node_from_list x h = Inr g" "ring g r (us @ vs)"
      "nxt g x = None" "prv g x = None" "payload g = payload h" "alloc g = alloc h" "free_addr g = free_addr h"
      "links_kept (set (r # us @ x # vs)) h g" .
  show thesis by (rule that[of "update_node x (\<lambda>n. n\<lparr>cache_entry := None\<rparr>) g"])
      (use g in \<open>simp_all add: remove_from_list_def ring_def links_kept_def\<close>)
qed

lemma move_after_ring:
  assumes "ring h r (us @ x # vs)"
  obtains h' where "move_after x r h = Inr h'" and "ring h' r (x # us @ vs)" and "payload h' = payload h"
    and "alloc h' = alloc h" and "free_addr h' = free_addr h" and "links_kept (set (r # us @ x # vs)) h h'"
proof -
  have "x \<in> set (r # us @ x # vs)" and "r \<in> set (r # us @ x # vs)" by auto
  note mem = ring_member[OF assms this(1)] ring_member[OF assms this(2)]
  from mem obtain n p n' p' where ptr: "nxt h x = Some n" "prv h x = Some p" "nxt h r = Some n'" "prv h r = Some p'" by blast
  from read_node_alloc[OF mem(3)] read_node_alloc[OF mem(6)] ptr
  obtain m m' where reads: "read_node h x = Inr m" "read_node h r = Inr m'" "next_node m = Some n" "prev_node m = Some p"
      "next_node m' = Some n'" "prev_node m' = Some p'" by auto
  have dist: "distinct (r # us @ x # vs)" by (rule ring_distinct[OF assms])
  from refs_remove_ring[OF assms] obtain g where g: "refs_remove_node_from_list x h = Inr g" "ring g r (us @ vs)"
      "nxt g x = None" "prv g x = None" "payload g = payload h" "alloc g = alloc h" "free_addr g = free_addr h"
      "links_kept (set (r # us @ x # vs)) h g" .
  have chain: "chain (nxt g) (prv g) r (us @ vs) r" using g(2) by (simp add: ring_def)
  let ?n = "hd ((us @ vs) @ [r])"
  have n: "?n \<in> set (r # us @ vs)" by (cases "us @ vs") auto
  then have "alloc g ?n" using ring_member(3)[OF g(2)] by blast
  then obtain h' where h': "refs_insert_after x r g = Inr h'" "nxt h' = (nxt g)(x \<mapsto> ?n, r \<mapsto> x)"
      "prv h' = (prv g)(x \<mapsto> r, ?n \<mapsto> x)" "payload h' = payload g" "alloc h' = alloc g" "free_addr h' = free_addr g"
    using refs_insert_result[of g x r ?n "last (r # us @ vs)"] g mem(3) chain_next[OF chain] chain_prev[OF chain] by auto
  show thesis
  proof
    show "move_after x r h = Inr h'" using reads dist g(1) h'(1) by (auto simp: move_after_def)
    have "chain (nxt h') (prv h') r (x # us @ vs) r"
      by (rule chain_insert[OF chain]) (use dist h' in auto)
    then show "ring h' r (x # us @ vs)" using dist by (auto simp: ring_def)
    show "links_kept (set (r # us @ x # vs)) h h'" using h' g(8) n by (auto simp: links_kept_def)
  qed (use h' g in auto)
qed

lemma create_root_ring:
  assumes "wf_store h" and "create_root_node h = (r, h')"
  shows "ring h' r []" and "wf_store h'" and "r = free_addr h" and "free_addr h' = Suc r" and "links_kept {r} h h'"
proof -
  obtain a g where new: "new_node (ListNode None) h = (a, g)" by fastforce
  have "\<not> alloc h (free_addr h)" using assms(1) by (auto simp: wf_store_def)
  note g = new_node_views[OF new this]
  have r: "r = a" "h' = set_next a (Some a) (set_prev a (Some a) g)" using assms(2) new by (auto simp: create_root_node_def)
  show "ring h' r []" "wf_store h'" "r = free_addr h" "free_addr h' = Suc r" "links_kept {r} h h'"
    using assms(1) g by (auto simp: r ring_def wf_store_def links_kept_def less_Suc_eq)
qed

end
