(* ===== verification/Lru_Cache.thy ===== *)
theory Lru_Cache
  imports Linked_List Py_Json
begin

text \<open>
  \<open>synapse/util/caches/lrucache.py\<close>: the least-recently-used cache, backed by a dictionary. The
  nodes of its list and of the global list of all entries are objects in the store of \<open>Linked_List\<close>;
  the entries (\<open>_Node\<close>) are objects in a second store. The global list holds the entries of this
  cache. Callbacks are names; running one appends it to \<open>callbacks_run\<close> (the lock of the cache is
  held meanwhile, so a callback cannot call back into it). Metrics and the tracking of memory are left
  out, the clock is the argument \<open>now\<close>.
\<close>

section \<open>Entries and state\<close>

record ('k, 'v) lru_node =
  list_node_ref :: nat
  global_list_node :: "nat option"
  node_key :: 'k
  node_value :: 'v
  node_callbacks :: "nat list option"

text \<open>The arguments of the constructor, and the flag \<open>USE_GLOBAL_LIST\<close>.\<close>

record ('k, 'v) lru_config =
  size_callback :: "('v \<Rightarrow> int) option"
  extra_index_cb :: "('k \<Rightarrow> 'v \<Rightarrow> 'k) option"
  prune_unread_entries :: bool
  use_global_list :: bool
  apply_cache_factor_from_config :: bool

record ('k, 'v) lru_cache =
  lru_lists :: "nat node_store"
  lru_nodes :: "nat \<Rightarrow> ('k, 'v) lru_node option"
  next_lru_node :: nat
  lru_dict :: "('k, nat) dict"
  list_root :: nat
  global_root :: nat
  lru_max_size :: int
  lru_original_max_size :: int
  cached_cache_len :: int
  extra_index :: "('k, 'k list) dict"
  callbacks_run :: "nat list"

definition read_lru_node :: "('k, 'v) lru_cache \<Rightarrow> nat \<Rightarrow> ('k, 'v) lru_node py" where
  "read_lru_node s a = (case lru_nodes s a of None \<Rightarrow> Inl AttributeError | Some n \<Rightarrow> Inr n)"

definition update_lru_node :: "nat \<Rightarrow> (('k, 'v) lru_node \<Rightarrow> ('k, 'v) lru_node) \<Rightarrow> ('k, 'v) lru_cache \<Rightarrow> ('k, 'v) lru_cache" where
  "update_lru_node a f s = s\<lparr>lru_nodes := (lru_nodes s)(a := map_option f (lru_nodes s a))\<rparr>"

section \<open>The methods of an entry\<close>

definition merge_callbacks :: "nat list \<Rightarrow> nat list option \<Rightarrow> nat list option" where
  "merge_callbacks cbs old =
     (if cbs = [] then old else Some (fold set_add cbs (case old of None \<Rightarrow> [] | Some l \<Rightarrow> l)))"

definition add_callbacks :: "nat \<Rightarrow> nat list \<Rightarrow> ('k, 'v) lru_cache \<Rightarrow> ('k, 'v) lru_cache" where
  "add_callbacks a cbs = update_lru_node a (\<lambda>n. n\<lparr>node_callbacks := merge_callbacks cbs (node_callbacks n)\<rparr>)"

definition run_and_clear_callbacks :: "nat \<Rightarrow> ('k, 'v) lru_cache \<Rightarrow> ('k, 'v) lru_cache py" where
  "run_and_clear_callbacks a s =
     py_bind (read_lru_node s a) (\<lambda>n.
       case node_callbacks n of
         None \<Rightarrow> Inr s
       | Some l \<Rightarrow> if l = [] then Inr s
           else Inr (update_lru_node a (\<lambda>n. n\<lparr>node_callbacks := None\<rparr>) (s\<lparr>callbacks_run := callbacks_run s @ l\<rparr>)))"

definition update_last_access :: "int \<Rightarrow> nat \<Rightarrow> nat node_store \<Rightarrow> nat node_store" where
  "update_last_access now a = update_node a (\<lambda>n. n\<lparr>last_access := Some now\<rparr>)"

definition new_lru_node ::
    "('k, 'v) lru_config \<Rightarrow> int \<Rightarrow> 'k \<Rightarrow> 'v \<Rightarrow> nat list \<Rightarrow> ('k, 'v) lru_cache \<Rightarrow> (nat \<times> ('k, 'v) lru_cache) py" where
  "new_lru_node cfg now k v cbs s =
     (let a = next_lru_node s
      in py_bind (insert_after a (list_root s) (lru_lists s)) (\<lambda>(ln, h).
         py_bind (if use_global_list cfg \<and> prune_unread_entries cfg
                  then py_bind (insert_after a (global_root s) h) (\<lambda>(gn, h). Inr (Some gn, update_last_access now gn h))
                  else Inr (None, h)) (\<lambda>(gn, h).
           Inr (a, s\<lparr>lru_lists := h, next_lru_node := Suc a,
             lru_nodes := (lru_nodes s)(a \<mapsto> \<lparr>list_node_ref = ln, global_list_node = gn, node_key = k, node_value = v,
               node_callbacks = merge_callbacks cbs None\<rparr>)\<rparr>))))"

definition drop_from_lists :: "nat \<Rightarrow> ('k, 'v) lru_cache \<Rightarrow> ('k, 'v) lru_cache py" where
  "drop_from_lists a s =
     py_bind (read_lru_node s a) (\<lambda>n.
     py_bind (remove_from_list (list_node_ref n) (lru_lists s)) (\<lambda>h.
     py_bind (case global_list_node n of None \<Rightarrow> Inr h | Some g \<Rightarrow> remove_from_list g h) (\<lambda>h.
       Inr (s\<lparr>lru_lists := h\<rparr>))))"

definition move_to_front :: "int \<Rightarrow> nat \<Rightarrow> ('k, 'v) lru_cache \<Rightarrow> ('k, 'v) lru_cache py" where
  "move_to_front now a s =
     py_bind (read_lru_node s a) (\<lambda>n.
     py_bind (move_after (list_node_ref n) (list_root s) (lru_lists s)) (\<lambda>h.
     py_bind (case global_list_node n of
                None \<Rightarrow> Inr h
              | Some g \<Rightarrow> py_bind (move_after g (global_root s) h) (\<lambda>h. Inr (update_last_access now g h))) (\<lambda>h.
       Inr (s\<lparr>lru_lists := h\<rparr>))))"

section \<open>The cache\<close>

definition cache_len :: "('k, 'v) lru_config \<Rightarrow> ('k, 'v) lru_cache \<Rightarrow> int" where
  "cache_len cfg s = (case size_callback cfg of None \<Rightarrow> int (length (lru_dict s)) | Some _ \<Rightarrow> cached_cache_len s)"

definition add_node ::
    "('k, 'v) lru_config \<Rightarrow> int \<Rightarrow> 'k \<Rightarrow> 'v \<Rightarrow> nat list \<Rightarrow> ('k, 'v) lru_cache \<Rightarrow> ('k, 'v) lru_cache py" where
  "add_node cfg now k v cbs s =
     py_bind (new_lru_node cfg now k v cbs s) (\<lambda>(a, s).
     let s = s\<lparr>lru_dict := dict_set k a (lru_dict s)\<rparr>;
         s = (case size_callback cfg of None \<Rightarrow> s | Some f \<Rightarrow> s\<lparr>cached_cache_len := cached_cache_len s + f v\<rparr>);
         s = (case extra_index_cb cfg of
                None \<Rightarrow> s
              | Some cb \<Rightarrow> s\<lparr>extra_index :=
                  dict_set (cb k v) (set_add k (dict_get_default (extra_index s) (cb k v) [])) (extra_index s)\<rparr>)
     in Inr s)"

text \<open>\<open>mapped_keys.discard\<close>, and the index key goes when no key is left.\<close>

definition discard_extra_index :: "'k \<Rightarrow> 'k \<Rightarrow> ('k, 'k list) dict \<Rightarrow> ('k, 'k list) dict" where
  "discard_extra_index i k d =
     (case dict_get d i of
        None \<Rightarrow> d
      | Some ks \<Rightarrow> if removeAll k ks = [] then dict_del i d else dict_set i (removeAll k ks) d)"

definition delete_node :: "('k, 'v) lru_config \<Rightarrow> nat \<Rightarrow> ('k, 'v) lru_cache \<Rightarrow> (int \<times> ('k, 'v) lru_cache) py" where
  "delete_node cfg a s =
     py_bind (drop_from_lists a s) (\<lambda>s.
     py_bind (read_lru_node s a) (\<lambda>n.
     let deleted_len = (case size_callback cfg of None \<Rightarrow> 1 | Some f \<Rightarrow> f (node_value n));
         s = (case size_callback cfg of None \<Rightarrow> s | Some _ \<Rightarrow> s\<lparr>cached_cache_len := cached_cache_len s - deleted_len\<rparr>)
     in py_bind (run_and_clear_callbacks a s) (\<lambda>s.
        let s = (case extra_index_cb cfg of
                   None \<Rightarrow> s
                 | Some cb \<Rightarrow> s\<lparr>extra_index :=
                     discard_extra_index (cb (node_key n) (node_value n)) (node_key n) (extra_index s)\<rparr>)
        in Inr (deleted_len, s))))"

text \<open>The loop gets one step more than there are entries.\<close>

fun lru_evict_loop :: "('k, 'v) lru_config \<Rightarrow> nat \<Rightarrow> ('k, 'v) lru_cache \<Rightarrow> ('k, 'v) lru_cache py" where
  "lru_evict_loop cfg 0 s = Inl OutOfFuel"
| "lru_evict_loop cfg (Suc fuel) s =
     (if cache_len cfg s > lru_max_size s
      then py_bind (read_node (lru_lists s) (list_root s)) (\<lambda>r.
           case prev_node r of
             None \<Rightarrow> Inl AssertionError
           | Some todelete \<Rightarrow>
               py_bind (get_cache_entry (lru_lists s) todelete) (\<lambda>e.
               case e of
                 None \<Rightarrow> Inl AssertionError
               | Some a \<Rightarrow>
                   py_bind (delete_node cfg a s) (\<lambda>(evicted_len, s).
                   py_bind (read_lru_node s a) (\<lambda>n.
                     lru_evict_loop cfg fuel (s\<lparr>lru_dict := dict_del (node_key n) (lru_dict s)\<rparr>)))))
      else Inr s)"

definition lru_evict :: "('k, 'v) lru_config \<Rightarrow> ('k, 'v) lru_cache \<Rightarrow> ('k, 'v) lru_cache py" where
  "lru_evict cfg s = lru_evict_loop cfg (Suc (length (lru_dict s))) s"

definition cache_get ::
    "int \<Rightarrow> 'k \<Rightarrow> nat list \<Rightarrow> bool \<Rightarrow> ('k, 'v) lru_cache \<Rightarrow> ('v option \<times> ('k, 'v) lru_cache) py" where
  "cache_get now k cbs update_last s =
     (case dict_get (lru_dict s) k of
        None \<Rightarrow> Inr (None, s)
      | Some a \<Rightarrow>
          py_bind (if update_last then move_to_front now a s else Inr s) (\<lambda>s.
          let s = add_callbacks a cbs s
          in py_bind (read_lru_node s a) (\<lambda>n. Inr (Some (node_value n), s))))"

definition cache_set ::
    "('k, 'v) lru_config \<Rightarrow> int \<Rightarrow> 'k \<Rightarrow> 'v \<Rightarrow> nat list \<Rightarrow> ('k, 'v) lru_cache \<Rightarrow> ('k, 'v) lru_cache py" where
  "cache_set cfg now k v cbs s =
     py_bind (case dict_get (lru_dict s) k of
        Some a \<Rightarrow>
          py_bind (read_lru_node s a) (\<lambda>n.
          py_bind (if v \<noteq> node_value n then run_and_clear_callbacks a s else Inr s) (\<lambda>s.
          let s = (case size_callback cfg of
                     None \<Rightarrow> s
                   | Some f \<Rightarrow> s\<lparr>cached_cache_len := cached_cache_len s - f (node_value n) + f v\<rparr>);
              s = add_callbacks a cbs s
          in py_bind (move_to_front now a s) (\<lambda>s. Inr (update_lru_node a (\<lambda>n. n\<lparr>node_value := v\<rparr>) s))))
      | None \<Rightarrow> add_node cfg now k v (remdups cbs) s)
     (lru_evict cfg)"

definition cache_set_default ::
    "('k, 'v) lru_config \<Rightarrow> int \<Rightarrow> 'k \<Rightarrow> 'v \<Rightarrow> ('k, 'v) lru_cache \<Rightarrow> ('v \<times> ('k, 'v) lru_cache) py" where
  "cache_set_default cfg now k v s =
     (case dict_get (lru_dict s) k of
        Some a \<Rightarrow> py_bind (read_lru_node s a) (\<lambda>n. Inr (node_value n, s))
      | None \<Rightarrow> py_bind (add_node cfg now k v [] s) (\<lambda>s. py_bind (lru_evict cfg s) (\<lambda>s. Inr (v, s))))"

definition cache_pop :: "('k, 'v) lru_config \<Rightarrow> 'k \<Rightarrow> ('k, 'v) lru_cache \<Rightarrow> ('v option \<times> ('k, 'v) lru_cache) py" where
  "cache_pop cfg k s =
     (case dict_get (lru_dict s) k of
        None \<Rightarrow> Inr (None, s)
      | Some a \<Rightarrow>
          py_bind (delete_node cfg a s) (\<lambda>(evicted_len, s).
          py_bind (read_lru_node s a) (\<lambda>n.
            Inr (Some (node_value n), s\<lparr>lru_dict := dict_del (node_key n) (lru_dict s)\<rparr>))))"

definition cache_del_multi :: "('k, 'v) lru_config \<Rightarrow> 'k \<Rightarrow> ('k, 'v) lru_cache \<Rightarrow> ('k, 'v) lru_cache py" where
  "cache_del_multi cfg k s =
     (case dict_get (lru_dict s) k of
        None \<Rightarrow> Inr s
      | Some a \<Rightarrow> py_bind (delete_node cfg a (s\<lparr>lru_dict := dict_del k (lru_dict s)\<rparr>)) (\<lambda>(deleted_len, s). Inr s))"

definition cache_clear :: "('k, 'v) lru_config \<Rightarrow> ('k, 'v) lru_cache \<Rightarrow> ('k, 'v) lru_cache py" where
  "cache_clear cfg s =
     py_bind (py_for (\<lambda>a s. py_bind (run_and_clear_callbacks a s) (drop_from_lists a)) (map snd (lru_dict s)) s) (\<lambda>s.
     py_bind (read_node (lru_lists s) (list_root s)) (\<lambda>r.
     py_bind (require (next_node r = Some (list_root s)) AssertionError) (\<lambda>_.
     py_bind (require (prev_node r = Some (list_root s)) AssertionError) (\<lambda>_.
     let s = s\<lparr>lru_dict := []\<rparr>;
         s = (case size_callback cfg of None \<Rightarrow> s | Some _ \<Rightarrow> s\<lparr>cached_cache_len := 0\<rparr>)
     in Inr (s\<lparr>extra_index := []\<rparr>)))))"

definition cache_contains :: "'k \<Rightarrow> ('k, 'v) lru_cache \<Rightarrow> bool" where
  "cache_contains k s = dict_has (lru_dict s) k"

definition cache_invalidate_on_extra_index ::
    "('k, 'v) lru_config \<Rightarrow> 'k \<Rightarrow> ('k, 'v) lru_cache \<Rightarrow> ('k, 'v) lru_cache py" where
  "cache_invalidate_on_extra_index cfg i s =
     py_bind (require (extra_index_cb cfg \<noteq> None) AssertionError) (\<lambda>_.
     case dict_get (extra_index s) i of
       None \<Rightarrow> Inr s
     | Some ks \<Rightarrow>
         py_for (\<lambda>k s. case dict_get (lru_dict s) k of
                     None \<Rightarrow> Inr s
                   | Some a \<Rightarrow> py_bind (delete_node cfg a (s\<lparr>lru_dict := dict_del k (lru_dict s)\<rparr>))
                       (\<lambda>(evicted_len, s). Inr s))
           ks (s\<lparr>extra_index := dict_del i (extra_index s)\<rparr>))"

definition lru_getitem :: "int \<Rightarrow> 'k \<Rightarrow> ('k, 'v) lru_cache \<Rightarrow> ('v \<times> ('k, 'v) lru_cache) py" where
  "lru_getitem now k s =
     py_bind (cache_get now k [] True s) (\<lambda>(r, s). case r of None \<Rightarrow> Inl KeyError | Some v \<Rightarrow> Inr (v, s))"

definition lru_set_cache_factor :: "('k, 'v) lru_config \<Rightarrow> rat \<Rightarrow> ('k, 'v) lru_cache \<Rightarrow> ('k, 'v) lru_cache py" where
  "lru_set_cache_factor cfg factor s =
     (if \<not> apply_cache_factor_from_config cfg then Inr s
      else let new_size = truncate_rat (of_int (lru_original_max_size s) * factor)
           in if new_size \<noteq> lru_max_size s then lru_evict cfg (s\<lparr>lru_max_size := new_size\<rparr>) else Inr s)"

text \<open>The module makes the global root, the constructor the root of the cache.\<close>

definition new_lru_cache :: "('k, 'v) lru_config \<Rightarrow> int \<Rightarrow> rat \<Rightarrow> ('k, 'v) lru_cache" where
  "new_lru_cache cfg max_size factor =
     (let (g, h) = create_root_node \<lparr>node_at = (\<lambda>_. None), free_addr = 0\<rparr>;
          (r, h) = create_root_node h
      in \<lparr>lru_lists = h, lru_nodes = (\<lambda>_. None), next_lru_node = 0, lru_dict = [], list_root = r, global_root = g,
          lru_max_size = (if apply_cache_factor_from_config cfg then truncate_rat (of_int max_size * factor) else max_size),
          lru_original_max_size = max_size, cached_cache_len = 0, extra_index = [], callbacks_run = []\<rparr>)"

section \<open>Expiry of old entries\<close>

definition drop_from_cache :: "('k, 'v) lru_config \<Rightarrow> nat \<Rightarrow> ('k, 'v) lru_cache \<Rightarrow> ('k, 'v) lru_cache py" where
  "drop_from_cache cfg a s =
     py_bind (read_lru_node s a) (\<lambda>n.
     py_bind (cache_pop cfg (node_key n) s) (\<lambda>(r, s). if r = None then drop_from_lists a s else Inr s))"

text \<open>The settings of the automatic tuning. A reading of the allocated memory, \<open>mem j\<close> for the j-th, can
  fail; \<open>mem\<close> is absent when there is no allocator to ask.\<close>

record autotune =
  max_cache_memory_usage :: int
  target_cache_memory_usage :: int
  min_cache_ttl_msec :: int

definition evicting_at_start :: "(nat \<Rightarrow> int option) option \<Rightarrow> autotune option \<Rightarrow> bool" where
  "evicting_at_start mem tune =
     (case (mem, tune) of
        (Some m, Some t) \<Rightarrow> (case m 0 of None \<Rightarrow> False | Some usage \<Rightarrow> usage > max_cache_memory_usage t)
      | _ \<Rightarrow> False)"

definition still_evicting :: "(nat \<Rightarrow> int option) option \<Rightarrow> autotune option \<Rightarrow> nat \<Rightarrow> bool \<Rightarrow> bool" where
  "still_evicting mem tune i evicting =
     (case (mem, tune) of
        (Some m, Some t) \<Rightarrow>
          if evicting \<and> (i + 1) mod 100 = 0
          then (case m (Suc i) of None \<Rightarrow> False | Some usage \<Rightarrow> \<not> usage < target_cache_memory_usage t)
          else evicting
      | _ \<Rightarrow> evicting)"

text \<open>Whether an entry last used at \<open>t\<close> stays: \<open>expiry\<close> is absent for an infinite time.\<close>

definition young :: "int \<Rightarrow> rat option \<Rightarrow> autotune option \<Rightarrow> bool \<Rightarrow> int \<Rightarrow> bool" where
  "young now expiry tune evicting t \<longleftrightarrow>
     (case expiry of None \<Rightarrow> True | Some e \<Rightarrow> of_int t > of_int now - e) \<and> \<not> evicting \<or>
     evicting \<and> (case tune of None \<Rightarrow> False | Some c \<Rightarrow> of_int (now - t) < (of_int (min_cache_ttl_msec c) / 1000 :: rat))"

text \<open>The walk from the end of the global list. Every ten thousand entries it waits, and the rest of the
  server runs: \<open>others\<close> is what it does to the cache meanwhile.\<close>

fun expire_loop ::
    "('k, 'v) lru_config \<Rightarrow> int \<Rightarrow> rat option \<Rightarrow> autotune option \<Rightarrow> (nat \<Rightarrow> int option) option \<Rightarrow>
     (nat \<Rightarrow> ('k, 'v) lru_cache \<Rightarrow> ('k, 'v) lru_cache) \<Rightarrow> nat \<Rightarrow> nat \<Rightarrow> nat \<Rightarrow> bool \<Rightarrow> ('k, 'v) lru_cache \<Rightarrow>
     ('k, 'v) lru_cache py" where
  "expire_loop cfg now expiry tune mem others 0 node i evicting s = Inl OutOfFuel"
| "expire_loop cfg now expiry tune mem others (Suc fuel) node i evicting s =
     (if node = global_root s then Inr s
      else py_bind (read_node (lru_lists s) node) (\<lambda>n.
      case last_access n of
        None \<Rightarrow> Inl AssertionError
      | Some t \<Rightarrow>
          if young now expiry tune evicting t then Inr s
          else case (prev_node n, cache_entry n) of
            (Some nx, Some a) \<Rightarrow>
              py_bind (drop_from_cache cfg a s) (\<lambda>s.
              let evicting = still_evicting mem tune i evicting;
                  s = (if (i + 1) mod 10000 = 0 then others i s else s)
              in py_bind (read_node (lru_lists s) nx) (\<lambda>m.
                 if prev_node m = None then Inr s
                 else expire_loop cfg now expiry tune mem others fuel nx (i + 1) evicting s))
          | _ \<Rightarrow> Inl AssertionError))"

definition expire_old_entries ::
    "('k, 'v) lru_config \<Rightarrow> int \<Rightarrow> rat option \<Rightarrow> autotune option \<Rightarrow> (nat \<Rightarrow> int option) option \<Rightarrow>
     (nat \<Rightarrow> ('k, 'v) lru_cache \<Rightarrow> ('k, 'v) lru_cache) \<Rightarrow> nat \<Rightarrow> ('k, 'v) lru_cache \<Rightarrow> ('k, 'v) lru_cache py" where
  "expire_old_entries cfg now expiry tune mem others fuel s =
     py_bind (read_node (lru_lists s) (global_root s)) (\<lambda>r.
       case prev_node r of
         None \<Rightarrow> Inl AssertionError
       | Some node \<Rightarrow> expire_loop cfg now expiry tune mem others fuel node 0 (evicting_at_start mem tune) s)"

end
