(* ===== verification/Lru_Cache_Props.thy ===== *)
theory Lru_Cache_Props
  imports Lru_Cache
begin

text \<open>
  The cache with its linked lists implements an abstract cache: a list of items, the most recently
  used first. \<open>linked\<close> says what the two linked lists hold, \<open>lru_rep\<close> relates a state of the
  cache to the abstract one, and every operation is shown to return and to do what the abstract
  operation does.
\<close>

section \<open>The two lists of a cache\<close>

definition gnodes :: "(nat \<Rightarrow> nat option) \<Rightarrow> nat list \<Rightarrow> nat list" where
  "gnodes G as = concat (map (\<lambda>a. case G a of None \<Rightarrow> [] | Some g \<Rightarrow> [g]) as)"

lemma gnodes_simps [simp]:
  "gnodes G [] = []" "gnodes G (as @ bs) = gnodes G as @ gnodes G bs"
  "gnodes G (a # as) = (case G a of None \<Rightarrow> [] | Some g \<Rightarrow> [g]) @ gnodes G as"
  by (simp_all add: gnodes_def)

lemma set_gnodes: "g \<in> set (gnodes G as) \<longleftrightarrow> (\<exists>a \<in> set as. G a = Some g)"
  by (induction as) (auto split: option.splits)

lemma gnodes_cong: "(\<And>a. a \<in> set as \<Longrightarrow> G a = G' a) \<Longrightarrow> gnodes G as = gnodes G' as"
  unfolding gnodes_def by (rule arg_cong[of _ _ concat]) (auto intro: map_cong)

text \<open>The entries \<open>as\<close> are in the list of the cache through the nodes \<open>L\<close>, and in the global list through
  the nodes \<open>G\<close>, if it is used; a node that is in neither list has been unlinked.\<close>

definition carries :: "bool \<Rightarrow> nat node_store \<Rightarrow> nat \<Rightarrow> nat option \<Rightarrow> nat \<Rightarrow> bool" where
  "carries tr h l g a \<longleftrightarrow> (\<exists>t. payload h l = Some (Some a, t)) \<and> (tr \<longleftrightarrow> g \<noteq> None) \<and>
     (\<forall>x. g = Some x \<longrightarrow> (\<exists>t. payload h x = Some (Some a, Some t)))"

definition linked ::
    "bool \<Rightarrow> nat node_store \<Rightarrow> nat \<Rightarrow> nat \<Rightarrow> (nat \<Rightarrow> nat) \<Rightarrow> (nat \<Rightarrow> nat option) \<Rightarrow> nat list \<Rightarrow> bool" where
  "linked tr h lr gr L G as \<longleftrightarrow> wf_store h \<and> ring h lr (map L as) \<and> ring h gr (gnodes G as) \<and>
     set (lr # map L as) \<inter> set (gr # gnodes G as) = {} \<and>
     (\<forall>x. x \<notin> set (lr # map L as) \<longrightarrow> x \<notin> set (gr # gnodes G as) \<longrightarrow> prv h x = None) \<and>
     (\<forall>a \<in> set as. carries tr h (L a) (G a) a)"

definition stamp :: "nat node_store \<Rightarrow> nat option \<Rightarrow> int option" where
  "stamp h g = (case g of None \<Rightarrow> None | Some x \<Rightarrow> Option.bind (payload h x) snd)"

lemma linked_cong:
  assumes "\<And>a. a \<in> set as \<Longrightarrow> L a = L' a" and "\<And>a. a \<in> set as \<Longrightarrow> G a = G' a"
  shows "linked tr h lr gr L G as = linked tr h lr gr L' G' as"
proof -
  have "map L as = map L' as" "gnodes G as = gnodes G' as" using assms by (auto intro: gnodes_cong)
  with assms show ?thesis by (simp add: linked_def cong: ball_cong image_cong map_cong)
qed

lemma linked_distinct: "linked tr h lr gr L G as \<Longrightarrow> distinct as"
  by (auto simp: linked_def ring_def distinct_map)

lemma linked_remove:
  assumes "linked tr h lr gr L G (us @ a # vs)"
  obtains h1 h2 where "remove_from_list (L a) h = Inr h1"
    and "(case G a of None \<Rightarrow> Inr h1 | Some g \<Rightarrow> remove_from_list g h1) = Inr h2"
    and "linked tr h2 lr gr L G (us @ vs)" and "\<forall>b \<in> set (us @ vs). stamp h2 (G b) = stamp h (G b)"
    and "alloc h2 = alloc h"
proof -
  let ?ls = "lr # map L us @ L a # map L vs" and ?gs = "gr # gnodes G (us @ a # vs)"
  from assms have ring: "ring h lr (map L us @ L a # map L vs)" and gring: "ring h gr (gnodes G (us @ a # vs))"
    and disj: "set ?ls \<inter> set ?gs = {}" and wf: "wf_store h"
    and off: "\<And>x. x \<notin> set ?ls \<Longrightarrow> x \<notin> set ?gs \<Longrightarrow> prv h x = None"
    and pay: "\<And>b. b \<in> set (us @ a # vs) \<Longrightarrow> carries tr h (L b) (G b) b"
    by (auto simp: linked_def)
  from remove_from_list_ring[OF ring] obtain h1 where h1: "remove_from_list (L a) h = Inr h1"
      "ring h1 lr (map L us @ map L vs)" "nxt h1 (L a) = None" "prv h1 (L a) = None"
      "payload h1 = (payload h)(L a := map_option (\<lambda>(_, t). (None, t)) (payload h (L a)))" "alloc h1 = alloc h"
      "free_addr h1 = free_addr h" "links_kept (set ?ls) h h1" .
  have gring1: "ring h1 gr (gnodes G (us @ a # vs))"
    by (rule ring_kept[OF gring h1(8)]) (use disj in auto)
  have dist: "distinct ?ls" "distinct ?gs" using ring_distinct[OF ring] ring_distinct[OF gring] by auto
  have wf1: "wf_store h1" using wf h1 by (simp add: wf_store_def)
  have off1: "prv h1 x = None" if "x \<notin> set (lr # map L (us @ vs))" "x \<notin> set ?gs" for x
    using that off[of x] h1(4,8) by (cases "x = L a") (auto simp: links_kept_def)
  have La: "L b \<noteq> L a" "G b \<noteq> Some (L a)" if "b \<in> set (us @ vs)" for b
    using that dist(1) disj set_gnodes[of "L a" G "us @ a # vs"] by (auto simp: image_iff)
  show thesis
  proof (cases "G a")
    case None
    have "carries tr h1 (L b) (G b) b" if b: "b \<in> set (us @ vs)" for b
      using pay[of b] b La[OF b] by (auto simp: carries_def h1(5))
    then have "linked tr h1 lr gr L G (us @ vs)"
      using h1(2) gring1 wf1 disj off1 None by (auto simp: linked_def)
    moreover have "stamp h1 (G b) = stamp h (G b)" if "b \<in> set (us @ vs)" for b
      using La[OF that] by (auto simp: stamp_def h1(5) split: option.splits)
    ultimately show thesis using h1 None by (intro that[of h1 h1]) auto
  next
    case (Some g)
    with gring1 have "ring h1 gr (gnodes G us @ g # gnodes G vs)" by simp
    from remove_from_list_ring[OF this] obtain h2 where h2: "remove_from_list g h1 = Inr h2"
      "ring h2 gr (gnodes G us @ gnodes G vs)" "nxt h2 g = None" "prv h2 g = None"
      "payload h2 = (payload h1)(g := map_option (\<lambda>(_, t). (None, t)) (payload h1 g))" "alloc h2 = alloc h1"
      "free_addr h2 = free_addr h1" "links_kept (set (gr # gnodes G us @ g # gnodes G vs)) h1 h2" .
    have gs: "set ?gs = set (gr # gnodes G us @ g # gnodes G vs)" using Some by simp
    have ring2: "ring h2 lr (map L (us @ vs))"
      using ring_kept[OF h1(2) h2(8)] disj unfolding gs by auto
    have g: "L b \<noteq> g" "G b \<noteq> Some g" if "b \<in> set (us @ vs)" for b
      using that dist(2) disj Some set_gnodes[of g G us] set_gnodes[of g G vs] by (auto simp: image_iff)
    have "linked tr h2 lr gr L G (us @ vs)"
    proof -
      have "prv h2 x = None" if "x \<notin> set (lr # map L (us @ vs))" "x \<notin> set (gr # gnodes G (us @ vs))" for x
        using that off1[of x] h2(4,8) Some by (cases "x = g") (auto simp: links_kept_def)
      moreover have "carries tr h2 (L b) (G b) b" if b: "b \<in> set (us @ vs)" for b
        using pay[of b] b La[OF b] g[OF b] by (auto simp: carries_def h2(5) h1(5))
      moreover have "wf_store h2" using wf1 h2 by (simp add: wf_store_def)
      ultimately show ?thesis using ring2 h2(2) disj Some by (auto simp: linked_def)
    qed
    moreover have "stamp h2 (G b) = stamp h (G b)" if "b \<in> set (us @ vs)" for b
      using La[OF that] g[OF that] by (auto simp: stamp_def h1(5) h2(5) split: option.splits)
    ultimately show thesis using h1 h2 Some by (intro that[of h1 h2]) auto
  qed
qed

lemma alloc_payload: "alloc h a \<longleftrightarrow> payload h a \<noteq> None"
  by (simp add: alloc_def payload_def)

lemma linked_insert:
  assumes "linked tr h lr gr L G as" and "a \<notin> set as"
  obtains h1 h2 gn where "insert_after a lr h = Inr (free_addr h, h1)"
    and "(if tr then py_bind (insert_after a gr h1) (\<lambda>(gn, h). Inr (Some gn, update_last_access now gn h)) else Inr (None, h1)) =
      Inr (gn, h2)"
    and "linked tr h2 lr gr (L(a := free_addr h)) (G(a := gn)) (a # as)"
    and "\<forall>b \<in> set as. stamp h2 (G b) = stamp h (G b)" and "stamp h2 gn = (if tr then Some now else None)"
    and "\<forall>x. alloc h x \<longrightarrow> alloc h2 x"
proof -
  let ?ls = "lr # map L as" and ?gs = "gr # gnodes G as" and ?n = "free_addr h"
  from assms have ring: "ring h lr (map L as)" and gring: "ring h gr (gnodes G as)"
    and disj: "set ?ls \<inter> set ?gs = {}" and wf: "wf_store h"
    and off: "\<And>x. x \<notin> set ?ls \<Longrightarrow> x \<notin> set ?gs \<Longrightarrow> prv h x = None"
    and pay: "\<And>b. b \<in> set as \<Longrightarrow> carries tr h (L b) (G b) b"
    by (auto simp: linked_def)
  from insert_after_ring[OF wf ring, of a] obtain h1 where h1: "insert_after a lr h = Inr (?n, h1)" "ring h1 lr (?n # map L as)"
      "wf_store h1" "payload h1 = (payload h)(?n \<mapsto> (Some a, None))" "free_addr h1 = Suc ?n"
      "links_kept (insert ?n (set ?ls)) h h1" .
  have old: "x < ?n" if "alloc h x" for x using wf that by (simp add: wf_store_def)
  have new: "?n \<notin> set ?ls" "?n \<notin> set ?gs" using ring_member(3)[OF ring] ring_member(3)[OF gring] old by blast+
  have gring1: "ring h1 gr (gnodes G as)" by (rule ring_kept[OF gring h1(6)]) (use disj new in auto)
  have kept: "map (L(a := ?n)) as = map L as" "\<And>g. gnodes (G(a := g)) as = gnodes G as"
    using assms(2) by (auto intro: gnodes_cong)
  have off1: "prv h1 x = None" if "x \<notin> set (?n # ?ls)" "x \<notin> set ?gs" for x
    using that off[of x] h1(6) by (auto simp: links_kept_def)
  have other: "L b \<noteq> ?n" "G b \<noteq> Some ?n" if "b \<in> set as" for b
    using that new set_gnodes[of ?n G as] by (auto simp: image_iff)
  show thesis
  proof (cases tr)
    case False
    have "linked tr h1 lr gr (L(a := ?n)) (G(a := None)) (a # as)"
    proof -
      have ls: "map (L(a := ?n)) (a # as) = ?n # map L as" and gs: "gnodes (G(a := None)) (a # as) = gnodes G as"
        using kept by simp_all
      have "\<forall>b \<in> set (a # as). carries tr h1 ((L(a := ?n)) b) ((G(a := None)) b) b"
        using pay other False assms(2) by (auto simp: carries_def h1(4))
      moreover have "set (lr # ?n # map L as) \<inter> set ?gs = {}" using disj new by auto
      moreover have "\<forall>x. x \<notin> set (lr # ?n # map L as) \<longrightarrow> x \<notin> set ?gs \<longrightarrow> prv h1 x = None" using off1 by auto
      ultimately show ?thesis unfolding linked_def ls gs using h1(2,3) gring1 by blast
    qed
    moreover have "stamp h1 (G b) = stamp h (G b)" if "b \<in> set as" for b
      using other[OF that] by (auto simp: stamp_def h1(4) split: option.splits)
    moreover have "alloc h1 x" if "alloc h x" for x using that by (simp add: alloc_payload h1(4))
    ultimately show thesis using h1(1) False by (intro that[of h1 None h1]) (simp_all add: stamp_def)
  next
    case True
    let ?g = "Suc ?n"
    from insert_after_ring[OF h1(3) gring1, of a] obtain h2 where h2: "insert_after a gr h1 = Inr (?g, h2)"
        "ring h2 gr (?g # gnodes G as)" "wf_store h2" "payload h2 = (payload h1)(?g \<mapsto> (Some a, None))"
        "links_kept (insert ?g (set ?gs)) h1 h2" by (auto simp: h1(5))
    have g: "?g \<notin> set ?ls" "?g \<notin> set ?gs"
      using ring_member(3)[OF ring] ring_member(3)[OF gring] old Suc_n_not_n less_SucI by blast+
    have ring2: "ring h2 lr (?n # map L as)" by (rule ring_kept[OF h1(2) h2(5)]) (use disj new g in auto)
    have og: "L b \<noteq> ?g" "G b \<noteq> Some ?g" if "b \<in> set as" for b
      using that g set_gnodes[of ?g G as] by (auto simp: image_iff)
    let ?h = "update_last_access now ?g h2"
    have views: "nxt ?h = nxt h2" "prv ?h = prv h2" "alloc ?h = alloc h2" "free_addr ?h = free_addr h2"
        "payload ?h = (payload h)(?n \<mapsto> (Some a, None), ?g \<mapsto> (Some a, Some now))"
      by (auto simp: update_last_access_def h2(4) h1(4))
    have "linked tr ?h lr gr (L(a := ?n)) (G(a \<mapsto> ?g)) (a # as)"
    proof -
      have ls: "map (L(a := ?n)) (a # as) = ?n # map L as" and gs: "gnodes (G(a \<mapsto> ?g)) (a # as) = ?g # gnodes G as"
        using kept by simp_all
      have "\<forall>b \<in> set (a # as). carries tr ?h ((L(a := ?n)) b) ((G(a \<mapsto> ?g)) b) b"
        using pay other og True assms(2) unfolding carries_def views by auto
      moreover have "set (lr # ?n # map L as) \<inter> set (gr # ?g # gnodes G as) = {}" using disj new g by auto
      moreover have "\<forall>x. x \<notin> set (lr # ?n # map L as) \<longrightarrow> x \<notin> set (gr # ?g # gnodes G as) \<longrightarrow> prv ?h x = None"
        using off1 h2(5) by (auto simp: links_kept_def views)
      moreover have "wf_store ?h" "ring ?h lr (?n # map L as)" "ring ?h gr (?g # gnodes G as)"
        using h2(2,3) ring2 by (simp_all add: wf_store_def ring_def views)
      ultimately show ?thesis unfolding linked_def ls gs by blast
    qed
    moreover have "stamp ?h (G b) = stamp h (G b)" if "b \<in> set as" for b
      using other[OF that] og[OF that] by (auto simp: stamp_def views split: option.splits)
    moreover have "alloc ?h x" if "alloc h x" for x using that unfolding alloc_payload views(5) by simp
    ultimately show thesis using h1(1) h2(1) True by (intro that[of h1 "Some ?g" ?h]) (simp_all add: stamp_def views)
  qed
qed

lemma linked_move:
  assumes "linked tr h lr gr L G (us @ a # vs)"
  obtains h1 h2 where "move_after (L a) lr h = Inr h1"
    and "(case G a of None \<Rightarrow> Inr h1
          | Some g \<Rightarrow> py_bind (move_after g gr h1) (\<lambda>h. Inr (update_last_access now g h))) = Inr h2"
    and "linked tr h2 lr gr L G (a # us @ vs)" and "\<forall>b \<in> set (us @ vs). stamp h2 (G b) = stamp h (G b)"
    and "stamp h2 (G a) = (if tr then Some now else None)" and "alloc h2 = alloc h"
proof -
  let ?ls = "lr # map L us @ L a # map L vs" and ?gs = "gr # gnodes G (us @ a # vs)"
  from assms have ring: "ring h lr (map L us @ L a # map L vs)" and gring: "ring h gr (gnodes G (us @ a # vs))"
    and disj: "set ?ls \<inter> set ?gs = {}" and wf: "wf_store h"
    and off: "\<And>x. x \<notin> set ?ls \<Longrightarrow> x \<notin> set ?gs \<Longrightarrow> prv h x = None"
    and pay: "\<And>b. b \<in> set (us @ a # vs) \<Longrightarrow> carries tr h (L b) (G b) b"
    by (auto simp: linked_def)
  from move_after_ring[OF ring] obtain h1 where h1: "move_after (L a) lr h = Inr h1" "ring h1 lr (L a # map L us @ map L vs)"
      "payload h1 = payload h" "alloc h1 = alloc h" "free_addr h1 = free_addr h" "links_kept (set ?ls) h h1" .
  have gring1: "ring h1 gr (gnodes G (us @ a # vs))" by (rule ring_kept[OF gring h1(6)]) (use disj in auto)
  have wf1: "wf_store h1" using wf h1 by (simp add: wf_store_def)
  have off1: "prv h1 x = None" if "x \<notin> set ?ls" "x \<notin> set ?gs" for x
    using that off[of x] h1(6) by (auto simp: links_kept_def)
  show thesis
  proof (cases "G a")
    case None
    with pay[of a] have tr: "\<not> tr" by (auto simp: carries_def)
    have ls: "map L (a # us @ vs) = L a # map L us @ map L vs" and gs: "gnodes G (a # us @ vs) = gnodes G (us @ a # vs)"
      using None by simp_all
    have "\<forall>b \<in> set (a # us @ vs). carries tr h1 (L b) (G b) b" using pay by (auto simp: carries_def h1(3))
    moreover have "set (lr # L a # map L us @ map L vs) = set ?ls" by auto
    ultimately have "linked tr h1 lr gr L G (a # us @ vs)"
      unfolding linked_def ls gs using h1(2) gring1 wf1 disj off1 by blast
    then show thesis using h1 None tr by (intro that[of h1 h1]) (simp_all add: stamp_def cong: option.case_cong)
  next
    case (Some g)
    with pay[of a] have tr: tr by (auto simp: carries_def)
    from Some gring1 have "ring h1 gr (gnodes G us @ g # gnodes G vs)" by simp
    from move_after_ring[OF this] obtain h2 where h2: "move_after g gr h1 = Inr h2" "ring h2 gr (g # gnodes G us @ gnodes G vs)"
      "payload h2 = payload h1" "alloc h2 = alloc h1" "free_addr h2 = free_addr h1"
      "links_kept (set (gr # gnodes G us @ g # gnodes G vs)) h1 h2" .
    let ?h = "update_last_access now g h2"
    have views: "nxt ?h = nxt h2" "prv ?h = prv h2" "alloc ?h = alloc h" "free_addr ?h = free_addr h"
        "payload ?h = (payload h)(g := map_option (\<lambda>(e, _). (e, Some now)) (payload h g))"
      by (auto simp: update_last_access_def h2 h1)
    have gs: "set ?gs = set (gr # gnodes G us @ g # gnodes G vs)" using Some by simp
    have ring2: "ring h2 lr (L a # map L us @ map L vs)"       using ring_kept[OF h1(2) h2(6)] disj unfolding gs by auto
    have og: "L b \<noteq> g" if "b \<in> set (us @ a # vs)" for b using that disj Some by auto
    have dg: "G b \<noteq> Some g" if "b \<in> set (us @ vs)" for b
      using that ring_distinct[OF gring] Some set_gnodes[of g G us] set_gnodes[of g G vs] by auto
    have "linked tr ?h lr gr L G (a # us @ vs)"
    proof -
      have ls: "map L (a # us @ vs) = L a # map L us @ map L vs" and gs': "gnodes G (a # us @ vs) = g # gnodes G us @ gnodes G vs"
        using Some by simp_all
      have "carries tr ?h (L b) (G b) b" if "b \<in> set (us @ a # vs)" for b
        using pay[OF that] og[OF that] unfolding carries_def views by auto
      then have "\<forall>b \<in> set (a # us @ vs). carries tr ?h (L b) (G b) b" by auto
      moreover have "prv ?h x = None" if "x \<notin> set ?ls" "x \<notin> set ?gs" for x
        using off1[OF that] h2(6) that(2) unfolding gs links_kept_def views by simp
      moreover have "wf_store ?h" "ring ?h lr (L a # map L us @ map L vs)" "ring ?h gr (g # gnodes G us @ gnodes G vs)"
        using h2(2) ring2 wf by (simp_all add: wf_store_def ring_def views)
      moreover have "set (lr # L a # map L us @ map L vs) = set ?ls" "set (gr # g # gnodes G us @ gnodes G vs) = set ?gs"
        using gs by auto
      ultimately show ?thesis unfolding linked_def ls gs' using disj by blast
    qed
    moreover have "stamp ?h (G b) = stamp h (G b)" if "b \<in> set (us @ vs)" for b
      using dg[OF that] by (auto simp: stamp_def views split: option.splits)
    moreover have "stamp ?h (G a) = Some now" using pay[of a] Some by (auto simp: stamp_def carries_def views)
    ultimately show thesis using h1(1) h2(1) tr Some by (intro that[of h1 ?h]) (simp_all add: views)
  qed
qed

section \<open>The abstract cache\<close>

record ('k, 'v) lru_item =
  it_key :: 'k
  it_value :: 'v
  it_callbacks :: "nat list"
  it_time :: "int option"

record ('k, 'v) lru_abs =
  ab_items :: "('k, 'v) lru_item list"
  ab_max :: int
  ab_run :: "nat multiset"

definition tracked :: "('k, 'v) lru_config \<Rightarrow> bool" where
  "tracked cfg \<longleftrightarrow> use_global_list cfg \<and> prune_unread_entries cfg"

definition access_time :: "('k, 'v) lru_config \<Rightarrow> int \<Rightarrow> int option" where
  "access_time cfg now = (if tracked cfg then Some now else None)"

definition ab_total :: "('k, 'v) lru_config \<Rightarrow> ('k, 'v) lru_item list \<Rightarrow> int" where
  "ab_total cfg xs = (case size_callback cfg of
     None \<Rightarrow> int (length xs) | Some f \<Rightarrow> sum_list (map (\<lambda>x. f (it_value x)) xs))"

abbreviation item_lookup :: "'k \<Rightarrow> ('k, 'v) lru_item list \<Rightarrow> ('k, 'v) lru_item option" where
  "item_lookup k xs \<equiv> find (\<lambda>x. it_key x = k) xs"

abbreviation without :: "'k \<Rightarrow> ('k, 'v) lru_item list \<Rightarrow> ('k, 'v) lru_item list" where
  "without k xs \<equiv> filter (\<lambda>x. it_key x \<noteq> k) xs"

definition all_callbacks :: "('k, 'v) lru_item list \<Rightarrow> nat multiset" where
  "all_callbacks xs = sum_list (map (\<lambda>x. mset (it_callbacks x)) xs)"

definition ab_drop :: "('k, 'v) lru_item list \<Rightarrow> ('k, 'v) lru_item list \<Rightarrow> ('k, 'v) lru_abs \<Rightarrow> ('k, 'v) lru_abs" where
  "ab_drop kept gone A = A\<lparr>ab_items := kept, ab_run := ab_run A + all_callbacks gone\<rparr>"

text \<open>The items that stay: the least recently used go until the rest fits.\<close>

function shrink :: "(('k, 'v) lru_item list \<Rightarrow> int) \<Rightarrow> int \<Rightarrow> ('k, 'v) lru_item list \<Rightarrow> ('k, 'v) lru_item list" where
  "shrink tot m xs = (if xs \<noteq> [] \<and> tot xs > m then shrink tot m (butlast xs) else xs)"
  by auto
termination by (relation "measure (\<lambda>(tot, m, xs). length xs)") (auto simp: length_greater_0_conv[symmetric] simp del: length_greater_0_conv)

declare shrink.simps [simp del]

definition ab_evict :: "('k, 'v) lru_config \<Rightarrow> ('k, 'v) lru_abs \<Rightarrow> ('k, 'v) lru_abs" where
  "ab_evict cfg A =
     (let kept = shrink (ab_total cfg) (ab_max A) (ab_items A)
      in ab_drop kept (drop (length kept) (ab_items A)) A)"

definition ab_get ::
    "('k, 'v) lru_config \<Rightarrow> int \<Rightarrow> 'k \<Rightarrow> nat list \<Rightarrow> bool \<Rightarrow> ('k, 'v) lru_abs \<Rightarrow> 'v option \<times> ('k, 'v) lru_abs" where
  "ab_get cfg now k cbs upd A =
     (case item_lookup k (ab_items A) of
        None \<Rightarrow> (None, A)
      | Some x \<Rightarrow>
          let y = x\<lparr>it_callbacks := fold set_add cbs (it_callbacks x)\<rparr>
          in (Some (it_value x), A\<lparr>ab_items :=
            if upd then y\<lparr>it_time := access_time cfg now\<rparr> # without k (ab_items A)
            else map (\<lambda>z. if it_key z = k then y else z) (ab_items A)\<rparr>))"

definition ab_insert :: "('k, 'v) lru_config \<Rightarrow> int \<Rightarrow> 'k \<Rightarrow> 'v \<Rightarrow> nat list \<Rightarrow> ('k, 'v) lru_abs \<Rightarrow> ('k, 'v) lru_abs" where
  "ab_insert cfg now k v cbs A =
     A\<lparr>ab_items := \<lparr>it_key = k, it_value = v, it_callbacks = fold set_add cbs [], it_time = access_time cfg now\<rparr> # ab_items A\<rparr>"

definition ab_set ::
    "('k, 'v) lru_config \<Rightarrow> int \<Rightarrow> 'k \<Rightarrow> 'v \<Rightarrow> nat list \<Rightarrow> ('k, 'v) lru_abs \<Rightarrow> ('k, 'v) lru_abs" where
  "ab_set cfg now k v cbs A =
     ab_evict cfg (case item_lookup k (ab_items A) of
        None \<Rightarrow> ab_insert cfg now k v (remdups cbs) A
      | Some x \<Rightarrow>
          let stale = (if v \<noteq> it_value x then it_callbacks x else [])
          in A\<lparr>ab_items := \<lparr>it_key = k, it_value = v,
                 it_callbacks = fold set_add cbs (if v \<noteq> it_value x then [] else it_callbacks x),
                 it_time = access_time cfg now\<rparr> # without k (ab_items A),
               ab_run := ab_run A + mset stale\<rparr>)"

definition ab_remove :: "(('k, 'v) lru_item \<Rightarrow> bool) \<Rightarrow> ('k, 'v) lru_abs \<Rightarrow> ('k, 'v) lru_abs" where
  "ab_remove P A = ab_drop (filter (\<lambda>x. \<not> P x) (ab_items A)) (filter P (ab_items A)) A"

section \<open>What a cache represents\<close>

abbreviation nd :: "('k, 'v) lru_cache \<Rightarrow> nat \<Rightarrow> ('k, 'v) lru_node" where
  "nd s a \<equiv> the (lru_nodes s a)"

abbreviation cbs_of :: "nat list option \<Rightarrow> nat list" where
  "cbs_of c \<equiv> (case c of None \<Rightarrow> [] | Some l \<Rightarrow> l)"

definition item_of :: "nat node_store \<Rightarrow> ('k, 'v) lru_node \<Rightarrow> ('k, 'v) lru_item" where
  "item_of h n = \<lparr>it_key = node_key n, it_value = node_value n, it_callbacks = cbs_of (node_callbacks n),
     it_time = stamp h (global_list_node n)\<rparr>"

definition items :: "('k, 'v) lru_cache \<Rightarrow> nat list \<Rightarrow> ('k, 'v) lru_item list" where
  "items s as = map (\<lambda>a. item_of (lru_lists s) (nd s a)) as"

text \<open>The two lists hold the entries \<open>as\<close>.\<close>

definition core :: "('k, 'v) lru_config \<Rightarrow> ('k, 'v) lru_cache \<Rightarrow> nat list \<Rightarrow> bool" where
  "core cfg s as \<longleftrightarrow>
     linked (tracked cfg) (lru_lists s) (list_root s) (global_root s) (\<lambda>a. list_node_ref (nd s a)) (\<lambda>a. global_list_node (nd s a)) as \<and>
     (\<forall>a. lru_nodes s a \<noteq> None \<longrightarrow> a < next_lru_node s) \<and> (\<forall>a \<in> set as. lru_nodes s a \<noteq> None)"

text \<open>The extra index lists the keys of the items, but for the index keys in \<open>I\<close>.\<close>

definition index_ok :: "'k set \<Rightarrow> ('k, 'v) lru_config \<Rightarrow> ('k, 'k list) dict \<Rightarrow> ('k, 'v) lru_item list \<Rightarrow> bool" where
  "index_ok I cfg d xs \<longleftrightarrow> (\<forall>cb. extra_index_cb cfg = Some cb \<longrightarrow> (\<forall>i. i \<notin> I \<longrightarrow>
     distinct (dict_get_default d i []) \<and>
     (\<forall>k. k \<in> set (dict_get_default d i []) \<longleftrightarrow> (\<exists>x \<in> set xs. it_key x = k \<and> cb k (it_value x) = i))))"

definition lru_rep ::
    "'k set \<Rightarrow> ('k, 'v) lru_config \<Rightarrow> ('k, 'v) lru_cache \<Rightarrow> nat list \<Rightarrow> ('k, 'v) lru_abs \<Rightarrow> bool" where
  "lru_rep I cfg s as A \<longleftrightarrow> core cfg s as \<and> wf_dict (lru_dict s) \<and>
     set (lru_dict s) = (\<lambda>a. (node_key (nd s a), a)) ` set as \<and>
     ab_items A = items s as \<and> ab_max A = lru_max_size s \<and> ab_run A = mset (callbacks_run s) \<and>
     (\<forall>f. size_callback cfg = Some f \<longrightarrow> cached_cache_len s = ab_total cfg (ab_items A)) \<and>
     index_ok I cfg (extra_index s) (ab_items A)"

lemma lru_repD:
  assumes "lru_rep I cfg s as A"
  shows "core cfg s as" "wf_dict (lru_dict s)" "set (lru_dict s) = (\<lambda>a. (node_key (nd s a), a)) ` set as"
    and "ab_items A = items s as" "ab_max A = lru_max_size s" "ab_run A = mset (callbacks_run s)"
    and "size_callback cfg = Some f \<Longrightarrow> cached_cache_len s = ab_total cfg (ab_items A)"
    and "index_ok I cfg (extra_index s) (ab_items A)"
  using assms unfolding lru_rep_def by blast+

lemma core_distinct: "core cfg s as \<Longrightarrow> distinct as"
  by (auto simp: core_def dest: linked_distinct)

lemma items_simps [simp]:
  "items s [] = []" "items s (as @ bs) = items s as @ items s bs"
  "items s (a # as) = item_of (lru_lists s) (nd s a) # items s as" "length (items s as) = length as"
  by (simp_all add: items_def)

lemma items_cong:
  "(\<And>a. a \<in> set as \<Longrightarrow> item_of (lru_lists s) (nd s a) = item_of (lru_lists s') (nd s' a)) \<Longrightarrow> items s as = items s' as"
  by (simp add: items_def)

lemma item_of_simps [simp]:
  "it_key (item_of h n) = node_key n" "it_value (item_of h n) = node_value n"
  "it_callbacks (item_of h n) = cbs_of (node_callbacks n)" "it_time (item_of h n) = stamp h (global_list_node n)"
  by (simp_all add: item_of_def)

text \<open>Changing fields of entries other than their places in the lists.\<close>

lemma core_nodes:
  assumes "core cfg s as" and "list_root s' = list_root s" and "global_root s' = global_root s" and "lru_lists s' = lru_lists s"
    and "next_lru_node s' = next_lru_node s" and "\<And>a. lru_nodes s' a = None \<longleftrightarrow> lru_nodes s a = None"
    and "\<And>a. a \<in> set as \<Longrightarrow> list_node_ref (nd s' a) = list_node_ref (nd s a)"
    and "\<And>a. a \<in> set as \<Longrightarrow> global_list_node (nd s' a) = global_list_node (nd s a)"
  shows "core cfg s' as"
  using assms linked_cong[of as "\<lambda>a. list_node_ref (nd s' a)" "\<lambda>a. list_node_ref (nd s a)"
      "\<lambda>a. global_list_node (nd s' a)" "\<lambda>a. global_list_node (nd s a)"]
  by (auto simp: core_def)

lemma drop_from_lists_core:
  assumes "core cfg s (us @ a # vs)"
  obtains h where "drop_from_lists a s = Inr (s\<lparr>lru_lists := h\<rparr>)" and "core cfg (s\<lparr>lru_lists := h\<rparr>) (us @ vs)"
    and "items (s\<lparr>lru_lists := h\<rparr>) (us @ vs) = items s (us @ vs)" and "alloc h = alloc (lru_lists s)"
proof -
  from assms have linked: "linked (tracked cfg) (lru_lists s) (list_root s) (global_root s) (\<lambda>a. list_node_ref (nd s a))
      (\<lambda>a. global_list_node (nd s a)) (us @ a # vs)" by (simp add: core_def)
  from linked_remove[OF linked] obtain h1 h2 where h: "remove_from_list (list_node_ref (nd s a)) (lru_lists s) = Inr h1"
      "(case global_list_node (nd s a) of None \<Rightarrow> Inr h1 | Some g \<Rightarrow> remove_from_list g h1) = Inr h2"
      "linked (tracked cfg) h2 (list_root s) (global_root s) (\<lambda>a. list_node_ref (nd s a)) (\<lambda>a. global_list_node (nd s a)) (us @ vs)"
      "\<forall>b \<in> set (us @ vs). stamp h2 (global_list_node (nd s b)) = stamp (lru_lists s) (global_list_node (nd s b))"
      "alloc h2 = alloc (lru_lists s)" .
  from assms have "read_lru_node s a = Inr (nd s a)" by (auto simp: core_def read_lru_node_def)
  then have "drop_from_lists a s = Inr (s\<lparr>lru_lists := h2\<rparr>)" using h(1,2) by (simp add: drop_from_lists_def)
  moreover have "core cfg (s\<lparr>lru_lists := h2\<rparr>) (us @ vs)" using assms h(3) by (auto simp: core_def)
  moreover have "items (s\<lparr>lru_lists := h2\<rparr>) (us @ vs) = items s (us @ vs)"
    by (rule items_cong) (use h(4) in \<open>simp add: item_of_def\<close>)
  ultimately show thesis using h(5) that by blast
qed

lemma run_and_clear_result:
  assumes "lru_nodes s a = Some n"
  obtains c where "run_and_clear_callbacks a s =
      Inr (s\<lparr>callbacks_run := callbacks_run s @ cbs_of (node_callbacks n), lru_nodes := (lru_nodes s)(a \<mapsto> n\<lparr>node_callbacks := c\<rparr>)\<rparr>)"
    and "cbs_of c = []"
proof (cases "cbs_of (node_callbacks n) = []")
  case True
  with assms show thesis
    by (intro that[of "node_callbacks n"])
      (auto simp: run_and_clear_callbacks_def read_lru_node_def fun_upd_idem split: option.splits)
next
  case False
  with assms show thesis
    by (intro that[of None]) (auto simp: run_and_clear_callbacks_def read_lru_node_def update_lru_node_def split: option.splits)
qed

lemma core_fields [simp]:
  "core cfg (s\<lparr>lru_dict := d\<rparr>) as = core cfg s as" "core cfg (s\<lparr>cached_cache_len := c\<rparr>) as = core cfg s as"
  "core cfg (s\<lparr>extra_index := e\<rparr>) as = core cfg s as" "core cfg (s\<lparr>callbacks_run := l\<rparr>) as = core cfg s as"
  "core cfg (s\<lparr>lru_max_size := m\<rparr>) as = core cfg s as"
  by (simp_all add: core_def)

lemma items_fields [simp]:
  "items (s\<lparr>lru_dict := d\<rparr>) as = items s as" "items (s\<lparr>cached_cache_len := c\<rparr>) as = items s as"
  "items (s\<lparr>extra_index := e\<rparr>) as = items s as" "items (s\<lparr>callbacks_run := l\<rparr>) as = items s as"
  "items (s\<lparr>lru_max_size := m\<rparr>) as = items s as"
  by (simp_all add: items_def)

lemma core_node:
  assumes "core cfg s as" and "a \<in> set as"
  obtains n where "lru_nodes s a = Some n"
  using assms by (auto simp: core_def)

text \<open>The parts of the state that taking an entry out leaves alone, but for the entry.\<close>

definition removed ::
    "('k, 'v) lru_config \<Rightarrow> nat \<Rightarrow> ('k, 'v) lru_cache \<Rightarrow> ('k, 'v) lru_cache \<Rightarrow> bool" where
  "removed cfg a s s' \<longleftrightarrow> lru_dict s' = lru_dict s \<and> list_root s' = list_root s \<and> global_root s' = global_root s \<and>
     lru_max_size s' = lru_max_size s \<and> lru_original_max_size s' = lru_original_max_size s \<and>
     (\<forall>b. b \<noteq> a \<longrightarrow> lru_nodes s' b = lru_nodes s b) \<and>
     (\<exists>n. lru_nodes s' a = Some n \<and> node_key n = node_key (nd s a) \<and> node_value n = node_value (nd s a)) \<and>
     alloc (lru_lists s') = alloc (lru_lists s) \<and>
     callbacks_run s' = callbacks_run s @ cbs_of (node_callbacks (nd s a)) \<and>
     cached_cache_len s' = cached_cache_len s - (case size_callback cfg of None \<Rightarrow> 0 | Some f \<Rightarrow> f (node_value (nd s a))) \<and>
     extra_index s' = (case extra_index_cb cfg of None \<Rightarrow> extra_index s
        | Some cb \<Rightarrow> discard_extra_index (cb (node_key (nd s a)) (node_value (nd s a))) (node_key (nd s a)) (extra_index s))"

lemma delete_node_core:
  assumes "core cfg s (us @ a # vs)"
  obtains s' l where "delete_node cfg a s = Inr (l, s')" and "core cfg s' (us @ vs)"
    and "items s' (us @ vs) = items s (us @ vs)" and "removed cfg a s s'"
proof -
  obtain n where n: "lru_nodes s a = Some n" by (rule core_node[OF assms, of a]) auto
  from drop_from_lists_core[OF assms] obtain h where h: "drop_from_lists a s = Inr (s\<lparr>lru_lists := h\<rparr>)"
      "core cfg (s\<lparr>lru_lists := h\<rparr>) (us @ vs)" "items (s\<lparr>lru_lists := h\<rparr>) (us @ vs) = items s (us @ vs)"
      "alloc h = alloc (lru_lists s)" .
  let ?l = "case size_callback cfg of None \<Rightarrow> 1 | Some f \<Rightarrow> f (node_value n)"
  let ?s1 = "case size_callback cfg of None \<Rightarrow> s\<lparr>lru_lists := h\<rparr>
    | Some _ \<Rightarrow> s\<lparr>lru_lists := h, cached_cache_len := cached_cache_len s - ?l\<rparr>"
  have n1: "lru_nodes ?s1 a = Some n" using n by (auto split: option.splits)
  obtain c where c: "run_and_clear_callbacks a ?s1 = Inr (?s1\<lparr>callbacks_run := callbacks_run ?s1 @ cbs_of (node_callbacks n),
      lru_nodes := (lru_nodes ?s1)(a \<mapsto> n\<lparr>node_callbacks := c\<rparr>)\<rparr>)" and "cbs_of c = []"
    by (rule run_and_clear_result[OF n1])
  let ?s2 = "?s1\<lparr>callbacks_run := callbacks_run ?s1 @ cbs_of (node_callbacks n),
      lru_nodes := (lru_nodes ?s1)(a \<mapsto> n\<lparr>node_callbacks := c\<rparr>)\<rparr>"
  let ?s3 = "case extra_index_cb cfg of None \<Rightarrow> ?s2
    | Some cb \<Rightarrow> ?s2\<lparr>extra_index := discard_extra_index (cb (node_key n) (node_value n)) (node_key n) (extra_index ?s2)\<rparr>"
  have off: "a \<notin> set (us @ vs)" using core_distinct[OF assms] by auto
  have "delete_node cfg a s = Inr (?l, ?s3)"
    using h(1) c n
    by (cases "size_callback cfg"; cases "extra_index_cb cfg") (simp_all add: delete_node_def read_lru_node_def Let_def)
  moreover have "core cfg ?s3 (us @ vs)"
  proof -
    have "core cfg ?s1 (us @ vs)" using h(2) by (simp split: option.splits)
    then have "core cfg ?s2 (us @ vs)" by (rule core_nodes) (use off n1 in auto)
    then show ?thesis by (simp split: option.splits)
  qed
  moreover have "items ?s3 (us @ vs) = items s (us @ vs)"
  proof -
    have "items ?s2 (us @ vs) = items (s\<lparr>lru_lists := h\<rparr>) (us @ vs)"
      by (rule items_cong) (use off in \<open>auto split: option.splits\<close>)
    with h(3) show ?thesis by (simp split: option.splits)
  qed
  moreover have "removed cfg a s ?s3"
    using n h(4) by (cases "size_callback cfg"; cases "extra_index_cb cfg") (simp_all add: removed_def)
  ultimately show thesis by (rule that)
qed

lemma new_lru_node_core:
  assumes "core cfg s as"
  obtains h n where "new_lru_node cfg now k v cbs s = Inr (next_lru_node s,
      s\<lparr>lru_lists := h, next_lru_node := Suc (next_lru_node s), lru_nodes := (lru_nodes s)(next_lru_node s \<mapsto> n)\<rparr>)"
    and "core cfg (s\<lparr>lru_lists := h, next_lru_node := Suc (next_lru_node s), lru_nodes := (lru_nodes s)(next_lru_node s \<mapsto> n)\<rparr>)
      (next_lru_node s # as)"
    and "items (s\<lparr>lru_lists := h, next_lru_node := Suc (next_lru_node s), lru_nodes := (lru_nodes s)(next_lru_node s \<mapsto> n)\<rparr>)
      (next_lru_node s # as) =
      \<lparr>it_key = k, it_value = v, it_callbacks = fold set_add cbs [], it_time = access_time cfg now\<rparr> # items s as"
    and "node_key n = k" and "\<forall>x. alloc (lru_lists s) x \<longrightarrow> alloc h x"
proof -
  let ?a = "next_lru_node s" and ?L = "\<lambda>a. list_node_ref (nd s a)" and ?G = "\<lambda>a. global_list_node (nd s a)"
  from assms have linked: "linked (tracked cfg) (lru_lists s) (list_root s) (global_root s) ?L ?G as"
    and below: "\<forall>a. lru_nodes s a \<noteq> None \<longrightarrow> a < ?a" "\<forall>a \<in> set as. lru_nodes s a \<noteq> None" by (simp_all add: core_def)
  then have new: "?a \<notin> set as" by blast
  obtain h1 h2 gn where h: "insert_after ?a (list_root s) (lru_lists s) = Inr (free_addr (lru_lists s), h1)"
    "(if tracked cfg then py_bind (insert_after ?a (global_root s) h1) (\<lambda>(gn, h). Inr (Some gn, update_last_access now gn h)) else Inr (None, h1)) =
      Inr (gn, h2)"
    "linked (tracked cfg) h2 (list_root s) (global_root s) (?L(?a := free_addr (lru_lists s))) (?G(?a := gn)) (?a # as)"
    "\<forall>b \<in> set as. stamp h2 (?G b) = stamp (lru_lists s) (?G b)" "stamp h2 gn = (if tracked cfg then Some now else None)"
    "\<forall>x. alloc (lru_lists s) x \<longrightarrow> alloc h2 x"
    using linked_insert[OF linked new] .
  let ?n = "\<lparr>list_node_ref = free_addr (lru_lists s), global_list_node = gn, node_key = k, node_value = v,
    node_callbacks = merge_callbacks cbs None\<rparr>"
  let ?s = "s\<lparr>lru_lists := h2, next_lru_node := Suc ?a, lru_nodes := (lru_nodes s)(?a \<mapsto> ?n)\<rparr>"
  have "new_lru_node cfg now k v cbs s = Inr (?a, ?s)"
    using h(1,2) by (simp add: new_lru_node_def tracked_def Let_def)
  moreover have "core cfg ?s (?a # as)"
  proof -
    have "linked (tracked cfg) h2 (list_root s) (global_root s) (\<lambda>a. list_node_ref (nd ?s a)) (\<lambda>a. global_list_node (nd ?s a)) (?a # as)"
      by (subst linked_cong[where L' = "?L(?a := free_addr (lru_lists s))" and G' = "?G(?a := gn)"]) (use h(3) in auto)
    with assms show ?thesis by (auto simp: core_def less_Suc_eq)
  qed
  moreover have "items ?s (?a # as) =
      \<lparr>it_key = k, it_value = v, it_callbacks = fold set_add cbs [], it_time = access_time cfg now\<rparr> # items s as"
  proof -
    have "items ?s as = items s as" by (rule items_cong) (use new h(4) in \<open>auto simp: item_of_def\<close>)
    then show ?thesis using h(5) by (simp add: item_of_def access_time_def merge_callbacks_def)
  qed
  ultimately show thesis using h(6) by (intro that[of ?n h2]) simp_all
qed

lemma move_to_front_core:
  assumes "core cfg s (us @ a # vs)"
  obtains h where "move_to_front now a s = Inr (s\<lparr>lru_lists := h\<rparr>)" and "core cfg (s\<lparr>lru_lists := h\<rparr>) (a # us @ vs)"
    and "items (s\<lparr>lru_lists := h\<rparr>) (a # us @ vs) =
      (item_of (lru_lists s) (nd s a))\<lparr>it_time := access_time cfg now\<rparr> # items s (us @ vs)"
    and "alloc h = alloc (lru_lists s)"
proof -
  let ?L = "\<lambda>a. list_node_ref (nd s a)" and ?G = "\<lambda>a. global_list_node (nd s a)"
  from assms have linked: "linked (tracked cfg) (lru_lists s) (list_root s) (global_root s) ?L ?G (us @ a # vs)" by (simp add: core_def)
  obtain h1 h2 where h: "move_after (list_node_ref (nd s a)) (list_root s) (lru_lists s) = Inr h1"
      "(case global_list_node (nd s a) of None \<Rightarrow> Inr h1
        | Some g \<Rightarrow> py_bind (move_after g (global_root s) h1) (\<lambda>h. Inr (update_last_access now g h))) = Inr h2"
      "linked (tracked cfg) h2 (list_root s) (global_root s) ?L ?G (a # us @ vs)"
      "\<forall>b \<in> set (us @ vs). stamp h2 (?G b) = stamp (lru_lists s) (?G b)"
      "stamp h2 (?G a) = (if tracked cfg then Some now else None)" "alloc h2 = alloc (lru_lists s)"
    using linked_move[OF linked] .
  obtain n where "lru_nodes s a = Some n" by (rule core_node[OF assms, of a]) auto
  then have "read_lru_node s a = Inr (nd s a)" by (simp add: read_lru_node_def)
  then have "move_to_front now a s = Inr (s\<lparr>lru_lists := h2\<rparr>)" using h(1,2) by (simp add: move_to_front_def)
  moreover have "core cfg (s\<lparr>lru_lists := h2\<rparr>) (a # us @ vs)" using assms h(3) by (auto simp: core_def)
  moreover have "items (s\<lparr>lru_lists := h2\<rparr>) (us @ vs) = items s (us @ vs)"
    by (rule items_cong) (use h(4) in \<open>simp add: item_of_def\<close>)
  ultimately show thesis using h(5,6) by (intro that[of h2]) (simp_all add: item_of_def access_time_def)
qed

section \<open>Looking up and taking out\<close>

lemma rep_get:
  assumes "lru_rep I cfg s as A"
  shows "dict_get (lru_dict s) k = Some a \<longleftrightarrow> a \<in> set as \<and> node_key (nd s a) = k"
  using assms unfolding lru_rep_def wf_dict_def by (simp add: image_iff) blast

lemma rep_keys:
  assumes "lru_rep I cfg s as A"
  shows "distinct (map it_key (ab_items A))"
proof -
  have "inj_on (\<lambda>a. node_key (nd s a)) (set as)"
  proof (rule inj_onI)
    fix x y assume xy: "x \<in> set as" "y \<in> set as" "node_key (nd s x) = node_key (nd s y)"
    then have "dict_get (lru_dict s) (node_key (nd s y)) = Some x" "dict_get (lru_dict s) (node_key (nd s y)) = Some y"
      using rep_get[OF assms] by auto
    then show "x = y" by simp
  qed
  moreover have "distinct as" using assms by (auto simp: lru_rep_def dest: core_distinct)
  moreover have "map it_key (ab_items A) = map (\<lambda>a. node_key (nd s a)) as"
    using assms by (simp add: lru_rep_def items_def comp_def)
  ultimately show ?thesis by (simp add: distinct_map)
qed

lemma item_lookup_distinct: "distinct (map it_key (us @ x # vs)) \<Longrightarrow> it_key x = k \<Longrightarrow>
    item_lookup k (us @ x # vs) = Some x \<and> without k (us @ x # vs) = us @ vs \<and>
    filter (\<lambda>y. it_key y = k) (us @ x # vs) = [x]"
  by (induction us) (auto simp: filter_id_conv filter_empty_conv image_iff)

lemma item_lookup_absent: "item_lookup k xs = None \<longleftrightarrow> k \<notin> it_key ` set xs"
  by (auto simp: find_None_iff)

lemma rep_absent:
  assumes "lru_rep I cfg s as A" and "dict_get (lru_dict s) k = None"
  shows "item_lookup k (ab_items A) = None" and "k \<notin> it_key ` set (ab_items A)"
proof -
  show "k \<notin> it_key ` set (ab_items A)"
  proof
    assume "k \<in> it_key ` set (ab_items A)"
    then obtain a where "a \<in> set as" "node_key (nd s a) = k" using assms(1) by (auto simp: lru_rep_def items_def)
    then have "dict_get (lru_dict s) k = Some a" using rep_get[OF assms(1)] by blast
    with assms(2) show False by simp
  qed
  then show "item_lookup k (ab_items A) = None" by (simp add: item_lookup_absent)
qed

lemma rep_present:
  assumes "lru_rep I cfg s as A" and "dict_get (lru_dict s) k = Some a"
  obtains us vs where "as = us @ a # vs" and "item_lookup k (ab_items A) = Some (item_of (lru_lists s) (nd s a))"
    and "without k (ab_items A) = items s (us @ vs)"
    and "filter (\<lambda>x. it_key x = k) (ab_items A) = [item_of (lru_lists s) (nd s a)]" and "node_key (nd s a) = k"
    and "ab_items A = items s us @ item_of (lru_lists s) (nd s a) # items s vs"
proof -
  have a: "a \<in> set as" "node_key (nd s a) = k" using rep_get[OF assms(1)] assms(2) by auto
  then obtain us vs where as: "as = us @ a # vs" by (auto simp: in_set_conv_decomp)
  let ?x = "item_of (lru_lists s) (nd s a)"
  from assms(1) as have items: "ab_items A = items s us @ ?x # items s vs" by (simp add: lru_rep_def)
  have "item_lookup k (ab_items A) = Some ?x \<and> without k (ab_items A) = items s us @ items s vs \<and>
      filter (\<lambda>y. it_key y = k) (ab_items A) = [?x]"
    unfolding items by (rule item_lookup_distinct) (use rep_keys[OF assms(1)] a(2) items in simp_all)
  with as a(2) items show thesis by (intro that[of us vs]) simp_all
qed

lemma discard_extra_index_get:
  "dict_get_default (discard_extra_index i k d) j [] =
     (if j = i then removeAll k (dict_get_default d i []) else dict_get_default d j [])"
  by (auto simp: discard_extra_index_def dict_get_default_def alist.get_put alist.get_del split: option.splits)

lemma index_ok_remove:
  assumes "index_ok I cfg d (us @ x # vs)" and "distinct (map it_key (us @ x # vs))" and "extra_index_cb cfg = Some cb"
  shows "index_ok I cfg (discard_extra_index (cb (it_key x) (it_value x)) (it_key x) d) (us @ vs)"
  unfolding index_ok_def discard_extra_index_get
proof (intro allI impI)
  fix cb' i
  assume cb': "extra_index_cb cfg = Some cb'" and i: "i \<notin> I"
  let ?i = "cb (it_key x) (it_value x)"
  let ?l = "if i = ?i then removeAll (it_key x) (dict_get_default d ?i []) else dict_get_default d i []"
  from cb' assms(3) have cb: "cb' = cb" by simp
  from assms(1,3) i have old: "distinct (dict_get_default d i [])"
    "\<And>k. k \<in> set (dict_get_default d i []) \<longleftrightarrow> (\<exists>y \<in> set (us @ x # vs). it_key y = k \<and> cb k (it_value y) = i)"
    by (auto simp: index_ok_def)
  have "k \<in> set ?l \<longleftrightarrow> (\<exists>y \<in> set (us @ vs). it_key y = k \<and> cb k (it_value y) = i)" for k
  proof (cases "k = it_key x")
    case True
    with assms(2) have "\<forall>y \<in> set (us @ vs). it_key y \<noteq> k" by (auto simp: image_iff)
    moreover have "k \<notin> set ?l" using True assms(2) old(2)[of k] by (cases "i = ?i") (auto simp: image_iff)
    ultimately show ?thesis by blast
  next
    case False
    then show ?thesis using old(2)[of k] by auto
  qed
  moreover have "distinct ?l" using old(1) by (auto simp: distinct_removeAll)
  ultimately show "distinct ?l \<and> (\<forall>k. k \<in> set ?l \<longleftrightarrow> (\<exists>y \<in> set (us @ vs). it_key y = k \<and> cb' k (it_value y) = i))"
    unfolding cb by blast
qed

lemma ab_total_remove:
  "ab_total cfg (us @ vs) = ab_total cfg (us @ x # vs) - (case size_callback cfg of None \<Rightarrow> 1 | Some f \<Rightarrow> f (it_value x))"
  by (auto simp: ab_total_def split: option.splits)

lemma removed_dict:
  "removed cfg a (s\<lparr>lru_dict := d\<rparr>) s' \<longleftrightarrow> removed cfg a s (s'\<lparr>lru_dict := lru_dict s\<rparr>) \<and> lru_dict s' = d"
  by (auto simp: removed_def cong: option.case_cong)

lemma rep_delete:
  assumes "lru_rep I cfg s as A" and "dict_get (lru_dict s) k = Some a"
  obtains s' l us vs where "delete_node cfg a (s\<lparr>lru_dict := d\<rparr>) = Inr (l, s')" and "lru_dict s' = d" and "as = us @ a # vs"
    and "lru_rep I cfg (s'\<lparr>lru_dict := dict_del k (lru_dict s)\<rparr>) (us @ vs) (ab_remove (\<lambda>x. it_key x = k) A)"
    and "removed cfg a (s\<lparr>lru_dict := d\<rparr>) s'" and "node_key (nd s a) = k"
proof -
  from rep_present[OF assms] obtain us vs where as: "as = us @ a # vs"
    "item_lookup k (ab_items A) = Some (item_of (lru_lists s) (nd s a))" "without k (ab_items A) = items s (us @ vs)"
    "filter (\<lambda>x. it_key x = k) (ab_items A) = [item_of (lru_lists s) (nd s a)]" "node_key (nd s a) = k"
    "ab_items A = items s us @ item_of (lru_lists s) (nd s a) # items s vs" .
  from assms(1) as(1) have "core cfg (s\<lparr>lru_dict := d\<rparr>) (us @ a # vs)" by (simp add: lru_rep_def)
  from delete_node_core[OF this] obtain s' l where s': "delete_node cfg a (s\<lparr>lru_dict := d\<rparr>) = Inr (l, s')"
    "core cfg s' (us @ vs)" "items s' (us @ vs) = items (s\<lparr>lru_dict := d\<rparr>) (us @ vs)" "removed cfg a (s\<lparr>lru_dict := d\<rparr>) s'" .
  have dist: "a \<notin> set (us @ vs)" using assms(1) as(1) by (auto simp: lru_rep_def dest: core_distinct)
  have "lru_rep I cfg (s'\<lparr>lru_dict := dict_del k (lru_dict s)\<rparr>) (us @ vs) (ab_remove (\<lambda>x. it_key x = k) A)"
  proof -
    from s'(4) have rem: "removed cfg a s (s'\<lparr>lru_dict := lru_dict s\<rparr>)" unfolding removed_dict ..
    then have nodes: "\<And>b. b \<in> set (us @ vs) \<Longrightarrow> nd s' b = nd s b" using dist by (auto simp: removed_def)
    have "set (dict_del k (lru_dict s)) = {p \<in> set (lru_dict s). fst p \<noteq> k}" by (auto simp: AList.delete_eq)
    also have "\<dots> = (\<lambda>b. (node_key (nd s b), b)) ` set (us @ vs)"
    proof -
      have "node_key (nd s b) \<noteq> k" if "b \<in> set (us @ vs)" for b
        using that rep_get[OF assms(1), of k b] assms(2) as(1) dist by auto
      with assms(1) as show ?thesis by (auto simp: lru_rep_def)
    qed
    also have "\<dots> = (\<lambda>b. (node_key (nd s' b), b)) ` set (us @ vs)" using nodes by (intro image_cong) simp_all
    finally have dict: "set (dict_del k (lru_dict s)) = (\<lambda>b. (node_key (nd s' b), b)) ` set (us @ vs)" .
    have index: "index_ok I cfg (extra_index s') (items s (us @ vs))"
    proof (cases "extra_index_cb cfg")
      case (Some cb)
      from index_ok_remove[OF lru_repD(8)[OF assms(1), unfolded as(6)] rep_keys[OF assms(1), unfolded as(6)] Some]
      show ?thesis using rem Some by (simp add: removed_def)
    qed (simp add: index_ok_def)
    have "mset (callbacks_run s') = ab_run A + all_callbacks [item_of (lru_lists s) (nd s a)]"
      using assms(1) rem by (simp add: lru_rep_def removed_def all_callbacks_def)
    moreover have "cached_cache_len s' = ab_total cfg (items s (us @ vs))" if "size_callback cfg = Some f" for f
      using assms(1) rem that as(6) ab_total_remove[of cfg "items s us" "items s vs" "item_of (lru_lists s) (nd s a)"]
      by (auto simp: lru_rep_def removed_def)
    moreover have "lru_max_size s' = lru_max_size s" using rem by (simp add: removed_def)
    moreover have "wf_dict (dict_del k (lru_dict s))" using assms(1) by (simp add: lru_rep_def alist.wf_del)
    moreover have "ab_items (ab_remove (\<lambda>x. it_key x = k) A) = items s (us @ vs)"
      "ab_run (ab_remove (\<lambda>x. it_key x = k) A) = ab_run A + all_callbacks [item_of (lru_lists s) (nd s a)]"
      "ab_max (ab_remove (\<lambda>x. it_key x = k) A) = lru_max_size s"
      using as(3,4) assms(1) by (simp_all add: ab_remove_def ab_drop_def lru_rep_def)
    ultimately show ?thesis
      using s'(2,3) dict index unfolding lru_rep_def by simp
  qed
  then show thesis using s' as(1,5) by (intro that[of l s' us vs]) (auto simp: removed_def)
qed

lemma rep_delete_entry:
  assumes "lru_rep I cfg s as A" and "dict_get (lru_dict s) k = Some a"
  obtains s' l us vs where "delete_node cfg a s = Inr (l, s')" and "as = us @ a # vs"
    and "lru_rep I cfg (s'\<lparr>lru_dict := dict_del k (lru_dict s)\<rparr>) (us @ vs) (ab_remove (\<lambda>x. it_key x = k) A)"
    and "removed cfg a s s'"
  by (rule rep_delete[OF assms, of "lru_dict s"], rule that) simp_all

section \<open>Eviction\<close>

lemma rep_length: "lru_rep I cfg s as A \<Longrightarrow> length (lru_dict s) = length as"
proof -
  assume rep: "lru_rep I cfg s as A"
  have "distinct (lru_dict s)" using lru_repD(2)[OF rep] by (simp add: wf_dict_def distinct_map)
  moreover have "inj_on (\<lambda>a. (node_key (nd s a), a)) (set as)" by (auto intro: inj_onI)
  ultimately show ?thesis
    using lru_repD(3)[OF rep] core_distinct[OF lru_repD(1)[OF rep]] distinct_card card_image by metis
qed

lemma rep_cache_len: "lru_rep I cfg s as A \<Longrightarrow> cache_len cfg s = ab_total cfg (ab_items A)"
  using rep_length[of I cfg s as A] lru_repD(4)[of I cfg s as A] lru_repD(7)[of I cfg s as A]
  by (auto simp: cache_len_def ab_total_def split: option.splits)

lemma shrink_append:
  "shrink tot m (xs @ [x]) = (if tot (xs @ [x]) > m then shrink tot m xs else xs @ [x])"
  by (subst shrink.simps) simp

lemma shrink_prefix: "\<exists>n \<le> length xs. shrink tot m xs = take n xs"
proof (induction xs rule: rev_induct)
  case (snoc x xs)
  then obtain n where "n \<le> length xs" "shrink tot m xs = take n xs" by blast
  then show ?case by (cases "tot (xs @ [x]) > m") (auto simp: shrink_append intro: exI[of _ n] exI[of _ "Suc (length xs)"])
qed (simp add: shrink.simps)

lemma shrink_fits: "tot [] \<le> m \<Longrightarrow> tot (shrink tot m xs) \<le> m"
  by (induction xs rule: rev_induct) (auto simp: shrink_append shrink.simps)

text \<open>No more goes than has to: every longer prefix is too large.\<close>

lemma shrink_longest: "n \<le> length xs \<Longrightarrow> length (shrink tot m xs) < n \<Longrightarrow> tot (take n xs) > m"
proof (induction xs rule: rev_induct)
  case (snoc x xs)
  then show ?case by (cases "n = length (xs @ [x])") (auto simp: shrink_append split: if_splits)
qed simp

lemma all_callbacks_simps [simp]:
  "all_callbacks [] = {#}" "all_callbacks (x # xs) = mset (it_callbacks x) + all_callbacks xs"
  "all_callbacks (xs @ ys) = all_callbacks xs + all_callbacks ys"
  by (simp_all add: all_callbacks_def)

lemma ab_remove_absent: "k \<notin> it_key ` set (ab_items A) \<Longrightarrow> ab_remove (\<lambda>x. it_key x = k) A = A"
proof -
  assume "k \<notin> it_key ` set (ab_items A)"
  then have "without k (ab_items A) = ab_items A" "filter (\<lambda>x. it_key x = k) (ab_items A) = []"
    by (auto simp: filter_id_conv filter_empty_conv)
  then show ?thesis by (simp add: ab_remove_def ab_drop_def)
qed

lemma ab_evict_step:
  assumes "ab_items A = xs @ [x]" and "distinct (map it_key (ab_items A))" and "ab_total cfg (ab_items A) > ab_max A"
  shows "ab_evict cfg A = ab_evict cfg (ab_remove (\<lambda>y. it_key y = it_key x) A)"
proof -
  have "without (it_key x) (xs @ [x]) = xs" "filter (\<lambda>y. it_key y = it_key x) (xs @ [x]) = [x]"
    using item_lookup_distinct[of xs x "[]" "it_key x"] assms(1,2) by auto
  then have A: "ab_remove (\<lambda>y. it_key y = it_key x) A = A\<lparr>ab_items := xs, ab_run := ab_run A + mset (it_callbacks x)\<rparr>"
    using assms(1) by (simp add: ab_remove_def ab_drop_def)
  obtain n where n: "n \<le> length xs" "shrink (ab_total cfg) (ab_max A) xs = take n xs" using shrink_prefix by blast
  have "shrink (ab_total cfg) (ab_max A) (ab_items A) = take n xs" using assms n by (simp add: shrink_append)
  with n assms(1) show ?thesis by (simp add: ab_evict_def A ab_drop_def Let_def ac_simps)
qed

lemma evict_loop_rep:
  assumes "lru_rep I cfg s as A" and "0 \<le> ab_max A" and "length as < fuel"
  shows "\<exists>s' as'. lru_evict_loop cfg fuel s = Inr s' \<and> lru_rep I cfg s' as' (ab_evict cfg A)"
  using assms
proof (induction fuel arbitrary: s as A)
  case (Suc fuel)
  note rep = Suc.prems(1)
  show ?case
  proof (cases "ab_total cfg (ab_items A) > ab_max A")
    case False
    then have "ab_evict cfg A = A" by (subst ab_evict_def, subst shrink.simps) (simp add: ab_drop_def)
    with False rep show ?thesis
      using rep_cache_len[OF rep] lru_repD(5)[OF rep] by auto
  next
    case True
    then have "as \<noteq> []" using Suc.prems(2) lru_repD(4)[OF rep] by (auto simp: ab_total_def split: option.splits)
    then obtain us a where as: "as = us @ [a]" by (metis rev_exhaust)
    let ?k = "node_key (nd s a)" and ?l = "list_node_ref (nd s a)"
    have linked: "linked (tracked cfg) (lru_lists s) (list_root s) (global_root s) (\<lambda>a. list_node_ref (nd s a)) (\<lambda>a. global_list_node (nd s a)) as"
      using lru_repD(1)[OF rep] by (simp add: core_def)
    then have ring: "ring (lru_lists s) (list_root s) (map (\<lambda>a. list_node_ref (nd s a)) as)" by (simp add: linked_def)
    have root: "alloc (lru_lists s) (list_root s)" by (rule ring_member(3)[OF ring]) simp
    have l: "alloc (lru_lists s) ?l" by (rule ring_member(3)[OF ring]) (simp add: as)
    have "prv (lru_lists s) (list_root s) = Some ?l" using ring_last[OF ring] as by simp
    moreover obtain t where "payload (lru_lists s) ?l = Some (Some a, t)" using linked as by (auto simp: linked_def carries_def)
    ultimately obtain r m where read: "read_node (lru_lists s) (list_root s) = Inr r" "prev_node r = Some ?l"
        "read_node (lru_lists s) ?l = Inr m" "cache_entry m = Some a"
      using read_node_alloc[OF root] read_node_alloc[OF l] by auto
    have get: "dict_get (lru_dict s) ?k = Some a" using rep_get[OF rep] as by simp
    from rep_delete_entry[OF rep get] obtain s' n us' vs' where s': "delete_node cfg a s = Inr (n, s')"
        "as = us' @ a # vs'" "lru_rep I cfg (s'\<lparr>lru_dict := dict_del ?k (lru_dict s)\<rparr>) (us' @ vs') (ab_remove (\<lambda>x. it_key x = ?k) A)"
        "removed cfg a s s'" .
    from s'(4) obtain n' where n': "lru_nodes s' a = Some n'" "node_key n' = ?k" "lru_dict s' = lru_dict s" by (auto simp: removed_def)
    let ?A = "ab_remove (\<lambda>x. it_key x = ?k) A"
    have "length (us' @ vs') < fuel" using Suc.prems(3) s'(2) by simp
    moreover have "0 \<le> ab_max ?A" using Suc.prems(2) by (simp add: ab_remove_def ab_drop_def)
    ultimately obtain s'' as'' where s'': "lru_evict_loop cfg fuel (s'\<lparr>lru_dict := dict_del ?k (lru_dict s)\<rparr>) = Inr s''"
        "lru_rep I cfg s'' as'' (ab_evict cfg ?A)" using Suc.IH[OF s'(3)] by blast
    have "ab_evict cfg A = ab_evict cfg ?A"
      using ab_evict_step[of A "items s us" "item_of (lru_lists s) (nd s a)" cfg] lru_repD(4)[OF rep] rep_keys[OF rep] True as by simp
    moreover have "lru_evict_loop cfg (Suc fuel) s = Inr s''"
      using True rep_cache_len[OF rep] lru_repD(5)[OF rep] read s'(1) n' s''(1)
      by (simp add: get_cache_entry_def read_lru_node_def)
    ultimately show ?thesis using s''(2) by metis
  qed
qed simp

lemma evict_rep:
  assumes "lru_rep I cfg s as A" and "0 \<le> ab_max A"
  shows "\<exists>s' as'. lru_evict cfg s = Inr s' \<and> lru_rep I cfg s' as' (ab_evict cfg A)"
  unfolding lru_evict_def by (rule evict_loop_rep[OF assms]) (simp add: rep_length[OF assms(1)])

end
