(* ===== verification/Lru_Cache_Refines.thy ===== *)
theory Lru_Cache_Refines
  imports Lru_Cache_Props
begin

text \<open>
  Every operation of the cache does to the represented items what the abstract operation does.
\<close>

section \<open>Changing an entry\<close>

lemma update_lru_node_core:
  assumes "core cfg s as" and "\<And>n. list_node_ref (f n) = list_node_ref n" and "\<And>n. global_list_node (f n) = global_list_node n"
  shows "core cfg (update_lru_node a f s) as"
  using assms(1) by (rule core_nodes) (auto simp: update_lru_node_def assms(2,3) core_def dest!: bspec[OF conjunct2, OF conjunct2, OF assms(1)[unfolded core_def]])

lemma items_update_other: "a \<notin> set as \<Longrightarrow> items (update_lru_node a f s) as = items s as"
  by (rule items_cong) (auto simp: update_lru_node_def)

lemma update_lru_node_fields [simp]:
  "lru_lists (update_lru_node a f s) = lru_lists s" "lru_dict (update_lru_node a f s) = lru_dict s"
  "lru_max_size (update_lru_node a f s) = lru_max_size s" "callbacks_run (update_lru_node a f s) = callbacks_run s"
  "cached_cache_len (update_lru_node a f s) = cached_cache_len s" "extra_index (update_lru_node a f s) = extra_index s"
  "lru_nodes (update_lru_node a f s) b = (if b = a then map_option f (lru_nodes s a) else lru_nodes s b)"
  by (simp_all add: update_lru_node_def)

lemma cbs_of_merge [simp]: "cbs_of (merge_callbacks cbs c) = fold set_add cbs (cbs_of c)"
  by (simp add: merge_callbacks_def)

lemma rep_change:
  assumes "lru_rep I cfg s as A" and "core cfg s' as'" and "set as' = set as" and "lru_dict s' = lru_dict s"
    and "\<And>a. a \<in> set as \<Longrightarrow> node_key (nd s' a) = node_key (nd s a)" and "lru_max_size s' = lru_max_size s"
    and "items s' as' = xs" and "mset (callbacks_run s') = r"
    and "\<And>f. size_callback cfg = Some f \<Longrightarrow> cached_cache_len s' = ab_total cfg xs"
    and "index_ok I cfg (extra_index s') xs"
  shows "lru_rep I cfg s' as' (A\<lparr>ab_items := xs, ab_run := r\<rparr>)"
proof -
  have "set (lru_dict s') = (\<lambda>a. (node_key (nd s' a), a)) ` set as'"
    unfolding assms(3,4) lru_repD(3)[OF assms(1)] using assms(5) by (intro image_cong) simp_all
  with assms lru_repD(2,5)[OF assms(1)] show ?thesis by (simp add: lru_rep_def)
qed

text \<open>The size depends on the values, the index on the keys and what is indexed of the values.\<close>

lemma ab_total_cong: "mset (map it_value xs) = mset (map it_value ys) \<Longrightarrow> ab_total cfg xs = ab_total cfg ys"
proof -
  assume eq: "mset (map it_value xs) = mset (map it_value ys)"
  have "length xs = length ys" using arg_cong[OF eq, of size] by simp
  moreover have "sum_list (map (f \<circ> it_value) xs) = sum_list (map (f \<circ> it_value) ys)" for f :: "'a \<Rightarrow> int"
    using arg_cong[OF eq, of "\<lambda>m. sum_mset (image_mset f m)"] by (simp add: sum_mset_sum_list flip: mset_map)
  ultimately show ?thesis by (simp add: ab_total_def comp_def split: option.splits)
qed

lemma index_ok_cong:
  assumes "\<And>cb. extra_index_cb cfg = Some cb \<Longrightarrow>
    (\<lambda>x. (it_key x, cb (it_key x) (it_value x))) ` set xs = (\<lambda>x. (it_key x, cb (it_key x) (it_value x))) ` set ys"
  shows "index_ok I cfg d xs = index_ok I cfg d ys"
proof -
  have pair: "(\<exists>x \<in> set zs. it_key x = k \<and> cb k (it_value x) = i) \<longleftrightarrow> (k, i) \<in> (\<lambda>x. (it_key x, cb (it_key x) (it_value x))) ` set zs"
    for zs k i and cb :: "'a \<Rightarrow> 'b \<Rightarrow> 'a" by (auto simp: image_iff)
  have "(\<exists>x \<in> set xs. it_key x = k \<and> cb k (it_value x) = i) \<longleftrightarrow> (\<exists>x \<in> set ys. it_key x = k \<and> cb k (it_value x) = i)"
    if "extra_index_cb cfg = Some cb" for cb k i unfolding pair assms[OF that] ..
  then show ?thesis unfolding index_ok_def by blast
qed

section \<open>Reading\<close>

lemma cache_get_rep:
  assumes rep: "lru_rep I cfg s as A"
  shows "\<exists>s' as'. cache_get now k cbs upd s = Inr (fst (ab_get cfg now k cbs upd A), s') \<and>
    lru_rep I cfg s' as' (snd (ab_get cfg now k cbs upd A))"
proof (cases "dict_get (lru_dict s) k")
  case None
  with rep_absent[OF rep None] rep show ?thesis by (auto simp: cache_get_def ab_get_def)
next
  case (Some a)
  from rep_present[OF rep Some] obtain us vs where as: "as = us @ a # vs"
    "item_lookup k (ab_items A) = Some (item_of (lru_lists s) (nd s a))" "without k (ab_items A) = items s (us @ vs)"
    "filter (\<lambda>x. it_key x = k) (ab_items A) = [item_of (lru_lists s) (nd s a)]" "node_key (nd s a) = k"
    "ab_items A = items s us @ item_of (lru_lists s) (nd s a) # items s vs" .
  let ?x = "item_of (lru_lists s) (nd s a)"
  let ?y = "?x\<lparr>it_callbacks := fold set_add cbs (it_callbacks ?x)\<rparr>"
  have core: "core cfg s (us @ a # vs)" using lru_repD(1)[OF rep] as(1) by simp
  obtain n where n: "lru_nodes s a = Some n" by (rule core_node[OF core, of a]) auto
  have off: "a \<notin> set (us @ vs)" using core_distinct[OF core] by auto
  let ?f = "\<lambda>n :: ('a, 'b) lru_node. n\<lparr>node_callbacks := merge_callbacks cbs (node_callbacks n)\<rparr>"
  have total: "cached_cache_len s = ab_total cfg xs" if "size_callback cfg = Some f" "mset (map it_value xs) = mset (map it_value (ab_items A))" for f xs
    using lru_repD(7)[OF rep that(1)] ab_total_cong[OF that(2)] by simp
  have index: "index_ok I cfg (extra_index s) xs"
    if "(\<lambda>x. (it_key x, it_value x)) ` set xs = (\<lambda>x. (it_key x, it_value x)) ` set (ab_items A)" for xs
  proof (subst index_ok_cong[of _ _ "ab_items A"])
    fix cb :: "'a \<Rightarrow> 'b \<Rightarrow> 'a"
    have pair: "(\<lambda>x. (it_key x, cb (it_key x) (it_value x))) ` set zs = (\<lambda>(k, v). (k, cb k v)) ` (\<lambda>x. (it_key x, it_value x)) ` set zs" for zs
      by (simp add: image_image)
    show "(\<lambda>x. (it_key x, cb (it_key x) (it_value x))) ` set xs = (\<lambda>x. (it_key x, cb (it_key x) (it_value x))) ` set (ab_items A)"
      unfolding pair that ..
  qed (rule lru_repD(8)[OF rep])
  show ?thesis
  proof (cases upd)
    case True
    from move_to_front_core[OF core] obtain h where h: "move_to_front now a s = Inr (s\<lparr>lru_lists := h\<rparr>)"
      "core cfg (s\<lparr>lru_lists := h\<rparr>) (a # us @ vs)"
      "items (s\<lparr>lru_lists := h\<rparr>) (a # us @ vs) = ?x\<lparr>it_time := access_time cfg now\<rparr> # items s (us @ vs)"
      "alloc h = alloc (lru_lists s)" .
    let ?s = "update_lru_node a ?f (s\<lparr>lru_lists := h\<rparr>)"
    have "lru_rep I cfg ?s (a # us @ vs) (A\<lparr>ab_items := ?y\<lparr>it_time := access_time cfg now\<rparr> # without k (ab_items A), ab_run := ab_run A\<rparr>)"
    proof (rule rep_change[OF rep])
      show "core cfg ?s (a # us @ vs)" by (rule update_lru_node_core[OF h(2)]) simp_all
      show "items ?s (a # us @ vs) = ?y\<lparr>it_time := access_time cfg now\<rparr> # without k (ab_items A)"
        using h(3) items_update_other[OF off, of ?f "s\<lparr>lru_lists := h\<rparr>"] n as(3) by (auto simp: item_of_def)
    qed (use as n lru_repD(6)[OF rep] total index in \<open>auto simp: item_of_def\<close>)
    moreover have "cache_get now k cbs upd s = Inr (Some (it_value ?x), ?s)"
      using Some h(1) n True by (simp add: cache_get_def add_callbacks_def read_lru_node_def)
    ultimately show ?thesis using as(2) True by (auto simp: ab_get_def Let_def)
  next
    case False
    let ?s = "update_lru_node a ?f s"
    have keys: "z \<in> set (items s (us @ vs)) \<Longrightarrow> it_key z \<noteq> k" for z unfolding as(3)[symmetric] by simp
    then have maps: "map (\<lambda>z. if it_key z = k then ?y else z) (ab_items A) = items s us @ ?y # items s vs"
      unfolding as(6) using as(5) by (auto intro!: map_idI)
    have "lru_rep I cfg ?s as (A\<lparr>ab_items := items s us @ ?y # items s vs, ab_run := ab_run A\<rparr>)"
    proof (rule rep_change[OF rep])
      show "core cfg ?s as" unfolding as(1) by (rule update_lru_node_core[OF core]) simp_all
      show "items ?s as = items s us @ ?y # items s vs"
        using off items_update_other[of a us ?f s] items_update_other[of a vs ?f s] n by (simp add: as(1) item_of_def)
    qed (use as n lru_repD(6)[OF rep] total index in \<open>auto simp: item_of_def\<close>)
    moreover have "cache_get now k cbs upd s = Inr (Some (it_value ?x), ?s)"
      using Some n False by (simp add: cache_get_def add_callbacks_def read_lru_node_def)
    moreover have "ab_get cfg now k cbs upd A = (Some (it_value ?x), A\<lparr>ab_items := items s us @ ?y # items s vs\<rparr>)"
      by (simp only: ab_get_def as(2) Let_def option.case False if_False maps)
    ultimately show ?thesis by auto
  qed
qed

section \<open>Writing\<close>

text \<open>Overwriting a value does not move its key to another index key.\<close>

definition index_stable :: "('k, 'v) lru_config \<Rightarrow> 'k \<Rightarrow> 'v \<Rightarrow> ('k, 'v) lru_abs \<Rightarrow> bool" where
  "index_stable cfg k v A \<longleftrightarrow>
     (case (extra_index_cb cfg, item_lookup k (ab_items A)) of
        (Some cb, Some x) \<Rightarrow> cb k v = cb k (it_value x) | _ \<Rightarrow> True)"

lemma index_ok_insert:
  assumes "index_ok I cfg d xs" and "it_key x \<notin> it_key ` set xs" and "extra_index_cb cfg = Some cb"
    and "i = cb (it_key x) (it_value x)"
  shows "index_ok I cfg (dict_set i (set_add (it_key x) (dict_get_default d i [])) d) (x # xs)"
  unfolding index_ok_def
proof (intro allI impI)
  fix cb' j
  assume cb': "extra_index_cb cfg = Some cb'" and j: "j \<notin> I"
  have "distinct (dict_get_default d j [])"
    "\<And>k. k \<in> set (dict_get_default d j []) \<longleftrightarrow> (\<exists>y \<in> set xs. it_key y = k \<and> cb k (it_value y) = j)"
    using assms(1,3) j by (auto simp: index_ok_def)
  moreover have "cb' = cb" using cb' assms(3) by simp
  ultimately show "distinct (dict_get_default (dict_set i (set_add (it_key x) (dict_get_default d i [])) d) j []) \<and>
    (\<forall>k. k \<in> set (dict_get_default (dict_set i (set_add (it_key x) (dict_get_default d i [])) d) j []) \<longleftrightarrow>
      (\<exists>y \<in> set (x # xs). it_key y = k \<and> cb' k (it_value y) = j))"
    using assms(4) by auto
qed

lemma set_dict_set_fresh: "dict_get d k = None \<Longrightarrow> set (dict_set k v d) = insert (k, v) (set d)"
  by (induction d) (auto split: if_splits)

lemma add_node_rep:
  assumes rep: "lru_rep I cfg s as A" and none: "dict_get (lru_dict s) k = None"
  shows "\<exists>s' as'. add_node cfg now k v cbs s = Inr s' \<and> lru_rep I cfg s' as' (ab_insert cfg now k v cbs A)"
proof -
  let ?a = "next_lru_node s"
  let ?x = "\<lparr>it_key = k, it_value = v, it_callbacks = fold set_add cbs [], it_time = access_time cfg now\<rparr>"
  from new_lru_node_core[OF lru_repD(1)[OF rep]] obtain h n where n: "new_lru_node cfg now k v cbs s = Inr (?a,
      s\<lparr>lru_lists := h, next_lru_node := Suc ?a, lru_nodes := (lru_nodes s)(?a \<mapsto> n)\<rparr>)"
    "core cfg (s\<lparr>lru_lists := h, next_lru_node := Suc ?a, lru_nodes := (lru_nodes s)(?a \<mapsto> n)\<rparr>) (?a # as)"
    "items (s\<lparr>lru_lists := h, next_lru_node := Suc ?a, lru_nodes := (lru_nodes s)(?a \<mapsto> n)\<rparr>) (?a # as) = ?x # items s as"
    "node_key n = k" "\<forall>x. alloc (lru_lists s) x \<longrightarrow> alloc h x" .
  let ?s1 = "s\<lparr>lru_lists := h, next_lru_node := Suc ?a, lru_nodes := (lru_nodes s)(?a \<mapsto> n)\<rparr>"
  let ?c = "cached_cache_len s + (case size_callback cfg of None \<Rightarrow> 0 | Some f \<Rightarrow> f v)"
  let ?e = "case extra_index_cb cfg of None \<Rightarrow> extra_index s
    | Some cb \<Rightarrow> dict_set (cb k v) (set_add k (dict_get_default (extra_index s) (cb k v) [])) (extra_index s)"
  let ?s2 = "?s1\<lparr>lru_dict := dict_set k ?a (lru_dict s), cached_cache_len := ?c, extra_index := ?e\<rparr>"
  have "add_node cfg now k v cbs s = Inr ?s2"
    using n(1) by (cases "size_callback cfg"; cases "extra_index_cb cfg") (simp_all add: add_node_def Let_def)
  moreover have "lru_rep I cfg ?s2 (?a # as) (ab_insert cfg now k v cbs A)"
  proof -
    have "?a \<notin> set as" using core_distinct[OF n(2)] by simp
    moreover have "set (dict_set k ?a (lru_dict s)) = insert (k, ?a) (set (lru_dict s))"
      by (rule set_dict_set_fresh[OF none])
    moreover have "(\<lambda>a. (node_key (nd ?s2 a), a)) ` set as = (\<lambda>a. (node_key (nd s a), a)) ` set as"
      by (rule image_cong) (use \<open>?a \<notin> set as\<close> in auto)
    ultimately have "set (lru_dict ?s2) = (\<lambda>a. (node_key (nd ?s2 a), a)) ` set (?a # as)"
      using lru_repD(3)[OF rep] n(4) by simp
    moreover have "index_ok I cfg ?e (?x # ab_items A)"
      using index_ok_insert[OF lru_repD(8)[OF rep], of ?x] rep_absent(2)[OF rep none] lru_repD(8)[OF rep]
      by (cases "extra_index_cb cfg") (auto simp: index_ok_def)
    moreover have "?c = ab_total cfg (?x # ab_items A)" if "size_callback cfg = Some f" for f
      using lru_repD(7)[OF rep that] that by (simp add: ab_total_def)
    ultimately show ?thesis
      using n(2,3) lru_repD(2,4,5,6)[OF rep] unfolding lru_rep_def by (simp add: ab_insert_def alist.wf_put)
  qed
  ultimately show ?thesis by blast
qed

lemma overwrite_rep:
  assumes rep: "lru_rep I cfg s as A" and get: "dict_get (lru_dict s) k = Some a"
    and x: "item_lookup k (ab_items A) = Some x" and stable: "index_stable cfg k v A"
  shows "\<exists>n s1 s2 as'. read_lru_node s a = Inr n \<and> node_value n = it_value x \<and>
    (if v \<noteq> node_value n then run_and_clear_callbacks a s else Inr s) = Inr s1 \<and>
    move_to_front now a (add_callbacks a cbs (case size_callback cfg of None \<Rightarrow> s1
      | Some f \<Rightarrow> s1\<lparr>cached_cache_len := cached_cache_len s1 - f (node_value n) + f v\<rparr>)) = Inr s2 \<and>
    lru_rep I cfg (update_lru_node a (\<lambda>n. n\<lparr>node_value := v\<rparr>) s2) as'
      (A\<lparr>ab_items := \<lparr>it_key = k, it_value = v, it_callbacks = fold set_add cbs (if v \<noteq> it_value x then [] else it_callbacks x),
           it_time = access_time cfg now\<rparr> # without k (ab_items A),
         ab_run := ab_run A + mset (if v \<noteq> it_value x then it_callbacks x else [])\<rparr>)"
proof -
  from rep_present[OF rep get] obtain us vs where as: "as = us @ a # vs"
    "item_lookup k (ab_items A) = Some (item_of (lru_lists s) (nd s a))" "without k (ab_items A) = items s (us @ vs)"
    "filter (\<lambda>x. it_key x = k) (ab_items A) = [item_of (lru_lists s) (nd s a)]" "node_key (nd s a) = k"
    "ab_items A = items s us @ item_of (lru_lists s) (nd s a) # items s vs" .
  have core: "core cfg s (us @ a # vs)" using lru_repD(1)[OF rep] as(1) by simp
  obtain n where n: "lru_nodes s a = Some n" by (rule core_node[OF core, of a]) auto
  have x_def: "x = item_of (lru_lists s) n" using x as(2) n by simp
  have off: "a \<notin> set (us @ vs)" using core_distinct[OF core] by auto
  let ?run = "if v \<noteq> node_value n then cbs_of (node_callbacks n) else []"
  have "\<exists>c. (if v \<noteq> node_value n then run_and_clear_callbacks a s else Inr s) =
      Inr (s\<lparr>callbacks_run := callbacks_run s @ ?run, lru_nodes := (lru_nodes s)(a \<mapsto> n\<lparr>node_callbacks := c\<rparr>)\<rparr>) \<and>
      cbs_of c = (if v \<noteq> node_value n then [] else cbs_of (node_callbacks n))"
  proof (cases "v = node_value n")
    case True
    then show ?thesis using n by (intro exI[of _ "node_callbacks n"]) (simp add: fun_upd_idem)
  next
    case False
    from run_and_clear_result[OF n] obtain c where "run_and_clear_callbacks a s =
        Inr (s\<lparr>callbacks_run := callbacks_run s @ cbs_of (node_callbacks n), lru_nodes := (lru_nodes s)(a \<mapsto> n\<lparr>node_callbacks := c\<rparr>)\<rparr>)"
      "cbs_of c = []" .
    with False show ?thesis by (intro exI[of _ c]) simp
  qed
  then obtain c where run: "(if v \<noteq> node_value n then run_and_clear_callbacks a s else Inr s) =
      Inr (s\<lparr>callbacks_run := callbacks_run s @ ?run, lru_nodes := (lru_nodes s)(a \<mapsto> n\<lparr>node_callbacks := c\<rparr>)\<rparr>)"
    and c: "cbs_of c = (if v \<noteq> node_value n then [] else cbs_of (node_callbacks n))" by blast
  let ?s1 = "s\<lparr>callbacks_run := callbacks_run s @ ?run, lru_nodes := (lru_nodes s)(a \<mapsto> n\<lparr>node_callbacks := c\<rparr>)\<rparr>"
  let ?s2 = "case size_callback cfg of None \<Rightarrow> ?s1
      | Some f \<Rightarrow> ?s1\<lparr>cached_cache_len := cached_cache_len ?s1 - f (node_value n) + f v\<rparr>"
  define s3 where "s3 = add_callbacks a cbs ?s2"
  have n3: "lru_nodes s3 a = Some (n\<lparr>node_callbacks := merge_callbacks cbs c\<rparr>)"
    by (auto simp: s3_def add_callbacks_def split: option.splits)
  have same: "lru_nodes s3 b = lru_nodes s b" if "b \<noteq> a" for b
    using that by (auto simp: s3_def add_callbacks_def split: option.splits)
  have fields: "lru_lists s3 = lru_lists s" "list_root s3 = list_root s" "global_root s3 = global_root s"
    "next_lru_node s3 = next_lru_node s" "lru_dict s3 = lru_dict s" "lru_max_size s3 = lru_max_size s" "extra_index s3 = extra_index s"
    "callbacks_run s3 = callbacks_run s @ ?run"
    "cached_cache_len s3 = cached_cache_len s + (case size_callback cfg of None \<Rightarrow> 0 | Some f \<Rightarrow> f v - f (node_value n))"
    by (auto simp: s3_def add_callbacks_def update_lru_node_def split: option.splits)
  have core3: "core cfg s3 (us @ a # vs)"
  proof (rule core_nodes[OF core])
    fix b
    show "lru_nodes s3 b = None \<longleftrightarrow> lru_nodes s b = None" using n n3 same by (cases "b = a") simp_all
    show "list_node_ref (nd s3 b) = list_node_ref (nd s b)" "global_list_node (nd s3 b) = global_list_node (nd s b)"
      using n n3 same by (cases "b = a"; simp)+
  qed (use fields in simp_all)
  have items3: "items s3 (us @ vs) = items s (us @ vs)"
  proof (rule items_cong)
    fix b assume "b \<in> set (us @ vs)"
    then have "lru_nodes s3 b = lru_nodes s b" using off by (intro same) auto
    then show "item_of (lru_lists s3) (nd s3 b) = item_of (lru_lists s) (nd s b)" by (simp add: fields)
  qed
  from move_to_front_core[OF core3] obtain h where h: "move_to_front now a s3 = Inr (s3\<lparr>lru_lists := h\<rparr>)"
    "core cfg (s3\<lparr>lru_lists := h\<rparr>) (a # us @ vs)"
    "items (s3\<lparr>lru_lists := h\<rparr>) (a # us @ vs) = (item_of (lru_lists s3) (nd s3 a))\<lparr>it_time := access_time cfg now\<rparr> # items s3 (us @ vs)"
    "alloc h = alloc (lru_lists s3)" .
  let ?s4 = "update_lru_node a (\<lambda>n. n\<lparr>node_value := v\<rparr>) (s3\<lparr>lru_lists := h\<rparr>)"
  let ?y = "\<lparr>it_key = k, it_value = v, it_callbacks = fold set_add cbs (if v \<noteq> it_value x then [] else it_callbacks x),
    it_time = access_time cfg now\<rparr>"
  have kx: "node_key n = k" using as(5) n by simp
  have "lru_rep I cfg ?s4 (a # us @ vs)
      (A\<lparr>ab_items := ?y # without k (ab_items A), ab_run := ab_run A + mset (if v \<noteq> it_value x then it_callbacks x else [])\<rparr>)"
  proof (rule rep_change[OF rep])
    show "core cfg ?s4 (a # us @ vs)" by (rule update_lru_node_core[OF h(2)]) simp_all
    show "items ?s4 (a # us @ vs) = ?y # without k (ab_items A)"
      using h(3) items3 items_update_other[OF off, of "\<lambda>n. n\<lparr>node_value := v\<rparr>" "s3\<lparr>lru_lists := h\<rparr>"] n3 c kx
      by (auto simp: item_of_def as(3) x_def)
    show "cached_cache_len ?s4 = ab_total cfg (?y # without k (ab_items A))" if "size_callback cfg = Some f" for f
      using lru_repD(7)[OF rep that] that fields(9) n unfolding as(3) unfolding as(6) by (simp add: ab_total_def)
    show "index_ok I cfg (extra_index ?s4) (?y # without k (ab_items A))"
      unfolding update_lru_node_fields
    proof (subst index_ok_cong[of _ _ "ab_items A"])
      fix cb assume "extra_index_cb cfg = Some cb"
      then have "cb k v = cb k (it_value x)" using stable x by (simp add: index_stable_def)
      then show "(\<lambda>x. (it_key x, cb (it_key x) (it_value x))) ` set (?y # without k (ab_items A)) =
          (\<lambda>x. (it_key x, cb (it_key x) (it_value x))) ` set (ab_items A)"
        unfolding as(3) unfolding as(6) using n kx x_def by auto
    qed (use lru_repD(8)[OF rep] fields in simp)
    show "node_key (nd ?s4 b) = node_key (nd s b)" for b using n n3 same by (cases "b = a") simp_all
  qed (use as(1) fields lru_repD(6)[OF rep] x_def in auto)
  moreover have "read_lru_node s a = Inr n" using n by (simp add: read_lru_node_def)
  ultimately show ?thesis using run h(1) x_def unfolding s3_def by (intro exI[of _ n] exI[of _ ?s1] exI conjI) simp_all
qed

lemma cache_set_rep:
  assumes rep: "lru_rep I cfg s as A" and max: "0 \<le> ab_max A" and stable: "index_stable cfg k v A"
  shows "\<exists>s' as'. cache_set cfg now k v cbs s = Inr s' \<and> lru_rep I cfg s' as' (ab_set cfg now k v cbs A)"
proof (cases "dict_get (lru_dict s) k")
  case None
  from add_node_rep[OF rep None, of now v "remdups cbs"] obtain s1 as1 where s1: "add_node cfg now k v (remdups cbs) s = Inr s1"
    "lru_rep I cfg s1 as1 (ab_insert cfg now k v (remdups cbs) A)" by blast
  have "0 \<le> ab_max (ab_insert cfg now k v (remdups cbs) A)" using max by (simp add: ab_insert_def)
  from evict_rep[OF s1(2) this] show ?thesis
    using None s1(1) rep_absent(1)[OF rep None] by (auto simp: cache_set_def ab_set_def)
next
  case (Some a)
  obtain x where x: "item_lookup k (ab_items A) = Some x" by (rule rep_present[OF rep Some]) auto
  let ?A = "A\<lparr>ab_items := \<lparr>it_key = k, it_value = v, it_callbacks = fold set_add cbs (if v \<noteq> it_value x then [] else it_callbacks x),
           it_time = access_time cfg now\<rparr> # without k (ab_items A),
         ab_run := ab_run A + mset (if v \<noteq> it_value x then it_callbacks x else [])\<rparr>"
  from overwrite_rep[OF rep Some x stable, of now cbs] obtain n s1 s2 as2 where s2: "read_lru_node s a = Inr n"
    "(if v \<noteq> node_value n then run_and_clear_callbacks a s else Inr s) = Inr s1"
    "move_to_front now a (add_callbacks a cbs (case size_callback cfg of None \<Rightarrow> s1
      | Some f \<Rightarrow> s1\<lparr>cached_cache_len := cached_cache_len s1 - f (node_value n) + f v\<rparr>)) = Inr s2"
    "lru_rep I cfg (update_lru_node a (\<lambda>n. n\<lparr>node_value := v\<rparr>) s2) as2 ?A" by blast
  have "0 \<le> ab_max ?A" using max by simp
  from evict_rep[OF s2(4) this] obtain s3 as3 where
    s3: "lru_evict cfg (update_lru_node a (\<lambda>n. n\<lparr>node_value := v\<rparr>) s2) = Inr s3" "lru_rep I cfg s3 as3 (ab_evict cfg ?A)" by blast
  have "cache_set cfg now k v cbs s = Inr s3" using Some s2(1-3) s3(1) by (simp add: cache_set_def Let_def)
  moreover have "ab_set cfg now k v cbs A = ab_evict cfg ?A" using x by (simp add: ab_set_def Let_def)
  ultimately show ?thesis using s3(2) by auto
qed

lemma cache_set_default_rep:
  assumes rep: "lru_rep I cfg s as A" and max: "0 \<le> ab_max A"
  shows "\<exists>s' as'. cache_set_default cfg now k v s =
      Inr (case item_lookup k (ab_items A) of None \<Rightarrow> v | Some x \<Rightarrow> it_value x, s') \<and>
    lru_rep I cfg s' as' (case item_lookup k (ab_items A) of None \<Rightarrow> ab_evict cfg (ab_insert cfg now k v [] A) | Some _ \<Rightarrow> A)"
proof (cases "dict_get (lru_dict s) k")
  case None
  from add_node_rep[OF rep None, of now v "[]"] obtain s1 as1 where s1: "add_node cfg now k v [] s = Inr s1"
    "lru_rep I cfg s1 as1 (ab_insert cfg now k v [] A)" by blast
  have "0 \<le> ab_max (ab_insert cfg now k v [] A)" using max by (simp add: ab_insert_def)
  from evict_rep[OF s1(2) this] show ?thesis
    using None s1(1) rep_absent(1)[OF rep None] by (auto simp: cache_set_default_def)
next
  case (Some a)
  have core: "core cfg s as" by (rule lru_repD(1)[OF rep])
  obtain n where n: "lru_nodes s a = Some n" by (rule core_node[OF core]) (use rep_get[OF rep] Some in auto)
  have "item_lookup k (ab_items A) = Some (item_of (lru_lists s) n)" by (rule rep_present[OF rep Some]) (use n in simp)
  then show ?thesis using Some n rep by (auto simp: cache_set_default_def read_lru_node_def)
qed

section \<open>Removing\<close>

lemma cache_pop_rep:
  assumes rep: "lru_rep I cfg s as A"
  shows "\<exists>s' as'. cache_pop cfg k s = Inr (map_option it_value (item_lookup k (ab_items A)), s') \<and>
    lru_rep I cfg s' as' (ab_remove (\<lambda>x. it_key x = k) A)"
proof (cases "dict_get (lru_dict s) k")
  case None
  then show ?thesis using rep rep_absent[OF rep None] ab_remove_absent[of k A] by (auto simp: cache_pop_def)
next
  case (Some a)
  from rep_delete_entry[OF rep Some] obtain s' l us vs where s': "delete_node cfg a s = Inr (l, s')" "as = us @ a # vs"
    "lru_rep I cfg (s'\<lparr>lru_dict := dict_del k (lru_dict s)\<rparr>) (us @ vs) (ab_remove (\<lambda>x. it_key x = k) A)" "removed cfg a s s'" .
  from s'(4) obtain n where n: "lru_nodes s' a = Some n" "node_key n = node_key (nd s a)" "node_value n = node_value (nd s a)"
    "lru_dict s' = lru_dict s" by (auto simp: removed_def)
  have "item_lookup k (ab_items A) = Some (item_of (lru_lists s) (nd s a)) \<and> node_key (nd s a) = k"
    by (rule rep_present[OF rep Some]) simp
  then have "cache_pop cfg k s = Inr (map_option it_value (item_lookup k (ab_items A)), s'\<lparr>lru_dict := dict_del k (lru_dict s)\<rparr>)"
    using Some s'(1) n by (simp add: cache_pop_def read_lru_node_def)
  with s'(3) show ?thesis by blast
qed

text \<open>The entry is taken out of the dictionary first.\<close>

lemma dict_pop_delete_rep:
  assumes "lru_rep I cfg s as A" and "dict_get (lru_dict s) k = Some a"
  shows "\<exists>l s' as'. delete_node cfg a (s\<lparr>lru_dict := dict_del k (lru_dict s)\<rparr>) = Inr (l, s') \<and>
    lru_rep I cfg s' as' (ab_remove (\<lambda>x. it_key x = k) A) \<and> removed cfg a (s\<lparr>lru_dict := dict_del k (lru_dict s)\<rparr>) s'"
proof -
  let ?d = "dict_del k (lru_dict s)"
  from rep_delete[OF assms, of ?d] obtain s' l us vs where s': "delete_node cfg a (s\<lparr>lru_dict := ?d\<rparr>) = Inr (l, s')" "lru_dict s' = ?d"
    "as = us @ a # vs" "lru_rep I cfg (s'\<lparr>lru_dict := ?d\<rparr>) (us @ vs) (ab_remove (\<lambda>x. it_key x = k) A)"
    "removed cfg a (s\<lparr>lru_dict := ?d\<rparr>) s'" "node_key (nd s a) = k" .
  have "s'\<lparr>lru_dict := ?d\<rparr> = s'" using s'(2)[symmetric] by simp
  with s' show ?thesis by metis
qed

lemma cache_del_multi_rep:
  assumes rep: "lru_rep I cfg s as A"
  shows "\<exists>s' as'. cache_del_multi cfg k s = Inr s' \<and> lru_rep I cfg s' as' (ab_remove (\<lambda>x. it_key x = k) A)"
proof (cases "dict_get (lru_dict s) k")
  case None
  then show ?thesis using rep rep_absent(2)[OF rep None] ab_remove_absent[of k A] by (auto simp: cache_del_multi_def)
next
  case (Some a)
  from dict_pop_delete_rep[OF rep Some] show ?thesis using Some by (auto simp: cache_del_multi_def)
qed

lemma clear_loop_core:
  assumes "core cfg s as" and "distinct bs" and "set bs = set as"
  shows "\<exists>s'. py_for (\<lambda>a s. py_bind (run_and_clear_callbacks a s) (drop_from_lists a)) bs s = Inr s' \<and> core cfg s' [] \<and>
    lru_dict s' = lru_dict s \<and> list_root s' = list_root s \<and> lru_max_size s' = lru_max_size s \<and>
    mset (callbacks_run s') = mset (callbacks_run s) + all_callbacks (items s as)"
  using assms
proof (induction bs arbitrary: s as)
  case (Cons b bs)
  then obtain us vs where as: "as = us @ b # vs" by (metis in_set_conv_decomp list.set_intros(1))
  obtain n where n: "lru_nodes s b = Some n" by (rule core_node[OF Cons.prems(1), of b]) (auto simp: as)
  have off: "b \<notin> set (us @ vs)" using core_distinct[OF Cons.prems(1)] as by auto
  from run_and_clear_result[OF n] obtain c where c: "run_and_clear_callbacks b s =
      Inr (s\<lparr>callbacks_run := callbacks_run s @ cbs_of (node_callbacks n), lru_nodes := (lru_nodes s)(b \<mapsto> n\<lparr>node_callbacks := c\<rparr>)\<rparr>)"
    "cbs_of c = []" .
  let ?s = "s\<lparr>callbacks_run := callbacks_run s @ cbs_of (node_callbacks n), lru_nodes := (lru_nodes s)(b \<mapsto> n\<lparr>node_callbacks := c\<rparr>)\<rparr>"
  have "core cfg ?s (us @ b # vs)" using Cons.prems(1) unfolding as by (rule core_nodes) (use n in auto)
  from drop_from_lists_core[OF this] obtain h where h: "drop_from_lists b ?s = Inr (?s\<lparr>lru_lists := h\<rparr>)"
    "core cfg (?s\<lparr>lru_lists := h\<rparr>) (us @ vs)" "items (?s\<lparr>lru_lists := h\<rparr>) (us @ vs) = items ?s (us @ vs)"
    "alloc h = alloc (lru_lists ?s)" .
  have "set bs = set (us @ vs)" using Cons.prems(2,3) as off by auto
  with Cons.IH[OF h(2)] Cons.prems(2) obtain s' where s': "py_for (\<lambda>a s. py_bind (run_and_clear_callbacks a s) (drop_from_lists a)) bs
      (?s\<lparr>lru_lists := h\<rparr>) = Inr s'" "core cfg s' []" "lru_dict s' = lru_dict s" "list_root s' = list_root s" "lru_max_size s' = lru_max_size s"
      "mset (callbacks_run s') = mset (callbacks_run s @ cbs_of (node_callbacks n)) + all_callbacks (items (?s\<lparr>lru_lists := h\<rparr>) (us @ vs))"
    by auto
  have "items ?s (us @ vs) = items s (us @ vs)" by (rule items_cong) (use off in auto)
  then show ?case using c(1) h(1,3) s' n as by (auto simp: ac_simps)
qed auto

lemma cache_clear_rep:
  assumes rep: "lru_rep I cfg s as A"
  shows "\<exists>s'. cache_clear cfg s = Inr s' \<and> lru_rep {} cfg s' [] (ab_drop [] (ab_items A) A)"
proof -
  have "set (map snd (lru_dict s)) = set as" using lru_repD(3)[OF rep] by (auto simp: image_iff)
  moreover have "distinct (map snd (lru_dict s))"
    using calculation rep_length[OF rep] core_distinct[OF lru_repD(1)[OF rep]]
    by (metis card_distinct distinct_card length_map)
  ultimately obtain s' where s': "py_for (\<lambda>a s. py_bind (run_and_clear_callbacks a s) (drop_from_lists a)) (map snd (lru_dict s)) s = Inr s'"
      "core cfg s' []" "list_root s' = list_root s" "lru_max_size s' = lru_max_size s"
      "mset (callbacks_run s') = mset (callbacks_run s) + all_callbacks (items s as)"
    using clear_loop_core[OF lru_repD(1)[OF rep], of "map snd (lru_dict s)"] by blast
  from s'(2) have ring: "ring (lru_lists s') (list_root s') []" by (simp add: core_def linked_def)
  have "alloc (lru_lists s') (list_root s')" by (rule ring_member(3)[OF ring]) simp
  from read_node_alloc[OF this] obtain r where r: "read_node (lru_lists s') (list_root s') = Inr r"
      "next_node r = Some (list_root s')" "prev_node r = Some (list_root s')"
    using ring by (auto simp: ring_def)
  let ?s = "(case size_callback cfg of None \<Rightarrow> s'\<lparr>lru_dict := []\<rparr> | Some _ \<Rightarrow> s'\<lparr>lru_dict := [], cached_cache_len := 0\<rparr>)\<lparr>extra_index := []\<rparr>"
  have "cache_clear cfg s = Inr ?s"
    using s'(1) r by (cases "size_callback cfg") (simp_all add: cache_clear_def Let_def)
  moreover have "lru_rep {} cfg ?s [] (ab_drop [] (ab_items A) A)"
    using s' lru_repD(4,5,6)[OF rep]
    by (cases "size_callback cfg") (simp_all add: lru_rep_def ab_drop_def index_ok_def ab_total_def dict_get_default_def)
  ultimately show ?thesis by blast
qed

lemma ab_remove_remove: "ab_remove Q (ab_remove P A) = ab_remove (\<lambda>x. P x \<or> Q x) A"
proof -
  have "all_callbacks (filter P xs) + all_callbacks (filter Q (filter (\<lambda>x. \<not> P x) xs)) = all_callbacks (filter (\<lambda>x. P x \<or> Q x) xs)" for xs
    by (induction xs) (auto simp: ac_simps)
  then show ?thesis by (simp add: ab_remove_def ab_drop_def add.assoc conj_commute)
qed

lemma invalidate_loop_rep:
  assumes "lru_rep {i} cfg s as A" and "distinct ks" and "extra_index_cb cfg = Some cb" and "dict_get (extra_index s) i = None"
    and "\<And>k. k \<in> set ks \<Longrightarrow> \<exists>x \<in> set (ab_items A). it_key x = k \<and> cb k (it_value x) = i"
  shows "\<exists>s' as'. py_for (\<lambda>k s. case dict_get (lru_dict s) k of
        None \<Rightarrow> Inr s
      | Some a \<Rightarrow> py_bind (delete_node cfg a (s\<lparr>lru_dict := dict_del k (lru_dict s)\<rparr>)) (\<lambda>(evicted_len, s). Inr s)) ks s = Inr s' \<and>
    lru_rep {i} cfg s' as' (ab_remove (\<lambda>x. it_key x \<in> set ks) A) \<and> dict_get (extra_index s') i = None"
  using assms
proof (induction ks arbitrary: s as A)
  case Nil
  then show ?case by (auto simp: ab_remove_def ab_drop_def)
next
  case (Cons k ks)
  note rep = Cons.prems(1)
  from Cons.prems(5)[of k] obtain x where x: "x \<in> set (ab_items A)" "it_key x = k" "cb k (it_value x) = i" by auto
  then obtain a where a: "dict_get (lru_dict s) k = Some a" using rep_absent(2)[OF rep] by (cases "dict_get (lru_dict s) k") auto
  from dict_pop_delete_rep[OF rep a] obtain l s' as' where s': "delete_node cfg a (s\<lparr>lru_dict := dict_del k (lru_dict s)\<rparr>) = Inr (l, s')"
    "lru_rep {i} cfg s' as' (ab_remove (\<lambda>x. it_key x = k) A)" "removed cfg a (s\<lparr>lru_dict := dict_del k (lru_dict s)\<rparr>) s'" by blast
  have item: "filter (\<lambda>x. it_key x = k) (ab_items A) = [item_of (lru_lists s) (nd s a)] \<and> node_key (nd s a) = k"
    by (rule rep_present[OF rep a]) simp
  moreover from x have "x \<in> set (filter (\<lambda>x. it_key x = k) (ab_items A))" by simp
  ultimately have "x = item_of (lru_lists s) (nd s a)" by simp
  then have "node_value (nd s a) = it_value x" by simp
  then have "dict_get (extra_index s') i = None"
    using s'(3) Cons.prems(3,4) x item unfolding removed_dict by (auto simp: removed_def discard_extra_index_def)
  moreover have "\<exists>x \<in> set (ab_items (ab_remove (\<lambda>x. it_key x = k) A)). it_key x = j \<and> cb j (it_value x) = i" if "j \<in> set ks" for j
    using Cons.prems(5)[of j] Cons.prems(2) that by (auto simp: ab_remove_def ab_drop_def)
  ultimately obtain s'' as'' where s'': "py_for (\<lambda>k s. case dict_get (lru_dict s) k of
        None \<Rightarrow> Inr s
      | Some a \<Rightarrow> py_bind (delete_node cfg a (s\<lparr>lru_dict := dict_del k (lru_dict s)\<rparr>)) (\<lambda>(evicted_len, s). Inr s)) ks s' = Inr s''"
    "lru_rep {i} cfg s'' as'' (ab_remove (\<lambda>x. it_key x \<in> set ks) (ab_remove (\<lambda>x. it_key x = k) A))"
    "dict_get (extra_index s'') i = None"
    using Cons.IH[OF s'(2)] Cons.prems(2,3) by auto
  have "ab_remove (\<lambda>x. it_key x \<in> set ks) (ab_remove (\<lambda>x. it_key x = k) A) = ab_remove (\<lambda>x. it_key x \<in> set (k # ks)) A"
    by (simp add: ab_remove_remove)
  with s'' s'(1) a show ?case by auto
qed

lemma cache_invalidate_rep:
  assumes rep: "lru_rep {} cfg s as A" and cb: "extra_index_cb cfg = Some cb"
  shows "\<exists>s' as'. cache_invalidate_on_extra_index cfg i s = Inr s' \<and>
    lru_rep {} cfg s' as' (ab_remove (\<lambda>x. cb (it_key x) (it_value x) = i) A)"
proof -
  let ?ks = "dict_get_default (extra_index s) i []"
  have ks: "distinct ?ks" "\<And>k. k \<in> set ?ks \<longleftrightarrow> (\<exists>x \<in> set (ab_items A). it_key x = k \<and> cb k (it_value x) = i)"
    using lru_repD(8)[OF rep] cb by (auto simp: index_ok_def)
  have "it_key x \<in> set ?ks \<longleftrightarrow> cb (it_key x) (it_value x) = i" if "x \<in> set (ab_items A)" for x
    using ks(2)[of "it_key x"] that rep_keys[OF rep] by (auto simp: distinct_map inj_on_def)
  then have P: "ab_remove (\<lambda>x. it_key x \<in> set ?ks) A = ab_remove (\<lambda>x. cb (it_key x) (it_value x) = i) A"
    unfolding ab_remove_def by (simp cong: filter_cong)
  show ?thesis
  proof (cases "dict_get (extra_index s) i")
    case None
    then have "?ks = []" by (simp add: dict_get_default_def)
    then have "ab_remove (\<lambda>x. it_key x \<in> set ?ks) A = A" by (simp add: ab_remove_def ab_drop_def)
    with None P rep cb show ?thesis by (auto simp: cache_invalidate_on_extra_index_def)
  next
    case (Some l)
    let ?s = "s\<lparr>extra_index := dict_del i (extra_index s)\<rparr>"
    have "lru_rep {i} cfg ?s as A"
    proof -
      have "index_ok {i} cfg (dict_del i (extra_index s)) (ab_items A)"
        using lru_repD(8)[OF rep] by (auto simp: index_ok_def dict_get_default_def alist.get_del)
      with rep show ?thesis by (simp add: lru_rep_def)
    qed
    from invalidate_loop_rep[OF this ks(1) cb] ks(2) obtain s' as' where s': "py_for (\<lambda>k s. case dict_get (lru_dict s) k of
        None \<Rightarrow> Inr s
      | Some a \<Rightarrow> py_bind (delete_node cfg a (s\<lparr>lru_dict := dict_del k (lru_dict s)\<rparr>)) (\<lambda>(evicted_len, s). Inr s)) ?ks ?s = Inr s'"
      "lru_rep {i} cfg s' as' (ab_remove (\<lambda>x. cb (it_key x) (it_value x) = i) A)" "dict_get (extra_index s') i = None"
      unfolding P by (auto simp: alist.get_del)
    let ?A = "ab_remove (\<lambda>x. cb (it_key x) (it_value x) = i) A"
    have "index_ok {} cfg (extra_index s') (ab_items ?A)"
      unfolding index_ok_def
    proof (intro allI impI)
      fix cb' j assume "extra_index_cb cfg = Some cb'"
      with cb have cb': "cb' = cb" by simp
      show "distinct (dict_get_default (extra_index s') j []) \<and>
          (\<forall>k. k \<in> set (dict_get_default (extra_index s') j []) \<longleftrightarrow> (\<exists>x \<in> set (ab_items ?A). it_key x = k \<and> cb' k (it_value x) = j))"
      proof (cases "j = i")
        case True
        then show ?thesis using s'(3) by (auto simp: cb' dict_get_default_def ab_remove_def ab_drop_def)
      next
        case False
        with lru_repD(8)[OF s'(2)] cb show ?thesis unfolding cb' index_ok_def by blast
      qed
    qed
    then have "lru_rep {} cfg s' as' ?A" using s'(2) by (simp add: lru_rep_def)
    moreover have "cache_invalidate_on_extra_index cfg i s = Inr s'"
      using s'(1) cb Some by (simp add: cache_invalidate_on_extra_index_def dict_get_default_def)
    ultimately show ?thesis by blast
  qed
qed

end
