(* ===== verification/Lru_Cache_Expiry.thy ===== *)
theory Lru_Cache_Expiry
  imports Lru_Cache_Refines
begin

text \<open>
  The background walk that drops old entries. It never runs into one of its assertions, whatever the
  rest of the server does to the cache while it waits, and it ends when that adds no entries
  (\<open>expire_safe\<close>); when nothing interferes, it
  drops the entries at the end of the list that have not been used for the given time
  (\<open>expire_exact\<close>).
\<close>

section \<open>One step of the walk\<close>

lemma drop_from_cache_rep:
  assumes rep: "lru_rep I cfg s (us @ a # vs) A"
  obtains s' where "drop_from_cache cfg a s = Inr s'"
    and "lru_rep I cfg s' (us @ vs) (ab_remove (\<lambda>x. it_key x = node_key (nd s a)) A)"
    and "global_root s' = global_root s" and "alloc (lru_lists s') = alloc (lru_lists s)"
    and "\<forall>b. b \<noteq> a \<longrightarrow> lru_nodes s' b = lru_nodes s b"
proof -
  let ?k = "node_key (nd s a)"
  have core: "core cfg s (us @ a # vs)" by (rule lru_repD(1)[OF rep])
  obtain n where n: "lru_nodes s a = Some n" by (rule core_node[OF core, of a]) auto
  have get: "dict_get (lru_dict s) ?k = Some a" using rep_get[OF rep] by simp
  from rep_delete_entry[OF rep get] obtain s' l us' vs' where s': "delete_node cfg a s = Inr (l, s')" "us @ a # vs = us' @ a # vs'"
    "lru_rep I cfg (s'\<lparr>lru_dict := dict_del ?k (lru_dict s)\<rparr>) (us' @ vs') (ab_remove (\<lambda>x. it_key x = ?k) A)" "removed cfg a s s'" .
  have "a \<notin> set us" "a \<notin> set vs" using core_distinct[OF core] by auto
  from iffD1[OF append_Cons_eq_iff[OF this] s'(2)] have "us' = us" "vs' = vs" by simp_all
  from s'(4) obtain m where m: "lru_nodes s' a = Some m" "node_key m = ?k" "lru_dict s' = lru_dict s" by (auto simp: removed_def)
  have "drop_from_cache cfg a s = Inr (s'\<lparr>lru_dict := dict_del ?k (lru_dict s)\<rparr>)"
    using n get s'(1) m by (simp add: drop_from_cache_def cache_pop_def read_lru_node_def)
  with s'(3,4) \<open>us' = us\<close> \<open>vs' = vs\<close> show thesis
    by (intro that[of "s'\<lparr>lru_dict := dict_del ?k (lru_dict s)\<rparr>"]) (simp_all add: removed_def)
qed

lemma core_gnode:
  assumes core: "core cfg s (us @ a # vs)" and tracked: "tracked cfg"
  obtains g n t where "global_list_node (nd s a) = Some g" and "g \<noteq> global_root s" and "read_node (lru_lists s) g = Inr n"
    and "last_access n = Some t" and "it_time (item_of (lru_lists s) (nd s a)) = Some t" and "cache_entry n = Some a"
    and "prev_node n = Some (last (global_root s # gnodes (\<lambda>a. global_list_node (nd s a)) us))"
proof -
  let ?G = "\<lambda>a. global_list_node (nd s a)"
  from core have ring: "ring (lru_lists s) (global_root s) (gnodes ?G (us @ a # vs))"
    and carries: "carries (tracked cfg) (lru_lists s) (list_node_ref (nd s a)) (?G a) a" by (auto simp: core_def linked_def)
  from carries tracked obtain g t where g: "?G a = Some g" "payload (lru_lists s) g = Some (Some a, Some t)"
    by (auto simp: carries_def)
  with ring have ring': "ring (lru_lists s) (global_root s) (gnodes ?G us @ g # gnodes ?G vs)" by simp
  have "g \<noteq> global_root s" using ring_distinct[OF ring'] by auto
  moreover have "alloc (lru_lists s) g" by (rule ring_member(3)[OF ring']) simp
  from read_node_alloc[OF this] obtain n where "read_node (lru_lists s) g = Inr n" "cache_entry n = Some a" "last_access n = Some t"
    "prev_node n = Some (last (global_root s # gnodes ?G us))" using g(2) ring_prev[OF ring'] by auto
  ultimately show thesis using g by (intro that[of g n t]) (auto simp: stamp_def)
qed

text \<open>A node of the global list, or its root, has a predecessor.\<close>

lemma gnode_prev:
  assumes "core cfg s as" and "x = global_root s \<or> (\<exists>a \<in> set as. global_list_node (nd s a) = Some x)"
  shows "\<exists>n p. read_node (lru_lists s) x = Inr n \<and> prev_node n = Some p"
proof -
  let ?G = "\<lambda>a. global_list_node (nd s a)"
  have ring: "ring (lru_lists s) (global_root s) (gnodes ?G as)" using assms(1) by (simp add: core_def linked_def)
  have "x \<in> set (global_root s # gnodes ?G as)" using assms(2) by (auto simp: set_gnodes)
  note mem = ring_member[OF ring this]
  from read_node_alloc[OF mem(3)] mem(2) show ?thesis by auto
qed

lemma last_gnodes: "last (r # gnodes G us) = r \<or> (\<exists>a \<in> set us. G a = Some (last (r # gnodes G us)))"
proof (cases "gnodes G us = []")
  case False
  then have "last (r # gnodes G us) \<in> set (gnodes G us)" by simp
  then show ?thesis unfolding set_gnodes by (rule disjI2)
qed simp

section \<open>Interference\<close>

text \<open>Whatever runs while the walk waits keeps the cache in order and frees no node.\<close>

definition own_nodes :: "('k, 'v) lru_cache \<Rightarrow> nat list \<Rightarrow> nat set" where
  "own_nodes s as = set (list_root s # map (\<lambda>a. list_node_ref (nd s a)) as)"

definition keeps_cache :: "('k, 'v) lru_config \<Rightarrow> (('k, 'v) lru_cache \<Rightarrow> ('k, 'v) lru_cache) \<Rightarrow> bool" where
  "keeps_cache cfg f \<longleftrightarrow> (\<forall>s as A. lru_rep {} cfg s as A \<longrightarrow> 0 \<le> ab_max A \<longrightarrow>
     (\<exists>as' A'. lru_rep {} cfg (f s) as' A' \<and> 0 \<le> ab_max A' \<and> global_root (f s) = global_root s \<and>
       (\<forall>x. alloc (lru_lists s) x \<longrightarrow> alloc (lru_lists (f s)) x \<and> (x \<notin> own_nodes s as \<longrightarrow> x \<notin> own_nodes (f s) as'))))"

text \<open>It adds no entries.\<close>

definition adds_none :: "('k, 'v) lru_config \<Rightarrow> (('k, 'v) lru_cache \<Rightarrow> ('k, 'v) lru_cache) \<Rightarrow> bool" where
  "adds_none cfg f \<longleftrightarrow> (\<forall>s as A. lru_rep {} cfg s as A \<longrightarrow> 0 \<le> ab_max A \<longrightarrow> length (lru_dict (f s)) \<le> length (lru_dict s))"

lemma gnode_or_unlinked:
  assumes core: "core cfg s as" and alloc: "alloc (lru_lists s) x" and other: "x \<notin> own_nodes s as"
  obtains n where "read_node (lru_lists s) x = Inr n"
    and "prev_node n = None \<or> x = global_root s \<or> (\<exists>a \<in> set as. global_list_node (nd s a) = Some x)"
proof -
  from read_node_alloc[OF alloc] obtain n where n: "read_node (lru_lists s) x = Inr n" "prev_node n = prv (lru_lists s) x" by blast
  have "prv (lru_lists s) x = None \<or> x = global_root s \<or> (\<exists>a \<in> set as. global_list_node (nd s a) = Some x)"
    using core other set_gnodes[of x "\<lambda>a. global_list_node (nd s a)" as] unfolding core_def linked_def own_nodes_def by auto
  with n show thesis by (intro that[of n]) (simp, metis)
qed

text \<open>The node of an entry in the global list is not one of the list of the cache.\<close>

lemma gnode_not_own:
  assumes "core cfg s as" and "x = global_root s \<or> (\<exists>a \<in> set as. global_list_node (nd s a) = Some x)"
  shows "x \<notin> own_nodes s as"
proof -
  have "x \<in> set (global_root s # gnodes (\<lambda>a. global_list_node (nd s a)) as)" using assms(2) by (auto simp: set_gnodes)
  with assms(1) show ?thesis unfolding core_def linked_def own_nodes_def by blast
qed

lemma expire_loop_safe:
  assumes "\<And>i. keeps_cache cfg (others i)" and tracked: "tracked cfg" and "lru_rep {} cfg s as A" and "0 \<le> ab_max A"
    and "node = global_root s \<or> (\<exists>a \<in> set as. global_list_node (nd s a) = Some node)"
  shows "expire_loop cfg now expiry tune mem others fuel node i ev s = Inl OutOfFuel \<and> ((\<forall>i. adds_none cfg (others i)) \<longrightarrow> fuel \<le> length as) \<or>
    (\<exists>s' as' A'. expire_loop cfg now expiry tune mem others fuel node i ev s = Inr s' \<and> lru_rep {} cfg s' as' A' \<and> 0 \<le> ab_max A')"
  using assms(3-5)
proof (induction fuel arbitrary: node i ev s as A)
  case (Suc fuel)
  note rep = Suc.prems(1)
  show ?case
  proof (cases "node = global_root s")
    case True
    then show ?thesis using rep Suc.prems(2) by auto
  next
    case False
    with Suc.prems(3) obtain us a vs where as: "as = us @ a # vs" and g: "global_list_node (nd s a) = Some node"
      by (auto simp: in_set_conv_decomp)
    have core: "core cfg s (us @ a # vs)" using lru_repD(1)[OF rep] as by simp
    define nx where "nx = last (global_root s # gnodes (\<lambda>a. global_list_node (nd s a)) us)"
    from core_gnode[OF core tracked, folded nx_def] obtain g' n t where n: "global_list_node (nd s a) = Some g'" "g' \<noteq> global_root s"
        "read_node (lru_lists s) g' = Inr n" "last_access n = Some t" "it_time (item_of (lru_lists s) (nd s a)) = Some t"
        "cache_entry n = Some a" "prev_node n = Some nx" .
    with g have g': "g' = node" by simp
    note n = n(3,4,6,7)[unfolded g']
    show ?thesis
    proof (cases "young now expiry tune ev t")
      case True
      then show ?thesis using n False rep Suc.prems(2) by auto
    next
      case old: False
      from drop_from_cache_rep[OF rep[unfolded as]] obtain s1 where s1: "drop_from_cache cfg a s = Inr s1"
        "lru_rep {} cfg s1 (us @ vs) (ab_remove (\<lambda>x. it_key x = node_key (nd s a)) A)" "global_root s1 = global_root s"
        "alloc (lru_lists s1) = alloc (lru_lists s)" "\<forall>b. b \<noteq> a \<longrightarrow> lru_nodes s1 b = lru_nodes s b" .
      have max: "0 \<le> ab_max (ab_remove (\<lambda>x. it_key x = node_key (nd s a)) A)"
        using Suc.prems(2) by (simp add: ab_remove_def ab_drop_def)
      have off: "a \<notin> set us" using core_distinct[OF core] by simp
      have nx1: "nx = global_root s1 \<or> (\<exists>b \<in> set (us @ vs). global_list_node (nd s1 b) = Some nx)"
        using last_gnodes[of "global_root s" "\<lambda>a. global_list_node (nd s a)" us, folded nx_def] off s1(3,5) by (metis Un_iff set_append)
      let ?s2 = "if (i + 1) mod 10000 = 0 then others i s1 else s1"
      have "\<exists>as2 A2 m. lru_rep {} cfg ?s2 as2 A2 \<and> 0 \<le> ab_max A2 \<and> read_node (lru_lists ?s2) nx = Inr m \<and>
        (prev_node m = None \<or> nx = global_root ?s2 \<or> (\<exists>b \<in> set as2. global_list_node (nd ?s2 b) = Some nx))"
      proof (cases "(i + 1) mod 10000 = 0")
        case False
        then show ?thesis using s1(2) max nx1 gnode_prev[OF lru_repD(1)[OF s1(2)] nx1] by (simp only: if_False) blast
      next
        case True
        from assms(1)[of i] s1(2) max obtain as2 A2 where r2: "lru_rep {} cfg (others i s1) as2 A2" "global_root (others i s1) = global_root s1"
          "\<And>x. alloc (lru_lists s1) x \<Longrightarrow> alloc (lru_lists (others i s1)) x"
          "\<And>x. alloc (lru_lists s1) x \<Longrightarrow> x \<notin> own_nodes s1 (us @ vs) \<Longrightarrow> x \<notin> own_nodes (others i s1) as2" "0 \<le> ab_max A2"
          unfolding keeps_cache_def by meson
        have nx: "nx \<notin> own_nodes s1 (us @ vs)" by (rule gnode_not_own[OF lru_repD(1)[OF s1(2)] nx1])
        have "alloc (lru_lists s1) nx"
          using gnode_prev[OF lru_repD(1)[OF s1(2)] nx1] by (auto simp: read_node_def alloc_def split: option.splits)
        with r2(3,4) nx have "alloc (lru_lists (others i s1)) nx" "nx \<notin> own_nodes (others i s1) as2" by blast+
        from gnode_or_unlinked[OF lru_repD(1)[OF r2(1)] this] obtain m where "read_node (lru_lists (others i s1)) nx = Inr m"
          "prev_node m = None \<or> nx = global_root (others i s1) \<or> (\<exists>a \<in> set as2. global_list_node (nd (others i s1) a) = Some nx)" .
        with r2(1,5) show ?thesis unfolding if_P[OF True] by blast
      qed
      then obtain as2 A2 m where s2: "lru_rep {} cfg ?s2 as2 A2" "read_node (lru_lists ?s2) nx = Inr m"
        "prev_node m = None \<or> nx = global_root ?s2 \<or> (\<exists>b \<in> set as2. global_list_node (nd ?s2 b) = Some nx)" "0 \<le> ab_max A2" by blast
      have size: "length as2 < length as" if "\<forall>i. adds_none cfg (others i)"
      proof -
        have "length (lru_dict (others i s1)) \<le> length (lru_dict s1)" using that s1(2) max unfolding adds_none_def by blast
        then have "length (lru_dict ?s2) \<le> length (lru_dict s1)" by simp
        then show ?thesis unfolding rep_length[OF s1(2)] rep_length[OF s2(1)] as by simp
      qed
      have step: "expire_loop cfg now expiry tune mem others (Suc fuel) node i ev s =
        (if prev_node m = None then Inr ?s2
         else expire_loop cfg now expiry tune mem others fuel nx (i + 1) (still_evicting mem tune i ev) ?s2)"
        using False n old s1(1) s2(2) by (simp add: Let_def)
      show ?thesis
      proof (cases "prev_node m = None")
        case True
        then show ?thesis unfolding step if_P[OF True] using s2(1,4) by blast
      next
        case False
        with s2(3) have "nx = global_root ?s2 \<or> (\<exists>b \<in> set as2. global_list_node (nd ?s2 b) = Some nx)" by blast
        from Suc.IH[OF s2(1,4) this, of "i + 1" "still_evicting mem tune i ev"] size show ?thesis
          unfolding step if_not_P[OF False] by (meson Suc_le_eq le_less_trans)
      qed
    qed
  qed
qed simp

lemma expire_safe:
  assumes "\<And>i. keeps_cache cfg (others i)" and "tracked cfg" and rep: "lru_rep {} cfg s as A" and max: "0 \<le> ab_max A"
  shows "expire_old_entries cfg now expiry tune mem others fuel s = Inl OutOfFuel \<and>
      ((\<forall>i. adds_none cfg (others i)) \<longrightarrow> fuel \<le> length (lru_dict s)) \<or>
    (\<exists>s' as' A'. expire_old_entries cfg now expiry tune mem others fuel s = Inr s' \<and> lru_rep {} cfg s' as' A' \<and> 0 \<le> ab_max A')"
proof -
  let ?G = "\<lambda>a. global_list_node (nd s a)"
  have core: "core cfg s as" by (rule lru_repD(1)[OF rep])
  then have ring: "ring (lru_lists s) (global_root s) (gnodes ?G as)" by (simp add: core_def linked_def)
  from gnode_prev[OF core, of "global_root s"] obtain n p where n: "read_node (lru_lists s) (global_root s) = Inr n" "prev_node n = Some p"
    by auto
  with ring_last[OF ring] read_node_alloc[OF ring_member(3)[OF ring, of "global_root s"]]
  have "p = last (global_root s # gnodes ?G as)" by auto
  with last_gnodes[of "global_root s" ?G as] have "p = global_root s \<or> (\<exists>a \<in> set as. ?G a = Some p)" by simp
  from expire_loop_safe[OF assms(1,2) rep max this] show ?thesis using n rep_length[OF rep] by (simp add: expire_old_entries_def)
qed

section \<open>Without interference\<close>

text \<open>The items that stay: those before the last one that is still young.\<close>

definition ab_expire :: "(int \<Rightarrow> bool) \<Rightarrow> ('k, 'v) lru_abs \<Rightarrow> ('k, 'v) lru_abs" where
  "ab_expire young_at A =
     (let stale = (\<lambda>x. case it_time x of None \<Rightarrow> False | Some t \<Rightarrow> \<not> young_at t);
          xs = rev (ab_items A)
      in ab_drop (rev (dropWhile stale xs)) (rev (takeWhile stale xs)) A)"

lemma ab_expire_snoc:
  assumes "ab_items A = xs @ [x]" and "it_time x = Some t" and "distinct (map it_key (ab_items A))"
  shows "ab_expire P A = (if P t then A else ab_expire P (ab_remove (\<lambda>y. it_key y = it_key x) A))"
proof -
  have "without (it_key x) (xs @ [x]) = xs" "filter (\<lambda>y. it_key y = it_key x) (xs @ [x]) = [x]"
    using item_lookup_distinct[of xs x "[]" "it_key x"] assms(1,3) by auto
  then show ?thesis using assms(1,2) by (simp add: ab_expire_def ab_remove_def ab_drop_def Let_def ac_simps)
qed

lemma still_evicting_False [simp]: "still_evicting mem tune i False = False"
  by (simp add: still_evicting_def split: option.splits)

lemma expire_loop_exact:
  assumes tracked: "tracked cfg" and "lru_rep {} cfg s as A" and "length as < fuel"
    and "node = last (global_root s # gnodes (\<lambda>a. global_list_node (nd s a)) as)"
  shows "\<exists>s' as'. expire_loop cfg now expiry tune mem (\<lambda>_ s. s) fuel node i False s = Inr s' \<and>
    lru_rep {} cfg s' as' (ab_expire (young now expiry tune False) A)"
  using assms(2-4)
proof (induction fuel arbitrary: node i s as A)
  case (Suc fuel)
  note rep = Suc.prems(1)
  show ?case
  proof (cases as rule: rev_cases)
    case Nil
    then have "ab_expire (young now expiry tune False) A = A" using lru_repD(4)[OF rep] by (simp add: ab_expire_def ab_drop_def)
    then show ?thesis using Nil Suc.prems by auto
  next
    case (snoc us a)
    have core: "core cfg s (us @ a # [])" using lru_repD(1)[OF rep] snoc by simp
    define nx where "nx = last (global_root s # gnodes (\<lambda>a. global_list_node (nd s a)) us)"
    from core_gnode[OF core tracked, folded nx_def] obtain g n t where n: "global_list_node (nd s a) = Some g" "g \<noteq> global_root s"
        "read_node (lru_lists s) g = Inr n" "last_access n = Some t" "it_time (item_of (lru_lists s) (nd s a)) = Some t"
        "cache_entry n = Some a" "prev_node n = Some nx" .
    have node: "node = g" using Suc.prems(3) snoc n(1) by simp
    have step: "ab_expire P A = (if P t then A else ab_expire P (ab_remove (\<lambda>y. it_key y = node_key (nd s a)) A))" for P
      using ab_expire_snoc[of A "items s us" "item_of (lru_lists s) (nd s a)" t P] lru_repD(4)[OF rep] snoc n(5) rep_keys[OF rep] by simp
    show ?thesis
    proof (cases "young now expiry tune False t")
      case True
      then show ?thesis using n node rep by (auto simp: step)
    next
      case old: False
      from drop_from_cache_rep[of "{}" cfg s us a "[]" A] rep snoc obtain s1 where s1: "drop_from_cache cfg a s = Inr s1"
        "lru_rep {} cfg s1 us (ab_remove (\<lambda>x. it_key x = node_key (nd s a)) A)" "global_root s1 = global_root s"
        "\<forall>b. b \<noteq> a \<longrightarrow> lru_nodes s1 b = lru_nodes s b" by auto
      have "a \<notin> set us" using core_distinct[OF core] by simp
      with s1(4) have "gnodes (\<lambda>a. global_list_node (nd s a)) us = gnodes (\<lambda>a. global_list_node (nd s1 a)) us"
        by (intro gnodes_cong) (metis)
      then have nx: "nx = last (global_root s1 # gnodes (\<lambda>a. global_list_node (nd s1 a)) us)" by (simp add: nx_def s1(3))
      with last_gnodes[of "global_root s1" "\<lambda>a. global_list_node (nd s1 a)" us]
      have "nx = global_root s1 \<or> (\<exists>b \<in> set us. global_list_node (nd s1 b) = Some nx)" by simp
      from gnode_prev[OF lru_repD(1)[OF s1(2)] this] obtain m p where m: "read_node (lru_lists s1) nx = Inr m" "prev_node m = Some p" by blast
      have "length us < fuel" using Suc.prems(2) snoc by simp
      from Suc.IH[OF s1(2) this nx, of "i + 1"] show ?thesis
        using n node old s1(1) m by (simp add: step Let_def)
    qed
  qed
qed simp

lemma expire_exact:
  assumes "tracked cfg" and rep: "lru_rep {} cfg s as A" and "length (lru_dict s) < fuel" and "\<not> evicting_at_start mem tune"
  shows "\<exists>s' as'. expire_old_entries cfg now expiry tune mem (\<lambda>_ s. s) fuel s = Inr s' \<and>
    lru_rep {} cfg s' as' (ab_expire (young now expiry tune False) A)"
proof -
  let ?G = "\<lambda>a. global_list_node (nd s a)"
  have core: "core cfg s as" by (rule lru_repD(1)[OF rep])
  then have ring: "ring (lru_lists s) (global_root s) (gnodes ?G as)" by (simp add: core_def linked_def)
  from gnode_prev[OF core, of "global_root s"] obtain n p where n: "read_node (lru_lists s) (global_root s) = Inr n" "prev_node n = Some p"
    by auto
  with ring_last[OF ring] read_node_alloc[OF ring_member(3)[OF ring, of "global_root s"]]
  have "p = last (global_root s # gnodes ?G as)" by auto
  from expire_loop_exact[OF assms(1) rep _ this, of fuel now expiry tune mem 0] show ?thesis
    using n assms(3,4) rep_length[OF rep] by (simp add: expire_old_entries_def)
qed

text \<open>Where the times decrease along the list, as they do with a clock that does not go back, these are
  the items that are still young.\<close>

lemma ab_expire_sorted:
  assumes "sorted_wrt (\<lambda>x y. the (it_time y) \<le> the (it_time x)) (ab_items A)" and "\<forall>x \<in> set (ab_items A). it_time x \<noteq> None"
    and "\<And>t t'. P t \<Longrightarrow> t \<le> t' \<Longrightarrow> P t'"
  shows "ab_items (ab_expire P A) = filter (\<lambda>x. P (the (it_time x))) (ab_items A)"
proof -
  let ?stale = "\<lambda>x :: ('a, 'b) lru_item. case it_time x of None \<Rightarrow> False | Some t \<Rightarrow> \<not> P t"
  have "rev (dropWhile ?stale (rev xs)) = filter (\<lambda>x. P (the (it_time x))) xs"
    if "sorted_wrt (\<lambda>x y. the (it_time y) \<le> the (it_time x)) xs" "\<forall>x \<in> set xs. it_time x \<noteq> None" for xs
    using that
  proof (induction xs rule: rev_induct)
    case (snoc x xs)
    then show ?case using assms(3) by (auto simp: sorted_wrt_append filter_id_conv split: option.splits)
  qed simp
  from this[OF assms(1,2)] show ?thesis by (simp add: ab_expire_def ab_drop_def Let_def)
qed

end
