(* ===== verification/Lru_Cache_Run.thy ===== *)
theory Lru_Cache_Run
  imports Lru_Cache_Expiry
begin

text \<open>
  Sequences of operations on a cache, from its creation. A run of the cache with its linked lists and
  indexes returns what the abstract run returns, and none of its assertions fails
  (\<open>lru_run_refines\<close>). What an eviction keeps fits and is the most recently used part
  (\<open>ab_evict_fits\<close>, \<open>ab_evict_longest\<close>); a client that reads through a cache of m entries
  finds in it the m keys it used last (\<open>read_through_recent\<close>).
\<close>

section \<open>A new cache, and resizing\<close>

definition ab_new :: "('k, 'v) lru_config \<Rightarrow> int \<Rightarrow> rat \<Rightarrow> ('k, 'v) lru_abs" where
  "ab_new cfg max_size factor =
     \<lparr>ab_items = [],
      ab_max = (if apply_cache_factor_from_config cfg then truncate_rat (of_int max_size * factor) else max_size),
      ab_run = {#}\<rparr>"

lemma new_lru_cache_rep: "lru_rep {} cfg (new_lru_cache cfg max_size factor) [] (ab_new cfg max_size factor)"
proof -
  let ?e = "\<lparr>node_at = (\<lambda>_. None), free_addr = 0\<rparr> :: nat node_store"
  obtain g h where g: "create_root_node ?e = (g, h)" by fastforce
  obtain r h' where r: "create_root_node h = (r, h')" by fastforce
  have "wf_store ?e" by (simp add: wf_store_def alloc_def)
  note 1 = create_root_ring[OF this g]
  note 2 = create_root_ring[OF 1(2) r]
  have "ring h' g []" by (rule ring_kept[OF 1(1) 2(5)]) (use 1(4) 2(3) in simp)
  moreover have "prv h' x = None" if "x \<noteq> r" "x \<noteq> g" for x
    using that 1(5) 2(5) by (simp add: links_kept_def prv_def)
  ultimately have "linked (tracked cfg) h' r g (\<lambda>a. list_node_ref (the None)) (\<lambda>a. global_list_node (the None)) []"
    using 1 2 by (simp add: linked_def)
  then show ?thesis
    by (simp add: new_lru_cache_def ab_new_def g r lru_rep_def core_def wf_dict_def ab_total_def index_ok_def dict_get_default_def
        split: option.splits)
qed

lemma lru_rep_resize: "lru_rep I cfg s as A \<Longrightarrow> lru_rep I cfg (s\<lparr>lru_max_size := m\<rparr>) as (A\<lparr>ab_max := m\<rparr>)"
  by (clarsimp simp: lru_rep_def)

lemma set_cache_factor_rep:
  assumes rep: "lru_rep I cfg s as A" and max: "0 \<le> truncate_rat (of_int (lru_original_max_size s) * factor)"
  shows "\<exists>s' as'. lru_set_cache_factor cfg factor s = Inr s' \<and> lru_rep I cfg s' as'
    (let m = truncate_rat (of_int (lru_original_max_size s) * factor)
     in if apply_cache_factor_from_config cfg \<and> m \<noteq> ab_max A then ab_evict cfg (A\<lparr>ab_max := m\<rparr>) else A)"
  using evict_rep[OF lru_rep_resize[OF rep]] rep max lru_repD(5)[OF rep] by (auto simp: lru_set_cache_factor_def Let_def)

section \<open>Runs\<close>

datatype ('k, 'v) lru_op =
    GetOp int 'k "nat list" bool
  | SetOp int 'k 'v "nat list"
  | SetDefaultOp int 'k 'v
  | PopOp 'k
  | DelMultiOp 'k
  | ContainsOp 'k
  | ClearOp
  | InvalidateOp 'k
  | ExpireOp int rat

datatype 'v lru_result = Returned "'v option" | Answered bool | Nothing

fun lru_step :: "('k, 'v) lru_config \<Rightarrow> ('k, 'v) lru_op \<Rightarrow> ('k, 'v) lru_cache \<Rightarrow> ('v lru_result \<times> ('k, 'v) lru_cache) py" where
  "lru_step cfg (GetOp now k cbs upd) s = py_bind (cache_get now k cbs upd s) (\<lambda>(r, s). Inr (Returned r, s))"
| "lru_step cfg (SetOp now k v cbs) s = py_bind (cache_set cfg now k v cbs s) (\<lambda>s. Inr (Nothing, s))"
| "lru_step cfg (SetDefaultOp now k v) s = py_bind (cache_set_default cfg now k v s) (\<lambda>(r, s). Inr (Returned (Some r), s))"
| "lru_step cfg (PopOp k) s = py_bind (cache_pop cfg k s) (\<lambda>(r, s). Inr (Returned r, s))"
| "lru_step cfg (DelMultiOp k) s = py_bind (cache_del_multi cfg k s) (\<lambda>s. Inr (Nothing, s))"
| "lru_step cfg (ContainsOp k) s = Inr (Answered (cache_contains k s), s)"
| "lru_step cfg ClearOp s = py_bind (cache_clear cfg s) (\<lambda>s. Inr (Nothing, s))"
| "lru_step cfg (InvalidateOp i) s = py_bind (cache_invalidate_on_extra_index cfg i s) (\<lambda>s. Inr (Nothing, s))"
| "lru_step cfg (ExpireOp now e) s =
     py_bind (expire_old_entries cfg now (Some e) None None (\<lambda>_ s. s) (Suc (length (lru_dict s))) s) (\<lambda>s. Inr (Nothing, s))"

fun ab_step :: "('k, 'v) lru_config \<Rightarrow> ('k, 'v) lru_op \<Rightarrow> ('k, 'v) lru_abs \<Rightarrow> 'v lru_result \<times> ('k, 'v) lru_abs" where
  "ab_step cfg (GetOp now k cbs upd) A = (Returned (fst (ab_get cfg now k cbs upd A)), snd (ab_get cfg now k cbs upd A))"
| "ab_step cfg (SetOp now k v cbs) A = (Nothing, ab_set cfg now k v cbs A)"
| "ab_step cfg (SetDefaultOp now k v) A =
     (case item_lookup k (ab_items A) of
        None \<Rightarrow> (Returned (Some v), ab_evict cfg (ab_insert cfg now k v [] A))
      | Some x \<Rightarrow> (Returned (Some (it_value x)), A))"
| "ab_step cfg (PopOp k) A = (Returned (map_option it_value (item_lookup k (ab_items A))), ab_remove (\<lambda>x. it_key x = k) A)"
| "ab_step cfg (DelMultiOp k) A = (Nothing, ab_remove (\<lambda>x. it_key x = k) A)"
| "ab_step cfg (ContainsOp k) A = (Answered (item_lookup k (ab_items A) \<noteq> None), A)"
| "ab_step cfg ClearOp A = (Nothing, ab_remove (\<lambda>_. True) A)"
| "ab_step cfg (InvalidateOp i) A =
     (Nothing, ab_remove (\<lambda>x. case extra_index_cb cfg of None \<Rightarrow> False | Some cb \<Rightarrow> cb (it_key x) (it_value x) = i) A)"
| "ab_step cfg (ExpireOp now e) A = (Nothing, ab_expire (\<lambda>t. of_int t > of_int now - e) A)"

text \<open>What the operations ask of their callers.\<close>

fun op_allowed :: "('k, 'v) lru_config \<Rightarrow> ('k, 'v) lru_op \<Rightarrow> ('k, 'v) lru_abs \<Rightarrow> bool" where
  "op_allowed cfg (SetOp now k v cbs) A = index_stable cfg k v A"
| "op_allowed cfg (InvalidateOp i) A = (extra_index_cb cfg \<noteq> None)"
| "op_allowed cfg (ExpireOp now e) A = tracked cfg"
| "op_allowed cfg _ A = True"

lemma ab_max_step [simp]:
  "ab_max (ab_evict cfg A) = ab_max A" "ab_max (ab_insert cfg now k v cbs A) = ab_max A"
  "ab_max (ab_remove P A) = ab_max A" "ab_max (ab_drop xs ys A) = ab_max A" "ab_max (ab_expire Q A) = ab_max A"
  "ab_max (ab_set cfg now k v cbs A) = ab_max A" "ab_max (snd (ab_get cfg now k cbs upd A)) = ab_max A"
  by (simp_all add: ab_evict_def ab_drop_def ab_insert_def ab_remove_def ab_expire_def ab_set_def ab_get_def Let_def split: option.splits)

lemma ab_step_max [simp]: "ab_max (snd (ab_step cfg op A)) = ab_max A"
  by (cases op) (simp_all split: option.splits)

lemma young_expiry: "young now (Some e) None False = (\<lambda>t. of_int t > of_int now - e)"
  by (simp add: young_def fun_eq_iff)

lemma contains_rep:
  assumes "lru_rep I cfg s as A"
  shows "cache_contains k s \<longleftrightarrow> k \<in> set (map it_key (ab_items A))"
proof (cases "dict_get (lru_dict s) k")
  case None
  then show ?thesis using rep_absent(2)[OF assms None] by (simp add: cache_contains_def dict_has_def)
next
  case (Some a)
  have "item_lookup k (ab_items A) \<noteq> None" by (rule rep_present[OF assms Some]) simp
  then show ?thesis using Some unfolding item_lookup_absent by (simp add: cache_contains_def dict_has_def)
qed

lemma lru_step_rep:
  assumes rep: "lru_rep {} cfg s as A" and max: "0 \<le> ab_max A" and ok: "op_allowed cfg op A"
  shows "\<exists>s' as'. lru_step cfg op s = Inr (fst (ab_step cfg op A), s') \<and> lru_rep {} cfg s' as' (snd (ab_step cfg op A))"
proof (cases op)
  case (GetOp now k cbs upd)
  then show ?thesis using cache_get_rep[OF rep, of now k cbs upd] by auto
next
  case (SetOp now k v cbs)
  then show ?thesis using cache_set_rep[OF rep max, of k v now cbs] ok by auto
next
  case (SetDefaultOp now k v)
  then show ?thesis using cache_set_default_rep[OF rep max, of now k v] by (auto split: option.splits)
next
  case (PopOp k)
  then show ?thesis using cache_pop_rep[OF rep, of k] by auto
next
  case (DelMultiOp k)
  then show ?thesis using cache_del_multi_rep[OF rep, of k] by auto
next
  case (ContainsOp k)
  have "cache_contains k s = (item_lookup k (ab_items A) \<noteq> None)" unfolding contains_rep[OF rep] item_lookup_absent by simp
  then show ?thesis using ContainsOp rep by auto
next
  case ClearOp
  then show ?thesis using cache_clear_rep[OF rep] by (auto simp: ab_remove_def)
next
  case (InvalidateOp i)
  with ok obtain cb where "extra_index_cb cfg = Some cb" by auto
  then show ?thesis using InvalidateOp cache_invalidate_rep[OF rep, of cb i] by auto
next
  case (ExpireOp now e)
  have "\<not> evicting_at_start None None" by (simp add: evicting_at_start_def)
  from expire_exact[OF _ rep _ this, of "Suc (length (lru_dict s))" now "Some e"] ok ExpireOp show ?thesis
    by (auto simp: young_expiry)
qed

fun lru_run :: "('k, 'v) lru_config \<Rightarrow> ('k, 'v) lru_op list \<Rightarrow> ('k, 'v) lru_cache \<Rightarrow> ('v lru_result list \<times> ('k, 'v) lru_cache) py" where
  "lru_run cfg [] s = Inr ([], s)"
| "lru_run cfg (op # ops) s =
     py_bind (lru_step cfg op s) (\<lambda>(r, s). py_bind (lru_run cfg ops s) (\<lambda>(rs, s). Inr (r # rs, s)))"

fun ab_run_ops :: "('k, 'v) lru_config \<Rightarrow> ('k, 'v) lru_op list \<Rightarrow> ('k, 'v) lru_abs \<Rightarrow> 'v lru_result list \<times> ('k, 'v) lru_abs" where
  "ab_run_ops cfg [] A = ([], A)"
| "ab_run_ops cfg (op # ops) A =
     (let (r, A) = ab_step cfg op A; (rs, A) = ab_run_ops cfg ops A in (r # rs, A))"

fun run_allowed :: "('k, 'v) lru_config \<Rightarrow> ('k, 'v) lru_op list \<Rightarrow> ('k, 'v) lru_abs \<Rightarrow> bool" where
  "run_allowed cfg [] A = True"
| "run_allowed cfg (op # ops) A = (op_allowed cfg op A \<and> run_allowed cfg ops (snd (ab_step cfg op A)))"

lemma lru_run_rep:
  assumes "lru_rep {} cfg s as A" and "0 \<le> ab_max A" and "run_allowed cfg ops A"
  shows "\<exists>s' as'. lru_run cfg ops s = Inr (fst (ab_run_ops cfg ops A), s') \<and> lru_rep {} cfg s' as' (snd (ab_run_ops cfg ops A))"
  using assms
proof (induction ops arbitrary: s as A)
  case (Cons op ops)
  from Cons.prems(3) have "op_allowed cfg op A" by simp
  from lru_step_rep[OF Cons.prems(1,2) this] obtain s1 as1 where s1: "lru_step cfg op s = Inr (fst (ab_step cfg op A), s1)"
    "lru_rep {} cfg s1 as1 (snd (ab_step cfg op A))" by blast
  with Cons.IH[OF s1(2)] Cons.prems(2,3) show ?case by (auto simp: case_prod_unfold Let_def)
qed auto

text \<open>What a caller can observe: the results, the number and size of the entries, the callbacks that ran.\<close>

lemma lru_run_refines:
  assumes "A = ab_new cfg m f" and "0 \<le> ab_max A" and "run_allowed cfg ops A" and "ab_run_ops cfg ops A = (rs, B)"
  shows "\<exists>s as. lru_run cfg ops (new_lru_cache cfg m f) = Inr (rs, s) \<and> lru_rep {} cfg s as B \<and>
    cache_len cfg s = ab_total cfg (ab_items B) \<and> mset (callbacks_run s) = ab_run B"
proof -
  from lru_run_rep[OF new_lru_cache_rep assms(2)[unfolded assms(1)] assms(3)[unfolded assms(1)]] assms(4) obtain s as where
    "lru_run cfg ops (new_lru_cache cfg m f) = Inr (rs, s)" "lru_rep {} cfg s as B" unfolding assms(1) by auto
  then show ?thesis using rep_cache_len lru_repD(6) by metis
qed

section \<open>What is kept\<close>

lemma ab_evict_items:
  "ab_items (ab_evict cfg A) = take (length (ab_items (ab_evict cfg A))) (ab_items A)"
proof -
  obtain n where "n \<le> length (ab_items A)" "shrink (ab_total cfg) (ab_max A) (ab_items A) = take n (ab_items A)"
    using shrink_prefix by blast
  then show ?thesis by (simp add: ab_evict_def ab_drop_def Let_def)
qed

lemma ab_evict_fits: "0 \<le> ab_max A \<Longrightarrow> ab_total cfg (ab_items (ab_evict cfg A)) \<le> ab_max A"
  using shrink_fits[of "ab_total cfg" "ab_max A" "ab_items A"]
  by (simp add: ab_evict_def ab_drop_def Let_def ab_total_def split: option.splits)

lemma ab_evict_longest:
  "n \<le> length (ab_items A) \<Longrightarrow> length (ab_items (ab_evict cfg A)) < n \<Longrightarrow> ab_total cfg (take n (ab_items A)) > ab_max A"
  using shrink_longest[of n "ab_items A" "ab_total cfg" "ab_max A"] by (simp add: ab_evict_def ab_drop_def Let_def)


section \<open>Reading through the cache\<close>

text \<open>A client that looks a key up and, when it is missing, computes the value and stores it.\<close>

definition read_through ::
    "('k, 'v) lru_config \<Rightarrow> int \<times> 'k \<times> 'v \<Rightarrow> ('k, 'v) lru_cache \<Rightarrow> ('k, 'v) lru_cache py" where
  "read_through cfg = (\<lambda>(now, k, v) s.
     py_bind (cache_get now k [] True s) (\<lambda>(r, s). case r of None \<Rightarrow> cache_set cfg now k v [] s | Some _ \<Rightarrow> Inr s))"

text \<open>The keys by their last use, the latest first.\<close>

definition by_recency :: "'k list \<Rightarrow> 'k list" where
  "by_recency ks = fold (\<lambda>k r. k # removeAll k r) ks []"

lemma take_removeAll: "distinct r \<Longrightarrow> take j (removeAll k (take (Suc j) r)) = take j (removeAll k r)"
proof (induction r arbitrary: j)
  case (Cons x r)
  have "removeAll k (take j r) = take j r" if "k = x"
    by (rule removeAll_id) (use that Cons.prems in_set_takeD[of k j r] in auto)
  with Cons show ?case by (cases j) auto
qed simp

lemma shrink_length: "0 \<le> m \<Longrightarrow> shrink (\<lambda>xs. int (length xs)) m xs = take (nat m) xs"
proof (induction xs rule: rev_induct)
  case (snoc x xs)
  then show ?case by (subst shrink.simps) auto
qed (subst shrink.simps, simp)

lemma keys_shrink: "size_callback cfg = None \<Longrightarrow> 0 \<le> m \<Longrightarrow> shrink (ab_total cfg) m xs = take (nat m) xs"
  using shrink_length[of m xs] by (simp add: ab_total_def[abs_def])

lemma keys_without: "map it_key (without k xs) = removeAll k (map it_key xs)"
  by (induction xs) auto

text \<open>What such a client relies on: a hit moves its key to the front, a miss changes nothing, storing a
  new key drops the keys at the end that no longer fit.\<close>

locale recency_cache =
  fixes get :: "int \<Rightarrow> 'k \<Rightarrow> 's \<Rightarrow> ('v option \<times> 's) py"
    and put :: "int \<Rightarrow> 'k \<Rightarrow> 'v \<Rightarrow> 's \<Rightarrow> 's py"
    and holds :: "'k list \<Rightarrow> 's \<Rightarrow> bool"
    and capacity :: nat
  assumes hit: "holds ks s \<Longrightarrow> k \<in> set ks \<Longrightarrow> \<exists>v s'. get now k s = Inr (Some v, s') \<and> holds (k # removeAll k ks) s'"
    and miss: "holds ks s \<Longrightarrow> k \<notin> set ks \<Longrightarrow> \<exists>s'. get now k s = Inr (None, s') \<and> holds ks s'"
    and store: "holds ks s \<Longrightarrow> k \<notin> set ks \<Longrightarrow> \<exists>s'. put now k v s = Inr s' \<and> holds (take capacity (k # ks)) s'"
    and distinct_keys: "holds ks s \<Longrightarrow> distinct ks"
begin

lemma read_one:
  assumes "holds (take capacity r) s" and "distinct r"
  shows "\<exists>s'. py_bind (get now k s) (\<lambda>(x, s). case x of None \<Rightarrow> put now k v s | Some _ \<Rightarrow> Inr s) = Inr s' \<and>
    holds (take capacity (k # removeAll k r)) s'"
proof -
  have front: "take capacity (k # removeAll k (take capacity r)) = take capacity (k # removeAll k r)"
    using take_removeAll[OF assms(2), of "capacity - 1" k] by (cases capacity) simp_all
  show ?thesis
  proof (cases "k \<in> set (take capacity r)")
    case True
    then have "length (removeAll k (take capacity r)) < length (take capacity r)" by (rule length_removeAll_less)
    then have "k # removeAll k (take capacity r) = take capacity (k # removeAll k r)" unfolding front[symmetric] by simp
    with hit[OF assms(1) True, of now] show ?thesis by auto
  next
    case False
    from miss[OF assms(1) False, of now] obtain t where "get now k s = Inr (None, t)" "holds (take capacity r) t" by blast
    with store[OF this(2) False, of now v] front show ?thesis unfolding removeAll_id[OF False] by auto
  qed
qed

lemma read_all:
  assumes "holds (take capacity r) s" and "distinct r"
  shows "\<exists>s'. py_for (\<lambda>(now, k, v) s. py_bind (get now k s) (\<lambda>(x, s). case x of None \<Rightarrow> put now k v s | Some _ \<Rightarrow> Inr s)) reads s = Inr s' \<and>
    holds (take capacity (fold (\<lambda>k r. k # removeAll k r) (map (fst \<circ> snd) reads) r)) s'"
  using assms
proof (induction reads arbitrary: s r)
  case (Cons p reads)
  obtain now k v where p: "p = (now, k, v)" by (cases p)
  from read_one[OF Cons.prems, of now k v] obtain s1 where
    s1: "py_bind (get now k s) (\<lambda>(x, s). case x of None \<Rightarrow> put now k v s | Some _ \<Rightarrow> Inr s) = Inr s1"
      "holds (take capacity (k # removeAll k r)) s1" by blast
  have "distinct (k # removeAll k r)" using Cons.prems(2) by (simp add: distinct_removeAll)
  from Cons.IH[OF s1(2) this] s1(1) p show ?case by simp
qed auto

end

text \<open>The cache keeps this contract when its size is the number of its entries.\<close>

definition lru_holds :: "('k, 'v) lru_config \<Rightarrow> nat \<Rightarrow> 'k list \<Rightarrow> ('k, 'v) lru_cache \<Rightarrow> bool" where
  "lru_holds cfg m ks s \<longleftrightarrow> size_callback cfg = None \<and>
     (\<exists>as A. lru_rep {} cfg s as A \<and> ab_max A = int m \<and> map it_key (ab_items A) = ks)"

lemma lru_holds_hit:
  assumes "lru_holds cfg m ks s" and k: "k \<in> set ks"
  shows "\<exists>v s'. cache_get now k [] True s = Inr (Some v, s') \<and> lru_holds cfg m (k # removeAll k ks) s'"
proof -
  from assms(1) obtain as A where A: "size_callback cfg = None" "lru_rep {} cfg s as A" "ab_max A = int m" "map it_key (ab_items A) = ks"
    by (auto simp: lru_holds_def)
  from k A(4) have "item_lookup k (ab_items A) \<noteq> None" unfolding item_lookup_absent by auto
  then obtain x where x: "item_lookup k (ab_items A) = Some x" by blast
  then have "it_key x = k" by (auto simp: find_Some_iff)
  with x have get: "fst (ab_get cfg now k [] True A) = Some (it_value x)"
    "map it_key (ab_items (snd (ab_get cfg now k [] True A))) = k # removeAll k ks"
    using A(4) by (simp_all add: ab_get_def Let_def keys_without)
  from cache_get_rep[OF A(2), of now k "[]" True] obtain s' as' where "cache_get now k [] True s = Inr (Some (it_value x), s')"
    "lru_rep {} cfg s' as' (snd (ab_get cfg now k [] True A))" by (auto simp: get)
  with A(1,3) get show ?thesis unfolding lru_holds_def by (metis ab_max_step(7))
qed

lemma lru_holds_miss:
  assumes "lru_holds cfg m ks s" and "k \<notin> set ks"
  shows "\<exists>s'. cache_get now k [] True s = Inr (None, s') \<and> lru_holds cfg m ks s'"
proof -
  from assms(1) obtain as A where A: "lru_rep {} cfg s as A" "map it_key (ab_items A) = ks" by (auto simp: lru_holds_def)
  then have "\<not> cache_contains k s" using contains_rep[OF A(1), of k] assms(2) by simp
  with assms(1) show ?thesis by (auto simp: cache_get_def cache_contains_def dict_has_def)
qed

lemma lru_holds_store:
  assumes "lru_holds cfg m ks s" and "k \<notin> set ks"
  shows "\<exists>s'. cache_set cfg now k v [] s = Inr s' \<and> lru_holds cfg m (take m (k # ks)) s'"
proof -
  from assms(1) obtain as A where A: "size_callback cfg = None" "lru_rep {} cfg s as A" "ab_max A = int m" "map it_key (ab_items A) = ks"
    by (auto simp: lru_holds_def)
  have none: "item_lookup k (ab_items A) = None" unfolding item_lookup_absent using A(4) assms(2) by auto
  then have "index_stable cfg k v A" by (simp add: index_stable_def split: option.split)
  from cache_set_rep[OF A(2) _ this, of now "[]"] A(3) obtain s' as' where
    s': "cache_set cfg now k v [] s = Inr s'" "lru_rep {} cfg s' as' (ab_set cfg now k v [] A)" by auto
  have "map it_key (ab_items (ab_set cfg now k v [] A)) = take m (k # ks)"
    using none A by (simp add: ab_set_def ab_insert_def ab_evict_def ab_drop_def Let_def keys_shrink flip: take_map)
  with A(1,3) s' show ?thesis unfolding lru_holds_def by (metis ab_max_step(6))
qed

interpretation lru: recency_cache "\<lambda>now k. cache_get now k [] True" "\<lambda>now k v. cache_set cfg now k v []" "lru_holds cfg m" m
  for cfg :: "('k, 'v) lru_config" and m :: nat
proof
  show "distinct ks" if "lru_holds cfg m ks s" for ks s using that rep_keys by (fastforce simp: lru_holds_def)
qed (simp_all add: lru_holds_hit lru_holds_miss lru_holds_store)

lemma read_through_recent:
  assumes "size_callback cfg = None" and "ab_max (ab_new cfg max_size factor) = int m"
  shows "\<exists>s. py_for (read_through cfg) reads (new_lru_cache cfg max_size factor) = Inr s \<and>
    (\<forall>k. cache_contains k s \<longleftrightarrow> k \<in> set (take m (by_recency (map (fst \<circ> snd) reads))))"
proof -
  have "lru_holds cfg m (take m []) (new_lru_cache cfg max_size factor)"
    unfolding lru_holds_def using assms new_lru_cache_rep[of cfg max_size factor] by (force simp: ab_new_def)
  from lru.read_all[OF this distinct.simps(1)[THEN iffD2, OF TrueI], of reads] obtain s where
    "py_for (read_through cfg) reads (new_lru_cache cfg max_size factor) = Inr s"
    "lru_holds cfg m (take m (by_recency (map (fst \<circ> snd) reads))) s" by (auto simp: read_through_def by_recency_def)
  moreover from this(2) obtain as A where "lru_rep {} cfg s as A"
    "map it_key (ab_items A) = take m (by_recency (map (fst \<circ> snd) reads))" by (auto simp: lru_holds_def)
  then have "cache_contains k s \<longleftrightarrow> k \<in> set (take m (by_recency (map (fst \<circ> snd) reads)))" for k
    using contains_rep[of "{}" cfg s as A k] by simp
  ultimately show ?thesis by blast
qed

end
