(* ===== verification/Lru_Cache_Interleave.thy ===== *)
theory Lru_Cache_Interleave
  imports Lru_Cache_Run
begin

text \<open>
  The background walk waits from time to time, and requests use the cache meanwhile. Every operation
  keeps what the walk relies on (\<open>lru_run_keeps\<close>): nodes are never freed, and a node of the global
  list does not become a node of the list of the cache. So the walk is safe whatever operations run
  while it waits (\<open>expire_interleaved\<close>).
\<close>

section \<open>How a cache develops\<close>

definition later :: "('k, 'v) lru_cache \<Rightarrow> ('k, 'v) lru_cache \<Rightarrow> bool" where
  "later s s' \<longleftrightarrow> global_root s' = global_root s \<and> list_root s' = list_root s \<and>
     next_lru_node s \<le> next_lru_node s' \<and> free_addr (lru_lists s) \<le> free_addr (lru_lists s') \<and>
     (\<forall>x. alloc (lru_lists s) x \<longrightarrow> alloc (lru_lists s') x) \<and>
     (\<forall>a \<in> snd ` set (lru_dict s'). a \<in> snd ` set (lru_dict s) \<or> next_lru_node s \<le> a) \<and>
     (\<forall>a n'. lru_nodes s' a = Some n' \<longrightarrow> (\<exists>n. lru_nodes s a = Some n \<and> list_node_ref n' = list_node_ref n) \<or>
        next_lru_node s \<le> a \<and> free_addr (lru_lists s) \<le> list_node_ref n')"

lemma later_refl [simp]: "later s s"
  by (simp add: later_def)

lemma later_trans [trans]: "later s t \<Longrightarrow> later t u \<Longrightarrow> later s u"
  unfolding later_def by (smt (verit, best) order_trans)

lemma later_fields [simp]:
  "later s (t\<lparr>cached_cache_len := c\<rparr>) = later s t" "later s (t\<lparr>extra_index := e\<rparr>) = later s t"
  "later s (t\<lparr>callbacks_run := l\<rparr>) = later s t" "later s (t\<lparr>lru_max_size := m\<rparr>) = later s t"
  "later (s\<lparr>extra_index := e\<rparr>) t = later s t" "later (s\<lparr>cached_cache_len := c\<rparr>) t = later s t"
  "later (s\<lparr>lru_max_size := m\<rparr>) t = later s t"
  by (simp_all add: later_def)

lemma later_dict:
  assumes "later s t" and "\<And>a. a \<in> snd ` set d \<Longrightarrow> a \<in> snd ` set (lru_dict t) \<or> next_lru_node s \<le> a"
  shows "later s (t\<lparr>lru_dict := d\<rparr>)"
proof -
  have "a \<in> snd ` set (lru_dict s) \<or> next_lru_node s \<le> a" if "a \<in> snd ` set d" for a
    using assms(2)[OF that] assms(1) unfolding later_def by blast
  with assms(1) show ?thesis unfolding later_def by simp
qed

lemma dict_del_values: "snd ` set (dict_del k d) \<subseteq> snd ` set d"
  by (auto simp: AList.delete_eq)

lemma dict_set_values: "snd ` set (dict_set k a d) \<subseteq> insert a (snd ` set d)"
  by (induction d) auto

lemma later_dict_del: "later s t \<Longrightarrow> later s (t\<lparr>lru_dict := dict_del k (lru_dict t)\<rparr>)"
  by (erule later_dict) (use dict_del_values[of k "lru_dict t"] in blast)

lemma later_update_node:
  "later s t \<Longrightarrow> (\<And>n. list_node_ref (f n) = list_node_ref n) \<Longrightarrow> later s (update_lru_node a f t)"
proof (rule later_trans)
  assume "\<And>n. list_node_ref (f n) = list_node_ref n"
  then show "later t (update_lru_node a f t)" by (auto simp: later_def update_lru_node_def)
qed

lemma later_lists:
  "later s t \<Longrightarrow> alloc h = alloc (lru_lists t) \<Longrightarrow> free_addr h = free_addr (lru_lists t) \<Longrightarrow> later s (t\<lparr>lru_lists := h\<rparr>)"
  unfolding later_def by simp

section \<open>The list operations free no node\<close>

lemma refs_remove_alloc:
  "refs_remove_node_from_list a h = Inr h' \<Longrightarrow> alloc h' = alloc h \<and> free_addr h' = free_addr h"
  by (cases "read_node h a"; cases "prev_node (projr (read_node h a))"; cases "next_node (projr (read_node h a))")
    (auto simp: refs_remove_node_from_list_def)

lemma refs_insert_alloc:
  "refs_insert_after a b h = Inr h' \<Longrightarrow> alloc h' = alloc h \<and> free_addr h' = free_addr h"
  by (auto simp: refs_insert_after_def py_bind_Inr_iff split: option.split_asm)

lemma remove_from_list_alloc:
  "remove_from_list a h = Inr h' \<Longrightarrow> alloc h' = alloc h \<and> free_addr h' = free_addr h"
  by (auto simp: remove_from_list_def py_bind_Inr_iff dest: refs_remove_alloc)

lemma move_after_alloc:
  "move_after a b h = Inr h' \<Longrightarrow> alloc h' = alloc h \<and> free_addr h' = free_addr h"
  by (auto simp: move_after_def py_bind_Inr_iff dest!: refs_remove_alloc refs_insert_alloc)

lemma alloc_new: "alloc \<lparr>node_at = (node_at h)(b \<mapsto> n), free_addr = f\<rparr> = (alloc h)(b := True)"
  by (auto simp: alloc_def fun_eq_iff)

lemma insert_after_alloc:
  "insert_after e b h = Inr (a, h') \<Longrightarrow>
     a = free_addr h \<and> free_addr h' = Suc (free_addr h) \<and> (\<forall>x. alloc h x \<longrightarrow> alloc h' x)"
  by (auto simp: insert_after_def new_node_def py_bind_Inr_iff alloc_new dest!: refs_insert_alloc)

lemma update_last_access_alloc [simp]:
  "alloc (update_last_access now g h) = alloc h" "free_addr (update_last_access now g h) = free_addr h"
  by (simp_all add: update_last_access_def)

section \<open>The operations\<close>

named_theorems later_intros

lemma later_run_callbacks [later_intros]: "run_and_clear_callbacks a t = Inr u \<Longrightarrow> later s t \<Longrightarrow> later s u"
  by (auto simp: run_and_clear_callbacks_def py_bind_Inr_iff intro!: later_update_node split: option.split_asm if_split_asm)

lemma later_add_callbacks: "later s t \<Longrightarrow> later s (add_callbacks a cbs t)"
  by (simp add: add_callbacks_def later_update_node)

lemma later_drop_lists [later_intros]: "drop_from_lists a t = Inr u \<Longrightarrow> later s t \<Longrightarrow> later s u"
  by (auto simp: drop_from_lists_def py_bind_Inr_iff intro!: later_lists dest!: remove_from_list_alloc split: option.split_asm)

lemma later_move [later_intros]: "move_to_front now a t = Inr u \<Longrightarrow> later s t \<Longrightarrow> later s u"
  by (auto simp: move_to_front_def py_bind_Inr_iff intro!: later_lists dest!: move_after_alloc split: option.split_asm)

lemma later_delete [later_intros]: "delete_node cfg a t = Inr (l, u) \<Longrightarrow> later s t \<Longrightarrow> later s u"
  by (auto simp: delete_node_def py_bind_Inr_iff Let_def dest!: later_drop_lists[of _ t _ s] later_run_callbacks[of _ _ _ s] split: option.splits)

lemma new_node_later:
  "new_lru_node cfg now k v cbs s = Inr (a, t) \<Longrightarrow> a = next_lru_node s \<and> later s t \<and> lru_dict t = lru_dict s"
  unfolding later_def
  by (auto simp: new_lru_node_def py_bind_Inr_iff Let_def dest!: insert_after_alloc split: if_splits)

lemma later_add [later_intros]:
  assumes "add_node cfg now k v cbs s = Inr t"
  shows "later s t"
proof -
  from assms obtain a u where u: "new_lru_node cfg now k v cbs s = Inr (a, u)" by (auto simp: add_node_def py_bind_Inr_iff)
  note new = new_node_later[OF this]
  then have "later s (u\<lparr>lru_dict := dict_set k a (lru_dict u)\<rparr>)" using dict_set_values[of k a "lru_dict u"] by (intro later_dict) auto
  with assms u show ?thesis by (auto simp: add_node_def Let_def split: option.splits)
qed

lemma later_evict_loop: "lru_evict_loop cfg fuel t = Inr u \<Longrightarrow> later s t \<Longrightarrow> later s u"
proof (induction fuel arbitrary: t)
  case (Suc fuel)
  show ?case
  proof (cases "cache_len cfg t > lru_max_size t")
    case True
    with Suc.prems(1) obtain a l v k where v: "delete_node cfg a t = Inr (l, v)"
      "lru_evict_loop cfg fuel (v\<lparr>lru_dict := dict_del k (lru_dict v)\<rparr>) = Inr u"
      by (auto simp: py_bind_Inr_iff split: option.split_asm)
    show ?thesis by (rule Suc.IH[OF v(2) later_dict_del[OF later_delete[OF v(1) Suc.prems(2)]]])
  qed (use Suc.prems in simp)
qed simp

lemma later_evict [later_intros]: "lru_evict cfg t = Inr u \<Longrightarrow> later s t \<Longrightarrow> later s u"
  unfolding lru_evict_def by (rule later_evict_loop)


lemma later_get: "cache_get now k cbs upd s = Inr (r, t) \<Longrightarrow> later s t"
  by (auto simp: cache_get_def py_bind_Inr_iff Let_def intro!: later_add_callbacks dest: later_move[OF _ later_refl]
      split: option.split_asm if_split_asm)

lemma later_set:
  assumes "cache_set cfg now k v cbs s = Inr t"
  shows "later s t"
proof (cases "dict_get (lru_dict s) k")
  case None
  with assms obtain u where "add_node cfg now k v (remdups cbs) s = Inr u" "lru_evict cfg u = Inr t"
    by (auto simp: cache_set_def py_bind_Inr_iff)
  then show ?thesis by (blast intro: later_intros)
next
  case (Some a)
  from assms[unfolded cache_set_def Some option.case(2) Let_def py_bind_Inr_iff sum.inject]
  obtain old u w x where u: "(if v \<noteq> old then run_and_clear_callbacks a s else Inr s) = Inr u"
      "move_to_front now a (add_callbacks a cbs w) = Inr x"
      "w = (case size_callback cfg of None \<Rightarrow> u | Some f \<Rightarrow> u\<lparr>cached_cache_len := cached_cache_len u - f old + f v\<rparr>)"
      "lru_evict cfg (update_lru_node a (\<lambda>n. n\<lparr>node_value := v\<rparr>) x) = Inr t"
    by blast
  have "later s u" using u(1) by (auto split: if_split_asm dest: later_run_callbacks[OF _ later_refl])
  then have "later s w" using u(3) by (simp split: option.split)
  note later_move[OF u(2) later_add_callbacks[OF this]]
  from later_evict[OF u(4) later_update_node[OF this]] show ?thesis by simp
qed

lemma later_set_default: "cache_set_default cfg now k v s = Inr (r, t) \<Longrightarrow> later s t"
  by (auto simp: cache_set_default_def py_bind_Inr_iff intro: later_intros split: option.split_asm)

lemma later_pop: "cache_pop cfg k s = Inr (r, t) \<Longrightarrow> later s t"
  by (auto simp: cache_pop_def py_bind_Inr_iff intro!: later_dict_del dest: later_delete[OF _ later_refl] split: option.split_asm)

lemma later_delete_popped: "delete_node cfg a (s\<lparr>lru_dict := dict_del k (lru_dict s)\<rparr>) = Inr (l, t) \<Longrightarrow> later s t"
  by (erule later_delete) (rule later_dict_del, rule later_refl)

lemma later_del_multi: "cache_del_multi cfg k s = Inr t \<Longrightarrow> later s t"
  by (auto simp: cache_del_multi_def py_bind_Inr_iff intro: later_delete_popped split: option.split_asm)

lemma later_for:
  "py_for f xs s = Inr t \<Longrightarrow> (\<And>x u u'. f x u = Inr u' \<Longrightarrow> later u u') \<Longrightarrow> later s t"
  by (erule py_for_invariant[where I = "later s"]) (auto intro: later_trans)

lemma later_clear:
  assumes "cache_clear cfg s = Inr t"
  shows "later s t"
proof -
  from assms obtain u where u: "py_for (\<lambda>a s. py_bind (run_and_clear_callbacks a s) (drop_from_lists a)) (map snd (lru_dict s)) s = Inr u"
    "t = (case size_callback cfg of None \<Rightarrow> u\<lparr>lru_dict := []\<rparr> | Some _ \<Rightarrow> u\<lparr>lru_dict := [], cached_cache_len := 0\<rparr>)\<lparr>extra_index := []\<rparr>"
    unfolding cache_clear_def py_bind_Inr_iff Let_def by blast
  have "later s u" by (rule later_for[OF u(1)]) (auto simp: py_bind_Inr_iff elim!: later_drop_lists later_run_callbacks)
  then have "later s (u\<lparr>lru_dict := []\<rparr>)" by (rule later_dict) simp
  then show ?thesis unfolding u(2) by (simp split: option.split)
qed

lemma later_invalidate: "cache_invalidate_on_extra_index cfg i s = Inr t \<Longrightarrow> later s t"
  by (auto simp: cache_invalidate_on_extra_index_def py_bind_Inr_iff intro: later_delete_popped dest!: later_for split: option.split_asm)

lemma later_drop_from_cache: "drop_from_cache cfg a s = Inr t \<Longrightarrow> later s t"
  by (auto simp: drop_from_cache_def py_bind_Inr_iff dest!: later_pop intro: later_intros split: if_split_asm)

lemma later_expire_loop:
  "expire_loop cfg now expiry tune mem (\<lambda>_ s. s) fuel node i ev t = Inr u \<Longrightarrow> later s t \<Longrightarrow> later s u"
proof (induction fuel arbitrary: node i ev t)
  case (Suc fuel)
  from Suc.prems(1) consider "u = t" | a v where "drop_from_cache cfg a t = Inr v" "u = v"
    | a v nx ev' where "drop_from_cache cfg a t = Inr v" "expire_loop cfg now expiry tune mem (\<lambda>_ s. s) fuel nx (i + 1) ev' v = Inr u"
    by (auto simp: py_bind_Inr_iff Let_def split: if_split_asm option.split_asm)
  then show ?case using Suc.prems(2) Suc.IH by cases (blast intro: later_drop_from_cache later_trans)+
qed simp

lemma later_step: "lru_step cfg op s = Inr (r, t) \<Longrightarrow> later s t"
  by (cases op) (auto simp: py_bind_Inr_iff expire_old_entries_def intro: later_get later_set later_set_default later_pop later_del_multi
      later_clear later_invalidate later_expire_loop simp del: expire_loop.simps split: option.split_asm)

lemma later_run: "lru_run cfg ops s = Inr (rs, t) \<Longrightarrow> later s t"
proof (induction ops arbitrary: s rs)
  case (Cons op ops)
  then show ?case by (auto simp: py_bind_Inr_iff intro: later_trans dest!: later_step Cons.IH)
qed simp


section \<open>The walk among other operations\<close>

lemma later_own_nodes:
  assumes "later s s'" and core: "core cfg s as" and core': "core cfg s' as'" and "set as = snd ` set (lru_dict s)"
    and "set as' = snd ` set (lru_dict s')" and x: "alloc (lru_lists s) x" "x \<notin> own_nodes s as"
  shows "x \<notin> own_nodes s' as'"
proof
  assume "x \<in> own_nodes s' as'"
  moreover have "x \<noteq> list_root s'" using x(2) assms(1) by (auto simp: own_nodes_def later_def)
  ultimately obtain a where a: "a \<in> set as'" "x = list_node_ref (nd s' a)" by (auto simp: own_nodes_def)
  with core' obtain n' where n': "lru_nodes s' a = Some n'" "list_node_ref n' = x" by (auto simp: core_def)
  have "x < free_addr (lru_lists s)" using x(1) core by (auto simp: core_def linked_def wf_store_def)
  with assms(1) n' obtain n where n: "lru_nodes s a = Some n" "list_node_ref n = x" unfolding later_def by fastforce
  then have "a < next_lru_node s" using core by (auto simp: core_def)
  with assms(1,4,5) a(1) have "a \<in> set as" unfolding later_def by fastforce
  with n x(2) show False by (force simp: own_nodes_def image_iff)
qed

lemma rep_nodes: "lru_rep I cfg s as A \<Longrightarrow> set as = snd ` set (lru_dict s)"
  using lru_repD(3)[of I cfg s as A] by force

definition interfere :: "('k, 'v) lru_config \<Rightarrow> ('k, 'v) lru_op list \<Rightarrow> ('k, 'v) lru_cache \<Rightarrow> ('k, 'v) lru_cache" where
  "interfere cfg ops s = (case lru_run cfg ops s of Inl _ \<Rightarrow> s | Inr (_, s') \<Rightarrow> s')"

lemma ab_run_ops_max [simp]: "ab_max (snd (ab_run_ops cfg ops A)) = ab_max A"
  by (induction ops arbitrary: A) (auto simp: case_prod_unfold Let_def)

lemma lru_run_keeps:
  assumes "\<And>A. run_allowed cfg ops A"
  shows "keeps_cache cfg (interfere cfg ops)"
  unfolding keeps_cache_def
proof (intro allI impI)
  fix s as A assume rep: "lru_rep {} cfg s as A" and max: "0 \<le> ab_max A"
  from lru_run_rep[OF rep max assms] obtain s' as' where s': "lru_run cfg ops s = Inr (fst (ab_run_ops cfg ops A), s')"
    "lru_rep {} cfg s' as' (snd (ab_run_ops cfg ops A))" by blast
  have late: "later s s'" by (rule later_run[OF s'(1)])
  have "interfere cfg ops s = s'" using s'(1) by (simp add: interfere_def)
  moreover have "x \<notin> own_nodes s' as'" if "alloc (lru_lists s) x" "x \<notin> own_nodes s as" for x
    by (rule later_own_nodes[OF late lru_repD(1)[OF rep] lru_repD(1)[OF s'(2)] rep_nodes[OF rep] rep_nodes[OF s'(2)] that])
  moreover have "alloc (lru_lists s') x" if "alloc (lru_lists s) x" for x using late that by (simp add: later_def)
  moreover have "global_root s' = global_root s" using late by (simp add: later_def)
  ultimately show "\<exists>as' A'. lru_rep {} cfg (interfere cfg ops s) as' A' \<and> 0 \<le> ab_max A' \<and>
      global_root (interfere cfg ops s) = global_root s \<and>
      (\<forall>x. alloc (lru_lists s) x \<longrightarrow> alloc (lru_lists (interfere cfg ops s)) x \<and>
        (x \<notin> own_nodes s as \<longrightarrow> x \<notin> own_nodes (interfere cfg ops s) as'))"
    using s'(2) max by (intro exI[of _ as'] exI[of _ "snd (ab_run_ops cfg ops A)"]) simp
qed

text \<open>The operations that add no entry.\<close>

fun op_adds :: "('k, 'v) lru_op \<Rightarrow> bool" where
  "op_adds (SetOp _ _ _ _) = True"
| "op_adds (SetDefaultOp _ _ _) = True"
| "op_adds _ = False"

lemma ab_get_length: "length (ab_items (snd (ab_get cfg now k cbs upd A))) \<le> length (ab_items A)"
proof (cases "item_lookup k (ab_items A)")
  case (Some x)
  then have "x \<in> set (ab_items A)" "it_key x = k" by (auto simp: find_Some_iff)
  then have "length (without k (ab_items A)) < length (ab_items A)" by (metis (mono_tags, lifting) length_filter_less)
  with Some show ?thesis by (simp add: ab_get_def Let_def)
qed (simp add: ab_get_def)

lemma ab_step_length: "\<not> op_adds op \<Longrightarrow> length (ab_items (snd (ab_step cfg op A))) \<le> length (ab_items A)"
  using length_dropWhile_le[of _ "rev (ab_items A)"]
  by (cases op) (auto simp: ab_remove_def ab_drop_def ab_expire_def Let_def intro: ab_get_length le_trans)

lemma ab_run_length:
  "\<forall>op \<in> set ops. \<not> op_adds op \<Longrightarrow> length (ab_items (snd (ab_run_ops cfg ops A))) \<le> length (ab_items A)"
proof (induction ops arbitrary: A)
  case (Cons op ops)
  from Cons.IH[of "snd (ab_step cfg op A)"] ab_step_length[of op cfg A] Cons.prems show ?case
    by (auto simp: case_prod_unfold Let_def intro: le_trans)
qed simp

lemma interfere_adds_none:
  assumes "\<And>A. run_allowed cfg ops A" and "\<forall>op \<in> set ops. \<not> op_adds op"
  shows "adds_none cfg (interfere cfg ops)"
  unfolding adds_none_def
proof (intro allI impI)
  fix s as A assume rep: "lru_rep {} cfg s as A" and max: "0 \<le> ab_max A"
  from lru_run_rep[OF rep max assms(1)] obtain s' as' where s': "lru_run cfg ops s = Inr (fst (ab_run_ops cfg ops A), s')"
    "lru_rep {} cfg s' as' (snd (ab_run_ops cfg ops A))" by blast
  have "length (lru_dict s') \<le> length (lru_dict s)"
    using ab_run_length[OF assms(2), of cfg A] rep_length[OF rep] rep_length[OF s'(2)] lru_repD(4)[OF rep] lru_repD(4)[OF s'(2)] by simp
  then show "length (lru_dict (interfere cfg ops s)) \<le> length (lru_dict s)" using s'(1) by (simp add: interfere_def)
qed


lemma expire_interleaved:
  assumes rep: "lru_rep {} cfg s as A" and max: "0 \<le> ab_max A" and "tracked cfg" and ok: "\<And>i A. run_allowed cfg (script i) A"
    and res: "res = expire_old_entries cfg now expiry tune mem (\<lambda>i. interfere cfg (script i)) fuel s"
  shows "res = Inl OutOfFuel \<or> (\<exists>s' as' A'. res = Inr s' \<and> lru_rep {} cfg s' as' A' \<and> 0 \<le> ab_max A')"
    and "\<forall>i. \<forall>op \<in> set (script i). \<not> op_adds op \<Longrightarrow> length (lru_dict s) < fuel \<Longrightarrow> \<exists>s'. res = Inr s'"
proof -
  note walk = expire_safe[OF lru_run_keeps[OF ok] assms(3) rep max, of now expiry tune mem "\<lambda>i. i" fuel, folded res]
  then show "res = Inl OutOfFuel \<or> (\<exists>s' as' A'. res = Inr s' \<and> lru_rep {} cfg s' as' A' \<and> 0 \<le> ab_max A')" by blast
  assume "\<forall>i. \<forall>op \<in> set (script i). \<not> op_adds op" and "length (lru_dict s) < fuel"
  then show "\<exists>s'. res = Inr s'" using walk interfere_adds_none[OF ok] by fastforce
qed

end
