(* ===== verification/Example_Cache.thy ===== *)
theory Example_Cache
  imports Lru_Cache_Interleave
begin

text \<open>Small caches at which the properties of the LRU cache are applied: one without and one with a
  second index, whose values are their own index keys.\<close>

definition ex_lru :: "(string, int) lru_config" where
  "ex_lru = \<lparr>size_callback = None, extra_index_cb = None, prune_unread_entries = True, use_global_list = True,
     apply_cache_factor_from_config = True\<rparr>"

definition ex_indexed :: "(string, string) lru_config" where
  "ex_indexed = \<lparr>size_callback = None, extra_index_cb = Some (\<lambda>k v. v), prune_unread_entries = True, use_global_list = True,
     apply_cache_factor_from_config = True\<rparr>"

definition ex_lru_ops :: "(string, int) lru_op list" where
  "ex_lru_ops = [SetOp 1 ''a'' 5 [7], SetOp 2 ''b'' 6 [], GetOp 3 ''a'' [8] True, SetOp 4 ''c'' 7 [], GetOp 5 ''b'' [] True, PopOp ''a'']"

definition ex_lru_state :: "(string, int) lru_cache" where
  "ex_lru_state = (case lru_run ex_lru [SetOp 1 ''a'' 5 [], SetOp 2 ''b'' 6 []] (new_lru_cache ex_lru 2 1) of
     Inl _ \<Rightarrow> new_lru_cache ex_lru 2 1 | Inr (_, s) \<Rightarrow> s)"

lemma ex_lru_ops_run:
  "0 \<le> ab_max (ab_new ex_lru 2 1)" "run_allowed ex_lru ex_lru_ops (ab_new ex_lru 2 1)"
  "ab_run_ops ex_lru ex_lru_ops (ab_new ex_lru 2 1) =
     ([Nothing, Nothing, Returned (Some 5), Nothing, Returned None, Returned (Some 5)],
      \<lparr>ab_items = [\<lparr>it_key = ''c'', it_value = 7, it_callbacks = [], it_time = Some 4\<rparr>], ab_max = 2, ab_run = {#7, 8#}\<rparr>)"
  by code_simp+

definition ex_reads :: "(int \<times> string \<times> int) list" where
  "ex_reads = [(1, ''a'', 5), (2, ''b'', 6), (3, ''a'', 5), (4, ''c'', 7)]"

lemma ex_lru_sizes:
  "size_callback ex_lru = None" "ab_max (ab_new ex_lru 2 1) = int 2"
  "take 2 (by_recency (map (fst \<circ> snd) ex_reads)) = [''c'', ''a'']"
  by code_simp+

lemma ex_lru_state_reached:
  "lru_run ex_lru [SetOp 1 ''a'' 5 [], SetOp 2 ''b'' 6 []] (new_lru_cache ex_lru 2 1) = Inr ([Nothing, Nothing], ex_lru_state)"
proof -
  have "case lru_run ex_lru [SetOp 1 ''a'' 5 [], SetOp 2 ''b'' 6 []] (new_lru_cache ex_lru 2 1) of
      Inl _ \<Rightarrow> False | Inr (rs, _) \<Rightarrow> rs = [Nothing, Nothing]" by code_simp
  then show ?thesis by (auto simp: ex_lru_state_def split: sum.splits)
qed

lemma ex_lru_state_checks:
  "tracked ex_lru" "run_allowed ex_lru [SetOp 1 ''a'' 5 [], SetOp 2 ''b'' 6 []] (ab_new ex_lru 2 1)" "length (lru_dict ex_lru_state) = 2"
  by code_simp+

end
