(* ===== verification/State_V1.thy ===== *)
theory State_V1
  imports State_V2_Props
begin

text \<open>
  \<open>synapse/state/v1.py\<close>: the state resolution algorithm of room version 1. The function that
  fetches events (\<open>state_map_factory\<close>) and the hash that breaks ties between events of the same
  depth (\<open>hashlib.sha1\<close>) are arguments. As in version 2, a Python set is a list without
  duplicates, and the recheck mark of an accepted redaction is left out.
\<close>

section \<open>The algorithm\<close>

definition v1_seperate_entry ::
    "state_id \<times> string \<Rightarrow> state_ids \<times> (state_id, string list) dict \<Rightarrow> state_ids \<times> (state_id, string list) dict" where
  "v1_seperate_entry entry acc =
     (case (entry, acc) of ((key, val), (unconflicted_state, conflicted_state)) \<Rightarrow>
        (case dict_get unconflicted_state key of
           None \<Rightarrow>
             (case dict_get conflicted_state key of
                None \<Rightarrow> (dict_set key val unconflicted_state, conflicted_state)
              | Some ls \<Rightarrow> (unconflicted_state, dict_set key (set_add val ls) conflicted_state))
         | Some unconflicted_value \<Rightarrow>
             if unconflicted_value \<noteq> val
             then (dict_del key unconflicted_state,
                   dict_set key [val, unconflicted_value] conflicted_state)
             else (unconflicted_state, conflicted_state)))"

text \<open>\<open>next\<close> of an exhausted iterator ends, in a coroutine, as RuntimeError.\<close>

definition v1_seperate :: "state_ids list \<Rightarrow> (state_ids \<times> (state_id, string list) dict) py" where
  "v1_seperate state_sets =
     (case state_sets of
        [] \<Rightarrow> Inl RuntimeError
      | first # rest \<Rightarrow> Inr (fold (fold v1_seperate_entry) rest (first, [])))"

definition create_auth_events_from_maps ::
    "room_version \<Rightarrow> state_ids \<Rightarrow> (state_id, string list) dict \<Rightarrow> event_map \<Rightarrow> state_ids py" where
  "create_auth_events_from_maps rv unconflicted_state conflicted_state state_map =
     py_for (\<lambda>eid auth_events.
       case dict_get state_map eid of
         None \<Rightarrow> Inr auth_events
       | Some event \<Rightarrow>
           py_bind (auth_types_for_event rv event) (\<lambda>keys.
             Inr (fold (\<lambda>key d.
               case key of
                 (ty, JStr k) \<Rightarrow>
                   if \<not> dict_has d (ty, k)
                   then (case dict_get unconflicted_state (ty, k) of
                           None \<Rightarrow> d
                         | Some auth_event_id \<Rightarrow>
                             if auth_event_id = '''' then d else dict_set (ty, k) auth_event_id d)
                   else d
               | _ \<Rightarrow> d) (remdups keys) auth_events)))
       (concat (map snd conflicted_state)) []"

definition ordered_events :: "(string \<Rightarrow> string) \<Rightarrow> event list \<Rightarrow> event list" where
  "ordered_events sha1 events = sort_key (\<lambda>e. (- depth e, sha1 (event_id e))) events"

fun resolve_auth_loop ::
    "externals \<Rightarrow> (state_id, event) dict \<Rightarrow> event \<Rightarrow> event list \<Rightarrow> event py" where
  "resolve_auth_loop ext auth_events prev_event [] = Inr prev_event"
| "resolve_auth_loop ext auth_events prev_event (event # rest) =
     py_bind (state_key prev_event) (\<lambda>skey.
       let auth_events' = dict_set (ev_type prev_event, skey) prev_event auth_events
       in case check_state_dependent_auth_rules ext event (map snd auth_events') of
            Inr _ \<Rightarrow> resolve_auth_loop ext auth_events' event rest
          | Inl err \<Rightarrow> if is_AuthError err then Inr prev_event else Inl err)"

text \<open>The entries of \<open>auth_events\<close> that the events need.\<close>

definition select_auth_events ::
    "room_version \<Rightarrow> event list \<Rightarrow> (state_id, event) dict \<Rightarrow> (state_id, event) dict py" where
  "select_auth_events rv events auth_events =
     py_bind (py_map (auth_types_for_event rv) events) (\<lambda>keys.
       Inr (fold (\<lambda>key d.
         case key of
           (ty, JStr k) \<Rightarrow>
             (case dict_get auth_events (ty, k) of None \<Rightarrow> d | Some e \<Rightarrow> dict_set (ty, k) e d)
         | _ \<Rightarrow> d) (remdups (concat keys)) []))"

text \<open>With a single event the loop variable is never bound; with none there is no first event.\<close>

definition resolve_auth_events ::
    "externals \<Rightarrow> (string \<Rightarrow> string) \<Rightarrow> room_version \<Rightarrow> event list \<Rightarrow> (state_id, event) dict \<Rightarrow> event py" where
  "resolve_auth_events ext sha1 rv events auth_events =
     (let reverse = rev (ordered_events sha1 events)
      in py_bind (select_auth_events rv events auth_events) (\<lambda>new_auth_events.
         case reverse of
           [] \<Rightarrow> Inl IndexError
         | prev_event # rest \<Rightarrow>
             if rest = [] then Inl PyException
             else resolve_auth_loop ext new_auth_events prev_event rest))"

fun resolve_normal_loop :: "externals \<Rightarrow> (state_id, event) dict \<Rightarrow> event list \<Rightarrow> event py" where
  "resolve_normal_loop ext auth_events [] = Inl PyException"
| "resolve_normal_loop ext auth_events (event # rest) =
     (case check_state_dependent_auth_rules ext event (map snd auth_events) of
        Inr _ \<Rightarrow> Inr event
      | Inl err \<Rightarrow>
          if is_AuthError err
          then if rest = [] then Inr event else resolve_normal_loop ext auth_events rest
          else Inl err)"

definition resolve_normal_events ::
    "externals \<Rightarrow> (string \<Rightarrow> string) \<Rightarrow> event list \<Rightarrow> (state_id, event) dict \<Rightarrow> event py" where
  "resolve_normal_events ext sha1 events auth_events =
     resolve_normal_loop ext auth_events (ordered_events sha1 events)"

abbreviation POWER_KEY :: state_id where "POWER_KEY \<equiv> (EventTypes_PowerLevels, '''')"

text \<open>One of the two loops over conflicted join rules and memberships.\<close>

definition resolve_type ::
    "externals \<Rightarrow> (string \<Rightarrow> string) \<Rightarrow> room_version \<Rightarrow> string \<Rightarrow> (state_id, event list) dict \<Rightarrow>
      (state_id, event) dict \<Rightarrow> (state_id, event) dict \<Rightarrow> (state_id, event) dict py" where
  "resolve_type ext sha1 rv ty conflicted_state auth_events resolved_state0 =
     py_for (\<lambda>(key, events) resolved_state.
       if fst key = ty
       then py_bind (resolve_auth_events ext sha1 rv events auth_events) (\<lambda>e.
              Inr (dict_set key e resolved_state))
       else Inr resolved_state) conflicted_state resolved_state0"

definition resolve_state_events ::
    "externals \<Rightarrow> (string \<Rightarrow> string) \<Rightarrow> room_version \<Rightarrow> (state_id, event list) dict \<Rightarrow>
      (state_id, event) dict \<Rightarrow> (state_id, event) dict py" where
  "resolve_state_events ext sha1 rv conflicted_state auth_events0 =
     py_bind (case dict_get conflicted_state POWER_KEY of
                None \<Rightarrow> Inr []
              | Some events \<Rightarrow>
                  py_bind (resolve_auth_events ext sha1 rv events auth_events0) (\<lambda>e.
                  Inr [(POWER_KEY, e)])) (\<lambda>resolved1.
     let auth_events1 = dict_update auth_events0 resolved1
     in py_bind (resolve_type ext sha1 rv EventTypes_JoinRules conflicted_state auth_events1 resolved1) (\<lambda>resolved2.
     let auth_events2 = dict_update auth_events1 resolved2
     in py_bind (resolve_type ext sha1 rv EventTypes_Member conflicted_state auth_events2 resolved2) (\<lambda>resolved3.
     let auth_events3 = dict_update auth_events2 resolved3
     in py_for (\<lambda>(key, events) resolved_state.
          if \<not> dict_has resolved_state key
          then py_bind (resolve_normal_events ext sha1 events auth_events3) (\<lambda>e.
                 Inr (dict_set key e resolved_state))
          else Inr resolved_state) conflicted_state resolved3)))"

text \<open>The conflicted keys with more than one known event, and the unconflicted state with the only
  known event of the others.\<close>

definition known_conflict ::
    "event_map \<Rightarrow> state_id \<times> string list \<Rightarrow> state_ids \<times> (state_id, event list) dict \<Rightarrow>
      state_ids \<times> (state_id, event list) dict" where
  "known_conflict state_map = (\<lambda>(key, event_ids) (unconflicted, conflicted).
     let events = map (\<lambda>i. the (dict_get state_map i)) (filter (dict_has state_map) event_ids)
     in if length events > 1 then (unconflicted, dict_set key events conflicted)
        else if length events = 1 then (dict_set key (event_id (hd events)) unconflicted, conflicted)
        else (unconflicted, conflicted))"

definition known_conflicts ::
    "event_map \<Rightarrow> (state_id, string list) dict \<Rightarrow> state_ids \<Rightarrow> state_ids \<times> (state_id, event list) dict" where
  "known_conflicts state_map conflicted_state_ids unconflicted_state_ids =
     fold (known_conflict state_map) conflicted_state_ids (unconflicted_state_ids, [])"

definition resolve_with_state ::
    "externals \<Rightarrow> (string \<Rightarrow> string) \<Rightarrow> room_version \<Rightarrow> state_ids \<Rightarrow> (state_id, string list) dict \<Rightarrow>
      state_ids \<Rightarrow> event_map \<Rightarrow> state_ids py" where
  "resolve_with_state ext sha1 rv unconflicted_state_ids conflicted_state_ids auth_ids state_map =
     (let (new_state, conflicted_state) = known_conflicts state_map conflicted_state_ids unconflicted_state_ids;
          auth_events = fold (\<lambda>(key, ev_id) d.
            case dict_get state_map ev_id of None \<Rightarrow> d | Some e \<Rightarrow> dict_set key e d) auth_ids []
      in py_bind (resolve_state_events ext sha1 rv conflicted_state auth_events) (\<lambda>resolved_state.
         Inr (fold (\<lambda>(key, event). dict_set key (event_id event)) resolved_state new_state)))"

definition v1_resolve_events_with_store ::
    "externals \<Rightarrow> (string \<Rightarrow> string) \<Rightarrow> (string list \<Rightarrow> event_map) \<Rightarrow> string \<Rightarrow> room_version \<Rightarrow>
      state_ids list \<Rightarrow> event_map option \<Rightarrow> state_ids py" where
  "v1_resolve_events_with_store ext sha1 state_map_factory rid rv state_sets event_map0 =
     (if length state_sets = 1 then Inr (hd state_sets)
      else
      py_bind (v1_seperate state_sets) (\<lambda>(unconflicted_state, conflicted_state).
      let in_flight = (case event_map0 of None \<Rightarrow> [] | Some em \<Rightarrow> em);
          needed_events = filter (\<lambda>i. \<not> dict_has in_flight i) (remdups (concat (map snd conflicted_state)));
          state_map = dict_update (state_map_factory needed_events) in_flight
      in py_bind (check_rooms rid state_map) (\<lambda>_.
      py_bind (create_auth_events_from_maps rv unconflicted_state conflicted_state state_map) (\<lambda>auth_events.
      let new_needed_events = filter (\<lambda>i. i \<notin> set needed_events \<and> \<not> dict_has in_flight i)
            (remdups (map snd auth_events));
          state_map_new = state_map_factory new_needed_events
      in py_bind (check_rooms rid state_map_new) (\<lambda>_.
      resolve_with_state ext sha1 rv unconflicted_state conflicted_state auth_events
        (dict_update state_map state_map_new))))))"

section \<open>Separation\<close>

text \<open>\<open>S k\<close> is the set of events seen so far at the key \<open>k\<close>: with one of them the key is unconflicted,
  with more it is conflicted.\<close>

inductive v1_at :: "string option \<Rightarrow> string list option \<Rightarrow> string set \<Rightarrow> bool" where
  unseen: "v1_at None None {}"
| single: "v1_at (Some v) None {v}"
| several: "distinct ls \<Longrightarrow> 2 \<le> length ls \<Longrightarrow> v1_at None (Some ls) (set ls)"

inductive_simps v1_at_simps: "v1_at None None A" "v1_at (Some v) c A" "v1_at u (Some ls) A"

definition v1_inv ::
    "(state_id \<Rightarrow> string set) \<Rightarrow> state_ids \<times> (state_id, string list) dict \<Rightarrow> bool" where
  "v1_inv S uc \<longleftrightarrow> wf_dict (fst uc) \<and> wf_dict (snd uc) \<and>
     (\<forall>k. v1_at (dict_get (fst uc) k) (dict_get (snd uc) k) (S k))"

lemma v1_inv_at: "v1_inv S (u, c) \<Longrightarrow> v1_at (dict_get u k) (dict_get c k) (S k)"
  by (cases k) (simp add: v1_inv_def)

lemma v1_inv_entry:
  assumes inv: "v1_inv S uc"
  shows "v1_inv (S(key := insert val (S key))) (v1_seperate_entry (key, val) uc)"
proof -
  obtain u c where uc: "uc = (u, c)" by force
  note i = inv[unfolded uc]
  have wf: "wf_dict u" "wf_dict c" using i by (auto simp: v1_inv_def)
  have lift: "v1_inv (S(key := insert val (S key))) (u', c')"
    if wf': "wf_dict u'" "wf_dict c'"
      and same: "\<And>k. k \<noteq> key \<Longrightarrow> dict_get u' k = dict_get u k"
        "\<And>k. k \<noteq> key \<Longrightarrow> dict_get c' k = dict_get c k"
      and here: "v1_at (dict_get u' key) (dict_get c' key) (insert val (S key))"
    for u' c'
  proof -
    have "v1_at (dict_get u' k) (dict_get c' k) ((S(key := insert val (S key))) k)" for k
      using same here v1_inv_at[OF i] by (cases "k = key") simp_all
    with wf' show ?thesis by (simp add: v1_inv_def)
  qed
  from v1_inv_at[OF i, of key] show ?thesis
  proof (cases rule: v1_at.cases)
    case unseen
    then have e: "v1_seperate_entry (key, val) uc = (dict_set key val u, c)"
      by (simp add: v1_seperate_entry_def uc)
    show ?thesis unfolding e using wf unseen
      by (intro lift) (simp_all add: alist.wf_put alist.get_put v1_at_simps)
  next
    case (single v)
    show ?thesis
    proof (cases "v = val")
      case True
      with single have e: "v1_seperate_entry (key, val) uc = (u, c)" by (simp add: v1_seperate_entry_def uc)
      show ?thesis unfolding e using wf single True by (intro lift) (simp_all add: v1_at_simps)
    next
      case False
      with single have e: "v1_seperate_entry (key, val) uc = (dict_del key u, dict_set key [val, v] c)"
        by (simp add: v1_seperate_entry_def uc)
      show ?thesis unfolding e using wf single False
        by (intro lift) (simp_all add: alist.wf_put alist.wf_del alist.get_put alist.get_del v1_at_simps)
    qed
  next
    case (several ls)
    then have e: "v1_seperate_entry (key, val) uc = (u, dict_set key (set_add val ls) c)"
      by (simp add: v1_seperate_entry_def uc)
    have "v1_at None (Some (set_add val ls)) (insert val (set ls))"
      using several by (auto simp: v1_at_simps set_add_def)
    then show ?thesis unfolding e using wf several by (intro lift) (simp_all add: alist.wf_put alist.get_put)
  qed
qed

lemma v1_inv_fold:
  assumes "v1_inv S uc"
  shows "v1_inv (\<lambda>k. S k \<union> {v. (k, v) \<in> set es}) (fold v1_seperate_entry es uc)"
  using assms
proof (induction es arbitrary: S uc)
  case (Cons a es)
  obtain key val where a: "a = (key, val)" by (cases a)
  have "(\<lambda>k. (S(key := insert val (S key))) k \<union> {v. (k, v) \<in> set es}) = (\<lambda>k. S k \<union> {v. (k, v) \<in> set (a # es)})"
    by (auto simp: a fun_eq_iff)
  with Cons.IH[OF v1_inv_entry[OF Cons.prems, of key val]] show ?case by (simp add: a)
qed simp

lemma v1_inv_sets:
  assumes "v1_inv S uc"
  shows "v1_inv (\<lambda>k. S k \<union> {v. \<exists>s \<in> set ss. (k, v) \<in> set s}) (fold (fold v1_seperate_entry) ss uc)"
  using assms
proof (induction ss arbitrary: S uc)
  case (Cons s ss)
  have "(\<lambda>k. (S k \<union> {v. (k, v) \<in> set s}) \<union> {v. \<exists>s \<in> set ss. (k, v) \<in> set s}) =
      (\<lambda>k. S k \<union> {v. \<exists>t \<in> set (s # ss). (k, v) \<in> set t})" by (auto simp: fun_eq_iff)
  with Cons.IH[OF v1_inv_fold[OF Cons.prems, of s]] show ?case by simp
qed simp

lemma v1_seperate_inv:
  assumes "v1_seperate ss = Inr uc" and "\<forall>s \<in> set ss. wf_dict s"
  shows "v1_inv (candidates ss) uc"
proof -
  from assms(1) obtain s rest where ss: "ss = s # rest" and uc: "uc = fold (fold v1_seperate_entry) rest (s, [])"
    by (cases ss) (auto simp: v1_seperate_def)
  have mem: "(k, v) \<in> set t \<longleftrightarrow> dict_get t k = Some v" if "t \<in> set ss" for t k v
    using assms(2) that by (simp add: wf_dict_def)
  have "v1_inv (\<lambda>k. {v. (k, v) \<in> set s}) (s, [])"
    unfolding v1_inv_def fst_conv snd_conv
  proof (intro conjI allI)
    show "wf_dict s" "wf_dict []" using assms(2) ss by (auto simp: wf_dict_def)
    show "v1_at (dict_get s k) (dict_get [] k) {v. (k, v) \<in> set s}" for k
      using mem[of s k] ss by (cases "dict_get s k") (auto simp: v1_at_simps)
  qed
  from v1_inv_sets[OF this, of rest]
  have "v1_inv (\<lambda>k. {v. (k, v) \<in> set s} \<union> {v. \<exists>t \<in> set rest. (k, v) \<in> set t}) uc" by (simp add: uc)
  moreover have "(\<lambda>k. {v. (k, v) \<in> set s} \<union> {v. \<exists>t \<in> set rest. (k, v) \<in> set t}) = candidates ss"
    using mem by (auto simp: candidates_def ss fun_eq_iff)
  ultimately show ?thesis by simp
qed

section \<open>The chosen events\<close>

lemma set_ordered_events [simp]: "set (ordered_events sha1 es) = set es"
  by (simp add: ordered_events_def)

text \<open>The order of the events does not matter when the hashes tell them apart.\<close>

lemma ordered_events_perm:
  assumes "mset es = mset es'" and "inj_on (\<lambda>e. sha1 (event_id e)) (set es)"
  shows "ordered_events sha1 es = ordered_events sha1 es'"
proof -
  let ?k = "\<lambda>e. (- depth e, sha1 (event_id e))"
  have "inj_on ?k (set es)" using assms(2) by (auto simp: inj_on_def)
  then show ?thesis
    unfolding ordered_events_def
    by (rule sort_key_inj_key_eq[OF _ _ sorted_sort_key, rotated]) (simp add: assms(1))
qed

lemma resolve_auth_loop_mem: "resolve_auth_loop ext auth prev es = Inr e \<Longrightarrow> e = prev \<or> e \<in> set es"
proof (induction es arbitrary: auth prev)
  case (Cons x es)
  from Cons.prems obtain k where k: "state_key prev = Inr k" by (auto simp: py_bind_Inr_iff)
  let ?auth = "dict_set (ev_type prev, k) prev auth"
  show ?case
  proof (cases "check_state_dependent_auth_rules ext x (map snd ?auth)")
    case (Inl err)
    with Cons.prems k show ?thesis by (simp split: if_splits)
  next
    case (Inr r)
    with Cons.prems k have "resolve_auth_loop ext ?auth x es = Inr e" by simp
    from Cons.IH[OF this] show ?thesis by auto
  qed
qed simp

lemma resolve_auth_events_mem:
  assumes "resolve_auth_events ext sha1 rv es auth = Inr e"
  shows "e \<in> set es"
proof -
  let ?r = "rev (ordered_events sha1 es)"
  obtain auth' where "(case ?r of [] \<Rightarrow> Inl IndexError | p # rest \<Rightarrow>
      if rest = [] then Inl PyException else resolve_auth_loop ext auth' p rest) = Inr e"
    using assms unfolding resolve_auth_events_def Let_def py_bind_Inr_iff by blast
  then have "e \<in> set ?r"
    by (cases ?r) (auto split: if_splits dest: resolve_auth_loop_mem simp del: set_rev rev_eq_Cons_iff)
  then show ?thesis by simp
qed

lemma resolve_normal_loop_mem: "resolve_normal_loop ext auth es = Inr e \<Longrightarrow> e \<in> set es"
  by (induction es) (auto split: sum.splits if_splits)

lemma resolve_normal_events_mem: "resolve_normal_events ext sha1 es auth = Inr e \<Longrightarrow> e \<in> set es"
  using resolve_normal_loop_mem by (fastforce simp: resolve_normal_events_def)

text \<open>Every entry of the resolved state was one of the events in conflict at its key.\<close>

definition chosen_from :: "(state_id, event list) dict \<Rightarrow> (state_id, event) dict \<Rightarrow> bool" where
  "chosen_from c r \<longleftrightarrow> wf_dict r \<and>
     (\<forall>k e. dict_get r k = Some e \<longrightarrow> (\<exists>es. (k, es) \<in> set c \<and> e \<in> set es))"

lemma chosen_from_set:
  "chosen_from c r \<Longrightarrow> (k, es) \<in> set c \<Longrightarrow> e \<in> set es \<Longrightarrow> chosen_from c (dict_set k e r)"
  by (auto simp: chosen_from_def alist.get_put alist.wf_put)

lemma resolve_type_chosen:
  assumes "resolve_type ext sha1 rv ty c auth r0 = Inr r" and "chosen_from c r0"
  shows "chosen_from c r"
  using assms(1) unfolding resolve_type_def
  by (rule py_for_invariant)
    (use assms(2) chosen_from_set resolve_auth_events_mem in \<open>auto simp: py_bind_Inr_iff split: if_splits\<close>)

lemma resolve_state_events_chosen:
  assumes "resolve_state_events ext sha1 rv c auth = Inr r"
  shows "chosen_from c r" and "dom (dict_get r) = fst ` set c"
proof -
  from assms obtain r1 a2 r2 a3 r3 a4 where
    r1: "(case dict_get c POWER_KEY of None \<Rightarrow> Inr [] | Some events \<Rightarrow>
            py_bind (resolve_auth_events ext sha1 rv events auth) (\<lambda>e. Inr [(POWER_KEY, e)])) = Inr r1"
    and r2: "resolve_type ext sha1 rv EventTypes_JoinRules c a2 r1 = Inr r2"
    and r3: "resolve_type ext sha1 rv EventTypes_Member c a3 r2 = Inr r3"
    and r4: "py_for (\<lambda>(key, events) resolved_state. if \<not> dict_has resolved_state key
          then py_bind (resolve_normal_events ext sha1 events a4) (\<lambda>e. Inr (dict_set key e resolved_state))
          else Inr resolved_state) c r3 = Inr r"
    by (auto simp: resolve_state_events_def py_bind_Inr_iff Let_def)
  have "chosen_from c r1"
  proof (cases "dict_get c POWER_KEY")
    case (Some es)
    with r1 obtain e where e: "resolve_auth_events ext sha1 rv es auth = Inr e" and "r1 = [(POWER_KEY, e)]"
      by (auto simp: py_bind_Inr_iff)
    with resolve_auth_events_mem[OF e] map_of_SomeD[OF Some] show ?thesis
      by (auto simp: chosen_from_def wf_dict_def split: if_splits)
  qed (use r1 in \<open>simp add: chosen_from_def wf_dict_def\<close>)
  from resolve_type_chosen[OF r3 resolve_type_chosen[OF r2 this]] have "chosen_from c r3" .
  with r4 show ch: "chosen_from c r"
    by (rule py_for_invariant)
      (use chosen_from_set resolve_normal_events_mem in \<open>auto simp: py_bind_Inr_iff split: if_splits\<close>)
  have "k \<in> dom (dict_get r)" if "(k, es) \<in> set c" for k es
  proof -
    let ?f = "\<lambda>(key, events) resolved_state. if \<not> dict_has resolved_state key
          then py_bind (resolve_normal_events ext sha1 events a4) (\<lambda>e. Inr (dict_set key e resolved_state))
          else Inr resolved_state"
    from that obtain pre post where c: "c = pre @ (k, es) # post" by (auto simp: in_set_conv_decomp)
    with r4 obtain s t where st: "?f (k, es) s = Inr t" and post: "py_for ?f post t = Inr r"
      by (auto simp: py_for_append py_bind_Inr_iff)
    have "dict_has t k" using st by (auto simp: py_bind_Inr_iff dict_has_def alist.get_put split: if_splits)
    with post have "dict_has r k"
      by (rule py_for_invariant)
        (auto simp: py_bind_Inr_iff dict_has_def alist.get_put split: if_splits)
    then show ?thesis by (auto simp: dict_has_def)
  qed
  moreover have "k \<in> fst ` set c" if "k \<in> dom (dict_get r)" for k
  proof -
    from that obtain e where "dict_get r k = Some e" by blast
    with ch obtain es where "(k, es) \<in> set c" unfolding chosen_from_def by blast
    then show ?thesis by (rule image_eqI[rotated]) simp
  qed
  ultimately show "dom (dict_get r) = fst ` set c" by force
qed


section \<open>The whole algorithm\<close>

text \<open>The events of a conflicted key that could be fetched.\<close>

definition known_events :: "event_map \<Rightarrow> string list \<Rightarrow> event list" where
  "known_events state_map event_ids = map (\<lambda>i. the (dict_get state_map i)) (filter (dict_has state_map) event_ids)"

lemma known_conflicts_fold:
  assumes "fold (known_conflict state_map) c (u, f) = (u', f')" and "wf_dict c" and "wf_dict f"
  shows "dict_get u' k = (case dict_get c k of None \<Rightarrow> dict_get u k | Some event_ids \<Rightarrow>
      case known_events state_map event_ids of [e] \<Rightarrow> Some (event_id e) | _ \<Rightarrow> dict_get u k) \<and>
    dict_get f' k = (case dict_get c k of None \<Rightarrow> dict_get f k | Some event_ids \<Rightarrow>
      if length (known_events state_map event_ids) > 1 then Some (known_events state_map event_ids)
      else dict_get f k) \<and> wf_dict f'"
  using assms
proof (induction c arbitrary: u f)
  case (Cons a c)
  obtain key event_ids where a: "a = (key, event_ids)" by (cases a)
  let ?es = "known_events state_map event_ids"
  have wf: "wf_dict c" and new: "dict_get c key = None"
    using Cons.prems(2) by (auto simp: a wf_dict_def map_of_eq_None_iff)
  define u1 where "u1 = (if length ?es = 1 then dict_set key (event_id (hd ?es)) u else u)"
  define f1 where "f1 = (if length ?es > 1 then dict_set key ?es f else f)"
  have wf1: "wf_dict f1" using Cons.prems(3) by (simp add: f1_def alist.wf_put)
  have "known_conflict state_map a (u, f) = (u1, f1)"
    by (simp add: a u1_def f1_def known_conflict_def known_events_def Let_def)
  with Cons.prems(1) have "fold (known_conflict state_map) c (u1, f1) = (u', f')" by simp
  note IH = Cons.IH[OF this wf wf1]
  show ?case
  proof (cases "k = key")
    case True
    with IH new show ?thesis
      by (auto simp: a u1_def f1_def alist.get_put length_Suc_conv split: list.splits)
  next
    case False
    then have same: "dict_get u1 k = dict_get u k" "dict_get f1 k = dict_get f k"
      by (simp_all add: u1_def f1_def alist.get_put_other)
    from IH[unfolded same] False show ?thesis by (simp add: a)
  qed
qed simp

lemma known_conflicts_get:
  assumes "known_conflicts state_map c u = (u', f')" and "wf_dict c"
  shows "dict_get u' k = (case dict_get c k of None \<Rightarrow> dict_get u k | Some event_ids \<Rightarrow>
      case known_events state_map event_ids of [e] \<Rightarrow> Some (event_id e) | _ \<Rightarrow> dict_get u k)"
    and "dict_get f' k = (case dict_get c k of None \<Rightarrow> None | Some event_ids \<Rightarrow>
      if length (known_events state_map event_ids) > 1 then Some (known_events state_map event_ids) else None)"
    and "wf_dict f'"
  using known_conflicts_fold[OF assms(1)[unfolded known_conflicts_def] assms(2), of k]
  by (simp_all add: wf_dict_def split: option.splits)

text \<open>What \<open>state_map_factory\<close> and the caller's \<open>event_map\<close> are documented to be: dicts of event
  id to event.\<close>

definition keyed_by_id :: "event_map \<Rightarrow> bool" where
  "keyed_by_id d \<longleftrightarrow> (\<forall>(i, e) \<in> set d. event_id e = i)"

lemma keyed_by_id_get: "keyed_by_id d \<Longrightarrow> dict_get d i = Some e \<Longrightarrow> event_id e = i"
  by (auto simp: keyed_by_id_def dest: map_of_SomeD)

lemma keyed_by_id_set: "keyed_by_id d \<Longrightarrow> event_id e = i \<Longrightarrow> keyed_by_id (dict_set i e d)"
  by (induction d) (auto simp: keyed_by_id_def split: if_splits)

lemma keyed_by_id_update: "keyed_by_id d \<Longrightarrow> keyed_by_id d' \<Longrightarrow> keyed_by_id (dict_update d d')"
  unfolding dict_update_def
proof (induction d' arbitrary: d)
  case (Cons a d')
  then have "keyed_by_id (dict_set (fst a) (snd a) d)" and "keyed_by_id d'"
    by (auto simp: keyed_by_id_def[of "_ # _"] intro: keyed_by_id_set) (simp add: keyed_by_id_def)
  from Cons.IH[OF this] show ?case by (simp add: case_prod_unfold)
qed simp

text \<open>An entry of the result: the event that won the conflict, or the only known event of a
  conflicted key, or the unconflicted entry.\<close>

lemma resolve_with_state_get:
  assumes r: "resolve_with_state ext sha1 rv u c auth_ids state_map = Inr r" and wf: "wf_dict c"
    and ids: "keyed_by_id state_map"
  shows "dict_get c k = None \<Longrightarrow> dict_get r k = dict_get u k"
    and "dict_get c k = Some event_ids \<Longrightarrow> \<exists>i \<in> set event_ids. dict_has state_map i \<Longrightarrow>
      \<exists>i \<in> set event_ids. dict_has state_map i \<and> dict_get r k = Some i"
    and "dict_get c k = Some event_ids \<Longrightarrow> \<not> (\<exists>i \<in> set event_ids. dict_has state_map i) \<Longrightarrow>
      dict_get r k = dict_get u k"
proof -
  obtain n f where nf: "known_conflicts state_map c u = (n, f)" by force
  note get = known_conflicts_get(1,2)[OF nf wf, of k] known_conflicts_get(3)[OF nf wf]
  from r obtain auth res where res: "resolve_state_events ext sha1 rv f auth = Inr res"
    and r: "r = fold (\<lambda>(key, event). dict_set key (event_id event)) res n"
    by (auto simp: resolve_with_state_def nf py_bind_Inr_iff Let_def)
  note ch = resolve_state_events_chosen[OF res]
  have upd: "fold (\<lambda>(key, event). dict_set key (event_id event)) res n =
      dict_update n (map (apsnd event_id) res)"
    unfolding dict_update_def fold_map by (rule fold_cong) auto
  have "wf_dict (map (apsnd event_id) res)"
    using ch(1) by (simp add: chosen_from_def wf_dict_def comp_def)
  then have rk: "dict_get r k = (case dict_get res k of None \<Rightarrow> dict_get n k | Some e \<Rightarrow> Some (event_id e))"
    by (simp add: r upd dict_get_update dict_get_rev map_add_def apsnd_def map_prod_def map_of_map split: option.splits)
  have dom: "dict_get res k \<noteq> None \<longleftrightarrow> dict_get f k \<noteq> None"
    using ch(2) by (metis domIff map_of_eq_None_iff)
  have won: "e \<in> set es" if "dict_get res k = Some e" "dict_get f k = Some es" for e es
  proof -
    from that(1) ch(1) obtain es' where "(k, es') \<in> set f" "e \<in> set es'" unfolding chosen_from_def by blast
    with get(3) that(2) show ?thesis by (simp add: wf_dict_def)
  qed
  have mem: "e \<in> set (known_events state_map event_ids) \<Longrightarrow>
      event_id e \<in> set event_ids \<and> dict_has state_map (event_id e)" for e event_ids
    using keyed_by_id_get[OF ids] by (auto simp: known_events_def dict_has_def)
  show "dict_get c k = None \<Longrightarrow> dict_get r k = dict_get u k"
    using get dom rk by (simp split: option.splits)
  show "dict_get r k = dict_get u k"
    if "dict_get c k = Some event_ids" "\<not> (\<exists>i \<in> set event_ids. dict_has state_map i)"
  proof -
    from that(2) have "known_events state_map event_ids = []" by (auto simp: known_events_def filter_empty_conv)
    with get dom rk that(1) show ?thesis by (simp split: option.splits)
  qed
  show "\<exists>i \<in> set event_ids. dict_has state_map i \<and> dict_get r k = Some i"
    if c: "dict_get c k = Some event_ids" and known: "\<exists>i \<in> set event_ids. dict_has state_map i"
  proof (cases "length (known_events state_map event_ids) > 1")
    case True
    with get c have "dict_get f k = Some (known_events state_map event_ids)" by simp
    moreover with dom obtain e where "dict_get res k = Some e" by auto
    ultimately show ?thesis using won mem rk by auto
  next
    case False
    from known have "known_events state_map event_ids \<noteq> []" by (auto simp: known_events_def filter_empty_conv)
    with False obtain e where e: "known_events state_map event_ids = [e]"
      by (cases "known_events state_map event_ids") auto
    with get c dom rk have "dict_get r k = Some (event_id e)" by (auto split: option.splits)
    with mem[of e event_ids] e show ?thesis by auto
  qed
qed


lemma v1_resolve_get:
  assumes r: "v1_resolve_events_with_store ext sha1 factory rid rv ss em = Inr r"
    and wf: "\<forall>s \<in> set ss. wf_dict s"
    and factory: "\<And>ids. keyed_by_id (factory ids)"
    and em: "\<And>d. em = Some d \<Longrightarrow> keyed_by_id d"
  shows "dict_get r k = Some i \<Longrightarrow> i \<in> candidates ss k"
    and "candidates ss k = {i} \<Longrightarrow> dict_get r k = Some i"
proof -
  have both: "(dict_get r k = Some i \<longrightarrow> i \<in> candidates ss k) \<and> (candidates ss k = {i} \<longrightarrow> dict_get r k = Some i)"
  proof (cases "length ss = 1")
    case True
    with r have "ss = [r]" by (cases ss) (auto simp: v1_resolve_events_with_store_def)
    then show ?thesis by (auto simp: candidates_def)
  next
    case False
    let ?fl = "case em of None \<Rightarrow> [] | Some em \<Rightarrow> em"
    have fl: "keyed_by_id ?fl" using em by (auto simp: keyed_by_id_def split: option.splits)
    from r False obtain u c auth ids ids' where sep: "v1_seperate ss = Inr (u, c)"
      and res: "resolve_with_state ext sha1 rv u c auth
        (dict_update (dict_update (factory ids) ?fl) (factory ids')) = Inr r"
      by (auto simp: v1_resolve_events_with_store_def py_bind_Inr_iff Let_def split: prod.splits)
    note inv = v1_seperate_inv[OF sep wf]
    have keyed: "keyed_by_id (dict_update (dict_update (factory ids) ?fl) (factory ids'))"
      by (intro keyed_by_id_update factory fl)
    have "wf_dict c" using inv by (simp add: v1_inv_def)
    note get = resolve_with_state_get[OF res this keyed, of k]
    from v1_inv_at[OF inv, of k] show ?thesis
    proof (cases rule: v1_at.cases)
      case (several ls)
      then have ls: "dict_get c k = Some ls" and none: "dict_get u k = None" by simp_all
      have "\<not> (candidates ss k = {i})" using several by (auto simp: distinct_card[symmetric])
      moreover have "i \<in> candidates ss k" if "dict_get r k = Some i"
        using get(2)[OF ls] get(3)[OF ls] none several that by fastforce
      ultimately show ?thesis by blast
    qed (use get(1) in auto)
  qed
  then show "dict_get r k = Some i \<Longrightarrow> i \<in> candidates ss k"
    and "candidates ss k = {i} \<Longrightarrow> dict_get r k = Some i" by simp_all
qed


lemma keyed_by_id_dict_store: "keyed_by_id evs \<Longrightarrow> keyed_by_id (dict_store_get_events evs ids)"
proof -
  assume evs: "keyed_by_id evs"
  have "keyed_by_id d \<Longrightarrow> keyed_by_id (fold (\<lambda>i d. case dict_get evs i of None \<Rightarrow> d | Some e \<Rightarrow> dict_set i e d) ids d)" for d
    by (induction ids arbitrary: d) (auto split: option.splits intro: keyed_by_id_set keyed_by_id_get[OF evs])
  moreover have "keyed_by_id []" by (simp add: keyed_by_id_def)
  ultimately show ?thesis by (simp add: dict_store_get_events_def)
qed

end
