(* ===== verification/Stream_Change_Cache.thy ===== *)
theory Stream_Change_Cache
  imports Prelude
begin

text \<open>
  \<open>synapse/util/caches/stream_change_cache.py\<close>: the cache that tells which entities (rooms, users)
  changed after a stream position. The container \<open>sortedcontainers.SortedDict\<close> is not part of
  the repository: its operations are an argument of the definitions (the record
  \<open>sorted_dict_ops\<close>), the locale \<open>sorted_dict\<close> states its documented behaviour, and an association
  list satisfies it. The metrics of the cache are left out. A Python set is a list without
  duplicates, and every function that can raise returns a \<open>py\<close> result.
\<close>

section \<open>SortedDict\<close>

text \<open>A dictionary whose keys are iterated over in increasing order; the values are the sets of
  entities. \<open>sd_peek\<close> is \<open>peekitem()\<close>, the item with the largest key, \<open>sd_pop\<close> is \<open>popitem(0)\<close>,
  the item with the smallest key and the rest (on an empty dictionary both raise), and
  \<open>sd_after\<close> is \<open>islice(start=bisect_right(pos))\<close>.\<close>

record 'd sorted_dict_ops =
  sd_new :: 'd
  sd_get :: "'d \<Rightarrow> int \<Rightarrow> string list option"
  sd_set :: "int \<Rightarrow> string list \<Rightarrow> 'd \<Rightarrow> 'd"
  sd_del :: "int \<Rightarrow> 'd \<Rightarrow> 'd"
  sd_len :: "'d \<Rightarrow> nat"
  sd_peek :: "'d \<Rightarrow> (int \<times> string list) option"
  sd_pop :: "'d \<Rightarrow> ((int \<times> string list) \<times> 'd) option"
  sd_after :: "int \<Rightarrow> 'd \<Rightarrow> int list"

section \<open>The cache\<close>

text \<open>Removal from a set, which raises KeyError when the element is not there.\<close>

definition set_remove :: "'a \<Rightarrow> 'a list \<Rightarrow> 'a list py" where
  "set_remove x xs = (if x \<in> set xs then Inr (removeAll x xs) else Inl KeyError)"

record 'd stream_change_cache =
  original_max_size :: int
  max_size :: int
  cache :: 'd
  entity_to_key :: "(string, int) dict"
  earliest_known_stream_pos :: int

text \<open>\<open>AllEntitiesChangedResult\<close>: the list of entities, if there was a hit.\<close>

datatype all_entities_changed_result = AllEntitiesChangedResult (entities_field: "string list option")

definition hit :: "all_entities_changed_result \<Rightarrow> bool" where
  "hit r \<longleftrightarrow> entities_field r \<noteq> None"

definition entities :: "all_entities_changed_result \<Rightarrow> string list py" where
  "entities r = (case entities_field r of None \<Rightarrow> Inl AssertionError | Some es \<Rightarrow> Inr es)"

text \<open>The loop of \<open>_evict\<close> gets one step more than there are items.\<close>

fun evict_loop :: "'d sorted_dict_ops \<Rightarrow> nat \<Rightarrow> 'd stream_change_cache \<Rightarrow> 'd stream_change_cache py" where
  "evict_loop ops 0 self = Inl OutOfFuel"
| "evict_loop ops (Suc fuel) self =
     (if int (sd_len ops (cache self)) > max_size self
      then (case sd_pop ops (cache self) of
              None \<Rightarrow> Inl KeyError
            | Some ((k, r), rest) \<Rightarrow>
                evict_loop ops fuel (self
                  \<lparr>cache := rest,
                   earliest_known_stream_pos := max k (earliest_known_stream_pos self),
                   entity_to_key := fold dict_del r (entity_to_key self)\<rparr>))
      else Inr self)"

definition evict :: "'d sorted_dict_ops \<Rightarrow> 'd stream_change_cache \<Rightarrow> 'd stream_change_cache py" where
  "evict ops self = evict_loop ops (Suc (sd_len ops (cache self))) self"

definition set_cache_factor ::
    "'d sorted_dict_ops \<Rightarrow> rat \<Rightarrow> 'd stream_change_cache \<Rightarrow> (bool \<times> 'd stream_change_cache) py" where
  "set_cache_factor ops factor self =
     (let new_size = \<lfloor>of_int (original_max_size self) * factor\<rfloor>
      in if new_size \<noteq> max_size self
         then py_bind (evict ops (self\<lparr>max_size := new_size\<rparr>)) (\<lambda>self'. Inr (True, self'))
         else Inr (False, self))"

definition has_entity_changed :: "string \<Rightarrow> int \<Rightarrow> 'd stream_change_cache \<Rightarrow> bool" where
  "has_entity_changed entity stream_pos self =
     (if stream_pos < earliest_known_stream_pos self then True
      else case dict_get (entity_to_key self) entity of
             None \<Rightarrow> False
           | Some latest_entity_change_pos \<Rightarrow> stream_pos < latest_entity_change_pos)"

text \<open>Every key of \<open>islice\<close> is looked up in the dictionary.\<close>

definition get_all_entities_changed ::
    "'d sorted_dict_ops \<Rightarrow> int \<Rightarrow> 'd stream_change_cache \<Rightarrow> all_entities_changed_result py" where
  "get_all_entities_changed ops stream_pos self =
     (if stream_pos < earliest_known_stream_pos self then Inr (AllEntitiesChangedResult None)
      else py_bind (py_for (\<lambda>k changed_entities.
             case sd_get ops (cache self) k of
               None \<Rightarrow> Inl KeyError
             | Some es \<Rightarrow> Inr (changed_entities @ es)) (sd_after ops stream_pos (cache self)) [])
           (\<lambda>changed_entities. Inr (AllEntitiesChangedResult (Some changed_entities))))"

definition set_intersection :: "'a list \<Rightarrow> 'a list \<Rightarrow> 'a list" where
  "set_intersection xs ys = filter (\<lambda>x. x \<in> set ys) xs"

text \<open>\<open>is_set\<close> tells whether the caller passed a set, which only decides how the intersection is
  computed.\<close>

definition get_entities_changed ::
    "'d sorted_dict_ops \<Rightarrow> bool \<Rightarrow> string list \<Rightarrow> int \<Rightarrow> int \<Rightarrow> 'd stream_change_cache \<Rightarrow> string list py" where
  "get_entities_changed ops is_set es stream_pos perf_factor self =
     (if sd_len ops (cache self) = 0 \<or> stream_pos < earliest_known_stream_pos self then Inr (remdups es)
      else case sd_peek ops (cache self) of
        None \<Rightarrow> Inl IndexError
      | Some (max_stream_pos, _) \<Rightarrow>
          if max_stream_pos - stream_pos > perf_factor * int (length es)
          then Inr (remdups (filter (\<lambda>entity.
                 dict_get_default (entity_to_key self) entity (-1) > stream_pos) es))
          else
          py_bind (get_all_entities_changed ops stream_pos self) (\<lambda>cache_result.
          if hit cache_result
          then py_bind (entities cache_result) (\<lambda>found.
                 if is_set then Inr (set_intersection es found)
                 else if length found < length es then Inr (set_intersection (remdups found) es)
                 else Inr (set_intersection (remdups es) found))
          else Inr (remdups es)))"

definition has_any_entity_changed :: "'d sorted_dict_ops \<Rightarrow> int \<Rightarrow> 'd stream_change_cache \<Rightarrow> bool py" where
  "has_any_entity_changed ops stream_pos self =
     (if stream_pos < earliest_known_stream_pos self then Inr True
      else if sd_len ops (cache self) = 0 then Inr False
      else case sd_peek ops (cache self) of
             None \<Rightarrow> Inl IndexError
           | Some (k, _) \<Rightarrow> Inr (stream_pos < k))"

text \<open>Forgetting the previous position of an entity.\<close>

definition forget_old_pos :: "'d sorted_dict_ops \<Rightarrow> string \<Rightarrow> int \<Rightarrow> 'd \<Rightarrow> 'd py" where
  "forget_old_pos ops entity old_pos c =
     (case sd_get ops c old_pos of
        None \<Rightarrow> Inl KeyError
      | Some e \<Rightarrow>
          py_bind (set_remove entity e) (\<lambda>e'.
            Inr (if e' = [] then sd_del ops old_pos c else sd_set ops old_pos e' c)))"

definition entity_has_changed ::
    "'d sorted_dict_ops \<Rightarrow> string \<Rightarrow> int \<Rightarrow> 'd stream_change_cache \<Rightarrow> 'd stream_change_cache py" where
  "entity_has_changed ops entity stream_pos self =
     (if stream_pos \<le> earliest_known_stream_pos self then Inr self
      else
      let old_pos = dict_get (entity_to_key self) entity
      in if (\<exists>p \<in> set_option old_pos. p \<ge> stream_pos) then Inr self
         else
         py_bind (case old_pos of None \<Rightarrow> Inr (cache self) | Some p \<Rightarrow> forget_old_pos ops entity p (cache self)) (\<lambda>c.
         let e1 = (case sd_get ops c stream_pos of None \<Rightarrow> [] | Some e \<Rightarrow> e)
         in evict ops (self
              \<lparr>cache := sd_set ops stream_pos (set_add entity e1) c,
               entity_to_key := dict_set entity stream_pos (entity_to_key self)\<rparr>)))"

definition new_stream_change_cache ::
    "'d sorted_dict_ops \<Rightarrow> int \<Rightarrow> int \<Rightarrow> (string, int) dict \<Rightarrow> 'd stream_change_cache py" where
  "new_stream_change_cache ops current_stream_pos max_size0 prefilled_cache =
     py_for (\<lambda>(entity, stream_pos). entity_has_changed ops entity stream_pos) prefilled_cache
       \<lparr>original_max_size = max_size0, max_size = max_size0, cache = sd_new ops, entity_to_key = [],
        earliest_known_stream_pos = current_stream_pos\<rparr>"

definition all_entities_changed ::
    "'d sorted_dict_ops \<Rightarrow> int \<Rightarrow> 'd stream_change_cache \<Rightarrow> 'd stream_change_cache" where
  "all_entities_changed ops stream_pos self =
     self\<lparr>cache := sd_new ops, entity_to_key := [], earliest_known_stream_pos := stream_pos\<rparr>"

definition get_max_pos_of_last_change :: "string \<Rightarrow> 'd stream_change_cache \<Rightarrow> int option" where
  "get_max_pos_of_last_change entity self = dict_get (entity_to_key self) entity"

definition get_earliest_known_position :: "'d stream_change_cache \<Rightarrow> int" where
  "get_earliest_known_position self = earliest_known_stream_pos self"


section \<open>The documented behaviour of SortedDict\<close>

locale sorted_dict =
  fixes ops :: "'d sorted_dict_ops"
  assumes get_new: "sd_get ops (sd_new ops) = Map.empty"
    and get_set: "sd_get ops (sd_set ops k v d) = (sd_get ops d)(k \<mapsto> v)"
    and get_del: "sd_get ops (sd_del ops k d) = (sd_get ops d)(k := None)"
    and finite_keys: "finite (dom (sd_get ops d))"
    and len: "sd_len ops d = card (dom (sd_get ops d))"
    and peek_None: "sd_peek ops d = None \<longleftrightarrow> dom (sd_get ops d) = {}"
    and peek_Some: "sd_peek ops d = Some (k, v) \<Longrightarrow> k = Max (dom (sd_get ops d)) \<and> sd_get ops d k = Some v"
    and pop_None: "sd_pop ops d = None \<longleftrightarrow> dom (sd_get ops d) = {}"
    and pop_Some: "sd_pop ops d = Some ((k, v), d') \<Longrightarrow>
      k = Min (dom (sd_get ops d)) \<and> sd_get ops d k = Some v \<and> sd_get ops d' = (sd_get ops d)(k := None)"
    and after: "sd_after ops p d = filter (\<lambda>k. p < k) (sorted_list_of_set (dom (sd_get ops d)))"

text \<open>The two halves of the cache agree, no set is empty and no position is outside the range the
  cache answers for.\<close>

definition synced :: "'d sorted_dict_ops \<Rightarrow> 'd stream_change_cache \<Rightarrow> bool" where
  "synced ops self \<longleftrightarrow>
     (\<forall>e p. dict_get (entity_to_key self) e = Some p \<longleftrightarrow> (\<exists>s. sd_get ops (cache self) p = Some s \<and> e \<in> set s)) \<and>
     (\<forall>p s. sd_get ops (cache self) p = Some s \<longrightarrow> s \<noteq> [] \<and> distinct s \<and> earliest_known_stream_pos self < p)"

definition bounded :: "'d sorted_dict_ops \<Rightarrow> 'd stream_change_cache \<Rightarrow> bool" where
  "bounded ops self \<longleftrightarrow> 0 \<le> original_max_size self \<and> int (sd_len ops (cache self)) \<le> max_size self"

lemma synced_key: "synced ops self \<Longrightarrow> dict_get (entity_to_key self) e = Some p \<longleftrightarrow>
    (\<exists>s. sd_get ops (cache self) p = Some s \<and> e \<in> set s)"
  by (simp add: synced_def)

lemma synced_set: "synced ops self \<Longrightarrow> sd_get ops (cache self) p = Some s \<Longrightarrow>
    s \<noteq> [] \<and> distinct s \<and> earliest_known_stream_pos self < p"
  by (simp add: synced_def)

lemma synced_pos: "synced ops self \<Longrightarrow> dict_get (entity_to_key self) e = Some p \<Longrightarrow>
    earliest_known_stream_pos self < p"
  by (auto simp: synced_key dest: synced_set)

lemma dict_get_fold_del: "dict_get (fold dict_del ks d) k = (if k \<in> set ks then None else dict_get d k)"
  by (induction ks arbitrary: d) (auto simp: alist.get_del)

context sorted_dict
begin

lemma len_0: "sd_len ops d = 0 \<longleftrightarrow> dom (sd_get ops d) = {}"
  by (simp add: len finite_keys)

lemma popE:
  assumes "sd_get ops d k = Some v"
  obtains k0 v0 d' where "sd_pop ops d = Some ((k0, v0), d')" "sd_get ops d k0 = Some v0"
    "\<And>p. p \<in> dom (sd_get ops d) \<Longrightarrow> k0 \<le> p" "sd_get ops d' = (sd_get ops d)(k0 := None)"
    "Suc (sd_len ops d') = sd_len ops d"
proof -
  have "sd_pop ops d \<noteq> None" using assms by (auto simp: pop_None)
  then obtain k0 v0 d' where pop: "sd_pop ops d = Some ((k0, v0), d')" by force
  note p = pop_Some[OF pop]
  have "card (dom (sd_get ops d)) > 0" using assms finite_keys[of d] by (auto simp: card_gt_0_iff)
  then have "Suc (sd_len ops d') = sd_len ops d" using p finite_keys[of d] by (auto simp: len domI)
  with that p pop finite_keys[of d] show thesis by auto
qed

text \<open>Eviction forgets exactly the entities that last changed at or before the new earliest
  position, and ends.\<close>

lemma evict_loop_spec:
  assumes "synced ops self" and "sd_len ops (cache self) < fuel" and "0 \<le> max_size self" and "0 \<le> original_max_size self"
  shows "\<exists>self'. evict_loop ops fuel self = Inr self' \<and> synced ops self' \<and> bounded ops self' \<and>
    original_max_size self' = original_max_size self \<and> max_size self' = max_size self \<and>
    earliest_known_stream_pos self \<le> earliest_known_stream_pos self' \<and>
    (\<forall>e p. dict_get (entity_to_key self') e = Some p \<longleftrightarrow>
      dict_get (entity_to_key self) e = Some p \<and> earliest_known_stream_pos self' < p)"
  using assms
proof (induction fuel arbitrary: self)
  case (Suc fuel)
  show ?case
  proof (cases "int (sd_len ops (cache self)) > max_size self")
    case False
    with Suc.prems synced_pos[OF Suc.prems(1)] show ?thesis by (auto simp: bounded_def)
  next
    case True
    with Suc.prems(3) have "sd_len ops (cache self) \<noteq> 0" by simp
    then have "dom (sd_get ops (cache self)) \<noteq> {}" by (simp add: len_0)
    then obtain k v where "sd_get ops (cache self) k = Some v" by blast
    then obtain k r d' where pop: "sd_pop ops (cache self) = Some ((k, r), d')"
      and r: "sd_get ops (cache self) k = Some r"
      and least0: "\<And>p. p \<in> dom (sd_get ops (cache self)) \<Longrightarrow> k \<le> p"
      and d': "sd_get ops d' = (sd_get ops (cache self))(k := None)"
      and l: "Suc (sd_len ops d') = sd_len ops (cache self)" by (rule popE) blast
    have least: "k \<le> p" if "sd_get ops (cache self) p = Some s" for p s      by (rule least0) (simp add: that domI)
    note key = synced_key[OF Suc.prems(1)] and pos = synced_set[OF Suc.prems(1)]
    from pos[OF r] have k: "max k (earliest_known_stream_pos self) = k" by simp
    let ?s = "self\<lparr>cache := d', earliest_known_stream_pos := k, entity_to_key := fold dict_del r (entity_to_key self)\<rparr>"
    have only: "e \<in> set r \<longleftrightarrow> dict_get (entity_to_key self) e = Some k" for e using key r by auto
    have at: "dict_get (entity_to_key ?s) e = Some p \<longleftrightarrow> dict_get (entity_to_key self) e = Some p \<and> k < p" for e p
      using only[of e] least key[of e p] by (force simp: dict_get_fold_del order_less_le)
    have "synced ops ?s"
      unfolding synced_def at using key pos least by (auto simp: d' order_less_le)
    from Suc.IH[OF this] Suc.prems l obtain self' where
      "evict_loop ops fuel ?s = Inr self' \<and> synced ops self' \<and> bounded ops self' \<and>
      original_max_size self' = original_max_size self \<and> max_size self' = max_size self \<and>
      k \<le> earliest_known_stream_pos self' \<and>
      (\<forall>e p. dict_get (entity_to_key self') e = Some p \<longleftrightarrow>
        dict_get (entity_to_key ?s) e = Some p \<and> earliest_known_stream_pos self' < p)" by auto
    with True pop k pos[OF r] at show ?thesis by (intro exI[of _ self']) force
  qed
qed simp

lemmas evict_spec = evict_loop_spec[OF _ lessI, folded evict_def]

end


section \<open>Histories\<close>

text \<open>
  The history of a cache: the changes it was told of, as pairs of an entity and a stream position
  (an invalidation is a change of every entity), together with the cache they lead to. An
  invalidation is at a position that is not before a change it was already told of, and the size
  of the cache is not negative.
\<close>

inductive history :: "'d sorted_dict_ops \<Rightarrow> (string \<times> int) set \<Rightarrow> 'd stream_change_cache \<Rightarrow> bool" for ops where
  start: "0 \<le> m \<Longrightarrow> new_stream_change_cache ops pos m [] = Inr self \<Longrightarrow> history ops {} self"
| change: "history ops H self \<Longrightarrow> entity_has_changed ops e p self = Inr self' \<Longrightarrow>
    history ops (insert (e, p) H) self'"
| resize: "history ops H self \<Longrightarrow> 0 \<le> factor \<Longrightarrow> set_cache_factor ops factor self = Inr (b, self') \<Longrightarrow>
    history ops H self'"
| invalidate: "history ops H self \<Longrightarrow> \<forall>(e, q) \<in> H. q \<le> p \<Longrightarrow>
    history ops (H \<union> UNIV \<times> {p}) (all_entities_changed ops p self)"

text \<open>Every change in the range of the cache is remembered, at its position or a later one, and
  nothing else is.\<close>

definition tracks :: "(string \<times> int) set \<Rightarrow> 'd stream_change_cache \<Rightarrow> bool" where
  "tracks H self \<longleftrightarrow>
     (\<forall>e q. (e, q) \<in> H \<longrightarrow> earliest_known_stream_pos self < q \<longrightarrow>
        (\<exists>p \<ge> q. dict_get (entity_to_key self) e = Some p)) \<and>
     (\<forall>e p. dict_get (entity_to_key self) e = Some p \<longrightarrow> (e, p) \<in> H)"

lemma tracks_evicted:
  assumes "tracks H self" and "earliest_known_stream_pos self \<le> earliest_known_stream_pos self'"
    and "\<forall>e p. dict_get (entity_to_key self') e = Some p \<longleftrightarrow>
      dict_get (entity_to_key self) e = Some p \<and> earliest_known_stream_pos self' < p"
  shows "tracks H self'"
  unfolding tracks_def
proof (intro conjI allI impI)
  fix e q assume q: "(e, q) \<in> H" "earliest_known_stream_pos self' < q"
  with assms(1,2) obtain p where "p \<ge> q" "dict_get (entity_to_key self) e = Some p"
    unfolding tracks_def by fastforce
  with assms(3) q(2) show "\<exists>p \<ge> q. dict_get (entity_to_key self') e = Some p" by force
next
  fix e p assume "dict_get (entity_to_key self') e = Some p"
  with assms(1,3) show "(e, p) \<in> H" unfolding tracks_def by blast
qed

lemma tracks_change:
  assumes "tracks H self"
    and "\<And>p. dict_get (entity_to_key self) e = Some p \<Longrightarrow> p < q"
    and "earliest_known_stream_pos self' = earliest_known_stream_pos self"
    and "dict_get (entity_to_key self') = (dict_get (entity_to_key self))(e \<mapsto> q)"
  shows "tracks (insert (e, q) H) self'"
  unfolding tracks_def
proof (intro conjI allI impI)
  fix e' q' assume *: "(e', q') \<in> insert (e, q) H" "earliest_known_stream_pos self' < q'"
  show "\<exists>p \<ge> q'. dict_get (entity_to_key self') e' = Some p"
  proof (cases "e' = e")
    case True
    from * assms(1,3) have "q' = q \<or> (\<exists>p \<ge> q'. dict_get (entity_to_key self) e' = Some p)"
      unfolding tracks_def by auto
    with True assms(2) have "q' \<le> q" by force
    with True show ?thesis by (simp add: assms(4))
  next
    case False
    with * assms(1,3) show ?thesis unfolding tracks_def by (auto simp: assms(4))
  qed
next
  fix e' p assume "dict_get (entity_to_key self') e' = Some p"
  with assms(1) show "(e', p) \<in> insert (e, q) H"
    unfolding tracks_def by (auto simp: assms(4) split: if_splits)
qed

lemma tracks_old_change:
  assumes "tracks H self"
    and "q \<le> earliest_known_stream_pos self \<or> (\<exists>p \<ge> q. dict_get (entity_to_key self) e = Some p)"
  shows "tracks (insert (e, q) H) self"
  using assms unfolding tracks_def by fastforce

definition good :: "'d sorted_dict_ops \<Rightarrow> (string \<times> int) set \<Rightarrow> 'd stream_change_cache \<Rightarrow> bool" where
  "good ops H self \<longleftrightarrow> synced ops self \<and> bounded ops self \<and> tracks H self"

context sorted_dict
begin

lemma synced_change:
  assumes sy: "synced ops self" and pos: "earliest_known_stream_pos self < q"
    and old: "\<And>p. dict_get (entity_to_key self) e = Some p \<Longrightarrow> p < q"
    and c: "(case dict_get (entity_to_key self) e of None \<Rightarrow> Inr (cache self)
       | Some p \<Rightarrow> forget_old_pos ops e p (cache self)) = Inr c"
    and s: "s = (case sd_get ops c q of None \<Rightarrow> [] | Some s \<Rightarrow> s)"
  shows "synced ops (self\<lparr>cache := sd_set ops q (set_add e s) c,
    entity_to_key := dict_set e q (entity_to_key self)\<rparr>)"
proof -
  note key = synced_key[OF sy] and range = synced_set[OF sy]
  have get: "sd_get ops c p = Some t \<longleftrightarrow>
      t \<noteq> [] \<and> (\<exists>t'. sd_get ops (cache self) p = Some t' \<and> t = removeAll e t')" for p t
  proof (cases "dict_get (entity_to_key self) e")
    case None
    have "removeAll e t' = t' \<and> t' \<noteq> []" if "sd_get ops (cache self) p = Some t'" for t'
      using None key[of e p] range[of p t'] that by auto
    then show ?thesis using c None by (cases "sd_get ops (cache self) p") auto
  next
    case (Some p0)
    with key obtain t0 where t0: "sd_get ops (cache self) p0 = Some t0" "e \<in> set t0" by auto
    have other: "removeAll e t' = t'" if "sd_get ops (cache self) p = Some t'" "p \<noteq> p0" for t'
      using key[of e p] Some that by auto
    have "sd_get ops c = (sd_get ops (cache self))(p0 := (if removeAll e t0 = [] then None else Some (removeAll e t0)))"
      using c Some t0 by (auto simp: forget_old_pos_def set_remove_def get_del get_set)
    then show ?thesis
    proof (cases "p = p0")
      case False
      from other[OF _ False] range[of p] show ?thesis
        unfolding \<open>sd_get ops c = _\<close> fun_upd_other[OF False] by fastforce
    qed (use t0 in auto)
  qed
  have s': "s = (case sd_get ops (cache self) q of None \<Rightarrow> [] | Some t \<Rightarrow> removeAll e t)"
  proof (cases "sd_get ops c q")
    case None
    then have "removeAll e t = []" if "sd_get ops (cache self) q = Some t" for t using get[of q] that by auto
    with None show ?thesis by (simp add: s split: option.splits)
  next
    case (Some t)
    with get[of q t] show ?thesis by (auto simp: s)
  qed
  have mem: "set (set_add e s) = insert e {e'. e' \<noteq> e \<and> dict_get (entity_to_key self) e' = Some q}"
    unfolding key s' by (cases "sd_get ops (cache self) q") auto
  have dist: "distinct (set_add e s)"
    using range by (auto simp: s' distinct_removeAll split: option.splits)
  show ?thesis
    unfolding synced_def
  proof (intro conjI allI impI)
    fix e' p
    show "dict_get (entity_to_key (self\<lparr>cache := sd_set ops q (set_add e s) c,
        entity_to_key := dict_set e q (entity_to_key self)\<rparr>)) e' = Some p \<longleftrightarrow>
      (\<exists>s'. sd_get ops (cache (self\<lparr>cache := sd_set ops q (set_add e s) c,
        entity_to_key := dict_set e q (entity_to_key self)\<rparr>)) p = Some s' \<and> e' \<in> set s')"
    proof (cases "p = q")
      case True
      with mem show ?thesis by (auto simp: alist.get_put get_set)
    next
      case False
      have "(\<exists>s'. sd_get ops c p = Some s' \<and> e' \<in> set s') \<longleftrightarrow> e' \<noteq> e \<and> dict_get (entity_to_key self) e' = Some p"
        unfolding get key by (cases "sd_get ops (cache self) p") (auto simp: filter_empty_conv removeAll_filter_not_eq)
      with False show ?thesis by (auto simp: alist.get_put get_set)
    qed
  qed (use get range pos dist in \<open>auto simp: get_set set_add_def distinct_removeAll split: if_splits\<close>)
qed

lemma new_good: "0 \<le> m \<Longrightarrow> new_stream_change_cache ops pos m [] = Inr self \<Longrightarrow> good ops {} self"
  by (auto simp: good_def new_stream_change_cache_def synced_def bounded_def tracks_def get_new len)

lemma all_entities_changed_good:
  assumes "good ops H self" and "\<forall>(e, q) \<in> H. q \<le> p"
  shows "good ops (H \<union> UNIV \<times> {p}) (all_entities_changed ops p self)"
  using assms by (auto simp: good_def all_entities_changed_def synced_def bounded_def tracks_def get_new len)

lemma evicted_good:
  assumes "synced ops self" and "0 \<le> max_size self" and "0 \<le> original_max_size self" and "tracks H self"
  shows "\<exists>self'. evict ops self = Inr self' \<and> good ops H self'"
proof -
  from evict_spec[OF assms(1-3)] obtain self' where
    "evict ops self = Inr self'" "synced ops self'" "bounded ops self'"
    "earliest_known_stream_pos self \<le> earliest_known_stream_pos self'"
    "\<forall>e p. dict_get (entity_to_key self') e = Some p \<longleftrightarrow>
      dict_get (entity_to_key self) e = Some p \<and> earliest_known_stream_pos self' < p" by blast
  with tracks_evicted[OF assms(4)] show ?thesis by (auto simp: good_def)
qed

lemma set_cache_factor_good:
  assumes "good ops H self" and "0 \<le> factor"
  shows "\<exists>b self'. set_cache_factor ops factor self = Inr (b, self') \<and> good ops H self'"
proof -
  let ?n = "\<lfloor>of_int (original_max_size self) * factor\<rfloor>"
  have "synced ops (self\<lparr>max_size := ?n\<rparr>)" and "tracks H (self\<lparr>max_size := ?n\<rparr>)"
    using assms(1) unfolding good_def synced_def tracks_def by auto
  moreover have "0 \<le> max_size (self\<lparr>max_size := ?n\<rparr>)" "0 \<le> original_max_size (self\<lparr>max_size := ?n\<rparr>)"
    using assms by (auto simp: good_def bounded_def)
  ultimately obtain self' where "evict ops (self\<lparr>max_size := ?n\<rparr>) = Inr self'" "good ops H self'"
    using evicted_good by blast
  with assms(1) show ?thesis by (cases "?n = max_size self") (auto simp: set_cache_factor_def Let_def)
qed

lemma forget_old_pos_returns:
  assumes "synced ops self" and "dict_get (entity_to_key self) e = Some p"
  shows "\<exists>c. forget_old_pos ops e p (cache self) = Inr c"
proof -
  from assms obtain s where "sd_get ops (cache self) p = Some s" "e \<in> set s" by (auto simp: synced_key)
  then show ?thesis by (simp add: forget_old_pos_def set_remove_def)
qed

lemma entity_has_changed_good:
  assumes g: "good ops H self"
  shows "\<exists>self'. entity_has_changed ops e q self = Inr self' \<and> good ops (insert (e, q) H) self'"
proof (cases "q \<le> earliest_known_stream_pos self \<or> (\<exists>p \<ge> q. dict_get (entity_to_key self) e = Some p)")
  case True
  then have "entity_has_changed ops e q self = Inr self" by (auto simp: entity_has_changed_def)
  with g tracks_old_change[OF _ True] show ?thesis by (simp add: good_def)
next
  case False
  then have pos: "earliest_known_stream_pos self < q"
    and old: "\<And>p. dict_get (entity_to_key self) e = Some p \<Longrightarrow> p < q" by force+
  have sy: "synced ops self" using g by (simp add: good_def)
  obtain c where c: "(case dict_get (entity_to_key self) e of None \<Rightarrow> Inr (cache self)
       | Some p \<Rightarrow> forget_old_pos ops e p (cache self)) = Inr c"
    using forget_old_pos_returns[OF sy] by (cases "dict_get (entity_to_key self) e") auto
  define s where "s = (case sd_get ops c q of None \<Rightarrow> [] | Some s \<Rightarrow> s)"
  let ?self = "self\<lparr>cache := sd_set ops q (set_add e s) c, entity_to_key := dict_set e q (entity_to_key self)\<rparr>"
  have eq: "entity_has_changed ops e q self = evict ops ?self"
    using False pos c by (auto simp: entity_has_changed_def Let_def s_def)
  have "tracks (insert (e, q) H) ?self"
    using g old by (intro tracks_change[of H self]) (auto simp: good_def alist.get_put)
  moreover have "0 \<le> max_size ?self" "0 \<le> original_max_size ?self"
    using g by (auto simp: good_def bounded_def)
  ultimately show ?thesis
    unfolding eq using synced_change[OF sy pos old c s_def] by (intro evicted_good)
qed

text \<open>Every history leads to a good cache.\<close>

lemma history_good: "history ops H self \<Longrightarrow> good ops H self"
proof (induction rule: history.induct)
  case (change H self e p self')
  with entity_has_changed_good[OF change.IH, of e p] show ?case by auto
next
  case (resize H self factor b self')
  with set_cache_factor_good[OF resize.IH] show ?case by fastforce
qed (auto intro: new_good all_entities_changed_good)

text \<open>The queries.\<close>

lemma changed_after:
  assumes "good ops H self" and "earliest_known_stream_pos self \<le> p"
  shows "(\<exists>q > p. (e, q) \<in> H) \<longleftrightarrow> (\<exists>q > p. dict_get (entity_to_key self) e = Some q)"
  using assms unfolding good_def tracks_def by force

lemma has_entity_changed_iff:
  assumes "good ops H self"
  shows "has_entity_changed e p self \<longleftrightarrow> p < earliest_known_stream_pos self \<or> (\<exists>q > p. (e, q) \<in> H)"
  using changed_after[OF assms, of p e] by (auto simp: has_entity_changed_def split: option.splits)

lemma get_all_loop:
  assumes "\<And>k. k \<in> set ks \<Longrightarrow> sd_get ops c k \<noteq> None"
  shows "py_for (\<lambda>k changed_entities. case sd_get ops c k of None \<Rightarrow> Inl KeyError
      | Some es \<Rightarrow> Inr (changed_entities @ es)) ks acc = Inr (acc @ concat (map (\<lambda>k. the (sd_get ops c k)) ks))"
  using assms by (induction ks arbitrary: acc) (auto split: option.splits)

lemma get_all_entities_changed_eq:
  "get_all_entities_changed ops p self = Inr (AllEntitiesChangedResult
     (if p < earliest_known_stream_pos self then None
      else Some (concat (map (\<lambda>k. the (sd_get ops (cache self) k)) (sd_after ops p (cache self))))))"
proof -
  have "sd_get ops (cache self) k \<noteq> None" if "k \<in> set (sd_after ops p (cache self))" for k
    using that finite_keys[of "cache self"] by (auto simp: after)
  from get_all_loop[OF this] show ?thesis by (simp add: get_all_entities_changed_def)
qed

lemma set_all_after:
  assumes "good ops H self" and "earliest_known_stream_pos self \<le> p"
  shows "set (concat (map (\<lambda>k. the (sd_get ops (cache self) k)) (sd_after ops p (cache self)))) =
    {e. \<exists>q > p. (e, q) \<in> H}"
proof -
  have sy: "synced ops self" using assms(1) by (simp add: good_def)
  have "set (concat (map (\<lambda>k. the (sd_get ops (cache self) k)) (sd_after ops p (cache self)))) =
      {e. \<exists>q > p. \<exists>s. sd_get ops (cache self) q = Some s \<and> e \<in> set s}"
  proof -
    have "k \<in> set (sd_after ops p (cache self)) \<longleftrightarrow> p < k \<and> (\<exists>s. sd_get ops (cache self) k = Some s)" for k
      using finite_keys[of "cache self"] by (auto simp: after)
    note mem = this
    show ?thesis
    proof (intro set_eqI iffI)
      fix e assume "e \<in> set (concat (map (\<lambda>k. the (sd_get ops (cache self) k)) (sd_after ops p (cache self))))"
      then obtain k where "k \<in> set (sd_after ops p (cache self))" "e \<in> set (the (sd_get ops (cache self) k))"
        by auto
      with mem show "e \<in> {e. \<exists>q > p. \<exists>s. sd_get ops (cache self) q = Some s \<and> e \<in> set s}" by auto
    next
      fix e assume "e \<in> {e. \<exists>q > p. \<exists>s. sd_get ops (cache self) q = Some s \<and> e \<in> set s}"
      then obtain q s where "p < q" "sd_get ops (cache self) q = Some s" "e \<in> set s" by blast
      with mem[of q] show "e \<in> set (concat (map (\<lambda>k. the (sd_get ops (cache self) k)) (sd_after ops p (cache self))))"
        by (auto intro!: bexI[of _ q])
    qed
  qed
  then show ?thesis unfolding changed_after[OF assms] synced_key[OF sy] .
qed

lemma sorted_concat_const:
  assumes "sorted ks" and "\<And>k e. k \<in> set ks \<Longrightarrow> e \<in> set (f k) \<Longrightarrow> g e = (k :: int)"
  shows "sorted (map g (concat (map f ks)))"
  using assms
proof (induction ks)
  case (Cons k ks)
  have "map g (f k) = map (\<lambda>_. k) (f k)" using Cons.prems(2)[of k] by (intro map_cong) auto
  then have "map g (f k) = replicate (length (f k)) k" by (simp add: map_replicate_const)
  moreover have "\<forall>x \<in> set (map g (concat (map f ks))). k \<le> x" using Cons.prems by fastforce
  moreover have "sorted (map g (concat (map f ks)))" using Cons by simp
  ultimately show ?case by (auto simp: sorted_append)
qed simp

text \<open>The entities come in the order of their changes.\<close>

lemma all_after_sorted:
  assumes "synced ops self"
  shows "sorted (map (\<lambda>e. the (dict_get (entity_to_key self) e))
    (concat (map (\<lambda>k. the (sd_get ops (cache self) k)) (sd_after ops p (cache self)))))"
proof (rule sorted_concat_const)
  show "sorted (sd_after ops p (cache self))" by (simp add: after sorted_wrt_filter)
  fix k e assume "k \<in> set (sd_after ops p (cache self))" "e \<in> set (the (sd_get ops (cache self) k))"
  then have "dict_get (entity_to_key self) e = Some k"
    using finite_keys[of "cache self"] by (auto simp: after synced_key[OF assms])
  then show "the (dict_get (entity_to_key self) e) = k" by simp
qed

lemma has_any_entity_changed_iff:
  assumes g: "good ops H self"
  shows "has_any_entity_changed ops p self = Inr (p < earliest_known_stream_pos self \<or> (\<exists>(e, q) \<in> H. p < q))"
proof (cases "p < earliest_known_stream_pos self \<or> sd_len ops (cache self) = 0")
  case True
  have sy: "synced ops self" using g by (simp add: good_def)
  have "\<not> (\<exists>(e, q) \<in> H. p < q)" if "\<not> p < earliest_known_stream_pos self" "dom (sd_get ops (cache self)) = {}"
    using changed_after[OF g, of p] that by (fastforce simp: synced_key[OF sy])
  with True show ?thesis by (auto simp: has_any_entity_changed_def len_0)
next
  case False
  have sy: "synced ops self" using g by (simp add: good_def)
  let ?D = "dom (sd_get ops (cache self))"
  from False have ne: "?D \<noteq> {}" by (simp add: len_0)
  then obtain k v where pk: "sd_peek ops (cache self) = Some (k, v)"
    using peek_None[of "cache self"] by (cases "sd_peek ops (cache self)") auto
  have "p < k \<longleftrightarrow> (\<exists>q \<in> ?D. p < q)"
    using ne finite_keys[of "cache self"] by (simp add: peek_Some[OF pk] Max_gr_iff)
  also have "\<dots> \<longleftrightarrow> (\<exists>e. \<exists>q > p. dict_get (entity_to_key self) e = Some q)"
  proof -
    have "q \<in> ?D \<longleftrightarrow> (\<exists>e. dict_get (entity_to_key self) e = Some q)" for q
      unfolding synced_key[OF sy] using synced_set[OF sy] by (force simp: neq_Nil_conv)
    then show ?thesis by blast
  qed
  also have "\<dots> \<longleftrightarrow> (\<exists>(e, q) \<in> H. p < q)"
    using changed_after[OF g, of p] False by fastforce
  finally show ?thesis using False pk by (simp add: has_any_entity_changed_def)
qed

text \<open>Whichever way the set of changed entities is computed, it is the same.\<close>

lemma get_entities_changed_spec:
  assumes g: "good ops H self"
  shows "\<exists>r. get_entities_changed ops is_set es p perf self = Inr r \<and>
    (if sd_len ops (cache self) = 0 \<or> p < earliest_known_stream_pos self then set r = set es
     else (- 1 \<le> p \<longrightarrow> set r = {e \<in> set es. \<exists>q > p. (e, q) \<in> H}) \<and> {e \<in> set es. \<exists>q > p. (e, q) \<in> H} \<subseteq> set r)"
proof (cases "sd_len ops (cache self) = 0 \<or> p < earliest_known_stream_pos self")
  case True
  then show ?thesis by (simp add: get_entities_changed_def)
next
  case False
  then have p: "earliest_known_stream_pos self \<le> p" by simp
  from False have "dom (sd_get ops (cache self)) \<noteq> {}" by (simp add: len_0)
  then obtain k v where pk: "sd_peek ops (cache self) = Some (k, v)"
    using peek_None[of "cache self"] by (cases "sd_peek ops (cache self)") auto
  have lookup: "dict_get_default (entity_to_key self) e (-1) > p \<longleftrightarrow> p < - 1 \<and> dict_get (entity_to_key self) e = None
      \<or> (\<exists>q > p. (e, q) \<in> H)" for e
    unfolding changed_after[OF g p] by (auto simp: dict_get_default_def split: option.splits)
  from False pk show ?thesis
    by (auto simp: get_entities_changed_def lookup get_all_entities_changed_eq hit_def entities_def
        set_intersection_def set_all_after[OF g p] simp del: set_concat)
qed

end


section \<open>A sorted dictionary\<close>

text \<open>An association list with the operations of a SortedDict.\<close>

definition alist_sorted_dict :: "(int, string list) dict sorted_dict_ops" where
  "alist_sorted_dict =
     \<lparr>sd_new = [], sd_get = dict_get, sd_set = dict_set, sd_del = dict_del,
      sd_len = (\<lambda>d. length (remdups (dict_keys d))),
      sd_peek = (\<lambda>d. if d = [] then None
        else let k = Max (set (dict_keys d)) in Some (k, the (dict_get d k))),
      sd_pop = (\<lambda>d. if d = [] then None
        else let k = Min (set (dict_keys d)) in Some ((k, the (dict_get d k)), dict_del k d)),
      sd_after = (\<lambda>p d. filter (\<lambda>k. p < k) (sort (remdups (dict_keys d))))\<rparr>"

lemma dom_map_of_keys: "dom (dict_get d) = set (dict_keys d)"
  by (simp add: dom_map_of_conv_image_fst)

lemma the_map_of_key: "k \<in> set (dict_keys d) \<Longrightarrow> dict_get d k = Some (the (dict_get d k))"
  by (metis domIff dom_map_of_keys option.collapse)

interpretation alist_sd: sorted_dict alist_sorted_dict
proof unfold_locales
  fix k v k' v' p and d d' :: "(int, string list) dict"
  show "sd_len alist_sorted_dict d = card (dom (sd_get alist_sorted_dict d))"
    by (simp add: alist_sorted_dict_def dom_map_of_keys length_remdups_card_conv)
  show "sd_after alist_sorted_dict p d = filter (\<lambda>k. p < k) (sorted_list_of_set (dom (sd_get alist_sorted_dict d)))"
    by (simp add: alist_sorted_dict_def dom_map_of_keys sorted_list_of_set_sort_remdups del: set_map)
  show "sd_peek alist_sorted_dict d = Some (k, v) \<Longrightarrow>
      k = Max (dom (sd_get alist_sorted_dict d)) \<and> sd_get alist_sorted_dict d k = Some v"
    using the_map_of_key[OF Max_in, of d]
    by (auto simp: alist_sorted_dict_def dom_map_of_keys Let_def simp del: set_map split: if_splits)
  show "sd_pop alist_sorted_dict d = Some ((k, v), d') \<Longrightarrow>
      k = Min (dom (sd_get alist_sorted_dict d)) \<and> sd_get alist_sorted_dict d k = Some v \<and>
      sd_get alist_sorted_dict d' = (sd_get alist_sorted_dict d)(k := None)"
    using the_map_of_key[OF Min_in, of d]
    by (auto simp: alist_sorted_dict_def dom_map_of_keys Let_def alist.get_del simp del: set_map split: if_splits)
qed (auto simp: alist_sorted_dict_def alist.get_put alist.get_del finite_dom_map_of dom_map_of_keys Let_def)


text \<open>A cache with room for one position: the change of \<open>a\<close> is evicted by the one of \<open>b\<close>.\<close>

definition ex_cache :: "(int, string list) dict stream_change_cache" where
  "ex_cache = \<lparr>original_max_size = 1, max_size = 1, cache = [(7, [''b''])], entity_to_key = [(''b'', 7)],
     earliest_known_stream_pos = 5\<rparr>"

lemma ex_cache_history: "history alist_sorted_dict {(''a'', 5), (''b'', 7)} ex_cache"
proof -
  let ?c = "\<lparr>original_max_size = 1, max_size = 1, cache = [(5, [''a''])], entity_to_key = [(''a'', 5)],
     earliest_known_stream_pos = 0\<rparr>"
  have "history alist_sorted_dict {} \<lparr>original_max_size = 1, max_size = 1, cache = [], entity_to_key = [],
     earliest_known_stream_pos = 0\<rparr>"
    by (rule history.start[of 1 _ 0]) (simp_all add: new_stream_change_cache_def alist_sorted_dict_def)
  then have "history alist_sorted_dict {(''a'', 5)} ?c"
    by (rule history.change) code_simp
  then have "history alist_sorted_dict (insert (''b'', 7) {(''a'', 5)}) ex_cache"
    by (rule history.change) code_simp
  then show ?thesis by (simp add: insert_commute)
qed

end
