(* ===== verification/Ratelimiting.thy ===== *)
theory Ratelimiting
  imports Py_Json
begin

text \<open>
  \<open>synapse/api/ratelimiting.py\<close>: the leaky bucket rate limiter and the per-user request limiter
  built on it. A Python float is an exact rational: rounding is not modelled. The time of the
  clock, the overrides of the database and the application services are arguments; the pause of a
  denied request changes no state. An operation that can raise after it has changed the limiter
  returns the new limiter beside its result.
\<close>

section \<open>The limiter\<close>

record ratelimit_settings =
  settings_key :: string
  per_second :: rat
  settings_burst_count :: int

text \<open>The columns of the overrides may be null.\<close>

record ratelimit_override =
  messages_per_second :: "int option"
  override_burst_count :: "int option"

text \<open>What the limiter reads of a requester: the user id, whether the application service is rate
  limited, if there is one, and the authenticated entity.\<close>

record requester =
  user :: string
  app_service_rate_limited :: "bool option"
  authenticated_entity :: string

text \<open>The number of actions since the bucket was last empty, that time, and the leak rate.\<close>

type_synonym bucket = "rat \<times> rat \<times> rat"

record ratelimiter =
  rate_hz :: rat
  burst_count :: int
  limiter_name :: string
  actions :: "(string, bucket) dict"

definition new_ratelimiter :: "ratelimit_settings \<Rightarrow> ratelimiter" where
  "new_ratelimiter cfg =
     \<lparr>rate_hz = per_second cfg, burst_count = settings_burst_count cfg, limiter_name = settings_key cfg, actions = []\<rparr>"

definition get_key :: "requester option \<Rightarrow> string option \<Rightarrow> string py" where
  "get_key req key =
     (case key of
        Some k \<Rightarrow> Inr k
      | None \<Rightarrow> (case req of None \<Rightarrow> Inl ValueError | Some r \<Rightarrow> Inr (user r)))"

definition get_action_counts :: "string \<Rightarrow> rat \<Rightarrow> ratelimiter \<Rightarrow> bucket" where
  "get_action_counts key time_now_s self = dict_get_default (actions self) key (0, time_now_s, 0)"

definition override_disables :: "ratelimit_override option \<Rightarrow> bool" where
  "override_disables override \<longleftrightarrow>
     (case override of None \<Rightarrow> False
      | Some ov \<Rightarrow> messages_per_second ov = None \<or> messages_per_second ov = Some 0)"

text \<open>The requesters that no limit applies to.\<close>

definition exempt :: "(string \<Rightarrow> ratelimit_override option) \<Rightarrow> requester option \<Rightarrow> bool" where
  "exempt get_ratelimit_for_user req \<longleftrightarrow>
     (case req of None \<Rightarrow> False
      | Some r \<Rightarrow> app_service_rate_limited r = Some False \<or>
          override_disables (get_ratelimit_for_user (authenticated_entity r)))"

definition can_do_action ::
    "(string \<Rightarrow> ratelimit_override option) \<Rightarrow> requester option \<Rightarrow> string option \<Rightarrow> rat option \<Rightarrow> int option \<Rightarrow>
      bool \<Rightarrow> int \<Rightarrow> rat \<Rightarrow> ratelimiter \<Rightarrow> ((bool \<times> rat) \<times> ratelimiter) py" where
  "can_do_action get_ratelimit_for_user req key rate_hz0 burst_count0 update n_actions time_now_s self =
     py_bind (get_key req key) (\<lambda>key.
     if exempt get_ratelimit_for_user req then Inr ((True, -1), self)
     else
     let rate = (case rate_hz0 of None \<Rightarrow> rate_hz self | Some r \<Rightarrow> r);
         burst = (case burst_count0 of None \<Rightarrow> burst_count self | Some b \<Rightarrow> b);
         (action_count, time_start, _) = get_action_counts key time_now_s self;
         time_delta = time_now_s - time_start;
         performed_count = action_count - time_delta * rate;
         (performed_count, action_count, time_start) =
           (if performed_count < 0 then (0, 0, time_now_s) else (performed_count, action_count, time_start));
         (allowed, action_count) =
           (if performed_count > of_int (burst - n_actions) then (False, action_count)
            else (True, action_count + of_int n_actions));
         self = (if update then self\<lparr>actions := dict_set key (action_count, time_start, rate) (actions self)\<rparr> else self);
         time_allowed =
           (if rate > 0
            then max (time_start + (action_count - of_int burst + 1) / rate) time_now_s
            else -1)
     in Inr ((allowed, time_allowed), self))"

definition record_action ::
    "requester option \<Rightarrow> string option \<Rightarrow> int \<Rightarrow> rat \<Rightarrow> ratelimiter \<Rightarrow> ratelimiter py" where
  "record_action req key n_actions time_now_s self =
     py_bind (get_key req key) (\<lambda>key.
     let (action_count, time_start, rate) = get_action_counts key time_now_s self
     in Inr (self\<lparr>actions := dict_set key (action_count + of_int n_actions, time_start, rate) (actions self)\<rparr>))"

definition prune_message_count :: "rat \<Rightarrow> string \<Rightarrow> (string, bucket) dict \<Rightarrow> (string, bucket) dict py" where
  "prune_message_count time_now_s key acts =
     py_bind (dict_getitem acts key) (\<lambda>(action_count, time_start, rate).
     let time_delta = time_now_s - time_start
     in Inr (if action_count - time_delta * rate > 0 then acts else dict_del key acts))"

definition prune_message_counts :: "rat \<Rightarrow> ratelimiter \<Rightarrow> ratelimiter py" where
  "prune_message_counts time_now_s self =
     py_bind (py_for (prune_message_count time_now_s) (dict_keys (actions self)) (actions self)) (\<lambda>acts.
     Inr (self\<lparr>actions := acts\<rparr>))"

definition ratelimit ::
    "(string \<Rightarrow> ratelimit_override option) \<Rightarrow> requester option \<Rightarrow> string option \<Rightarrow> rat option \<Rightarrow> int option \<Rightarrow>
      bool \<Rightarrow> int \<Rightarrow> rat \<Rightarrow> ratelimiter \<Rightarrow> unit py \<times> ratelimiter" where
  "ratelimit get_ratelimit_for_user req key rate_hz0 burst_count0 update n_actions time_now_s self =
     (case can_do_action get_ratelimit_for_user req key rate_hz0 burst_count0 update n_actions time_now_s self of
        Inl err \<Rightarrow> (Inl err, self)
      | Inr ((allowed, time_allowed), self') \<Rightarrow>
          (if allowed then Inr () else Inl (LimitExceededError (truncate_rat (1000 * (time_allowed - time_now_s)))), self'))"

section \<open>The limiter of requests\<close>

record request_ratelimiter =
  request_limiter :: ratelimiter
  rc_message :: ratelimit_settings
  admin_redaction_limiter :: "ratelimiter option"

definition new_request_ratelimiter ::
    "ratelimit_settings \<Rightarrow> ratelimit_settings option \<Rightarrow> request_ratelimiter" where
  "new_request_ratelimiter rc_msg rc_admin_redaction =
     \<lparr>request_limiter = new_ratelimiter
        \<lparr>settings_key = settings_key rc_msg, per_second = 0, settings_burst_count = 0\<rparr>,
      rc_message = rc_msg,
      admin_redaction_limiter = map_option new_ratelimiter rc_admin_redaction\<rparr>"

text \<open>\<open>get_app_service\<close> tells whether the user is the sender of an application service.\<close>

definition request_ratelimit ::
    "(string \<Rightarrow> bool) \<Rightarrow> (string \<Rightarrow> ratelimit_override option) \<Rightarrow> requester \<Rightarrow> bool \<Rightarrow> bool \<Rightarrow> int \<Rightarrow> rat \<Rightarrow>
      request_ratelimiter \<Rightarrow> unit py \<times> request_ratelimiter" where
  "request_ratelimit get_app_service get_ratelimit_for_user req update is_admin_redaction n_actions time_now_s self =
     (let user_id = user req; override = get_ratelimit_for_user user_id
      in if get_app_service user_id \<or> override_disables override then (Inr (), self)
         else
         let (rate, burst) =
           (case override of
              None \<Rightarrow> (Some (per_second (rc_message self)), Some (settings_burst_count (rc_message self)))
            | Some ov \<Rightarrow> (map_option of_int (messages_per_second ov), override_burst_count ov))
         in case (is_admin_redaction, admin_redaction_limiter self) of
              (True, Some limiter) \<Rightarrow>
                (let (r, limiter') = ratelimit get_ratelimit_for_user (Some req) None None None update n_actions time_now_s limiter
                 in (r, self\<lparr>admin_redaction_limiter := Some limiter'\<rparr>))
            | _ \<Rightarrow>
                (let (r, limiter') = ratelimit get_ratelimit_for_user (Some req) None rate burst update n_actions time_now_s
                       (request_limiter self)
                 in (r, self\<lparr>request_limiter := limiter'\<rparr>)))"


section \<open>The bucket of a key\<close>

text \<open>The start and the cnt of the bucket at a given time (an empty bucket starts anew), and how
  full it is.\<close>

definition bucket_at :: "rat \<Rightarrow> rat \<Rightarrow> string \<Rightarrow> ratelimiter \<Rightarrow> rat \<times> rat" where
  "bucket_at rate t key self =
     (case get_action_counts key t self of (cnt, start, _) \<Rightarrow>
        if cnt - (t - start) * rate < 0 then (0, t) else (cnt, start))"

definition level :: "rat \<Rightarrow> rat \<Rightarrow> string \<Rightarrow> ratelimiter \<Rightarrow> rat" where
  "level rate t key self =
     (case dict_get (actions self) key of None \<Rightarrow> 0
      | Some (cnt, start, _) \<Rightarrow> max 0 (cnt - (t - start) * rate))"

lemma bucket_at_level: "bucket_at rate t key self = (cnt, start) \<Longrightarrow> level rate t key self = cnt - (t - start) * rate"
  by (auto simp: bucket_at_def level_def get_action_counts_def dict_get_default_def split: option.splits if_splits prod.splits)

lemma level_nonneg [simp]: "0 \<le> level rate t key self"
  by (auto simp: level_def split: option.splits)

lemma level_other: "dict_get (actions self') key = dict_get (actions self) key \<Longrightarrow> level rate t key self' = level rate t key self"
  by (simp add: level_def)

text \<open>The bucket leaks at the rate.\<close>

lemma level_leaks:
  assumes "t \<le> t'" and "0 \<le> rate"
  shows "level rate t key self \<le> level rate t' key self + rate * (t' - t)"
proof -
  have pos: "0 \<le> rate * (t' - t)" using assms by simp
  have "max 0 (c - (t - s) * rate) \<le> max 0 (c - (t' - s) * rate) + rate * (t' - t)" for c s
  proof -
    have "c - (t - s) * rate = c - (t' - s) * rate + rate * (t' - t)" by (simp add: algebra_simps)
    with pos show ?thesis by linarith
  qed
  with pos show ?thesis by (auto simp: level_def split: option.splits)
qed

text \<open>The whole of \<open>can_do_action\<close>: an action is allowed when the bucket has room for it.\<close>

lemma can_do_action_eq:
  assumes "get_key req key = Inr k" and "\<not> exempt g req"
    and "rate = (case rate0 of None \<Rightarrow> rate_hz self | Some r \<Rightarrow> r)"
    and "burst = (case burst0 of None \<Rightarrow> burst_count self | Some b \<Rightarrow> b)"
    and "bucket_at rate t k self = (cnt, start)"
    and "allowed \<longleftrightarrow> level rate t k self \<le> of_int (burst - n)"
    and "cnt' = (if allowed then cnt + of_int n else cnt)"
  shows "can_do_action g req key rate0 burst0 update n t self =
    Inr ((allowed, if rate > 0 then max (start + (cnt' - of_int burst + 1) / rate) t else -1),
      if update then self\<lparr>actions := dict_set k (cnt', start, rate) (actions self)\<rparr> else self)"
proof -
  obtain c s r where b: "get_action_counts k t self = (c, s, r)" by (cases "get_action_counts k t self")
  from bucket_at_level[OF assms(5)] have l: "level rate t k self = cnt - (t - start) * rate" .
  show ?thesis
  proof (cases "c - (t - s) * rate < 0")
    case True
    with assms(5) b have "cnt = 0" "start = t" by (auto simp: bucket_at_def)
    with True b l assms(1-4,6,7) show ?thesis by (auto simp: can_do_action_def Let_def)
  next
    case False
    with assms(5) b have "cnt = c" "start = s" by (auto simp: bucket_at_def)
    with False b l assms(1-4,6,7) show ?thesis by (auto simp: can_do_action_def Let_def)
  qed
qed

lemma can_do_action_level:
  assumes "can_do_action g req key rate0 burst0 update n t self = Inr ((allowed, time_allowed), self')"
    and "get_key req key = Inr k" and "\<not> exempt g req" and "0 \<le> n"
    and rate: "rate = (case rate0 of None \<Rightarrow> rate_hz self | Some r \<Rightarrow> r)"
    and burst: "burst = (case burst0 of None \<Rightarrow> burst_count self | Some b \<Rightarrow> b)"
  shows "allowed \<longleftrightarrow> level rate t k self + of_int n \<le> of_int burst"
    and "level rate t k self' = level rate t k self + (if allowed \<and> update then of_int n else 0)"
    and "k' \<noteq> k \<Longrightarrow> dict_get (actions self') k' = dict_get (actions self) k'"
    and "rate_hz self' = rate_hz self" and "burst_count self' = burst_count self"
proof -
  obtain cnt start where b: "bucket_at rate t k self = (cnt, start)" by force
  note l = bucket_at_level[OF b]
  have l0: "0 \<le> cnt - (t - start) * rate" using level_nonneg[of rate t k self] by (simp only: l)
  note eq = can_do_action_eq[OF assms(2,3) rate burst b refl refl, of update n]
  have al: "allowed \<longleftrightarrow> level rate t k self \<le> of_int (burst - n)" using eq assms(1) by simp
  then show "allowed \<longleftrightarrow> level rate t k self + of_int n \<le> of_int burst" by auto
  have self': "self' = (if update then self\<lparr>actions := dict_set k ((if allowed then cnt + of_int n else cnt), start, rate) (actions self)\<rparr> else self)"
    using eq assms(1) al by simp
  show "level rate t k self' = level rate t k self + (if allowed \<and> update then of_int n else 0)"
    using l0 assms(4) by (auto simp: self' l) (simp_all add: level_def alist.get_put_same)
  show "k' \<noteq> k \<Longrightarrow> dict_get (actions self') k' = dict_get (actions self) k'"
    and "rate_hz self' = rate_hz self" and "burst_count self' = burst_count self"
    by (simp_all add: self' alist.get_put_other)
qed

lemma can_do_action_exempt:
  assumes "can_do_action g req key rate0 burst0 update n t self = Inr ((allowed, time_allowed), self')"
    and "exempt g req"
  shows "self' = self" and "allowed"
  using assms by (auto simp: can_do_action_def py_bind_Inr_iff)

lemma record_action_level:
  assumes "record_action req key n t self = Inr self'" and "get_key req key = Inr k" and "0 \<le> n"
  shows "level rate t k self \<le> level rate t k self'"
    and "k' \<noteq> k \<Longrightarrow> dict_get (actions self') k' = dict_get (actions self) k'"
    and "rate_hz self' = rate_hz self" and "burst_count self' = burst_count self"
proof -
  obtain c s r where b: "get_action_counts k t self = (c, s, r)" by (cases "get_action_counts k t self")
  have self': "self' = self\<lparr>actions := dict_set k (c + of_int n, s, r) (actions self)\<rparr>"
    using assms(1,2) b by (simp add: record_action_def)
  have "level rate t k self = max 0 (c - (t - s) * rate)"
    using b by (auto simp: level_def get_action_counts_def dict_get_default_def split: option.splits)
  then show "level rate t k self \<le> level rate t k self'"
    using assms(3) by (simp add: self' level_def alist.get_put_same)
  show "k' \<noteq> k \<Longrightarrow> dict_get (actions self') k' = dict_get (actions self) k'"
    and "rate_hz self' = rate_hz self" and "burst_count self' = burst_count self"
    by (simp_all add: self' alist.get_put_other)
qed


section \<open>Pruning\<close>

definition expired :: "rat \<Rightarrow> bucket \<Rightarrow> bool" where
  "expired t b \<longleftrightarrow> (case b of (cnt, start, rate) \<Rightarrow> cnt - (t - start) * rate \<le> 0)"

lemma prune_message_count_eq:
  "dict_get acts k = Some b \<Longrightarrow>
    prune_message_count t k acts = Inr (if expired t b then dict_del k acts else acts)"
  by (cases b) (auto simp: prune_message_count_def dict_getitem_def expired_def)

lemma prune_loop:
  assumes "distinct ks" and "\<And>k. k \<in> set ks \<Longrightarrow> dict_get acts k \<noteq> None"
  shows "\<exists>acts'. py_for (prune_message_count t) ks acts = Inr acts' \<and> (wf_dict acts \<longrightarrow> wf_dict acts') \<and>
    (\<forall>k. dict_get acts' k = (case dict_get acts k of None \<Rightarrow> None
       | Some b \<Rightarrow> if k \<in> set ks \<and> expired t b then None else Some b))"
  using assms
proof (induction ks arbitrary: acts)
  case Nil
  then show ?case by (simp split: option.splits)
next
  case (Cons x ks)
  from Cons.prems(2)[of x] obtain b where b: "dict_get acts x = Some b" by auto
  let ?acts = "if expired t b then dict_del x acts else acts"
  have "dict_get ?acts k \<noteq> None" if "k \<in> set ks" for k
    using Cons.prems that by (auto simp: alist.get_del)
  with Cons.IH[of ?acts] Cons.prems(1) obtain acts' where acts':
    "py_for (prune_message_count t) ks ?acts = Inr acts'" "wf_dict ?acts \<longrightarrow> wf_dict acts'"
    "\<forall>k. dict_get acts' k = (case dict_get ?acts k of None \<Rightarrow> None
       | Some b \<Rightarrow> if k \<in> set ks \<and> expired t b then None else Some b)" by auto
  have "py_for (prune_message_count t) (x # ks) acts = Inr acts'"
    using acts'(1) by (simp add: prune_message_count_eq[OF b])
  moreover have "wf_dict acts \<longrightarrow> wf_dict acts'" using acts'(2) by (auto simp: alist.wf_del)
  moreover have "dict_get acts' k = (case dict_get acts k of None \<Rightarrow> None
       | Some b \<Rightarrow> if k \<in> set (x # ks) \<and> expired t b then None else Some b)" for k
    using acts'(3) b Cons.prems(1) by (cases "k = x") (auto simp: alist.get_del split: option.splits)
  ultimately show ?case by blast
qed

lemma prune_message_counts_spec:
  assumes "wf_dict (actions self)"
  shows "\<exists>acts. prune_message_counts t self = Inr (self\<lparr>actions := acts\<rparr>) \<and> wf_dict acts \<and>
    (\<forall>k. dict_get acts k = (case dict_get (actions self) k of None \<Rightarrow> None
       | Some b \<Rightarrow> if expired t b then None else Some b))"
proof -
  have "distinct (dict_keys (actions self))" using assms by (simp add: wf_dict_def)
  moreover have "dict_get (actions self) k \<noteq> None" if "k \<in> set (dict_keys (actions self))" for k
    using that by (simp add: map_of_eq_None_iff)
  ultimately obtain acts where acts:
    "py_for (prune_message_count t) (dict_keys (actions self)) (actions self) = Inr acts" "wf_dict acts"
    "\<forall>k. dict_get acts k = (case dict_get (actions self) k of None \<Rightarrow> None
       | Some b \<Rightarrow> if k \<in> set (dict_keys (actions self)) \<and> expired t b then None else Some b)"
    using prune_loop assms by blast
  have "k \<in> set (dict_keys (actions self))" if "dict_get (actions self) k = Some b" for k b
    using map_of_SomeD[OF that] by force
  with acts show ?thesis by (intro exI[of _ acts]) (auto simp: prune_message_counts_def split: option.splits)
qed

text \<open>The buckets the limiter makes: the start is in the past, and the stored rate is the one of the
  limiter, or 0 when only \<open>record_action\<close> made it.\<close>

definition bucket_ok :: "rat \<Rightarrow> rat \<Rightarrow> string \<Rightarrow> ratelimiter \<Rightarrow> bool" where
  "bucket_ok rate now key self \<longleftrightarrow>
     (\<forall>cnt start r. dict_get (actions self) key = Some (cnt, start, r) \<longrightarrow> start \<le> now \<and> (r = rate \<or> r = 0))"

lemma bucket_ok_later: "bucket_ok rate now key self \<Longrightarrow> now \<le> t \<Longrightarrow> bucket_ok rate t key self"
  unfolding bucket_ok_def by (meson order_trans)

text \<open>Only empty buckets are pruned.\<close>

lemma prune_level:
  assumes "prune_message_counts t self = Inr self'" and "wf_dict (actions self)"
    and "bucket_ok rate t key self" and "0 \<le> rate"
  shows "level rate t key self' = level rate t key self" and "bucket_ok rate t key self'"
    and "wf_dict (actions self')" and "rate_hz self' = rate_hz self" and "burst_count self' = burst_count self"
proof -
  from prune_message_counts_spec[OF assms(2), of t] assms(1) obtain acts where
    self': "self' = self\<lparr>actions := acts\<rparr>" and wf: "wf_dict acts"
    and get: "dict_get acts key = (case dict_get (actions self) key of None \<Rightarrow> None
       | Some b \<Rightarrow> if expired t b then None else Some b)" by auto
  show "wf_dict (actions self')" "rate_hz self' = rate_hz self" "burst_count self' = burst_count self"
    using wf by (simp_all add: self')
  show "bucket_ok rate t key self'"
    using assms(3) get by (auto simp: self' bucket_ok_def split: option.splits if_splits)
  have "cnt - (t - start) * rate \<le> 0"
    if b: "dict_get (actions self) key = Some (cnt, start, r)" and e: "expired t (cnt, start, r)" for cnt start r
  proof -
    from assms(3) b have "start \<le> t" "r = rate \<or> r = 0" by (auto simp: bucket_ok_def)
    moreover from \<open>start \<le> t\<close> assms(4) have "0 \<le> (t - start) * rate" by simp
    ultimately show ?thesis using e by (auto simp: expired_def)
  qed
  then show "level rate t key self' = level rate t key self"
    using get by (auto simp: self' level_def split: option.splits)
qed


section \<open>The rate\<close>

lemma bucket_ok_act:
  assumes "can_do_action g req key rate0 burst0 update n t self = Inr ((allowed, time_allowed), self')"
    and "bucket_ok rate t k self"
    and "get_key req key = Inr k \<Longrightarrow> \<not> exempt g req \<Longrightarrow> rate = (case rate0 of None \<Rightarrow> rate_hz self | Some r \<Rightarrow> r)"
    and "wf_dict (actions self)"
  shows "bucket_ok rate t k self' \<and> wf_dict (actions self')"
proof (cases "exempt g req")
  case True
  with can_do_action_exempt[OF assms(1)] assms(2,4) show ?thesis by simp
next
  case False
  from assms(1) obtain k' where k': "get_key req key = Inr k'" by (auto simp: can_do_action_def py_bind_Inr_iff)
  let ?r = "case rate0 of None \<Rightarrow> rate_hz self | Some r \<Rightarrow> r"
  obtain cnt start where b: "bucket_at ?r t k' self = (cnt, start)" by force
  note eq = can_do_action_eq[OF k' False refl refl b refl refl, of burst0 update n]
  have wf: "wf_dict (actions self')" using eq assms(1,4) by (auto simp: alist.wf_put)
  show ?thesis
  proof (cases "k' = k \<and> update")
    case True
    then have "start \<le> t"
      using b assms(2) by (auto simp: bucket_at_def get_action_counts_def dict_get_default_def bucket_ok_def
          split: option.splits if_splits)
    with True wf eq assms(1) assms(3) k' \<open>\<not> exempt g req\<close> show ?thesis
      by (auto simp: bucket_ok_def alist.get_put_same)
  next
    case False
    then have "dict_get (actions self') k = dict_get (actions self) k"
      using eq assms(1) by (auto simp: alist.get_put split: if_splits)
    with wf assms(2) show ?thesis by (simp add: bucket_ok_def)
  qed
qed

lemma bucket_ok_record:
  assumes "record_action req key n t self = Inr self'" and "bucket_ok rate t k self" and "wf_dict (actions self)"
  shows "bucket_ok rate t k self' \<and> wf_dict (actions self')"
proof -
  from assms(1) obtain k' where k': "get_key req key = Inr k'" by (auto simp: record_action_def py_bind_Inr_iff)
  obtain c s r where b: "get_action_counts k' t self = (c, s, r)" by (cases "get_action_counts k' t self")
  have "self' = self\<lparr>actions := dict_set k' (c + of_int n, s, r) (actions self)\<rparr>"
    using assms(1) k' b by (simp add: record_action_def)
  with assms(2,3) b show ?thesis
    by (auto simp: bucket_ok_def alist.get_put alist.wf_put get_action_counts_def dict_get_default_def
        split: option.splits if_splits)
qed

text \<open>
  What happens to a limiter from the time \<open>t0\<close> to the time \<open>now\<close>: checks and recorded actions of
  any requester under any key, in the order of their times, and prunings. \<open>done_count\<close> is the number of actions allowed and
  counted under the key \<open>k\<close>, for which the limits of the limiter are not overridden.
\<close>

inductive limiter_run ::
    "(string \<Rightarrow> ratelimit_override option) \<Rightarrow> string \<Rightarrow> rat \<Rightarrow> ratelimiter \<Rightarrow> rat \<Rightarrow> int \<Rightarrow> ratelimiter \<Rightarrow> bool"
  for g k t0 self0 where
  start: "limiter_run g k t0 self0 t0 0 self0"
| act: "limiter_run g k t0 self0 now done_count self \<Longrightarrow> now \<le> t \<Longrightarrow> 0 \<le> n \<Longrightarrow>
    can_do_action g req key rate0 burst0 update n t self = Inr ((allowed, time_allowed), self') \<Longrightarrow>
    (get_key req key = Inr k \<and> \<not> exempt g req \<longrightarrow> rate0 = None \<and> burst0 = None) \<Longrightarrow>
    limiter_run g k t0 self0 t
      (done_count + (if get_key req key = Inr k \<and> \<not> exempt g req \<and> update \<and> allowed then n else 0)) self'"
| recorded: "limiter_run g k t0 self0 now done_count self \<Longrightarrow> now \<le> t \<Longrightarrow> 0 \<le> n \<Longrightarrow>
    record_action req key n t self = Inr self' \<Longrightarrow> limiter_run g k t0 self0 t done_count self'"
| prune: "limiter_run g k t0 self0 now done_count self \<Longrightarrow> now \<le> t \<Longrightarrow>
    prune_message_counts t self = Inr self' \<Longrightarrow> limiter_run g k t0 self0 t done_count self'"

text \<open>The actions counted so far are in the bucket or have leaked.\<close>

definition run_inv :: "rat \<Rightarrow> int \<Rightarrow> string \<Rightarrow> rat \<Rightarrow> rat \<Rightarrow> int \<Rightarrow> ratelimiter \<Rightarrow> bool" where
  "run_inv rate burst k t0 now done_count self \<longleftrightarrow>
     rate_hz self = rate \<and> burst_count self = burst \<and> wf_dict (actions self) \<and> bucket_ok rate now k self \<and>
     of_int done_count \<le> level rate now k self + rate * (now - t0) \<and>
     of_int done_count \<le> of_int burst + rate * (now - t0)"

lemma run_inv_later:
  assumes "run_inv rate burst k t0 now done_count self" and "now \<le> t" and "0 \<le> rate"
  shows "run_inv rate burst k t0 t done_count self"
proof -
  have "0 \<le> rate * (t - now)" using assms(2,3) by simp
  moreover have "rate * (t - t0) = rate * (now - t0) + rate * (t - now)" by (simp add: algebra_simps)
  ultimately show ?thesis
    using assms(1) level_leaks[OF assms(2,3), of k self] bucket_ok_later[OF _ assms(2)] unfolding run_inv_def
    by (intro conjI) (simp, simp, simp, blast, linarith, linarith)
qed

lemma run_inv_act:
  assumes inv: "run_inv rate burst k t0 t done_count self" and "0 \<le> n"
    and act: "can_do_action g req key rate0 burst0 update n t self = Inr ((allowed, time_allowed), self')"
    and lim: "get_key req key = Inr k \<and> \<not> exempt g req \<longrightarrow> rate0 = None \<and> burst0 = None"
  shows "run_inv rate burst k t0 t
      (done_count + (if get_key req key = Inr k \<and> \<not> exempt g req \<and> update \<and> allowed then n else 0)) self'"
proof (cases "exempt g req")
  case True
  with can_do_action_exempt[OF act] inv show ?thesis by simp
next
  case False
  from act obtain k' where k': "get_key req key = Inr k'" by (auto simp: can_do_action_def py_bind_Inr_iff)
  note l = can_do_action_level[OF act k' False assms(2) refl refl]
  have b: "bucket_ok rate t k self' \<and> wf_dict (actions self')"
    using bucket_ok_act[OF act] inv lim by (auto simp: run_inv_def)
  show ?thesis
  proof (cases "k' = k")
    case True
    with l lim k' False inv b show ?thesis by (auto simp: run_inv_def)
  next
    case neq: False
    with l(3)[of k] have "level rate t k self' = level rate t k self" by (intro level_other) auto
    with l(4,5) neq inv b k' show ?thesis by (simp add: run_inv_def)
  qed
qed

lemma limiter_run_inv:
  assumes "limiter_run g k t0 self0 now done_count self"
    and "wf_dict (actions self0)" and "bucket_ok (rate_hz self0) t0 k self0"
    and "0 \<le> rate_hz self0" and "0 \<le> burst_count self0"
  shows "run_inv (rate_hz self0) (burst_count self0) k t0 now done_count self"
  using assms(1)
proof (induction rule: limiter_run.induct)
  case start
  then show ?case using assms(2-5) by (simp add: run_inv_def)
next
  case (act now done_count self t n req key rate0 burst0 update allowed time_allowed self')
  from run_inv_act[OF run_inv_later[OF act.IH act.hyps(2) assms(4)] act.hyps(3-5)] show ?case .
next
  case (recorded now done_count self t n req key self')
  note inv = run_inv_later[OF recorded.IH recorded.hyps(2) assms(4)]
  from recorded.hyps(4) obtain k' where k': "get_key req key = Inr k'" by (auto simp: record_action_def py_bind_Inr_iff)
  note l = record_action_level[OF recorded.hyps(4) k' recorded.hyps(3)]
  have b: "bucket_ok (rate_hz self0) t k self' \<and> wf_dict (actions self')"
    using bucket_ok_record[OF recorded.hyps(4)] inv by (auto simp: run_inv_def)
  have "level (rate_hz self0) t k self \<le> level (rate_hz self0) t k self'"
    using l(1,2) level_other[of self' k self] by (cases "k' = k") auto
  with inv l(3,4) b show ?case by (auto simp: run_inv_def)
next
  case (prune now done_count self t self')
  note inv = run_inv_later[OF prune.IH prune.hyps(2) assms(4)]
  with prune_level[OF prune.hyps(3) _ _ assms(4), of k] show ?case by (auto simp: run_inv_def)
qed

section \<open>The time of the next attempt\<close>

lemma denied_until:
  assumes "can_do_action g req key rate0 burst0 update n t self = Inr ((False, time_allowed), self')"
    and k: "get_key req key = Inr k" "\<not> exempt g req"
    and rate: "rate = (case rate0 of None \<Rightarrow> rate_hz self | Some r \<Rightarrow> r)" "0 < rate"
    and burst: "burst = (case burst0 of None \<Rightarrow> burst_count self | Some b \<Rightarrow> b)" "1 \<le> burst"
    and "t \<le> t'"
  shows "level rate t' k self' \<le> of_int (burst - 1) \<longleftrightarrow> time_allowed \<le> t'"
    and "rate_hz self' = rate_hz self" and "burst_count self' = burst_count self"
proof -
  obtain cnt start where b: "bucket_at rate t k self = (cnt, start)" by force
  note eq = can_do_action_eq[OF k rate(1) burst(1) b refl refl, of update n]
  have ta: "time_allowed = max (start + (cnt - of_int burst + 1) / rate) t"
    using eq assms(1) rate(2) by (auto split: if_splits)
  have "cnt - (t' - start) * rate \<le> of_int (burst - 1) \<longleftrightarrow> start + (cnt - of_int burst + 1) / rate \<le> t'"
    using rate(2) by (simp add: field_simps)
  moreover have "level rate t' k self = max 0 (cnt - (t' - start) * rate)"
  proof -
    have pos: "0 \<le> (t' - t) * rate" using rate(2) assms(8) by simp
    have "max 0 (c - (t' - s) * rate) = max 0 (0 - (t' - t) * rate)" if "c - (t - s) * rate < 0" for c s
    proof -
      have "c - (t' - s) * rate = (c - (t - s) * rate) - (t' - t) * rate" by (simp add: algebra_simps)
      with pos that show ?thesis by linarith
    qed
    with b pos show ?thesis
      by (auto simp: bucket_at_def level_def get_action_counts_def dict_get_default_def
          split: option.splits if_splits)
  qed
  moreover have "level rate t' k self' = max 0 (cnt - (t' - start) * rate)"
    using calculation(2) eq assms(1) by (cases update) (auto simp: level_def alist.get_put_same split: if_splits)
  ultimately show "level rate t' k self' \<le> of_int (burst - 1) \<longleftrightarrow> time_allowed \<le> t'"
    using ta assms(8) burst(2) by auto
  show "rate_hz self' = rate_hz self" "burst_count self' = burst_count self"
    using eq assms(1) by auto
qed

text \<open>A limiter of one action every two seconds and bursts of two.\<close>

definition ex_limiter :: ratelimiter where
  "ex_limiter = new_ratelimiter \<lparr>settings_key = ''rc'', per_second = 1 / 2, settings_burst_count = 2\<rparr>"

definition ex_limiter2 :: ratelimiter where
  "ex_limiter2 = ex_limiter\<lparr>actions := [(''u'', (2, 10, 1 / 2))]\<rparr>"

lemma ex_limiter_run: "limiter_run (\<lambda>_. None) ''u'' 10 ex_limiter 11 2 ex_limiter2"
proof -
  have "can_do_action (\<lambda>_. None) None (Some ''u'') None None True 2 10 ex_limiter = Inr ((True, 12), ex_limiter2)"
    by code_simp
  from limiter_run.act[OF limiter_run.start[of _ "''u''" 10] _ _ this] have "limiter_run (\<lambda>_. None) ''u'' 10 ex_limiter 10 2 ex_limiter2"
    by (simp add: get_key_def exempt_def)
  moreover have "can_do_action (\<lambda>_. None) None (Some ''u'') None None True 1 11 ex_limiter2 = Inr ((False, 12), ex_limiter2)"
    by code_simp
  ultimately show ?thesis using limiter_run.act[of _ _ _ _ 10 2 ex_limiter2 11 1] by force
qed

end
