(* ===== verification/Stream_Tokens.thy ===== *)
theory Stream_Tokens
  imports Py_Strings
begin

text \<open>
  The stream tokens of \<open>synapse/types/__init__.py\<close>: positions in streams with several writers, the
  room and sync tokens built from them, their order and their textual form. The database's table
  of writer instances is an argument. A constructor that validates its arguments returns a \<open>py\<close>
  result, and every exception that \<open>parse\<close> and \<open>from_string\<close> catch becomes their SynapseError.
\<close>

section \<open>Tokens with several writers\<close>

record multi_writer_token =
  stream :: int
  instance_map :: "(string, int) dict"

record room_stream_token = multi_writer_token +
  topological :: "int option"

text \<open>\<open>__attrs_post_init__\<close>: the map holds only writers that are ahead; a token with a (non-zero)
  topological part has no map.\<close>

definition post_init :: "'a multi_writer_token_scheme \<Rightarrow> 'a multi_writer_token_scheme py" where
  "post_init self =
     (if (\<exists>(i, v) \<in> set (instance_map self). v \<le> stream self) then Inl ValueError else Inr self)"

definition room_post_init :: "room_stream_token \<Rightarrow> room_stream_token py" where
  "room_post_init self =
     (if instance_map self \<noteq> [] \<and> topological self \<noteq> None \<and> topological self \<noteq> Some 0 then Inl ValueError
      else post_init self)"

text \<open>The stream and the map of \<open>copy_and_advance\<close>.\<close>

definition advanced_map ::
    "'a multi_writer_token_scheme \<Rightarrow> 'b multi_writer_token_scheme \<Rightarrow> int \<times> (string, int) dict" where
  "advanced_map self other =
     (let max_stream = max (stream self) (stream other);
          m = map (\<lambda>inst. (inst, max (dict_get_default (instance_map self) inst (stream self))
                (dict_get_default (instance_map other) inst (stream other))))
              (remdups (dict_keys (instance_map self) @ dict_keys (instance_map other)))
      in (max_stream, filter (\<lambda>(i, s). s > max_stream) m))"

definition copy_and_advance :: "multi_writer_token \<Rightarrow> multi_writer_token \<Rightarrow> multi_writer_token py" where
  "copy_and_advance self other =
     (let (max_stream, m) = advanced_map self other in post_init (self\<lparr>stream := max_stream, instance_map := m\<rparr>))"

definition get_max_stream_pos :: "'a multi_writer_token_scheme \<Rightarrow> int" where
  "get_max_stream_pos self =
     (if instance_map self = [] then stream self else Max (set (map snd (instance_map self))))"

definition get_stream_pos_for_instance :: "'a multi_writer_token_scheme \<Rightarrow> string \<Rightarrow> int" where
  "get_stream_pos_for_instance self instance_name = dict_get_default (instance_map self) instance_name (stream self)"

definition is_before_or_eq :: "'a multi_writer_token_scheme \<Rightarrow> 'b multi_writer_token_scheme \<Rightarrow> bool" where
  "is_before_or_eq self other_token \<longleftrightarrow>
     \<not> stream self > stream other_token \<and>
     (\<forall>inst \<in> set (dict_keys (instance_map self)) \<union> set (dict_keys (instance_map other_token)).
        \<not> dict_get_default (instance_map self) inst (stream self)
          > dict_get_default (instance_map other_token) inst (stream other_token))"

definition bounded_map :: "'a multi_writer_token_scheme \<Rightarrow> int \<Rightarrow> int \<times> (string, int) dict" where
  "bounded_map self max_stream =
     (let min_pos = min (stream self) max_stream
      in (min_pos, map (\<lambda>(k, s). (k, min s max_stream)) (filter (\<lambda>(k, s). min s max_stream > min_pos) (instance_map self))))"

definition bound_stream_token :: "multi_writer_token \<Rightarrow> int \<Rightarrow> multi_writer_token py" where
  "bound_stream_token self max_stream =
     (let (min_pos, m) = bounded_map self max_stream in post_init \<lparr>stream = min_pos, instance_map = m\<rparr>)"

section \<open>The textual form\<close>

text \<open>The table of instances: \<open>get_id_for_instance\<close> and \<open>get_name_from_instance_id\<close>.\<close>

record instance_store =
  get_id_for_instance :: "string \<Rightarrow> int py"
  get_name_from_instance_id :: "int \<Rightarrow> string py"

text \<open>The part \<open>min_pos~writer.pos~...\<close> of a token.\<close>

definition parse_instance :: "instance_store \<Rightarrow> string \<Rightarrow> (string, int) dict \<Rightarrow> (string, int) dict py" where
  "parse_instance store part m =
     (if part = [] then Inr m
      else case split_on CHR ''.'' part of
             [key, val] \<Rightarrow>
               py_bind (int_str key) (\<lambda>instance_id.
               py_bind (int_str val) (\<lambda>pos.
               py_bind (get_name_from_instance_id store instance_id) (\<lambda>instance_name.
               Inr (dict_set instance_name pos m))))
           | _ \<Rightarrow> Inl ValueError)"

definition parse_map :: "instance_store \<Rightarrow> string \<Rightarrow> (int \<times> (string, int) dict) py" where
  "parse_map store s =
     (let parts = split_on CHR ''~'' s
      in py_bind (int_str (hd parts)) (\<lambda>pos.
         py_bind (py_for (parse_instance store) (tl parts) []) (\<lambda>m. Inr (pos, m))))"

definition map_entries :: "instance_store \<Rightarrow> 'a multi_writer_token_scheme \<Rightarrow> string list py" where
  "map_entries store self =
     py_for (\<lambda>(name, pos) entries.
       if pos \<le> stream self then Inr entries
       else py_bind (get_id_for_instance store name) (\<lambda>instance_id.
            Inr (entries @ [str_int instance_id @ CHR ''.'' # str_int pos])))
       (instance_map self) []"

text \<open>\<open>except Exception: raise SynapseError(400, ...)\<close>.\<close>

definition or_invalid :: "'a py \<Rightarrow> 'a py" where
  "or_invalid r = (case r of Inl _ \<Rightarrow> Inl (SynapseError 400 UNKNOWN) | Inr x \<Rightarrow> Inr x)"

section \<open>Room tokens\<close>

text \<open>A string that does not start with one of the three letters fails while the message of its
  SynapseError is formatted: \<open>!r\<close> is not a valid format specifier.\<close>

definition parse_room_stream_token :: "instance_store \<Rightarrow> string \<Rightarrow> room_stream_token py" where
  "parse_room_stream_token store s =
     (case s of
        [] \<Rightarrow> Inl ValueError
      | c # rest \<Rightarrow>
          if c = CHR ''s'' then or_invalid (
            py_bind (int_str rest) (\<lambda>pos.
            room_post_init \<lparr>stream = pos, instance_map = [], topological = None\<rparr>))
          else if c = CHR ''t'' then or_invalid (
            let parts = split_once CHR ''-'' rest
            in py_bind (int_str (hd parts)) (\<lambda>topo.
               py_bind (py_index parts 1) (\<lambda>p.
               py_bind (int_str p) (\<lambda>pos.
               room_post_init \<lparr>stream = pos, instance_map = [], topological = Some topo\<rparr>))))
          else if c = CHR ''m'' then or_invalid (
            py_bind (parse_map store rest) (\<lambda>(pos, m).
            room_post_init \<lparr>stream = pos, instance_map = m, topological = None\<rparr>))
          else Inl ValueError)"

definition parse_stream_token :: "string \<Rightarrow> room_stream_token py" where
  "parse_stream_token s =
     (case s of
        c # rest \<Rightarrow>
          if c = CHR ''s'' then or_invalid (
            py_bind (int_str rest) (\<lambda>pos.
            room_post_init \<lparr>stream = pos, instance_map = [], topological = None\<rparr>))
          else Inl (SynapseError 400 UNKNOWN)
      | [] \<Rightarrow> Inl (SynapseError 400 UNKNOWN))"

definition room_copy_and_advance :: "room_stream_token \<Rightarrow> room_stream_token \<Rightarrow> room_stream_token py" where
  "room_copy_and_advance self other =
     (if (topological self \<noteq> None \<and> topological self \<noteq> Some 0) \<or>
         (topological other \<noteq> None \<and> topological other \<noteq> Some 0)
      then Inl PyException
      else let (max_stream, m) = advanced_map self other
           in room_post_init (self\<lparr>stream := max_stream, instance_map := m\<rparr>))"

definition as_historical_tuple :: "room_stream_token \<Rightarrow> (int \<times> int) py" where
  "as_historical_tuple self =
     (case topological self of None \<Rightarrow> Inl PyException | Some topo \<Rightarrow> Inr (topo, stream self))"

definition room_get_stream_pos_for_instance :: "room_stream_token \<Rightarrow> string \<Rightarrow> int py" where
  "room_get_stream_pos_for_instance self instance_name =
     (if topological self \<noteq> None then Inl AssertionError
      else Inr (dict_get_default (instance_map self) instance_name (stream self)))"

definition room_to_string :: "instance_store \<Rightarrow> room_stream_token \<Rightarrow> string py" where
  "room_to_string store self =
     (case topological self of
        Some topo \<Rightarrow> Inr (CHR ''t'' # str_int topo @ CHR ''-'' # str_int (stream self))
      | None \<Rightarrow>
          if instance_map self \<noteq> []
          then py_bind (map_entries store self) (\<lambda>entries.
               if entries \<noteq> [] then Inr (CHR ''m'' # str_int (stream self) @ CHR ''~'' # join_with CHR ''~'' entries)
               else Inr (CHR ''s'' # str_int (stream self)))
          else Inr (CHR ''s'' # str_int (stream self)))"

definition room_bound_stream_token :: "room_stream_token \<Rightarrow> int \<Rightarrow> room_stream_token py" where
  "room_bound_stream_token self max_stream =
     (if topological self \<noteq> None then Inl AssertionError
      else let (min_pos, m) = bounded_map self max_stream
           in room_post_init \<lparr>stream = min_pos, instance_map = m, topological = None\<rparr>)"

section \<open>Multi-writer tokens\<close>

definition parse_multi_writer_token :: "instance_store \<Rightarrow> string \<Rightarrow> multi_writer_token py" where
  "parse_multi_writer_token store s =
     (case s of
        [] \<Rightarrow> Inl (SynapseError 400 UNKNOWN)
      | c # rest \<Rightarrow>
          if is_digit c then or_invalid (
            py_bind (int_str s) (\<lambda>pos. post_init \<lparr>stream = pos, instance_map = []\<rparr>))
          else if c = CHR ''m'' then or_invalid (
            py_bind (parse_map store rest) (\<lambda>(pos, m). post_init \<lparr>stream = pos, instance_map = m\<rparr>))
          else Inl (SynapseError 400 UNKNOWN))"

definition multi_to_string :: "instance_store \<Rightarrow> multi_writer_token \<Rightarrow> string py" where
  "multi_to_string store self =
     (if instance_map self \<noteq> []
      then py_bind (map_entries store self) (\<lambda>entries.
           if entries \<noteq> [] then Inr (CHR ''m'' # str_int (stream self) @ CHR ''~'' # join_with CHR ''~'' entries)
           else Inr (str_int (stream self)))
      else Inr (str_int (stream self)))"

definition is_stream_position_in_range ::
    "'a multi_writer_token_scheme option \<Rightarrow> 'b multi_writer_token_scheme option \<Rightarrow> string option \<Rightarrow> int \<Rightarrow> bool" where
  "is_stream_position_in_range low high instance_name pos =
     (if (case low of None \<Rightarrow> False
          | Some tok \<Rightarrow> pos \<le> (case instance_name of
              None \<Rightarrow> stream tok
            | Some n \<Rightarrow> if n = '''' then stream tok else dict_get_default (instance_map tok) n (stream tok)))
      then False
      else if (case high of None \<Rightarrow> False
          | Some tok \<Rightarrow> (case instance_name of
              None \<Rightarrow> stream tok
            | Some n \<Rightarrow> if n = '''' then stream tok else dict_get_default (instance_map tok) n (stream tok)) < pos)
      then False
      else True)"

record persisted_position =
  instance_name :: string
  pos_stream :: int

definition persisted_after :: "persisted_position \<Rightarrow> 'a multi_writer_token_scheme \<Rightarrow> bool" where
  "persisted_after self tok \<longleftrightarrow> get_stream_pos_for_instance tok (instance_name self) < pos_stream self"

definition to_room_stream_token :: "persisted_position \<Rightarrow> room_stream_token" where
  "to_room_stream_token self = \<lparr>stream = pos_stream self, instance_map = [], topological = None\<rparr>"


definition room_persisted_after :: "persisted_position \<Rightarrow> room_stream_token \<Rightarrow> bool py" where
  "room_persisted_after self tok =
     py_bind (room_get_stream_pos_for_instance tok (instance_name self)) (\<lambda>pos. Inr (pos < pos_stream self))"

section \<open>Sync tokens\<close>

datatype stream_key_type =
    ROOM | PRESENCE | TYPING | RECEIPT | ACCOUNT_DATA | PUSH_RULES | TO_DEVICE | DEVICE_LIST
  | UN_PARTIAL_STATED_ROOMS

definition StreamKeyType_members :: "stream_key_type list" where
  "StreamKeyType_members =
     [ROOM, PRESENCE, TYPING, RECEIPT, ACCOUNT_DATA, PUSH_RULES, TO_DEVICE, DEVICE_LIST, UN_PARTIAL_STATED_ROOMS]"

record stream_token =
  room_key :: room_stream_token
  presence_key :: int
  typing_key :: int
  receipt_key :: multi_writer_token
  account_data_key :: int
  push_rules_key :: int
  to_device_key :: int
  device_list_key :: int
  groups_key :: int
  un_partial_stated_rooms_key :: int

definition StreamToken_START :: stream_token where
  "StreamToken_START =
     \<lparr>room_key = \<lparr>stream = 0, instance_map = [], topological = None\<rparr>, presence_key = 0, typing_key = 0,
      receipt_key = \<lparr>stream = 0, instance_map = []\<rparr>, account_data_key = 0, push_rules_key = 0,
      to_device_key = 0, device_list_key = 0, groups_key = 0, un_partial_stated_rooms_key = 0\<rparr>"

text \<open>The keys of an old token are filled up with zeros.\<close>

definition stream_token_keys :: "string \<Rightarrow> string list" where
  "stream_token_keys s = (let keys = split_on CHR ''_'' s in keys @ replicate (10 - length keys) ''0'')"

definition stream_token_from_string :: "instance_store \<Rightarrow> string \<Rightarrow> stream_token py" where
  "stream_token_from_string store s = or_invalid (
     case stream_token_keys s of
       [room, presence, typing, receipt, account_data, push_rules, to_device, device_list, groups, un_partial] \<Rightarrow>
         py_bind (parse_room_stream_token store room) (\<lambda>room.
         py_bind (int_str presence) (\<lambda>presence.
         py_bind (int_str typing) (\<lambda>typing.
         py_bind (parse_multi_writer_token store receipt) (\<lambda>receipt.
         py_bind (int_str account_data) (\<lambda>account_data.
         py_bind (int_str push_rules) (\<lambda>push_rules.
         py_bind (int_str to_device) (\<lambda>to_device.
         py_bind (int_str device_list) (\<lambda>device_list.
         py_bind (int_str groups) (\<lambda>groups.
         py_bind (int_str un_partial) (\<lambda>un_partial.
         Inr \<lparr>room_key = room, presence_key = presence, typing_key = typing, receipt_key = receipt,
           account_data_key = account_data, push_rules_key = push_rules, to_device_key = to_device,
           device_list_key = device_list, groups_key = groups, un_partial_stated_rooms_key = un_partial\<rparr>))))))))))
     | _ \<Rightarrow> Inl ValueError)"

definition stream_token_to_string :: "instance_store \<Rightarrow> stream_token \<Rightarrow> string py" where
  "stream_token_to_string store self =
     py_bind (room_to_string store (room_key self)) (\<lambda>room.
     py_bind (multi_to_string store (receipt_key self)) (\<lambda>receipt.
     Inr (join_with CHR ''_''
       [room, str_int (presence_key self), str_int (typing_key self), receipt,
        str_int (account_data_key self), str_int (push_rules_key self), str_int (to_device_key self),
        str_int (device_list_key self), str_int (groups_key self), str_int (un_partial_stated_rooms_key self)])))"

definition room_stream_id :: "stream_token \<Rightarrow> int" where
  "room_stream_id self = stream (room_key self)"

text \<open>The value of a field, and a new value for a field: only the room and the receipts have tokens,
  the other fields integers.\<close>

datatype stream_value = RoomValue room_stream_token | MultiValue multi_writer_token | IntValue int

fun get_field :: "stream_token \<Rightarrow> stream_key_type \<Rightarrow> stream_value" where
  "get_field self ROOM = RoomValue (room_key self)"
| "get_field self PRESENCE = IntValue (presence_key self)"
| "get_field self TYPING = IntValue (typing_key self)"
| "get_field self RECEIPT = MultiValue (receipt_key self)"
| "get_field self ACCOUNT_DATA = IntValue (account_data_key self)"
| "get_field self PUSH_RULES = IntValue (push_rules_key self)"
| "get_field self TO_DEVICE = IntValue (to_device_key self)"
| "get_field self DEVICE_LIST = IntValue (device_list_key self)"
| "get_field self UN_PARTIAL_STATED_ROOMS = IntValue (un_partial_stated_rooms_key self)"

fun copy_and_replace :: "stream_token \<Rightarrow> stream_key_type \<Rightarrow> stream_value \<Rightarrow> stream_token py" where
  "copy_and_replace self ROOM (RoomValue v) = Inr (self\<lparr>room_key := v\<rparr>)"
| "copy_and_replace self RECEIPT (MultiValue v) = Inr (self\<lparr>receipt_key := v\<rparr>)"
| "copy_and_replace self PRESENCE (IntValue v) = Inr (self\<lparr>presence_key := v\<rparr>)"
| "copy_and_replace self TYPING (IntValue v) = Inr (self\<lparr>typing_key := v\<rparr>)"
| "copy_and_replace self ACCOUNT_DATA (IntValue v) = Inr (self\<lparr>account_data_key := v\<rparr>)"
| "copy_and_replace self PUSH_RULES (IntValue v) = Inr (self\<lparr>push_rules_key := v\<rparr>)"
| "copy_and_replace self TO_DEVICE (IntValue v) = Inr (self\<lparr>to_device_key := v\<rparr>)"
| "copy_and_replace self DEVICE_LIST (IntValue v) = Inr (self\<lparr>device_list_key := v\<rparr>)"
| "copy_and_replace self UN_PARTIAL_STATED_ROOMS (IntValue v) = Inr (self\<lparr>un_partial_stated_rooms_key := v\<rparr>)"
| "copy_and_replace self _ _ = Inl TypeError"

definition stream_token_copy_and_advance ::
    "stream_token \<Rightarrow> stream_key_type \<Rightarrow> stream_value \<Rightarrow> stream_token py" where
  "stream_token_copy_and_advance self key new_value =
     (case (key, new_value) of
        (ROOM, RoomValue v) \<Rightarrow>
          py_bind (room_copy_and_advance (room_key self) v) (\<lambda>t. copy_and_replace self ROOM (RoomValue t))
      | (RECEIPT, MultiValue v) \<Rightarrow>
          py_bind (copy_and_advance (receipt_key self) v) (\<lambda>t. copy_and_replace self RECEIPT (MultiValue t))
      | _ \<Rightarrow>
          py_bind (copy_and_replace self key new_value) (\<lambda>new_token.
          case (get_field self key, get_field new_token key) of
            (IntValue old_id, IntValue new_id) \<Rightarrow> if old_id < new_id then Inr new_token else Inr self
          | _ \<Rightarrow> Inl TypeError))"

fun value_before_or_eq :: "stream_value \<Rightarrow> stream_value \<Rightarrow> bool py" where
  "value_before_or_eq (RoomValue s) (RoomValue t) = Inr (is_before_or_eq s t)"
| "value_before_or_eq (MultiValue s) (MultiValue t) = Inr (is_before_or_eq s t)"
| "value_before_or_eq (IntValue s) (IntValue t) = Inr (\<not> s > t)"
| "value_before_or_eq _ _ = Inl AssertionError"

fun before_or_eq_loop :: "stream_token \<Rightarrow> stream_token \<Rightarrow> stream_key_type list \<Rightarrow> bool py" where
  "before_or_eq_loop self other_token [] = Inr True"
| "before_or_eq_loop self other_token (key # keys) =
     (if key = TYPING then before_or_eq_loop self other_token keys
      else py_bind (value_before_or_eq (get_field self key) (get_field other_token key)) (\<lambda>b.
           if b then before_or_eq_loop self other_token keys else Inr False))"

definition stream_token_is_before_or_eq :: "stream_token \<Rightarrow> stream_token \<Rightarrow> bool py" where
  "stream_token_is_before_or_eq self other_token = before_or_eq_loop self other_token StreamKeyType_members"

record sliding_sync_stream_token =
  sliding_stream_token :: stream_token
  connection_position :: int

definition sliding_from_string :: "instance_store \<Rightarrow> string \<Rightarrow> sliding_sync_stream_token py" where
  "sliding_from_string store s = or_invalid (
     case split_once CHR ''/'' s of
       [connection_position_str, stream_token_str] \<Rightarrow>
         py_bind (int_str connection_position_str) (\<lambda>pos.
         py_bind (stream_token_from_string store stream_token_str) (\<lambda>tok.
         Inr \<lparr>sliding_stream_token = tok, connection_position = pos\<rparr>))
     | _ \<Rightarrow> Inl ValueError)"

definition sliding_to_string :: "instance_store \<Rightarrow> sliding_sync_stream_token \<Rightarrow> string py" where
  "sliding_to_string store self =
     py_bind (stream_token_to_string store (sliding_stream_token self)) (\<lambda>s.
     Inr (str_int (connection_position self) @ CHR ''/'' # s))"

end
