(* ===== verification/Stream_Token_Props.thy ===== *)
theory Stream_Token_Props
  imports Stream_Tokens
begin

text \<open>
  What the stream tokens mean: a token stands for the position of every writer, the order of tokens
  is the pointwise order, advancing a token is the least upper bound and bounding it the minimum;
  and printing and parsing a token gives the token back.
\<close>

section \<open>A token as the positions of the writers\<close>

abbreviation position :: "'a multi_writer_token_scheme \<Rightarrow> string \<Rightarrow> int" where
  "position \<equiv> get_stream_pos_for_instance"

definition wf_token :: "'a multi_writer_token_scheme \<Rightarrow> bool" where
  "wf_token t \<longleftrightarrow> wf_dict (instance_map t) \<and> (\<forall>(i, v) \<in> set (instance_map t). stream t < v)"

lemma dict_get_table: "dict_get (map (\<lambda>k. (k, f k)) ks) k = (if k \<in> set ks then Some (f k) else None)"
  by (induction ks) auto

lemma wf_dict_table: "distinct ks \<Longrightarrow> wf_dict (map (\<lambda>k. (k, f k)) ks)"
  by (simp add: wf_dict_def comp_def)

lemma position_outside: "i \<notin> set (dict_keys (instance_map t)) \<Longrightarrow> position t i = stream t"
  by (simp add: get_stream_pos_for_instance_def dict_get_default_def map_of_eq_None_iff split: option.splits)
    (metis map_of_eq_None_iff option.distinct(1) set_map)

lemma position_ge: "wf_token t \<Longrightarrow> stream t \<le> position t i"
  by (auto simp: wf_token_def get_stream_pos_for_instance_def dict_get_default_def dest!: map_of_SomeD
      split: option.splits)

text \<open>There is always a writer no map mentions, so the order includes the order of the default
  positions.\<close>

lemma is_before_or_eq_iff: "is_before_or_eq s t \<longleftrightarrow> (\<forall>i. position s i \<le> position t i)"
proof
  assume b: "is_before_or_eq s t"
  show "\<forall>i. position s i \<le> position t i"
  proof
    fix i
    show "position s i \<le> position t i"
    proof (cases "i \<in> set (dict_keys (instance_map s)) \<union> set (dict_keys (instance_map t))")
      case True
      with b show ?thesis by (auto simp: is_before_or_eq_def get_stream_pos_for_instance_def not_less)
    next
      case False
      with b show ?thesis by (simp add: position_outside is_before_or_eq_def del: set_map)
    qed
  qed
next
  assume all: "\<forall>i. position s i \<le> position t i"
  have "infinite (UNIV :: string set)" by (rule infinite_UNIV_listI)
  then obtain i where "i \<notin> set (dict_keys (instance_map s)) \<union> set (dict_keys (instance_map t))"
    using ex_new_if_finite[of "set (dict_keys (instance_map s)) \<union> set (dict_keys (instance_map t))"] by blast
  then have "position s i = stream s" "position t i = stream t" by (simp_all add: position_outside del: set_map)
  with all have "stream s \<le> stream t" by metis
  with all show "is_before_or_eq s t"
    by (auto simp: is_before_or_eq_def get_stream_pos_for_instance_def not_less)
qed

lemma advanced_map_spec:
  assumes "wf_token s" and "wf_token t" and "advanced_map s t = (m, d)"
  shows "m = max (stream s) (stream t)" and "wf_dict d" and "\<forall>(i, v) \<in> set d. m < v"
    and "dict_get_default d i m = max (position s i) (position t i)"
proof -
  let ?ks = "remdups (dict_keys (instance_map s) @ dict_keys (instance_map t))"
  let ?f = "\<lambda>i. max (position s i) (position t i)"
  have d: "d = filter (\<lambda>(i, v). v > m) (map (\<lambda>i. (i, ?f i)) ?ks)" and m: "m = max (stream s) (stream t)"
    using assms(3) by (auto simp: advanced_map_def Let_def get_stream_pos_for_instance_def)
  show "m = max (stream s) (stream t)" by (rule m)
  show "wf_dict d" unfolding d by (intro wf_dict_filter wf_dict_table) simp
  show "\<forall>(i, v) \<in> set d. m < v" by (auto simp: d)
  have ge: "m \<le> ?f i" using position_ge[OF assms(1), of i] position_ge[OF assms(2), of i] by (auto simp: m)
  show "dict_get_default d i m = ?f i"
  proof (cases "i \<in> set ?ks")
    case True
    then show ?thesis
      using ge unfolding d dict_get_default_def
      by (subst dict_get_filter) (auto simp: wf_dict_table dict_get_table)
  next
    case False
    then have "?f i = m" by (simp add: position_outside m del: set_map)
    with False show ?thesis
      unfolding d dict_get_default_def
      by (subst dict_get_filter) (auto simp: wf_dict_table dict_get_table simp del: set_map set_remdups)
  qed
qed

lemma copy_and_advance_spec:
  assumes "wf_token s" and "wf_token t"
  obtains u where "copy_and_advance s t = Inr u" and "wf_token u" and "\<And>i. position u i = max (position s i) (position t i)"
proof -
  obtain m d where md: "advanced_map s t = (m, d)" by force
  note spec = advanced_map_spec[OF assms md]
  let ?u = "s\<lparr>stream := m, instance_map := d\<rparr>"
  have "copy_and_advance s t = Inr ?u" using spec(3) by (auto simp: copy_and_advance_def md post_init_def)
  moreover have "wf_token ?u" using spec(2,3) by (simp add: wf_token_def)
  moreover have "position ?u i = max (position s i) (position t i)" for i
    using spec(4) by (simp add: get_stream_pos_for_instance_def)
  ultimately show thesis by (rule that)
qed

lemma bound_stream_token_spec:
  assumes "wf_token s"
  obtains u where "bound_stream_token s m = Inr u" and "wf_token u" and "\<And>i. position u i = min (position s i) m"
proof -
  let ?p = "min (stream s) m"
  define d where "d = map (\<lambda>(k, v). (k, min v m)) (filter (\<lambda>(k, v). min v m > ?p) (instance_map s))"
  let ?u = "\<lparr>stream = ?p, instance_map = d\<rparr>"
  have wf: "wf_dict (instance_map s)" using assms by (simp add: wf_token_def)
  have "wf_dict d"
    using wf_dict_filter[OF wf] unfolding d_def wf_dict_def by (simp add: comp_def case_prod_unfold)
  moreover have ahead: "\<forall>(i, v) \<in> set d. ?p < v" by (auto simp: d_def)
  ultimately have "wf_token ?u" by (simp add: wf_token_def)
  moreover have "bound_stream_token s m = Inr ?u"
    using ahead by (auto simp: bound_stream_token_def bounded_map_def Let_def d_def post_init_def)
  moreover have "position ?u i = min (position s i) m" for i
  proof -
    have "dict_get d i = map_option (\<lambda>v. min v m) (dict_get (filter (\<lambda>(k, v). min v m > ?p) (instance_map s)) i)"
      unfolding d_def by (simp add: map_of_map)
    then show ?thesis
      using position_ge[OF assms, of i] unfolding dict_get_filter[OF wf]
      by (auto simp: get_stream_pos_for_instance_def dict_get_default_def split: option.splits)
  qed
  ultimately show thesis using that by blast
qed

text \<open>The same for live room tokens.\<close>

lemma room_copy_and_advance_spec:
  assumes "wf_token s" and "wf_token t" and "topological s = None" and "topological t = None"
  obtains u where "room_copy_and_advance s t = Inr u" and "wf_token u" and "topological u = None"
    and "\<And>i. position u i = max (position s i) (position t i)"
proof -
  obtain m d where md: "advanced_map s t = (m, d)" by force
  note spec = advanced_map_spec[OF assms(1,2) md]
  let ?u = "s\<lparr>stream := m, instance_map := d\<rparr>"
  have "room_copy_and_advance s t = Inr ?u"
    using spec(3) assms(3,4) by (auto simp: room_copy_and_advance_def md room_post_init_def post_init_def)
  moreover have "wf_token ?u" using spec(2,3) by (simp add: wf_token_def)
  moreover have "position ?u i = max (position s i) (position t i)" for i
    using spec(4) by (simp add: get_stream_pos_for_instance_def)
  moreover have "topological ?u = None" using assms(3) by simp
  ultimately show thesis using that by blast
qed

lemma room_persisted_after_live:
  "topological t = None \<Longrightarrow> room_persisted_after p t = Inr (position t (instance_name p) < pos_stream p)"
  by (simp add: room_persisted_after_def room_get_stream_pos_for_instance_def get_stream_pos_for_instance_def)

section \<open>The order of sync tokens\<close>

lemma is_before_or_eq_refl: "is_before_or_eq t t"
  by (simp add: is_before_or_eq_iff)

lemma is_before_or_eq_trans: "is_before_or_eq s t \<Longrightarrow> is_before_or_eq t u \<Longrightarrow> is_before_or_eq s u"
  by (meson is_before_or_eq_iff order_trans)

lemma stream_token_before_iff:
  "stream_token_is_before_or_eq s t = Inr (
     is_before_or_eq (room_key s) (room_key t) \<and> presence_key s \<le> presence_key t \<and>
     is_before_or_eq (receipt_key s) (receipt_key t) \<and> account_data_key s \<le> account_data_key t \<and>
     push_rules_key s \<le> push_rules_key t \<and> to_device_key s \<le> to_device_key t \<and>
     device_list_key s \<le> device_list_key t \<and>
     un_partial_stated_rooms_key s \<le> un_partial_stated_rooms_key t)"
  by (simp add: stream_token_is_before_or_eq_def StreamKeyType_members_def)

text \<open>Advancing a field never moves a token back, and gives a token that is not before the new
  value.\<close>

lemma int_advance:
  assumes "\<And>v. new_value \<noteq> RoomValue v" and "\<And>v. new_value \<noteq> MultiValue v"
    and "stream_token_copy_and_advance self key new_value = Inr r"
  shows "stream_token_is_before_or_eq self r = Inr True"
  using assms
  by (cases new_value; cases key)
    (auto simp: stream_token_copy_and_advance_def stream_token_before_iff is_before_or_eq_refl split: if_splits)

lemma stream_token_advance:
  assumes "stream_token_copy_and_advance self key new_value = Inr r"
    and "wf_token (room_key self)" and "wf_token (receipt_key self)" and "topological (room_key self) = None"
    and "\<And>v. new_value = RoomValue v \<Longrightarrow> wf_token v \<and> topological v = None"
    and "\<And>v. new_value = MultiValue v \<Longrightarrow> wf_token v"
  shows "stream_token_is_before_or_eq self r = Inr True"
proof (cases new_value)
  case (RoomValue v)
  with assms(1) obtain t where key: "key = ROOM" and t: "room_copy_and_advance (room_key self) v = Inr t"
    and r: "r = self\<lparr>room_key := t\<rparr>"
    by (cases key) (auto simp: stream_token_copy_and_advance_def py_bind_Inr_iff)
  obtain u where "room_copy_and_advance (room_key self) v = Inr u"
    and "\<And>i. position u i = max (position (room_key self) i) (position v i)"
    using room_copy_and_advance_spec[of "room_key self" v] assms(2,4,5) RoomValue by metis
  with t show ?thesis
    by (simp add: r stream_token_before_iff is_before_or_eq_refl) (simp add: is_before_or_eq_iff)
next
  case (MultiValue v)
  with assms(1) obtain t where key: "key = RECEIPT" and t: "copy_and_advance (receipt_key self) v = Inr t"
    and r: "r = self\<lparr>receipt_key := t\<rparr>"
    by (cases key) (auto simp: stream_token_copy_and_advance_def py_bind_Inr_iff)
  obtain u where "copy_and_advance (receipt_key self) v = Inr u"
    and "\<And>i. position u i = max (position (receipt_key self) i) (position v i)"
    using copy_and_advance_spec[of "receipt_key self" v] assms(3,6) MultiValue by metis
  with t show ?thesis
    by (simp add: r stream_token_before_iff is_before_or_eq_refl) (simp add: is_before_or_eq_iff)
next
  case (IntValue v)
  with int_advance[OF _ _ assms(1)] show ?thesis by simp
qed


section \<open>Printing and parsing\<close>

text \<open>The table of instances gives a writer an id, and back.\<close>

definition knows_instance :: "instance_store \<Rightarrow> string \<Rightarrow> bool" where
  "knows_instance store n \<longleftrightarrow>
     (\<exists>i. get_id_for_instance store n = Inr i \<and> get_name_from_instance_id store i = Inr n)"

definition knows_instances :: "instance_store \<Rightarrow> 'a multi_writer_token_scheme \<Rightarrow> bool" where
  "knows_instances store t \<longleftrightarrow> (\<forall>n \<in> set (dict_keys (instance_map t)). knows_instance store n)"

definition entry_of :: "instance_store \<Rightarrow> string \<times> int \<Rightarrow> string" where
  "entry_of store e = (case get_id_for_instance store (fst e) of
     Inl _ \<Rightarrow> [] | Inr i \<Rightarrow> str_int i @ CHR ''.'' # str_int (snd e))"

lemma separator_free [simp]:
  "CHR ''.'' \<notin> set (str_int n)" "CHR ''~'' \<notin> set (str_int n)" "CHR ''_'' \<notin> set (str_int n)"
  "CHR ''/'' \<notin> set (str_int n)"
  by (rule str_int_free; simp add: is_digit_def)+

lemma entry_free: "c \<in> {CHR ''~'', CHR ''_'', CHR ''/''} \<Longrightarrow> c \<notin> set (entry_of store e)"
  by (auto simp: entry_of_def split: sum.splits)

lemma map_entries_loop:
  assumes "\<forall>(n, p) \<in> set d. s < p \<and> knows_instance store n"
  shows "py_for (\<lambda>(name, pos) entries. if pos \<le> s then Inr entries
       else py_bind (get_id_for_instance store name) (\<lambda>instance_id.
            Inr (entries @ [str_int instance_id @ CHR ''.'' # str_int pos]))) d acc =
    Inr (acc @ map (entry_of store) d)"
  using assms
  by (induction d arbitrary: acc) (auto simp: entry_of_def knows_instance_def)

lemma map_entries_eq:
  assumes "wf_token t" and "knows_instances store t"
  shows "map_entries store t = Inr (map (entry_of store) (instance_map t))"
proof -
  have "\<forall>(n, p) \<in> set (instance_map t). stream t < p \<and> knows_instance store n"
    using assms by (force simp: wf_token_def knows_instances_def)
  from map_entries_loop[OF this, of "[]"] show ?thesis by (simp add: map_entries_def)
qed

lemma dict_set_new: "k \<notin> set (dict_keys d) \<Longrightarrow> dict_set k v d = d @ [(k, v)]"
  by (induction d) auto

lemma parse_instance_entry:
  assumes "knows_instance store n"
  shows "parse_instance store (entry_of store (n, p)) m = Inr (dict_set n p m)"
proof -
  from assms obtain i where i: "get_id_for_instance store n = Inr i" "get_name_from_instance_id store i = Inr n"
    by (auto simp: knows_instance_def)
  have "split_on CHR ''.'' (entry_of store (n, p)) = [str_int i, str_int p]"
    by (simp add: entry_of_def i split_on_append split_on_free)
  moreover have "entry_of store (n, p) \<noteq> []" by (simp add: entry_of_def i)
  ultimately show ?thesis by (simp add: parse_instance_def i)
qed

lemma parse_instances:
  assumes "wf_dict (acc @ d)" and "\<forall>n \<in> set (dict_keys d). knows_instance store n"
  shows "py_for (parse_instance store) (map (entry_of store) d) acc = Inr (acc @ d)"
  using assms
proof (induction d arbitrary: acc)
  case (Cons e d)
  obtain n p where e: "e = (n, p)" by (cases e)
  have "n \<notin> set (dict_keys acc)" using Cons.prems(1) by (auto simp: e wf_dict_def)
  with Cons show ?case by (simp add: e parse_instance_entry dict_set_new)
qed simp

lemma parse_map_string:
  assumes "wf_dict d" and "d \<noteq> []" and "\<forall>n \<in> set (dict_keys d). knows_instance store n"
  shows "parse_map store (str_int s @ CHR ''~'' # join_with CHR ''~'' (map (entry_of store) d)) = Inr (s, d)"
proof -
  have "split_on CHR ''~'' (join_with CHR ''~'' (str_int s # map (entry_of store) d)) = str_int s # map (entry_of store) d"
    by (rule split_join) (use entry_free in auto)
  then have "split_on CHR ''~'' (str_int s @ CHR ''~'' # join_with CHR ''~'' (map (entry_of store) d)) =
      str_int s # map (entry_of store) d"
    using assms(2) by (simp add: join_with_Cons)
  with parse_instances[of "[]" d store] assms show ?thesis by (simp add: parse_map_def)
qed

lemma post_init_wf: "wf_token t \<Longrightarrow> post_init t = Inr t"
  by (auto simp: post_init_def wf_token_def)

text \<open>A room token that has a topological part has no map, and the topological part is not
  negative.\<close>

definition wf_room_token :: "room_stream_token \<Rightarrow> bool" where
  "wf_room_token t \<longleftrightarrow> wf_token t \<and> (\<forall>p. topological t = Some p \<longrightarrow> 0 \<le> p \<and> instance_map t = [])"

lemma minus_free: "0 \<le> p \<Longrightarrow> CHR ''-'' \<notin> set (str_int p)"
  using str_nat_digits[of "CHR ''-''"] by (auto simp: str_int_def is_digit_def)

lemma room_roundtrip:
  assumes "wf_room_token t" and "knows_instances store t"
  obtains s where "room_to_string store t = Inr s" and "parse_room_stream_token store s = Inr t"
    and "CHR ''_'' \<notin> set s"
proof (cases "topological t")
  case (Some p)
  then have p: "0 \<le> p" "instance_map t = []" using assms(1) by (auto simp: wf_room_token_def)
  let ?s = "CHR ''t'' # str_int p @ CHR ''-'' # str_int (stream t)"
  have "split_once CHR ''-'' (str_int p @ CHR ''-'' # str_int (stream t)) = [str_int p, str_int (stream t)]"
    by (rule split_once_append) (rule minus_free[OF p(1)])
  then have "parse_room_stream_token store ?s = Inr t"
    using p Some by (cases t) (simp add: parse_room_stream_token_def Let_def py_index_def or_invalid_def
        room_post_init_def post_init_def)
  with Some that[of ?s] show thesis by (simp add: room_to_string_def)
next
  case None
  show thesis
  proof (cases "instance_map t = []")
    case True
    with None that[of "CHR ''s'' # str_int (stream t)"] show thesis
      by (cases t) (simp add: room_to_string_def parse_room_stream_token_def or_invalid_def room_post_init_def
          post_init_def)
  next
    case False
    have wf: "wf_token t" "wf_dict (instance_map t)" using assms(1) by (simp_all add: wf_room_token_def wf_token_def)
    let ?es = "map (entry_of store) (instance_map t)"
    let ?s = "CHR ''m'' # str_int (stream t) @ CHR ''~'' # join_with CHR ''~'' ?es"
    have "parse_room_stream_token store ?s = Inr t"
      using parse_map_string[OF wf(2) False] assms(2) post_init_wf[OF wf(1)] None
      by (cases t) (simp add: parse_room_stream_token_def knows_instances_def room_post_init_def or_invalid_def)
    moreover have "CHR ''_'' \<notin> set ?s"
      using set_join_with[of "CHR ''~''" ?es] entry_free[of "CHR ''_''" store] by fastforce
    ultimately show thesis
      using that[of ?s] None False map_entries_eq[OF wf(1) assms(2)] by (simp add: room_to_string_def)
  qed
qed

lemma multi_roundtrip:
  assumes "wf_token t" and "0 \<le> stream t" and "knows_instances store t"
  obtains s where "multi_to_string store t = Inr s" and "parse_multi_writer_token store s = Inr t"
    and "CHR ''_'' \<notin> set s"
proof (cases "instance_map t = []")
  case True
  obtain c cs where c: "str_int (stream t) = c # cs" "is_digit c" using str_int_sign[OF assms(2)] by auto
  have "parse_multi_writer_token store (str_int (stream t)) = Inr t"
    unfolding parse_multi_writer_token_def using c int_str_int[of "stream t"] True
    by (cases t) (simp add: or_invalid_def post_init_def)
  with True that[of "str_int (stream t)"] show thesis by (simp add: multi_to_string_def)
next
  case False
  have wf: "wf_dict (instance_map t)" using assms(1) by (simp add: wf_token_def)
  let ?es = "map (entry_of store) (instance_map t)"
  let ?s = "CHR ''m'' # str_int (stream t) @ CHR ''~'' # join_with CHR ''~'' ?es"
  have "parse_multi_writer_token store ?s = Inr t"
    using parse_map_string[OF wf False] assms(3) post_init_wf[OF assms(1)]
    by (cases t) (simp add: parse_multi_writer_token_def is_digit_def knows_instances_def or_invalid_def)
  moreover have "CHR ''_'' \<notin> set ?s"
    using set_join_with[of "CHR ''~''" ?es] entry_free[of "CHR ''_''" store] by fastforce
  ultimately show thesis
    using that[of ?s] False map_entries_eq[OF assms(1,3)] by (simp add: multi_to_string_def)
qed

definition wf_stream_token :: "instance_store \<Rightarrow> stream_token \<Rightarrow> bool" where
  "wf_stream_token store t \<longleftrightarrow>
     wf_room_token (room_key t) \<and> knows_instances store (room_key t) \<and>
     wf_token (receipt_key t) \<and> 0 \<le> stream (receipt_key t) \<and> knows_instances store (receipt_key t)"

lemma stream_token_roundtrip:
  assumes "wf_stream_token store t"
  obtains s where "stream_token_to_string store t = Inr s" and "stream_token_from_string store s = Inr t"
proof -
  from assms obtain room where room: "room_to_string store (room_key t) = Inr room"
    "parse_room_stream_token store room = Inr (room_key t)" "CHR ''_'' \<notin> set room"
    using room_roundtrip by (metis wf_stream_token_def)
  from assms obtain receipt where receipt: "multi_to_string store (receipt_key t) = Inr receipt"
    "parse_multi_writer_token store receipt = Inr (receipt_key t)" "CHR ''_'' \<notin> set receipt"
    using multi_roundtrip by (metis wf_stream_token_def)
  let ?ks = "[room, str_int (presence_key t), str_int (typing_key t), receipt,
        str_int (account_data_key t), str_int (push_rules_key t), str_int (to_device_key t),
        str_int (device_list_key t), str_int (groups_key t), str_int (un_partial_stated_rooms_key t)]"
  have "split_on CHR ''_'' (join_with CHR ''_'' ?ks) = ?ks"
    by (rule split_join) (use room(3) receipt(3) in auto)
  then have "stream_token_keys (join_with CHR ''_'' ?ks) = ?ks"
    by (simp only: stream_token_keys_def Let_def) simp
  then have "stream_token_from_string store (join_with CHR ''_'' ?ks) = Inr t"
    using room(2) receipt(2) by (simp only: stream_token_from_string_def) (simp add: or_invalid_def)
  with that[of "join_with CHR ''_'' ?ks"] room(1) receipt(1) show thesis
    by (simp add: stream_token_to_string_def)
qed


lemma sliding_roundtrip:
  assumes "wf_stream_token store (sliding_stream_token t)"
  obtains s where "sliding_to_string store t = Inr s" and "sliding_from_string store s = Inr t"
proof -
  from assms obtain s where s: "stream_token_to_string store (sliding_stream_token t) = Inr s"
    "stream_token_from_string store s = Inr (sliding_stream_token t)" by (rule stream_token_roundtrip)
  let ?s = "str_int (connection_position t) @ CHR ''/'' # s"
  have "sliding_from_string store ?s = Inr t"
    using s(2) by (cases t) (simp add: sliding_from_string_def split_once_append or_invalid_def)
  with that[of ?s] s(1) show thesis by (simp add: sliding_to_string_def)
qed

section \<open>Errors\<close>

lemma or_invalid_Inl: "or_invalid r = Inl e \<Longrightarrow> e = SynapseError 400 UNKNOWN"
  by (auto simp: or_invalid_def split: sum.splits)

lemma parse_room_error:
  assumes "parse_room_stream_token store s = Inl e"
  shows "e = (if s \<noteq> [] \<and> hd s \<in> {CHR ''s'', CHR ''t'', CHR ''m''} then SynapseError 400 UNKNOWN else ValueError)"
  using assms by (cases s) (auto simp: parse_room_stream_token_def dest: or_invalid_Inl split: if_splits)

text \<open>A table of two writers.\<close>

definition ex_instances :: instance_store where
  "ex_instances = \<lparr>get_id_for_instance = (\<lambda>n. if n = ''w1'' then Inr 1 else if n = ''w2'' then Inr 2 else Inl PyException),
     get_name_from_instance_id = (\<lambda>i. if i = 1 then Inr ''w1'' else if i = 2 then Inr ''w2'' else Inl PyException)\<rparr>"

definition ex_room_token :: room_stream_token where
  "ex_room_token = \<lparr>stream = 56, instance_map = [(''w2'', 58), (''w1'', 59)], topological = None\<rparr>"

definition ex_stream_token :: stream_token where
  "ex_stream_token = StreamToken_START\<lparr>room_key := ex_room_token, presence_key := 17, typing_key := -3\<rparr>"

end
