(* ===== verification/Id_Generators.thy ===== *)
theory Id_Generators
  imports Toposort
begin

text \<open>
  \<open>MultiWriterIdGenerator\<close> of \<open>synapse/storage/util/id_generators.py\<close>: the stream ids an instance
  allocates, the positions of the other writers, and the position up to which everything has been
  persisted. What the database returns (the rows of the tables, the values of the sequence) is an
  argument. The lock makes each of the operations below atomic, so a run of an instance is a
  sequence of them; \<open>_load_next_mult_id_txn\<close> holds the lock twice and is two operations. A
  \<open>SortedSet\<close> or \<open>SortedList\<close> of integers is a sorted list, a heap is the model of \<open>heapq\<close>.
\<close>

section \<open>The generator\<close>

record id_generator =
  local_instance :: string
  writers :: "string list"
  positive :: bool
  current_positions :: "(string, int) dict"
  unfinished_ids :: "int list"
  in_flight_fetches :: "int list"
  finished_ids :: "int list"
  persisted_upto_position :: int
  known_persisted_positions :: "int list"
  max_seen_allocated_stream_id :: int
  max_position_of_local_instance :: int

definition return_factor :: "id_generator \<Rightarrow> int" where
  "return_factor self = (if positive self then 1 else -1)"

text \<open>\<open>min(xs, default=d)\<close>.\<close>

definition min_default :: "int list \<Rightarrow> int \<Rightarrow> int" where
  "min_default xs d = (if xs = [] then d else Min (set xs))"

definition busy :: "id_generator \<Rightarrow> bool" where
  "busy self \<longleftrightarrow> unfinished_ids self \<noteq> [] \<or> in_flight_fetches self \<noteq> []"

text \<open>The loop over the heap of known persisted positions.\<close>

fun discard_positions :: "int list \<Rightarrow> int \<Rightarrow> int list \<times> int" where
  "discard_positions [] persisted = ([], persisted)"
| "discard_positions (p # ps) persisted =
     (if p \<le> persisted then discard_positions ps persisted
      else if p = persisted + 1 then discard_positions ps (persisted + 1)
      else (p # ps, persisted))"

definition add_persisted_position :: "int \<Rightarrow> id_generator \<Rightarrow> id_generator" where
  "add_persisted_position new_id self =
     (let heap = heapq_heappush new_id (known_persisted_positions self);
          our_current_position = dict_get_default (current_positions self) (local_instance self) 0;
          min_curr = min_default (map snd (filter (\<lambda>(name, _). name \<noteq> local_instance self) (current_positions self)))
            our_current_position;
          min_curr = (if our_current_position \<noteq> 0 \<and> busy self then min min_curr our_current_position else min_curr);
          persisted = max min_curr (persisted_upto_position self);
          max_pos = max (max_position_of_local_instance self) persisted;
          max_pos = (if \<not> busy self then max (max_seen_allocated_stream_id self) max_pos else max_pos);
          (heap, persisted) = discard_positions heap persisted
      in self\<lparr>known_persisted_positions := heap, persisted_upto_position := persisted,
           max_position_of_local_instance := max_pos\<rparr>)"

section \<open>Allocation\<close>

definition check_writer :: "id_generator \<Rightarrow> unit py" where
  "check_writer self = require (\<not> (writers self \<noteq> [] \<and> local_instance self \<notin> set (writers self))) PyException"

text \<open>The two critical sections of \<open>_load_next_mult_id_txn\<close>, before and after the sequence is asked;
  the second one also when that raised.\<close>

definition begin_fetch :: "id_generator \<Rightarrow> int \<times> id_generator" where
  "begin_fetch self =
     (let current_max = max_seen_allocated_stream_id self
      in (current_max, self\<lparr>in_flight_fetches := insort current_max (in_flight_fetches self)\<rparr>))"

definition remove_fetch :: "int \<Rightarrow> id_generator \<Rightarrow> id_generator" where
  "remove_fetch current_max self = self\<lparr>in_flight_fetches := remove1 current_max (in_flight_fetches self)\<rparr>"

definition end_fetch :: "int list \<Rightarrow> int \<Rightarrow> id_generator \<Rightarrow> int list py \<times> id_generator" where
  "end_fetch stream_ids current_max self =
     (let unfinished = sort (remdups (unfinished_ids self @ stream_ids));
          self = self\<lparr>unfinished_ids := unfinished\<rparr>
      in if unfinished = [] then (Inl IndexError, remove_fetch current_max self)
         else (Inr stream_ids, remove_fetch current_max
           (self\<lparr>max_seen_allocated_stream_id := max (max_seen_allocated_stream_id self) (last unfinished)\<rparr>)))"

definition load_next_mult_id_txn :: "int list py \<Rightarrow> id_generator \<Rightarrow> int list py \<times> id_generator" where
  "load_next_mult_id_txn sequence_result self =
     (let (current_max, self) = begin_fetch self
      in case sequence_result of
           Inl err \<Rightarrow> (Inl err, remove_fetch current_max self)
         | Inr stream_ids \<Rightarrow> end_fetch stream_ids current_max self)"

text \<open>The ids to return; they are marked as finished after the transaction, whether it was
  committed or not.\<close>

definition get_next_mult_txn :: "int list py \<Rightarrow> id_generator \<Rightarrow> int list py \<times> id_generator" where
  "get_next_mult_txn sequence_result self =
     (case check_writer self of
        Inl err \<Rightarrow> (Inl err, self)
      | Inr _ \<Rightarrow>
          (let (r, self') = load_next_mult_id_txn sequence_result self
           in (py_bind r (\<lambda>next_ids. Inr (map (\<lambda>i. return_factor self * i) next_ids)), self')))"

definition get_next_txn :: "int list py \<Rightarrow> id_generator \<Rightarrow> int py \<times> id_generator" where
  "get_next_txn sequence_result self =
     (case check_writer self of
        Inl err \<Rightarrow> (Inl err, self)
      | Inr _ \<Rightarrow>
          (let (r, self') = load_next_mult_id_txn sequence_result self
           in (py_bind r (\<lambda>stream_ids. case stream_ids of [] \<Rightarrow> Inl IndexError
                 | next_id # _ \<Rightarrow> Inr (return_factor self * next_id)), self')))"

section \<open>Completion\<close>

text \<open>The largest finished id below the smallest unfinished one.\<close>

definition largest_below :: "int \<Rightarrow> int list \<Rightarrow> int option" where
  "largest_below min_unfinished finished =
     fold (\<lambda>s new_cur. if s < min_unfinished
       then (case new_cur of None \<Rightarrow> Some s | Some c \<Rightarrow> if c < s then Some s else new_cur)
       else new_cur) finished None"

definition min_unfinished_id :: "id_generator \<Rightarrow> int" where
  "min_unfinished_id self =
     (if unfinished_ids self \<noteq> [] \<and> in_flight_fetches self \<noteq> []
      then min (hd (unfinished_ids self)) (hd (in_flight_fetches self) + 1)
      else if in_flight_fetches self \<noteq> [] then hd (in_flight_fetches self) + 1
      else hd (unfinished_ids self))"

definition move_position :: "int option \<Rightarrow> id_generator \<Rightarrow> id_generator" where
  "move_position new_cur self =
     (case new_cur of
        None \<Rightarrow> self
      | Some c \<Rightarrow>
          if c = 0 then self
          else let curr = dict_get_default (current_positions self) (local_instance self) 0
               in self\<lparr>current_positions := dict_set (local_instance self) (max curr c) (current_positions self),
                    max_position_of_local_instance := max (max curr c) (max_position_of_local_instance self)\<rparr>)"

definition mark_ids_as_finished :: "int list \<Rightarrow> id_generator \<Rightarrow> id_generator py" where
  "mark_ids_as_finished next_ids self0 =
     (let self = self0\<lparr>unfinished_ids := filter (\<lambda>i. i \<notin> set next_ids) (unfinished_ids self0),
            finished_ids := fold set_add next_ids (finished_ids self0)\<rparr>
      in py_bind
        (if busy self
         then let min_unfinished = min_unfinished_id self
              in Inr (largest_below min_unfinished (finished_ids self),
                      filter (\<lambda>s. \<not> s < min_unfinished) (finished_ids self))
         else if finished_ids self = [] then Inl ValueError
         else Inr (Some (Max (set (finished_ids self))), []))
        (\<lambda>(new_cur, finished).
        Inr (fold add_persisted_position next_ids (move_position new_cur (self\<lparr>finished_ids := finished\<rparr>)))))"

text \<open>The upsert into the \<open>stream_positions\<close> table, as a function of the value in the row.\<close>

definition get_current_token_for_writer :: "string \<Rightarrow> id_generator \<Rightarrow> int" where
  "get_current_token_for_writer name self =
     (if local_instance self = name then return_factor self * max_position_of_local_instance self
      else return_factor self *
        max (dict_get_default (current_positions self) name (persisted_upto_position self)) (persisted_upto_position self))"

definition update_stream_positions_table_txn :: "id_generator \<Rightarrow> int option \<Rightarrow> int option" where
  "update_stream_positions_table_txn self row =
     (if writers self = [] then row
      else let pos = get_current_token_for_writer (local_instance self) self
           in case row of None \<Rightarrow> Some pos
              | Some v \<Rightarrow> Some (if positive self then max v pos else min v pos))"

section \<open>Positions\<close>

definition get_persisted_upto_position :: "id_generator \<Rightarrow> int" where
  "get_persisted_upto_position self = return_factor self * persisted_upto_position self"

definition get_current_token :: "id_generator \<Rightarrow> int" where
  "get_current_token self = get_persisted_upto_position self"

definition get_minimal_local_current_token :: "id_generator \<Rightarrow> int" where
  "get_minimal_local_current_token self =
     return_factor self * dict_get_default (current_positions self) (local_instance self) (persisted_upto_position self)"

definition get_positions :: "id_generator \<Rightarrow> (string, int) dict" where
  "get_positions self = map (\<lambda>(name, i). (name, return_factor self * i)) (current_positions self)"

definition advance :: "string \<Rightarrow> int \<Rightarrow> id_generator \<Rightarrow> id_generator" where
  "advance name new_id0 self =
     (let new_id = new_id0 * return_factor self
      in add_persisted_position new_id (self
           \<lparr>current_positions := dict_set name (max new_id (dict_get_default (current_positions self) name 0)) (current_positions self),
            max_seen_allocated_stream_id := max (max_seen_allocated_stream_id self) new_id\<rparr>))"

section \<open>Start\<close>

text \<open>What the database holds: the rows of \<open>stream_positions\<close>, the value of the sequence (with
  PostgreSQL), and for every table of the stream its largest id, at least 1, and its rows.\<close>

record stream_db =
  stream_positions_rows :: "(string \<times> int) list"
  sequence_last_value :: "int option"
  table_max_ids :: "int list"
  table_rows :: "(string \<times> int) list list"

definition load_positions :: "stream_db \<Rightarrow> id_generator \<Rightarrow> (string, int) dict" where
  "load_positions db self =
     (let cp = (if writers self \<noteq> []
            then fold (\<lambda>(name, stream_id). dict_set name (stream_id * return_factor self))
              (filter (\<lambda>(name, _). name \<in> set (writers self)) (stream_positions_rows db)) []
            else current_positions self)
      in if local_instance self \<in> set (writers self)
         then (case sequence_last_value db of None \<Rightarrow> cp | Some v \<Rightarrow> dict_set (local_instance self) v cp)
         else cp)"

definition load_row :: "string \<times> int \<Rightarrow> id_generator \<Rightarrow> id_generator" where
  "load_row row self =
     (let stream_id = return_factor self * snd row;
          self = add_persisted_position stream_id self
      in if fst row = local_instance self
         then self\<lparr>current_positions := dict_set (fst row) stream_id (current_positions self)\<rparr>
         else self)"

definition rows_from :: "stream_db \<Rightarrow> id_generator \<Rightarrow> int \<Rightarrow> (string \<times> int) list" where
  "rows_from db self min_stream_id =
     sort_key snd (filter (\<lambda>(_, i). if positive self then min_stream_id * return_factor self \<le> i
       else min_stream_id * return_factor self \<ge> i) (concat (table_rows db)))"

definition load_current_ids :: "stream_db \<Rightarrow> id_generator \<Rightarrow> id_generator" where
  "load_current_ids db self0 =
     (let cp = load_positions db self0;
          self = self0\<lparr>current_positions := cp\<rparr>;
          self = (if cp = []
            then self\<lparr>persisted_upto_position := fold max (table_max_ids db) 1\<rparr>
            else let min_stream_id = Min (set (map snd cp))
                 in fold load_row (rows_from db self min_stream_id) (self\<lparr>persisted_upto_position := min_stream_id\<rparr>))
      in self\<lparr>current_positions :=
           fold (\<lambda>writer. dict_setdefault writer (persisted_upto_position self)) (writers self) (current_positions self)\<rparr>)"

definition new_id_generator :: "stream_db \<Rightarrow> string \<Rightarrow> string list \<Rightarrow> bool \<Rightarrow> id_generator" where
  "new_id_generator db name ws pos =
     (let self = load_current_ids db
            \<lparr>local_instance = name, writers = ws, positive = pos, current_positions = [], unfinished_ids = [],
             in_flight_fetches = [], finished_ids = [], persisted_upto_position = 1, known_persisted_positions = [],
             max_seen_allocated_stream_id = 1, max_position_of_local_instance = 1\<rparr>;
          cps = map snd (current_positions self);
          max_seen = max (if cps = [] then 1 else Max (set cps)) (persisted_upto_position self);
          self = self\<lparr>max_seen_allocated_stream_id := max_seen, max_position_of_local_instance := max_seen\<rparr>
      in if ws = []
         then self\<lparr>current_positions := dict_set name (persisted_upto_position self) (current_positions self)\<rparr>
         else self)"


section \<open>The context manager and the simple generator\<close>

text \<open>Entering the context allocates; the ids returned have the sign of the stream. Leaving it, by an
  exception or not, marks the ids as finished, and without an exception updates the row of
  \<open>stream_positions\<close>.\<close>

definition get_next :: "id_generator \<Rightarrow> unit py" where
  "get_next self = check_writer self"

definition ctx_aenter :: "int list py \<Rightarrow> id_generator \<Rightarrow> (int list \<times> int list) py \<times> id_generator" where
  "ctx_aenter sequence_result id_gen =
     (let (r, id_gen') = load_next_mult_id_txn sequence_result id_gen
      in (py_bind r (\<lambda>stream_ids. Inr (stream_ids, map (\<lambda>i. i * return_factor id_gen) stream_ids)), id_gen'))"

definition ctx_aexit :: "bool \<Rightarrow> int list \<Rightarrow> int option \<Rightarrow> id_generator \<Rightarrow> (int option \<times> id_generator) py" where
  "ctx_aexit raised stream_ids row id_gen =
     py_bind (mark_ids_as_finished stream_ids id_gen) (\<lambda>id_gen'.
     Inr (if raised then row else update_stream_positions_table_txn id_gen' row, id_gen'))"

text \<open>\<open>_load_current_id\<close>, given the largest (or, for a negative step, smallest) id in the table, and
  \<open>IdGenerator.get_next\<close>.\<close>

definition load_current_id :: "int option \<Rightarrow> int \<Rightarrow> int" where
  "load_current_id val step_size =
     (let current_id = (case val of None \<Rightarrow> step_size | Some v \<Rightarrow> if v = 0 then step_size else v)
      in if step_size > 0 then max current_id step_size else min current_id step_size)"

definition simple_get_next :: "int \<Rightarrow> int \<times> int" where
  "simple_get_next next_id = (next_id + 1, next_id + 1)"

end
