(* ===== verification/Id_Generator_Safety.thy ===== *)
theory Id_Generator_Safety
  imports Id_Generators
begin

text \<open>
  A stream with several writers, seen from one instance: the generator of the instance, the
  database sequence, the ids of the other writers and the fetches of the instance that are under
  way. Steps of the instance and of the others interleave in any order; the safety of the positions
  the generator publishes is an invariant of the steps.
\<close>

section \<open>The world\<close>

text \<open>\<open>seq\<close> is the last value of the sequence, \<open>others\<close> the ids other writers have allocated and
  not completed, and \<open>fetches\<close> the fetches between the two critical sections, each with the
  position recorded at its start and the ids the sequence has given it so far.\<close>

record world =
  gen :: id_generator
  seq :: int
  others :: "(string \<times> int) set"
  fetches :: "(int \<times> int list) list"

abbreviation our_position :: "id_generator \<Rightarrow> int" where
  "our_position g \<equiv> dict_get_default (current_positions g) (local_instance g) 0"

definition own_undone :: "world \<Rightarrow> int set" where
  "own_undone w = set (unfinished_ids (gen w)) \<union> (\<Union>f \<in> set (fetches w). set (snd f))"

inductive step :: "world \<Rightarrow> world \<Rightarrow> bool" where
  begin_fetching: "check_writer (gen w) = Inr () \<Longrightarrow> begin_fetch (gen w) = (c, g) \<Longrightarrow>
    step w (w\<lparr>gen := g, fetches := (c, []) # fetches w\<rparr>)"
| allocate: "fetches w = fs @ (c, []) # fs' \<Longrightarrow> ids \<noteq> [] \<Longrightarrow> distinct ids \<Longrightarrow> \<forall>i \<in> set ids. seq w < i \<Longrightarrow>
    step w (w\<lparr>seq := Max (set ids), fetches := fs @ (c, ids) # fs'\<rparr>)"
| end_fetching: "fetches w = fs @ (c, ids) # fs' \<Longrightarrow> ids \<noteq> [] \<Longrightarrow> end_fetch ids c (gen w) = (r, g) \<Longrightarrow>
    step w (w\<lparr>gen := g, fetches := fs @ fs'\<rparr>)"
| fail_fetching: "fetches w = fs @ (c, ids) # fs' \<Longrightarrow>
    step w (w\<lparr>gen := remove_fetch c (gen w), fetches := fs @ fs'\<rparr>)"
| finish: "ids \<noteq> [] \<Longrightarrow> set ids \<subseteq> set (unfinished_ids (gen w)) \<Longrightarrow> mark_ids_as_finished ids (gen w) = Inr g \<Longrightarrow>
    step w (w\<lparr>gen := g\<rparr>)"
| other_allocates: "n \<noteq> local_instance (gen w) \<Longrightarrow> dict_has (current_positions (gen w)) n \<Longrightarrow> seq w < i \<Longrightarrow>
    step w (w\<lparr>seq := i, others := insert (n, i) (others w)\<rparr>)"
| other_completes: "step w (w\<lparr>others := others w - {(n, i)}\<rparr>)"
| other_announces: "n \<noteq> local_instance (gen w) \<Longrightarrow> i \<le> seq w \<Longrightarrow> \<forall>u. (n, u) \<in> others w \<longrightarrow> i < u \<Longrightarrow>
    i \<notin> snd ` others w \<Longrightarrow> i \<notin> own_undone w \<Longrightarrow>
    step w (w\<lparr>gen := advance n (return_factor (gen w) * i) (gen w)\<rparr>)"

section \<open>Recording a persisted position\<close>

lemma discard_positions_spec:
  assumes "discard_positions h q = (h', q')" and "sorted h"
  shows "set h' \<subseteq> set h" and "sorted h'" and "q \<le> q'"
    and "\<And>u. q < u \<Longrightarrow> u \<notin> set h \<Longrightarrow> q' < u"
    and "\<And>s. q \<le> s \<Longrightarrow> \<forall>p \<in> set h. p \<le> s \<Longrightarrow> q' \<le> s"
proof -
  have "set h' \<subseteq> set h \<and> sorted h' \<and> q \<le> q' \<and> (\<forall>u. q < u \<longrightarrow> u \<notin> set h \<longrightarrow> q' < u) \<and>
    (\<forall>s. q \<le> s \<longrightarrow> (\<forall>p \<in> set h. p \<le> s) \<longrightarrow> q' \<le> s)"
    using assms
  proof (induction h q rule: discard_positions.induct)
    case (2 p ps q)
    show ?case
    proof (cases "p \<le> q")
      case True
      with 2 show ?thesis by auto
    next
      case False
      show ?thesis
      proof (cases "p = q + 1")
        case True
        with 2(2)[OF False True] 2(3,4) False
        have IH: "set h' \<subseteq> set ps" "sorted h'" "q + 1 \<le> q'" "\<And>u. q + 1 < u \<Longrightarrow> u \<notin> set ps \<Longrightarrow> q' < u"
          "\<And>s. q + 1 \<le> s \<Longrightarrow> \<forall>p \<in> set ps. p \<le> s \<Longrightarrow> q' \<le> s" by simp_all
        have "q' < u" if "q < u" "u \<notin> set (p # ps)" for u using IH(4)[of u] that True by simp
        moreover have "q' \<le> s" if "\<forall>p \<in> set (p # ps). p \<le> s" for s using IH(5)[of s] that True by simp
        ultimately show ?thesis using IH(1-3) by auto
      next
        case neq: False
        with 2 False show ?thesis by auto
      qed
    qed
  qed simp
  then show "set h' \<subseteq> set h" "sorted h'" "q \<le> q'" "\<And>u. q < u \<Longrightarrow> u \<notin> set h \<Longrightarrow> q' < u"
    "\<And>s. q \<le> s \<Longrightarrow> \<forall>p \<in> set h. p \<le> s \<Longrightarrow> q' \<le> s" by blast+
qed

lemma min_default_le: "p \<in> set l \<Longrightarrow> min_default l d \<le> p"
  by (auto simp: min_default_def)

lemma min_default_bound: "\<forall>p \<in> set l. p \<le> s \<Longrightarrow> d \<le> s \<Longrightarrow> min_default l d \<le> s"
  using Min_in[of "set l"] by (auto simp: min_default_def simp del: Min_le_iff)

text \<open>
  What makes the positions of a generator safe, given the ids that are not completed: those of
  other writers (\<open>Oth\<close>) and its own (\<open>Own\<close>).
\<close>

definition safe :: "(string \<times> int) set \<Rightarrow> int set \<Rightarrow> id_generator \<Rightarrow> bool" where
  "safe Oth Own g \<longleftrightarrow>
     (\<forall>(n, u) \<in> Oth. n \<noteq> local_instance g \<and> persisted_upto_position g < u \<and>
        (\<exists>p. dict_get (current_positions g) n = Some p \<and> p < u)) \<and>
     (\<forall>u \<in> Own. persisted_upto_position g < u \<and> max_position_of_local_instance g < u \<and> our_position g < u) \<and>
     (Own \<noteq> {} \<longrightarrow> busy g) \<and> (busy g \<longrightarrow> 0 < our_position g) \<and>
     sorted (known_persisted_positions g) \<and>
     (\<forall>p \<in> set (known_persisted_positions g). p \<notin> snd ` Oth \<and> p \<notin> Own)"

lemma safeI:
  assumes "\<And>n u. (n, u) \<in> Oth \<Longrightarrow> n \<noteq> local_instance g \<and> persisted_upto_position g < u"
    and "\<And>n u. (n, u) \<in> Oth \<Longrightarrow> \<exists>p. dict_get (current_positions g) n = Some p \<and> p < u"
    and "\<And>u. u \<in> Own \<Longrightarrow> persisted_upto_position g < u \<and> max_position_of_local_instance g < u \<and> our_position g < u"
    and "\<And>u. u \<in> Own \<Longrightarrow> busy g" and "busy g \<Longrightarrow> 0 < our_position g"
    and "sorted (known_persisted_positions g)"
    and "\<And>p n. p \<in> set (known_persisted_positions g) \<Longrightarrow> (n, p) \<notin> Oth \<and> p \<notin> Own"
  shows "safe Oth Own g"
proof -
  have "p \<notin> snd ` Oth" if "p \<in> set (known_persisted_positions g)" for p using assms(7)[OF that] by auto
  with assms show ?thesis unfolding safe_def by blast
qed

lemma safe_otherD: "safe Oth Own g \<Longrightarrow> (n, u) \<in> Oth \<Longrightarrow> n \<noteq> local_instance g \<and> persisted_upto_position g < u"
  unfolding safe_def by blast

lemma safe_positionD: "safe Oth Own g \<Longrightarrow> (n, u) \<in> Oth \<Longrightarrow> \<exists>p. dict_get (current_positions g) n = Some p \<and> p < u"
  unfolding safe_def by blast

lemma safe_ownD: "safe Oth Own g \<Longrightarrow> u \<in> Own \<Longrightarrow>
    persisted_upto_position g < u \<and> max_position_of_local_instance g < u \<and> our_position g < u"
  unfolding safe_def by blast

lemma safe_busyD: "safe Oth Own g \<Longrightarrow> u \<in> Own \<Longrightarrow> busy g" "safe Oth Own g \<Longrightarrow> busy g \<Longrightarrow> 0 < our_position g"
  unfolding safe_def by blast+

lemma safe_knownD: "safe Oth Own g \<Longrightarrow> p \<in> set (known_persisted_positions g) \<Longrightarrow> (n, p) \<notin> Oth \<and> p \<notin> Own"
  unfolding safe_def by force

lemma safe_sortedD: "safe Oth Own g \<Longrightarrow> sorted (known_persisted_positions g)"
  unfolding safe_def by blast

lemmas safe_dests = safe_otherD safe_positionD safe_ownD safe_busyD safe_knownD

text \<open>No position is beyond the sequence.\<close>

definition below :: "int \<Rightarrow> id_generator \<Rightarrow> bool" where
  "below s g \<longleftrightarrow>
     0 \<le> s \<and> persisted_upto_position g \<le> s \<and> max_position_of_local_instance g \<le> s \<and>
     max_seen_allocated_stream_id g \<le> s \<and> (\<forall>(n, p) \<in> set (current_positions g). p \<le> s) \<and>
     (\<forall>p \<in> set (known_persisted_positions g). p \<le> s) \<and> (\<forall>p \<in> set (finished_ids g). p \<le> s)"

lemma our_position_below: "below s g \<Longrightarrow> our_position g \<le> s"
  by (auto simp: below_def dict_get_default_def dest!: map_of_SomeD split: option.splits)

definition candidate_position :: "id_generator \<Rightarrow> int" where
  "candidate_position g =
     (let m = min_default (map snd (filter (\<lambda>(name, _). name \<noteq> local_instance g) (current_positions g))) (our_position g)
      in if our_position g \<noteq> 0 \<and> busy g then min m (our_position g) else m)"

lemma candidate_position_safe:
  assumes "safe Oth Own g"
  shows "(n, u) \<in> Oth \<Longrightarrow> candidate_position g < u" and "u \<in> Own \<Longrightarrow> candidate_position g < u"
proof -
  let ?l = "map snd (filter (\<lambda>(name, _). name \<noteq> local_instance g) (current_positions g))"
  show "candidate_position g < u" if "(n, u) \<in> Oth"
  proof -
    from assms that obtain p where "n \<noteq> local_instance g" "dict_get (current_positions g) n = Some p" "p < u"
      unfolding safe_def by blast
    then have "p \<in> set ?l" by (force dest: map_of_SomeD)
    then have "min_default ?l (our_position g) \<le> p" by (rule min_default_le)
    with \<open>p < u\<close> show ?thesis by (auto simp: candidate_position_def Let_def)
  qed
  show "candidate_position g < u" if "u \<in> Own"
  proof -
    from assms that have "busy g" "0 < our_position g" "our_position g < u" unfolding safe_def by blast+
    then show ?thesis by (auto simp: candidate_position_def Let_def)
  qed
qed

lemma candidate_position_below: "below s g \<Longrightarrow> candidate_position g \<le> s"
proof -
  assume b: "below s g"
  let ?l = "map snd (filter (\<lambda>(name, _). name \<noteq> local_instance g) (current_positions g))"
  have "min_default ?l (our_position g) \<le> s"
    using b our_position_below[OF b] by (intro min_default_bound) (auto simp: below_def)
  then show ?thesis by (auto simp: candidate_position_def Let_def)
qed

lemma add_persisted_position_eq:
  obtains h q where "discard_positions (insort i (known_persisted_positions g))
      (max (candidate_position g) (persisted_upto_position g)) = (h, q)"
    and "add_persisted_position i g = g\<lparr>known_persisted_positions := h, persisted_upto_position := q,
      max_position_of_local_instance :=
        (let m = max (max_position_of_local_instance g) (max (candidate_position g) (persisted_upto_position g))
         in if \<not> busy g then max (max_seen_allocated_stream_id g) m else m)\<rparr>"
  by (cases "discard_positions (insort i (known_persisted_positions g))
      (max (candidate_position g) (persisted_upto_position g))")
    (simp add: add_persisted_position_def candidate_position_def heapq_heappush_def Let_def)

lemma add_persisted_position_safe:
  assumes s: "safe Oth Own g" and i: "i \<notin> snd ` Oth" "i \<notin> Own"
  shows "safe Oth Own (add_persisted_position i g)"
    and "persisted_upto_position g \<le> persisted_upto_position (add_persisted_position i g)"
proof -
  obtain h q where d: "discard_positions (insort i (known_persisted_positions g))
      (max (candidate_position g) (persisted_upto_position g)) = (h, q)"
    and g': "add_persisted_position i g = g\<lparr>known_persisted_positions := h, persisted_upto_position := q,
      max_position_of_local_instance :=
        (let m = max (max_position_of_local_instance g) (max (candidate_position g) (persisted_upto_position g))
         in if \<not> busy g then max (max_seen_allocated_stream_id g) m else m)\<rparr>"
    by (rule add_persisted_position_eq)
  have "sorted (insort i (known_persisted_positions g))" using s by (simp add: safe_def sorted_insort)
  note spec = discard_positions_spec[OF d this]
  show "persisted_upto_position g \<le> persisted_upto_position (add_persisted_position i g)"
    using spec(3) by (simp add: g')
  have known: "u \<notin> set (insort i (known_persisted_positions g))" if "u \<in> snd ` Oth \<union> Own" for u
    using s i that unfolding safe_def by (auto simp: set_insort_key)
  have q: "q < u" if "u \<in> snd ` Oth \<union> Own" for u
  proof (rule spec(4)[OF _ known[OF that]])
    show "max (candidate_position g) (persisted_upto_position g) < u"
      using that candidate_position_safe[OF s] s unfolding safe_def by fastforce
  qed
  have own: "max (max_position_of_local_instance g) (max (candidate_position g) (persisted_upto_position g)) < u" "busy g"
    if "u \<in> Own" for u
    using that candidate_position_safe(2)[OF s] s unfolding safe_def by auto
  have same: "our_position (add_persisted_position i g) = our_position g" "busy (add_persisted_position i g) = busy g"
    by (simp_all add: g' busy_def)
  have max_pos: "max_position_of_local_instance (add_persisted_position i g) < u" if "u \<in> Own" for u
    using own[OF that] by (simp add: g' Let_def)
  show "safe Oth Own (add_persisted_position i g)"
    unfolding safe_def same
  proof (intro conjI)
    show "\<forall>(n, u) \<in> Oth. n \<noteq> local_instance (add_persisted_position i g) \<and>
        persisted_upto_position (add_persisted_position i g) < u \<and>
        (\<exists>p. dict_get (current_positions (add_persisted_position i g)) n = Some p \<and> p < u)"
    proof -
      have "n \<noteq> local_instance g \<and> q < u \<and> (\<exists>p. dict_get (current_positions g) n = Some p \<and> p < u)"
        if nu: "(n, u) \<in> Oth" for n u
        using s nu q[of u] rev_image_eqI[OF nu, of u snd] unfolding safe_def by fastforce
      then show ?thesis by (auto simp: g')
    qed
    show "\<forall>u \<in> Own. persisted_upto_position (add_persisted_position i g) < u \<and>
        max_position_of_local_instance (add_persisted_position i g) < u \<and> our_position g < u"
      using s q max_pos unfolding safe_def by (auto simp: g')
    show "Own \<noteq> {} \<longrightarrow> busy g" "busy g \<longrightarrow> 0 < our_position g" using s unfolding safe_def by blast+
    show "sorted (known_persisted_positions (add_persisted_position i g))" using spec(2) by (simp add: g')
    show "\<forall>p \<in> set (known_persisted_positions (add_persisted_position i g)). p \<notin> snd ` Oth \<and> p \<notin> Own"
      using known spec(1) by (auto simp: g')
  qed
qed


lemma add_persisted_position_same [simp]:
  "local_instance (add_persisted_position i g) = local_instance g"
  "writers (add_persisted_position i g) = writers g"
  "positive (add_persisted_position i g) = positive g"
  "current_positions (add_persisted_position i g) = current_positions g"
  "unfinished_ids (add_persisted_position i g) = unfinished_ids g"
  "in_flight_fetches (add_persisted_position i g) = in_flight_fetches g"
  "finished_ids (add_persisted_position i g) = finished_ids g"
  "max_seen_allocated_stream_id (add_persisted_position i g) = max_seen_allocated_stream_id g"
  by (rule add_persisted_position_eq[of i g], simp)+

lemma add_persisted_position_below:
  assumes b: "below s g" and i: "i \<le> s" and k: "sorted (known_persisted_positions g)"
  shows "below s (add_persisted_position i g)"
proof -
  obtain h q where d: "discard_positions (insort i (known_persisted_positions g))
      (max (candidate_position g) (persisted_upto_position g)) = (h, q)"
    and g': "add_persisted_position i g = g\<lparr>known_persisted_positions := h, persisted_upto_position := q,
      max_position_of_local_instance :=
        (let m = max (max_position_of_local_instance g) (max (candidate_position g) (persisted_upto_position g))
         in if \<not> busy g then max (max_seen_allocated_stream_id g) m else m)\<rparr>"
    by (rule add_persisted_position_eq)
  have "sorted (insort i (known_persisted_positions g))" using k by (simp add: sorted_insort)
  note spec = discard_positions_spec[OF d this]
  have c: "max (candidate_position g) (persisted_upto_position g) \<le> s"
    using candidate_position_below[OF b] b by (simp add: below_def)
  have known: "\<forall>p \<in> set (insort i (known_persisted_positions g)). p \<le> s"
    using b i by (auto simp: below_def set_insort_key)
  from spec(5)[OF c known] c known spec(1) b show ?thesis
    by (auto simp: below_def g' Let_def)
qed

lemma add_persisted_positions:
  assumes "safe Oth Own g" and "below s g" and "\<forall>i \<in> set ids. i \<notin> snd ` Oth \<and> i \<notin> Own \<and> i \<le> s"
  shows "safe Oth Own (fold add_persisted_position ids g) \<and> below s (fold add_persisted_position ids g) \<and>
    persisted_upto_position g \<le> persisted_upto_position (fold add_persisted_position ids g)"
  using assms
proof (induction ids arbitrary: g)
  case (Cons i ids)
  let ?g = "add_persisted_position i g"
  have "safe Oth Own ?g" "persisted_upto_position g \<le> persisted_upto_position ?g"
    using add_persisted_position_safe[OF Cons.prems(1)] Cons.prems(3) by auto
  moreover have "below s ?g"
    using add_persisted_position_below[OF Cons.prems(2)] Cons.prems(1,3) by (auto simp: safe_def)
  ultimately show ?case using Cons.IH[of ?g] Cons.prems(3) by fastforce
qed simp

lemma fold_add_same [simp]:
  "local_instance (fold add_persisted_position ids g) = local_instance g"
  "writers (fold add_persisted_position ids g) = writers g"
  "positive (fold add_persisted_position ids g) = positive g"
  "current_positions (fold add_persisted_position ids g) = current_positions g"
  "unfinished_ids (fold add_persisted_position ids g) = unfinished_ids g"
  "in_flight_fetches (fold add_persisted_position ids g) = in_flight_fetches g"
  "finished_ids (fold add_persisted_position ids g) = finished_ids g"
  by (induction ids arbitrary: g) simp_all

section \<open>The invariant\<close>

definition world_inv :: "world \<Rightarrow> bool" where
  "world_inv w \<longleftrightarrow>
     safe (others w) (own_undone w) (gen w) \<and> below (seq w) (gen w) \<and>
     sorted (unfinished_ids (gen w)) \<and> in_flight_fetches (gen w) = sort (map fst (fetches w)) \<and>
     distinct (unfinished_ids (gen w) @ concat (map snd (fetches w))) \<and>
     (\<forall>(c, ids) \<in> set (fetches w). c \<le> seq w \<and> (\<forall>i \<in> set ids. c < i)) \<and>
     (\<forall>u \<in> own_undone w. u \<le> seq w) \<and> (\<forall>(n, u) \<in> others w. u \<le> seq w) \<and>
     snd ` others w \<inter> own_undone w = {} \<and>
     (\<forall>p \<in> set (finished_ids (gen w)). p \<notin> own_undone w) \<and>
     (check_writer (gen w) = Inr () \<longrightarrow> 1 \<le> our_position (gen w))"

text \<open>A change of the generator that keeps its positions.\<close>

lemma safe_same_positions:
  assumes "safe Oth Own g" and "local_instance g' = local_instance g" and "current_positions g' = current_positions g"
    and "persisted_upto_position g' = persisted_upto_position g"
    and "max_position_of_local_instance g' = max_position_of_local_instance g"
    and "known_persisted_positions g' = known_persisted_positions g"
    and "Oth' \<subseteq> Oth" and "Own' \<subseteq> Own" and "Own' \<noteq> {} \<longrightarrow> busy g'" and "busy g' \<longrightarrow> 0 < our_position g"
  shows "safe Oth' Own' g'"
  unfolding safe_def assms(2-6)
proof (intro conjI)
  note s = assms(1)[unfolded safe_def]
  show "\<forall>(n, u) \<in> Oth'. n \<noteq> local_instance g \<and> persisted_upto_position g < u \<and>
      (\<exists>p. dict_get (current_positions g) n = Some p \<and> p < u)" using s assms(7) by blast
  show "\<forall>u \<in> Own'. persisted_upto_position g < u \<and> max_position_of_local_instance g < u \<and> our_position g < u"
    using s assms(8) by blast
  show "Own' \<noteq> {} \<longrightarrow> busy g'" "busy g' \<longrightarrow> 0 < our_position g" by fact+
  show "sorted (known_persisted_positions g)" using s by blast
  show "\<forall>p \<in> set (known_persisted_positions g). p \<notin> snd ` Oth' \<and> p \<notin> Own'" using s assms(7,8) by blast
qed

lemma below_mono: "below s g \<Longrightarrow> s \<le> s' \<Longrightarrow> below s' g"
  unfolding below_def by fastforce

text \<open>Ids fresh from the sequence are above every position.\<close>

lemma safe_allocate:
  assumes "safe Oth Own g" and "below s g" and "\<forall>i \<in> I. s < i" and "busy g"
  shows "safe Oth (Own \<union> I) g"
proof -
  have b: "persisted_upto_position g \<le> s" "max_position_of_local_instance g \<le> s" "our_position g \<le> s"
    "\<And>p. p \<in> set (known_persisted_positions g) \<Longrightarrow> p \<le> s"
    using assms(2) our_position_below[OF assms(2)] by (auto simp: below_def)
  show ?thesis
  proof (rule safeI)
    fix u assume "u \<in> Own \<union> I"
    with assms(3) b safe_ownD[OF assms(1), of u]
    show "persisted_upto_position g < u \<and> max_position_of_local_instance g < u \<and> our_position g < u" by force
  next
    fix p n assume "p \<in> set (known_persisted_positions g)"
    with assms(3) b(4) safe_knownD[OF assms(1), of p n] show "(n, p) \<notin> Oth \<and> p \<notin> Own \<union> I" by force
  qed (use assms(4) in \<open>auto dest: safe_dests[OF assms(1)] simp: safe_sortedD[OF assms(1)]\<close>)
qed

lemma safe_other_allocates:
  assumes "safe Oth Own g" and "below s g" and "s < i" and "n \<noteq> local_instance g" and "dict_has (current_positions g) n"
  shows "safe (insert (n, i) Oth) Own g"
proof -
  from assms(5) obtain p where p: "dict_get (current_positions g) n = Some p" by (auto simp: dict_has_def)
  with assms(2,3) have "p < i" by (auto simp: below_def dest!: map_of_SomeD)
  have b: "persisted_upto_position g \<le> s" "\<And>p. p \<in> set (known_persisted_positions g) \<Longrightarrow> p \<le> s"
    using assms(2) by (auto simp: below_def)
  show ?thesis
  proof (rule safeI)
    fix m u assume mu: "(m, u) \<in> insert (n, i) Oth"
    show "m \<noteq> local_instance g \<and> persisted_upto_position g < u"
      using mu safe_otherD[OF assms(1), of m u] b(1) assms(3,4) by auto
    show "\<exists>p. dict_get (current_positions g) m = Some p \<and> p < u"
      using mu safe_positionD[OF assms(1), of m u] p \<open>p < i\<close> by auto
  next
    fix q m assume "q \<in> set (known_persisted_positions g)"
    with assms(3) b(2) safe_knownD[OF assms(1), of q m] show "(m, q) \<notin> insert (n, i) Oth \<and> q \<notin> Own" by force
  qed (auto dest: safe_dests[OF assms(1)] simp: safe_sortedD[OF assms(1)])
qed

lemma remove1_sort: "remove1 x (sort xs) = sort (remove1 x (xs :: int list))"
proof (rule properties_for_sort[symmetric])
  show "mset (remove1 x (sort xs)) = mset (remove1 x xs)" by simp
  show "sorted (remove1 x (sort xs))" by (simp add: sorted_remove1)
qed

lemma remove_fetch_sorted:
  "remove1 c (sort (map fst (fs @ (c, ids) # fs'))) = sort (map fst (fs @ fs') :: int list)"
  by (rule properties_for_sort[symmetric]) (simp_all add: sorted_remove1)


lemma world_invD:
  assumes "world_inv w"
  shows "safe (others w) (own_undone w) (gen w)" "below (seq w) (gen w)" "sorted (unfinished_ids (gen w))"
    "in_flight_fetches (gen w) = sort (map fst (fetches w))"
    "distinct (unfinished_ids (gen w) @ concat (map snd (fetches w)))"
    "\<And>c ids i. (c, ids) \<in> set (fetches w) \<Longrightarrow> c \<le> seq w \<and> (i \<in> set ids \<longrightarrow> c < i)"
    "\<And>u. u \<in> own_undone w \<Longrightarrow> u \<le> seq w" "\<And>n u. (n, u) \<in> others w \<Longrightarrow> u \<le> seq w"
    "\<And>n u. (n, u) \<in> others w \<Longrightarrow> u \<notin> own_undone w"
    "\<And>p. p \<in> set (finished_ids (gen w)) \<Longrightarrow> p \<notin> own_undone w"
    "check_writer (gen w) = Inr () \<Longrightarrow> 1 \<le> our_position (gen w)"
  using assms unfolding world_inv_def by fastforce+

lemma world_invI:
  assumes "safe (others w) (own_undone w) (gen w)" "below (seq w) (gen w)" "sorted (unfinished_ids (gen w))"
    "in_flight_fetches (gen w) = sort (map fst (fetches w))"
    "distinct (unfinished_ids (gen w) @ concat (map snd (fetches w)))"
    "\<And>c ids i. (c, ids) \<in> set (fetches w) \<Longrightarrow> c \<le> seq w \<and> (i \<in> set ids \<longrightarrow> c < i)"
    "\<And>u. u \<in> own_undone w \<Longrightarrow> u \<le> seq w" "\<And>n u. (n, u) \<in> others w \<Longrightarrow> u \<le> seq w"
    "\<And>n u. (n, u) \<in> others w \<Longrightarrow> u \<notin> own_undone w"
    "\<And>p. p \<in> set (finished_ids (gen w)) \<Longrightarrow> p \<notin> own_undone w"
    "check_writer (gen w) = Inr () \<Longrightarrow> 1 \<le> our_position (gen w)"
  shows "world_inv w"
  unfolding world_inv_def using assms(1-5,7-11) assms(6) by (auto 0 3)

lemma busy_fetches: "world_inv w \<Longrightarrow> busy (gen w) \<longleftrightarrow> unfinished_ids (gen w) \<noteq> [] \<or> fetches w \<noteq> []"
  by (auto simp: busy_def world_invD(4)) (metis length_0_conv length_map length_sort)+

lemma inv_begin:
  assumes inv: "world_inv w" and "check_writer (gen w) = Inr ()" and "begin_fetch (gen w) = (c, g)"
  shows "world_inv (w\<lparr>gen := g, fetches := (c, []) # fetches w\<rparr>)"
proof -
  note d = world_invD[OF inv]
  have g: "g = gen w\<lparr>in_flight_fetches := insort c (in_flight_fetches (gen w))\<rparr>" and c: "c = max_seen_allocated_stream_id (gen w)"
    using assms(3) by (auto simp: begin_fetch_def Let_def)
  have own: "own_undone (w\<lparr>gen := gen w\<lparr>in_flight_fetches := X\<rparr>, fetches := (c, []) # fetches w\<rparr>) = own_undone w" for X
    by (simp add: own_undone_def)
  have "safe (others w) (own_undone w) g"
    using d(11)[OF assms(2)] by (intro safe_same_positions[OF d(1)]) (auto simp: g busy_def)
  moreover have "below (seq w) g" using d(2) by (simp add: g below_def)
  moreover have "c \<le> seq w" using d(2) by (simp add: c below_def)
  ultimately show ?thesis
    using d(3-11) by (intro world_invI) (auto simp: own g check_writer_def)
qed

lemma inv_allocate:
  assumes inv: "world_inv w" and fs: "fetches w = fs @ (c, []) # fs'"
    and ids: "ids \<noteq> []" "distinct ids" "\<forall>i \<in> set ids. seq w < i"
  shows "world_inv (w\<lparr>seq := Max (set ids), fetches := fs @ (c, ids) # fs'\<rparr>)"
proof -
  note d = world_invD[OF inv]
  let ?w = "w\<lparr>seq := Max (set ids), fetches := fs @ (c, ids) # fs'\<rparr>"
  have own: "own_undone ?w = own_undone w \<union> set ids" by (auto simp: own_undone_def fs)
  have le: "seq w \<le> Max (set ids)" using ids Max_in[of "set ids"] by fastforce
  have "busy (gen w)" by (simp add: busy_fetches[OF inv] fs)
  then have "safe (others w) (own_undone w \<union> set ids) (gen w)" by (rule safe_allocate[OF d(1,2) ids(3)])
  moreover have "below (Max (set ids)) (gen w)" by (rule below_mono[OF d(2) le])
  moreover have "distinct (unfinished_ids (gen w) @ concat (map snd (fs @ (c, ids) # fs')))"
  proof -
    have old: "j \<le> seq w" if "j \<in> set (unfinished_ids (gen w)) \<union> set (concat (map snd (fs @ fs')))" for j
      using d(7)[of j] that by (auto simp: own_undone_def fs)
    have "set ids \<inter> (set (unfinished_ids (gen w)) \<union> set (concat (map snd (fs @ fs')))) = {}"
      using ids(3) old by force
    with d(5) ids(2) show ?thesis unfolding fs by auto
  qed
  moreover have "(c', ids') \<in> set (fs @ (c, ids) # fs') \<Longrightarrow> c' \<le> Max (set ids) \<and> (i \<in> set ids' \<longrightarrow> c' < i)" for c' ids' i
    using d(6)[of c' ids' i] d(6)[of c "[]"] ids(3) le by (fastforce simp: fs)
  moreover have "p \<in> set (finished_ids (gen w)) \<Longrightarrow> p \<notin> set ids" for p using d(2) ids(3) by (force simp: below_def)
  moreover have "(n, u) \<in> others w \<Longrightarrow> u \<notin> set ids" for n u using d(8)[of n u] ids(3) by force
  moreover have "u \<in> own_undone ?w \<Longrightarrow> u \<le> Max (set ids)" for u using d(7)[of u] le by (auto simp: own)
  moreover have "(n, u) \<in> others w \<Longrightarrow> u \<le> Max (set ids)" for n u using d(8)[of n u] le by simp
  ultimately show ?thesis
    using d(3,4,9-11) by (intro world_invI) (auto simp: own fs)
qed


lemma inv_fail:
  assumes inv: "world_inv w" and fs: "fetches w = fs @ (c, ids) # fs'"
  shows "world_inv (w\<lparr>gen := remove_fetch c (gen w), fetches := fs @ fs'\<rparr>)"
proof -
  note d = world_invD[OF inv]
  let ?g = "remove_fetch c (gen w)" and ?w = "w\<lparr>gen := remove_fetch c (gen w), fetches := fs @ fs'\<rparr>"
  have own: "own_undone ?w \<subseteq> own_undone w" by (auto simp: own_undone_def fs remove_fetch_def)
  have fl: "in_flight_fetches ?g = sort (map fst (fs @ fs'))"
    using remove_fetch_sorted[of c fs ids fs'] d(4) by (simp add: remove_fetch_def fs)
  have busy: "busy ?g \<longleftrightarrow> unfinished_ids (gen w) \<noteq> [] \<or> fs @ fs' \<noteq> []"
    unfolding busy_def fl by (auto simp: remove_fetch_def) (metis length_0_conv length_append length_map length_sort add_is_0)+
  have "safe (others w) (own_undone ?w) ?g"
  proof (rule safe_same_positions[OF d(1)])
    show "own_undone ?w \<noteq> {} \<longrightarrow> busy ?g" unfolding busy by (auto simp: own_undone_def remove_fetch_def)
    show "busy ?g \<longrightarrow> 0 < our_position (gen w)"
      using safe_busyD(2)[OF d(1)] busy_fetches[OF inv] by (auto simp: fs)
  qed (use own in \<open>simp_all add: remove_fetch_def\<close>)
  moreover have "below (seq w) ?g" using d(2) by (simp add: remove_fetch_def below_def)
  moreover have "distinct (unfinished_ids ?g @ concat (map snd (fs @ fs')))"
    using d(5) by (auto simp: fs remove_fetch_def)
  moreover have "(c', ids') \<in> set (fs @ fs') \<Longrightarrow> c' \<le> seq w \<and> (i \<in> set ids' \<longrightarrow> c' < i)" for c' ids' i
    using d(6)[of c' ids' i] by (auto simp: fs)
  moreover have "sorted (unfinished_ids ?g)" "finished_ids ?g = finished_ids (gen w)" "check_writer ?g = check_writer (gen w)"
    "our_position ?g = our_position (gen w)"
    using d(3) by (simp_all add: remove_fetch_def check_writer_def)
  ultimately show ?thesis
    using own d(7-11) fl by (intro world_invI) auto
qed

lemma inv_end:
  assumes inv: "world_inv w" and fs: "fetches w = fs @ (c, ids) # fs'" and ids: "ids \<noteq> []"
    and e: "end_fetch ids c (gen w) = (r, g)"
  shows "world_inv (w\<lparr>gen := g, fetches := fs @ fs'\<rparr>)"
proof -
  note d = world_invD[OF inv]
  define unf where "unf = sort (remdups (unfinished_ids (gen w) @ ids))"
  have ne: "unf \<noteq> []" using ids by (simp add: unf_def) (metis length_0_conv length_sort remdups_eq_nil_iff append_is_Nil_conv)
  have set_unf: "set unf = set (unfinished_ids (gen w)) \<union> set ids" by (simp add: unf_def)
  have g: "g = remove_fetch c (gen w\<lparr>unfinished_ids := unf,
      max_seen_allocated_stream_id := max (max_seen_allocated_stream_id (gen w)) (last unf)\<rparr>)"
    using e ne by (simp add: end_fetch_def Let_def flip: unf_def)
  let ?w = "w\<lparr>gen := g, fetches := fs @ fs'\<rparr>"
  have own: "own_undone ?w = own_undone w" by (auto simp: own_undone_def fs g remove_fetch_def set_unf)
  have "safe (others w) (own_undone w) g"
  proof (rule safe_same_positions[OF d(1)])
    show "busy g \<longrightarrow> 0 < our_position (gen w)"
      using safe_busyD(2)[OF d(1)] busy_fetches[OF inv] by (simp add: fs)
  qed (use ne in \<open>simp_all add: g remove_fetch_def busy_def\<close>)
  moreover have "below (seq w) g"
  proof -
    have "last unf \<in> own_undone w" using last_in_set[OF ne] by (auto simp: own_undone_def set_unf fs)
    with d(2,7) show ?thesis by (simp add: g remove_fetch_def below_def)
  qed
  moreover have "distinct (unfinished_ids g @ concat (map snd (fs @ fs')))"
    using d(5) by (auto simp: fs g remove_fetch_def unf_def)
  moreover have "in_flight_fetches g = sort (map fst (fs @ fs'))"
    using remove_fetch_sorted[of c fs ids fs'] d(4) by (simp add: g remove_fetch_def fs)
  moreover have "(c', ids') \<in> set (fs @ fs') \<Longrightarrow> c' \<le> seq w \<and> (i \<in> set ids' \<longrightarrow> c' < i)" for c' ids' i
    using d(6)[of c' ids' i] by (auto simp: fs)
  moreover have "sorted (unfinished_ids g)" "finished_ids g = finished_ids (gen w)" "check_writer g = check_writer (gen w)"
    "our_position g = our_position (gen w)"
    by (simp_all add: g remove_fetch_def check_writer_def unf_def)
  ultimately show ?thesis
    using d(7-11) own by (intro world_invI) auto
qed

lemma inv_other_allocates:
  assumes inv: "world_inv w" and n: "n \<noteq> local_instance (gen w)" "dict_has (current_positions (gen w)) n" and i: "seq w < i"
  shows "world_inv (w\<lparr>seq := i, others := insert (n, i) (others w)\<rparr>)"
proof -
  note d = world_invD[OF inv]
  have own: "own_undone (w\<lparr>seq := i, others := insert (n, i) (others w)\<rparr>) = own_undone w" by (simp add: own_undone_def)
  have "safe (insert (n, i) (others w)) (own_undone w) (gen w)" by (rule safe_other_allocates[OF d(1,2) i n])
  moreover have "below i (gen w)" using below_mono[OF d(2)] i by simp
  moreover have "i \<notin> own_undone w" using d(7)[of i] i by auto
  moreover have "(c, ids) \<in> set (fetches w) \<Longrightarrow> c \<le> i \<and> (j \<in> set ids \<longrightarrow> c < j)" for c ids j
    using d(6)[of c ids j] i by auto
  moreover have "u \<in> own_undone w \<Longrightarrow> u \<le> i" "(m, u) \<in> others w \<Longrightarrow> u \<le> i" for m u
    using d(7)[of u] d(8)[of m u] i by auto
  ultimately show ?thesis
    using d(3-5,9-11) own by (intro world_invI) auto
qed

lemma inv_other_completes: "world_inv w \<Longrightarrow> world_inv (w\<lparr>others := others w - {(n, i)}\<rparr>)"
proof -
  assume inv: "world_inv w"
  note d = world_invD[OF inv]
  have own: "own_undone (w\<lparr>others := others w - {(n, i)}\<rparr>) = own_undone w" by (simp add: own_undone_def)
  have "safe (others w - {(n, i)}) (own_undone w) (gen w)"
    using safe_busyD[OF d(1)] by (intro safe_same_positions[OF d(1)]) auto
  with d(2-11) own show ?thesis by (intro world_invI) auto
qed


section \<open>Completing ids\<close>

lemma largest_below_spec:
  "largest_below m xs = Some c \<Longrightarrow> c \<in> set xs \<and> c < m"
proof -
  let ?f = "\<lambda>s new_cur. if s < m then (case new_cur of None \<Rightarrow> Some s | Some c \<Rightarrow> if c < s then Some s else new_cur) else new_cur"
  have "fold ?f xs acc = Some c \<Longrightarrow> c \<in> set xs \<and> c < m \<or> acc = Some c" for acc
    by (induction xs arbitrary: acc) (fastforce split: if_splits option.splits)+
  from this[of None] show "largest_below m xs = Some c \<Longrightarrow> c \<in> set xs \<and> c < m" by (simp add: largest_below_def)
qed

lemma set_fold_set_add: "set (fold set_add xs ys) = set xs \<union> set ys"
  by (induction xs arbitrary: ys) auto

text \<open>Moving the local position below everything that is not completed.\<close>

lemma move_position_safe:
  assumes s: "safe Oth Own g" and c: "\<And>x u. new_cur = Some x \<Longrightarrow> u \<in> Own \<Longrightarrow> x < u"
  shows "safe Oth Own (move_position new_cur g)"
proof (cases "new_cur = None \<or> new_cur = Some 0")
  case True
  with s show ?thesis by (auto simp: move_position_def)
next
  case False
  then obtain x where x: "new_cur = Some x" "x \<noteq> 0" by auto
  let ?g = "g\<lparr>current_positions := dict_set (local_instance g) (max (our_position g) x) (current_positions g),
     max_position_of_local_instance := max (max (our_position g) x) (max_position_of_local_instance g)\<rparr>"
  have g': "move_position new_cur g = ?g" using x by (simp add: move_position_def Let_def)
  show ?thesis
    unfolding g'
  proof (rule safeI)
    fix n u assume "(n, u) \<in> Oth"
    from safe_otherD[OF s this] safe_positionD[OF s this]
    show "n \<noteq> local_instance ?g \<and> persisted_upto_position ?g < u"
      and "\<exists>p. dict_get (current_positions ?g) n = Some p \<and> p < u" by (auto simp: alist.get_put_other)
  next
    fix u assume "u \<in> Own"
    with safe_ownD[OF s this] c[OF x(1) this]
    show "persisted_upto_position ?g < u \<and> max_position_of_local_instance ?g < u \<and> our_position ?g < u" by simp
    show "busy ?g" using safe_busyD(1)[OF s \<open>u \<in> Own\<close>] by (simp add: busy_def)
  next
    assume "busy ?g"
    then have "0 < our_position g" using safe_busyD(2)[OF s] by (simp add: busy_def)
    then show "0 < our_position ?g" by simp
  qed (auto simp: safe_sortedD[OF s] dest: safe_dests[OF s])
qed

lemma set_dict_set: "set (dict_set k v d) \<subseteq> insert (k, v) (set d)"
  by (induction d) auto

lemma move_position_below:
  assumes "below s g" and "\<And>x. new_cur = Some x \<Longrightarrow> x \<le> s"
  shows "below s (move_position new_cur g)"
proof (cases "new_cur = None \<or> new_cur = Some 0")
  case True
  with assms show ?thesis by (auto simp: move_position_def)
next
  case False
  then obtain x where x: "new_cur = Some x" "x \<noteq> 0" by auto
  have "p \<le> s" if "(n, p) \<in> set (dict_set (local_instance g) (max (our_position g) x) (current_positions g))" for n p
    using set_dict_set[THEN subsetD, OF that] assms our_position_below[OF assms(1)] x(1) by (auto simp: below_def)
  with x assms our_position_below[OF assms(1)] show ?thesis
    by (auto simp: move_position_def Let_def below_def)
qed


lemma move_position_same [simp]:
  "local_instance (move_position c g) = local_instance g" "writers (move_position c g) = writers g"
  "unfinished_ids (move_position c g) = unfinished_ids g" "in_flight_fetches (move_position c g) = in_flight_fetches g"
  "finished_ids (move_position c g) = finished_ids g"
  "known_persisted_positions (move_position c g) = known_persisted_positions g"
  "persisted_upto_position (move_position c g) = persisted_upto_position g"
  by (auto simp: move_position_def Let_def split: option.splits)

lemma our_position_move: "our_position g \<le> our_position (move_position c g)"
  by (auto simp: move_position_def Let_def split: option.splits)

text \<open>What \<open>_mark_ids_as_finished\<close> does.\<close>

lemma mark_ids_as_finished_eq:
  assumes "mark_ids_as_finished ids g0 = Inr g"
  obtains g1 new_cur finished where
    "g1 = g0\<lparr>unfinished_ids := filter (\<lambda>i. i \<notin> set ids) (unfinished_ids g0), finished_ids := finished\<rparr>"
    "set finished \<subseteq> set ids \<union> set (finished_ids g0)"
    "\<And>x. new_cur = Some x \<Longrightarrow> x \<in> set ids \<union> set (finished_ids g0) \<and> (busy g1 \<longrightarrow> x < min_unfinished_id g1)"
    "g = fold add_persisted_position ids (move_position new_cur g1)"
proof -
  let ?f = "fold set_add ids (finished_ids g0)"
  let ?g = "g0\<lparr>unfinished_ids := filter (\<lambda>i. i \<notin> set ids) (unfinished_ids g0), finished_ids := ?f\<rparr>"
  let ?m = "min_unfinished_id ?g"
  show thesis
  proof (cases "busy ?g")
    case True
    let ?g1 = "?g\<lparr>finished_ids := filter (\<lambda>s. \<not> s < ?m) ?f\<rparr>"
    have "g = fold add_persisted_position ids (move_position (largest_below ?m ?f) ?g1)"
      using assms True by (simp add: mark_ids_as_finished_def Let_def)
    then show thesis
      by (intro that[OF _ _ _, of ?g1 "filter (\<lambda>s. \<not> s < ?m) ?f" "largest_below ?m ?f"])
        (auto simp: set_fold_set_add busy_def min_unfinished_id_def dest!: largest_below_spec)
  next
    case False
    let ?g1 = "?g\<lparr>finished_ids := []\<rparr>"
    have ne: "?f \<noteq> []" and "g = fold add_persisted_position ids (move_position (Some (Max (set ?f))) ?g1)"
      using assms False by (auto simp: mark_ids_as_finished_def Let_def split: if_splits)
    moreover have "Max (set ?f) \<in> set ids \<union> set (finished_ids g0)"
      using Max_in[of "set ?f"] ne unfolding set_fold_set_add[symmetric] by simp
    moreover have "\<not> busy ?g1" using False by (simp add: busy_def)
    ultimately show thesis by (intro that[OF _ _ _, of ?g1 "[]" "Some (Max (set ?f))"]) auto
  qed
qed

lemma inv_finish:
  assumes inv: "world_inv w" and ids: "set ids \<subseteq> set (unfinished_ids (gen w))"
    and m: "mark_ids_as_finished ids (gen w) = Inr g"
  shows "world_inv (w\<lparr>gen := g\<rparr>)" and "persisted_upto_position (gen w) \<le> persisted_upto_position g"
proof -
  note d = world_invD[OF inv]
  from m obtain g1 new_cur finished where
    g1: "g1 = gen w\<lparr>unfinished_ids := filter (\<lambda>i. i \<notin> set ids) (unfinished_ids (gen w)), finished_ids := finished\<rparr>"
    and fin: "set finished \<subseteq> set ids \<union> set (finished_ids (gen w))"
    and new: "\<And>x. new_cur = Some x \<Longrightarrow> x \<in> set ids \<union> set (finished_ids (gen w)) \<and> (busy g1 \<longrightarrow> x < min_unfinished_id g1)"
    and g: "g = fold add_persisted_position ids (move_position new_cur g1)"
    by (rule mark_ids_as_finished_eq) blast
  let ?own = "own_undone (w\<lparr>gen := g\<rparr>)"
  have own: "?own = (set (unfinished_ids (gen w)) - set ids) \<union> (\<Union>f \<in> set (fetches w). set (snd f))"
    by (auto simp: own_undone_def g g1)
  have sub: "?own \<subseteq> own_undone w" unfolding own by (auto simp: own_undone_def)
  have ids_own: "i \<in> own_undone w \<and> i \<notin> ?own" if "i \<in> set ids" for i
    using that ids d(5) unfolding own by (auto simp: own_undone_def)
  have busy1: "busy g1 \<longleftrightarrow> unfinished_ids g1 \<noteq> [] \<or> fetches w \<noteq> []"
    by (auto simp: busy_def g1 d(4)) (metis length_0_conv length_map length_sort)+
  have s1: "safe (others w) ?own g1"
  proof (rule safe_same_positions[OF d(1)])
    show "?own \<noteq> {} \<longrightarrow> busy g1" unfolding busy1 own by (auto simp: g1 filter_empty_conv)
    show "busy g1 \<longrightarrow> 0 < our_position (gen w)"
      using safe_busyD(2)[OF d(1)] busy_fetches[OF inv] unfolding busy1 by (auto simp: g1)
  qed (use sub in \<open>simp_all add: g1\<close>)
  have below_min: "x < u" if x: "new_cur = Some x" and u: "u \<in> ?own" for x u
  proof -
    from s1 u have "busy g1" by (rule safe_busyD(1))
    moreover have "min_unfinished_id g1 \<le> u"
    proof (cases "u \<in> set (unfinished_ids g1)")
      case True
      have "sorted (unfinished_ids g1)" using d(3) by (simp add: g1 sorted_wrt_filter)
      with True have "hd (unfinished_ids g1) \<le> u" by (cases "unfinished_ids g1") auto
      with True show ?thesis by (auto simp: min_unfinished_id_def)
    next
      case False
      with u obtain f where f: "f \<in> set (fetches w)" "u \<in> set (snd f)" unfolding own by (auto simp: g1)
      then have "fst f < u" using d(6)[of "fst f" "snd f" u] by simp
      moreover have "fst f \<in> set (in_flight_fetches g1)" "sorted (in_flight_fetches g1)" using f(1) by (simp_all add: g1 d(4))
      then have "hd (in_flight_fetches g1) \<le> fst f" "in_flight_fetches g1 \<noteq> []"
        by (cases "in_flight_fetches g1"; auto)+
      ultimately show ?thesis by (auto simp: min_unfinished_id_def)
    qed
    ultimately show ?thesis using new[OF x] by auto
  qed
  have b1: "below (seq w) g1"
    using d(2) fin ids_own d(7) by (fastforce simp: below_def g1)
  have new_le: "x \<le> seq w" if "new_cur = Some x" for x
    using new[OF that] d(2) d(7)[of x] ids_own[of x] by (auto simp: below_def)
  have ids_ok: "\<forall>i \<in> set ids. i \<notin> snd ` others w \<and> i \<notin> ?own \<and> i \<le> seq w"
    using ids_own d(7,9) by force
  have "safe (others w) ?own (move_position new_cur g1)" by (rule move_position_safe[OF s1]) (rule below_min)
  moreover have "below (seq w) (move_position new_cur g1)" by (rule move_position_below[OF b1]) (rule new_le)
  ultimately have added: "safe (others w) ?own g \<and> below (seq w) g \<and>
      persisted_upto_position (move_position new_cur g1) \<le> persisted_upto_position g"
    unfolding g using ids_ok unfolding g by (rule add_persisted_positions)
  show "persisted_upto_position (gen w) \<le> persisted_upto_position g" using added by (simp add: g1)
  have our: "our_position (gen w) \<le> our_position g"
    using our_position_move[of g1 new_cur] by (simp add: g) (simp add: g1)
  show "world_inv (w\<lparr>gen := g\<rparr>)"
  proof (rule world_invI)
    show "safe (others (w\<lparr>gen := g\<rparr>)) ?own (gen (w\<lparr>gen := g\<rparr>))" "below (seq (w\<lparr>gen := g\<rparr>)) (gen (w\<lparr>gen := g\<rparr>))"
      using added by simp_all
    show "sorted (unfinished_ids (gen (w\<lparr>gen := g\<rparr>)))" using d(3) by (simp add: g g1 sorted_wrt_filter)
    show "distinct (unfinished_ids (gen (w\<lparr>gen := g\<rparr>)) @ concat (map snd (fetches (w\<lparr>gen := g\<rparr>))))"
      using d(5) by (auto simp: g g1)
    show "p \<notin> ?own" if "p \<in> set (finished_ids (gen (w\<lparr>gen := g\<rparr>)))" for p
    proof -
      from that fin have "p \<in> set ids \<union> set (finished_ids (gen w))" by (auto simp: g g1)
      with ids_own[of p] d(10)[of p] sub show ?thesis by auto
    qed
    show "1 \<le> our_position (gen (w\<lparr>gen := g\<rparr>))" if "check_writer (gen (w\<lparr>gen := g\<rparr>)) = Inr ()"
    proof -
      from that have "check_writer (gen w) = Inr ()" by (simp add: check_writer_def g g1)
      from d(11)[OF this] our show ?thesis by simp
    qed
  qed (use d(4,6-9) sub in \<open>auto simp: g g1\<close>)
qed


section \<open>Announcements and reachable worlds\<close>

lemma inv_announces:
  assumes inv: "world_inv w" and n: "n \<noteq> local_instance (gen w)" and i: "i \<le> seq w"
    and before: "\<forall>u. (n, u) \<in> others w \<longrightarrow> i < u" and comp: "i \<notin> snd ` others w" "i \<notin> own_undone w"
  defines "g \<equiv> advance n (return_factor (gen w) * i) (gen w)"
  shows "world_inv (w\<lparr>gen := g\<rparr>)" and "persisted_upto_position (gen w) \<le> persisted_upto_position g"
proof -
  note d = world_invD[OF inv]
  let ?p = "max i (dict_get_default (current_positions (gen w)) n 0)"
  let ?g1 = "gen w\<lparr>current_positions := dict_set n ?p (current_positions (gen w)),
     max_seen_allocated_stream_id := max (max_seen_allocated_stream_id (gen w)) i\<rparr>"
  have "return_factor (gen w) * i * return_factor (gen w) = i" by (simp add: return_factor_def)
  then have g: "g = add_persisted_position i ?g1" by (simp only: g_def advance_def Let_def)
  have own: "own_undone (w\<lparr>gen := g\<rparr>) = own_undone w" by (simp add: own_undone_def g)
  have our: "our_position ?g1 = our_position (gen w)" using n by simp
  have s1: "safe (others w) (own_undone w) ?g1"
  proof (rule safeI)
    fix m u assume mu: "(m, u) \<in> others w"
    from safe_otherD[OF d(1) mu]
    show "m \<noteq> local_instance ?g1 \<and> persisted_upto_position ?g1 < u" by simp
    from safe_positionD[OF d(1) mu] before mu
    show "\<exists>p. dict_get (current_positions ?g1) m = Some p \<and> p < u"
      by (auto simp: alist.get_put dict_get_default_def)
  next
    assume "busy ?g1"
    then have "busy (gen w)" by (simp add: busy_def)
    with safe_busyD(2)[OF d(1)] n show "0 < our_position ?g1" by simp
  next
    fix u assume "u \<in> own_undone w"
    with safe_busyD(1)[OF d(1) this] show "busy ?g1" by (simp add: busy_def)
  qed (use n in \<open>auto simp: safe_sortedD[OF d(1)] dest: safe_dests[OF d(1)]\<close>)
  have b1: "below (seq w) ?g1"
  proof -
    have "dict_get_default (current_positions (gen w)) n 0 \<le> seq w"
      using d(2) by (auto simp: below_def dict_get_default_def dest!: map_of_SomeD split: option.splits)
    with d(2) i set_dict_set[of n ?p "current_positions (gen w)"] show ?thesis
      by (auto simp: below_def dest!: subsetD)
  qed
  note added = add_persisted_position_safe[OF s1 comp, folded g]
  show "persisted_upto_position (gen w) \<le> persisted_upto_position g" using added(2) by simp
  have "below (seq w) g" unfolding g by (rule add_persisted_position_below[OF b1 i]) (use safe_sortedD[OF s1] in simp)
  moreover have "unfinished_ids g = unfinished_ids (gen w)" "in_flight_fetches g = in_flight_fetches (gen w)"
    "finished_ids g = finished_ids (gen w)" "check_writer g = check_writer (gen w)" "our_position g = our_position (gen w)"
    using n by (simp_all add: g check_writer_def)
  moreover have "u \<notin> own_undone w" if "(m, u) \<in> others w" for m u using d(9)[OF that] .
  ultimately show "world_inv (w\<lparr>gen := g\<rparr>)"
    using added(1) d(3-8,10,11) by (intro world_invI) (simp_all add: own)
qed

lemma step_inv: "step w w' \<Longrightarrow> world_inv w \<Longrightarrow> world_inv w'"
  by (induction rule: step.induct)
    (auto intro: inv_begin inv_allocate inv_end inv_fail inv_finish inv_other_allocates inv_other_completes inv_announces)

text \<open>The position up to which everything is persisted never goes back.\<close>

lemma step_monotone: "step w w' \<Longrightarrow> world_inv w \<Longrightarrow> persisted_upto_position (gen w) \<le> persisted_upto_position (gen w')"
proof (induction rule: step.induct)
  case (begin_fetching w c g)
  then show ?case by (auto simp: begin_fetch_def Let_def)
next
  case (end_fetching w fs c ids fs' r g)
  then show ?case by (auto simp: end_fetch_def remove_fetch_def Let_def split: if_splits)
next
  case (finish ids w g)
  then show ?case using inv_finish by auto
next
  case (other_announces n w i)
  then show ?case using inv_announces(2)[of w n i] by simp
qed (simp_all add: remove_fetch_def)


section \<open>The start\<close>

text \<open>
  What the database guarantees when an instance starts: no id of the instance is in use; the row of
  another writer is below the ids that writer has not completed, and a writer without a row has
  none; the rows of the tables are completed; and nothing is beyond the sequence.
\<close>

definition db_consistent :: "stream_db \<Rightarrow> string \<Rightarrow> string list \<Rightarrow> int \<Rightarrow> int \<Rightarrow> (string \<times> int) set \<Rightarrow> bool" where
  "db_consistent db name ws rf s Oth \<longleftrightarrow>
     1 \<le> s \<and> (\<forall>v. sequence_last_value db = Some v \<longrightarrow> v = s) \<and>
     (\<forall>(n, v) \<in> set (stream_positions_rows db). 1 \<le> v * rf \<and> v * rf \<le> s) \<and>
     (\<forall>(n, u) \<in> Oth. n \<noteq> name \<and> n \<in> set ws \<and> u \<le> s \<and> n \<in> fst ` set (stream_positions_rows db) \<and>
        (\<forall>v. (n, v) \<in> set (stream_positions_rows db) \<longrightarrow> v * rf < u)) \<and>
     (\<forall>(n, i) \<in> set (concat (table_rows db)). 1 \<le> rf * i \<and> rf * i \<le> s \<and> rf * i \<notin> snd ` Oth) \<and>
     (\<forall>m \<in> set (table_max_ids db). m \<le> s)"

definition load_inv :: "(string \<times> int) set \<Rightarrow> int \<Rightarrow> id_generator \<Rightarrow> bool" where
  "load_inv Oth s g \<longleftrightarrow> safe Oth {} g \<and> below s g \<and> \<not> busy g \<and> finished_ids g = [] \<and>
     (\<forall>(n, p) \<in> set (current_positions g). 1 \<le> p) \<and> 1 \<le> persisted_upto_position g"

text \<open>Without ids of its own in use, what a generator needs about its positions.\<close>

lemma load_invI:
  assumes "\<And>n u. (n, u) \<in> Oth \<Longrightarrow> n \<noteq> local_instance g \<and> persisted_upto_position g < u \<and>
      (\<exists>p. dict_get (current_positions g) n = Some p \<and> p < u)"
    and "\<And>n p. (n, p) \<in> set (current_positions g) \<Longrightarrow> 1 \<le> p \<and> p \<le> s"
    and "1 \<le> persisted_upto_position g" "persisted_upto_position g \<le> s"
    and "max_position_of_local_instance g \<le> s" "max_seen_allocated_stream_id g \<le> s"
    and "\<not> busy g" "finished_ids g = []" "sorted (known_persisted_positions g)"
    and "\<And>p n. p \<in> set (known_persisted_positions g) \<Longrightarrow> p \<le> s \<and> (n, p) \<notin> Oth"
  shows "load_inv Oth s g"
proof -
  have "safe Oth {} g" using assms(1,7,9,10) by (intro safeI) auto
  moreover have "below s g" using assms(2-6,8,10) by (auto simp: below_def)
  ultimately show ?thesis using assms(2,3,7,8) by (auto simp: load_inv_def)
qed

lemma load_invD:
  assumes "load_inv Oth s g"
  shows "\<And>n u. (n, u) \<in> Oth \<Longrightarrow> n \<noteq> local_instance g \<and> persisted_upto_position g < u \<and>
      (\<exists>p. dict_get (current_positions g) n = Some p \<and> p < u)"
    and "\<And>n p. (n, p) \<in> set (current_positions g) \<Longrightarrow> 1 \<le> p \<and> p \<le> s"
    and "1 \<le> persisted_upto_position g" "persisted_upto_position g \<le> s"
    and "max_position_of_local_instance g \<le> s" "max_seen_allocated_stream_id g \<le> s"
    and "\<not> busy g" "finished_ids g = []" "sorted (known_persisted_positions g)"
    and "\<And>p n. p \<in> set (known_persisted_positions g) \<Longrightarrow> p \<le> s \<and> (n, p) \<notin> Oth"
proof -
  have s: "safe Oth {} g" and b: "below s g" using assms by (simp_all add: load_inv_def)
  show "n \<noteq> local_instance g \<and> persisted_upto_position g < u \<and>
      (\<exists>p. dict_get (current_positions g) n = Some p \<and> p < u)" if "(n, u) \<in> Oth" for n u
    using safe_otherD[OF s that] safe_positionD[OF s that] by simp
  show "1 \<le> p \<and> p \<le> s" if "(n, p) \<in> set (current_positions g)" for n p
    using assms b that by (auto simp: load_inv_def below_def)
  show "p \<le> s \<and> (n, p) \<notin> Oth" if "p \<in> set (known_persisted_positions g)" for p n
    using safe_knownD[OF s that, of n] b that by (simp add: below_def)
  show "1 \<le> persisted_upto_position g" "persisted_upto_position g \<le> s"
    "max_position_of_local_instance g \<le> s" "max_seen_allocated_stream_id g \<le> s"
    "\<not> busy g" "finished_ids g = []"
    using assms b by (simp_all add: load_inv_def below_def)
  show "sorted (known_persisted_positions g)" by (rule safe_sortedD[OF s])
qed

lemma load_inv_position:
  assumes "load_inv Oth s g" and "n \<notin> fst ` Oth" and "1 \<le> p" and "p \<le> s"
  shows "load_inv Oth s (g\<lparr>current_positions := dict_set n p (current_positions g)\<rparr>)"
proof -
  note d = load_invD[OF assms(1)]
  have "\<And>m q. (m, q) \<in> set (dict_set n p (current_positions g)) \<Longrightarrow> 1 \<le> q \<and> q \<le> s"
    using d(2) assms(3,4) set_dict_set[of n p "current_positions g"] by blast
  moreover have "dict_get (dict_set n p (current_positions g)) m = dict_get (current_positions g) m"
    if "(m, u) \<in> Oth" for m u
    using assms(2) that by (force intro: alist.get_put_other)
  ultimately show ?thesis
    using d by (intro load_invI) (auto simp: busy_def)
qed

lemma load_row_inv:
  assumes inv: "load_inv Oth s g" and row: "1 \<le> return_factor g * i" "return_factor g * i \<le> s" "return_factor g * i \<notin> snd ` Oth"
  shows "load_inv Oth s (load_row (n, i) g)" and "return_factor (load_row (n, i) g) = return_factor g"
    and "local_instance (load_row (n, i) g) = local_instance g" "writers (load_row (n, i) g) = writers g"
proof -
  let ?i = "return_factor g * i" and ?g = "add_persisted_position (return_factor g * i) g"
  have g: "safe Oth {} g" "below s g" using inv by (simp_all add: load_inv_def)
  have "load_inv Oth s ?g"
    using add_persisted_position_safe[OF g(1) row(3)] add_persisted_position_below[OF g(2) row(2) safe_sortedD[OF g(1)]] inv
    by (auto simp: load_inv_def busy_def)
  moreover have "n \<notin> fst ` Oth" if "n = local_instance g" using load_invD(1)[OF inv] that by force
  ultimately show "load_inv Oth s (load_row (n, i) g)"
    using load_inv_position[of Oth s ?g n ?i] row by (auto simp: load_row_def Let_def)
  show "return_factor (load_row (n, i) g) = return_factor g" "local_instance (load_row (n, i) g) = local_instance g"
    "writers (load_row (n, i) g) = writers g"
    by (simp_all add: load_row_def Let_def return_factor_def)
qed

lemma load_rows_inv:
  assumes "load_inv Oth s g"
    and "\<forall>(n, i) \<in> set rows. 1 \<le> return_factor g * i \<and> return_factor g * i \<le> s \<and> return_factor g * i \<notin> snd ` Oth"
  shows "load_inv Oth s (fold load_row rows g) \<and> local_instance (fold load_row rows g) = local_instance g \<and>
    writers (fold load_row rows g) = writers g"
  using assms
proof (induction rows arbitrary: g)
  case (Cons r rows)
  obtain n i where r: "r = (n, i)" by (cases r)
  have ok: "1 \<le> return_factor g * i" "return_factor g * i \<le> s" "return_factor g * i \<notin> snd ` Oth"
    using Cons.prems(2) by (auto simp: r)
  note l = load_row_inv[OF Cons.prems(1) ok, of n]
  from Cons.IH[OF l(1)] Cons.prems(2) show ?case by (simp add: r l)
qed simp


lemma position_rows:
  "(n, p) \<in> set (fold (\<lambda>(n, v). dict_set n (v * rf)) rows cp) \<Longrightarrow>
     (n, p) \<in> set cp \<or> (\<exists>v. (n, v) \<in> set rows \<and> p = v * rf)"
proof (induction rows arbitrary: cp)
  case (Cons r rows)
  obtain m v where r: "r = (m, v)" by (cases r)
  from Cons.IH[of "dict_set m (v * rf) cp"] Cons.prems set_dict_set[of m "v * rf" cp] show ?case by (auto simp: r)
qed simp

lemma position_rows_dom:
  "n \<in> fst ` set rows \<or> dict_get cp n \<noteq> None \<Longrightarrow> dict_get (fold (\<lambda>(n, v). dict_set n (v * rf)) rows cp) n \<noteq> None"
proof (induction rows arbitrary: cp)
  case (Cons r rows)
  obtain m v where r: "r = (m, v)" by (cases r)
  have "n \<in> fst ` set rows \<or> dict_get (dict_set m (v * rf) cp) n \<noteq> None"
    using Cons.prems by (auto simp: r alist.get_put)
  from Cons.IH[OF this] show ?case by (simp add: r)
qed simp

lemma load_positions_spec:
  fixes db name ws g rf s Oth
  assumes ok: "db_consistent db name ws rf s Oth" and g: "local_instance g = name" "writers g = ws" "return_factor g = rf"
    "current_positions g = []"
  shows "(n, p) \<in> set (load_positions db g) \<Longrightarrow> 1 \<le> p \<and> p \<le> s"
    and "(n, u) \<in> Oth \<Longrightarrow> \<exists>p. dict_get (load_positions db g) n = Some p \<and> p < u"
    and "ws = [] \<Longrightarrow> load_positions db g = []"
proof -
  let ?rows = "filter (\<lambda>(name, _). name \<in> set ws) (stream_positions_rows db)"
  let ?cp = "fold (\<lambda>(name, stream_id). dict_set name (stream_id * rf)) ?rows []"
  have cp: "load_positions db g = (if ws = [] then [] else if name \<in> set ws
      then (case sequence_last_value db of None \<Rightarrow> ?cp | Some v \<Rightarrow> dict_set name v ?cp) else ?cp)"
    by (auto simp: load_positions_def g Let_def split: option.splits)
  have row: "1 \<le> v * rf \<and> v * rf \<le> s" if "(n, v) \<in> set (stream_positions_rows db)" for n v
    using ok that unfolding db_consistent_def by blast
  have s: "1 \<le> s" and seq: "sequence_last_value db = Some v \<Longrightarrow> v = s" for v
    using ok unfolding db_consistent_def by blast+
  have entries: "1 \<le> p \<and> p \<le> s" if "(n, p) \<in> set ?cp" for n p
    using position_rows[OF that] row by auto
  show "1 \<le> p \<and> p \<le> s" if "(n, p) \<in> set (load_positions db g)"
  proof -
    have "set (load_positions db g) \<subseteq> insert (name, s) (set ?cp)"
    proof (cases "sequence_last_value db")
      case (Some v)
      then have "v = s" by (rule seq)
      with Some set_dict_set[of name s ?cp] show ?thesis unfolding cp by (simp add: subset_insertI)
    next
      case None
      then show ?thesis unfolding cp by (simp add: subset_insertI)
    qed
    with that consider "(n, p) = (name, s)" | "(n, p) \<in> set ?cp" by blast
    then show ?thesis using entries s by cases auto
  qed
  show "load_positions db g = []" if "ws = []" using that by (simp add: cp)
  show "\<exists>p. dict_get (load_positions db g) n = Some p \<and> p < u" if nu: "(n, u) \<in> Oth"
  proof -
    from ok nu have n: "n \<noteq> name" "n \<in> set ws" "n \<in> fst ` set (stream_positions_rows db)"
      and lt: "\<And>v. (n, v) \<in> set (stream_positions_rows db) \<Longrightarrow> v * rf < u"
      unfolding db_consistent_def by blast+
    from n have "n \<in> fst ` set ?rows" by force
    then have "dict_get ?cp n \<noteq> None" by (intro position_rows_dom disjI1)
    then obtain p where p: "dict_get ?cp n = Some p" by blast
    with position_rows[OF map_of_SomeD[OF p]] lt have "p < u" by auto
    moreover have "dict_get (load_positions db g) n = dict_get ?cp n"
      unfolding cp using n(1,2) by (cases "sequence_last_value db") (auto simp: alist.get_put_other)
    ultimately show ?thesis using p by simp
  qed
qed

lemma setdefault_inv:
  assumes "load_inv Oth s g"
  shows "load_inv Oth s (g\<lparr>current_positions :=
     fold (\<lambda>writer. dict_setdefault writer (persisted_upto_position g)) ws (current_positions g)\<rparr>)"
  using assms
proof (induction ws arbitrary: g)
  case (Cons x ws)
  let ?g = "g\<lparr>current_positions := dict_setdefault x (persisted_upto_position g) (current_positions g)\<rparr>"
  note d = load_invD[OF Cons.prems]
  have "load_inv Oth s ?g"
  proof (cases "dict_get (current_positions g) x")
    case None
    then have "x \<notin> fst ` Oth" using d(1) by force
    from load_inv_position[OF Cons.prems this d(3,4)] None show ?thesis by (simp add: dict_setdefault_def)
  qed (use Cons.prems in \<open>simp add: dict_setdefault_def\<close>)
  from Cons.IH[OF this] show ?case by simp
qed simp

lemma setdefault_has: "x \<in> set ws \<or> dict_has d x \<Longrightarrow> dict_has (fold (\<lambda>writer. dict_setdefault writer v) ws d) x"
proof (induction ws arbitrary: d)
  case (Cons y ws)
  then have "x \<in> set ws \<or> dict_has (dict_setdefault y v d) x"
    by (auto simp: dict_has_def dict_get_setdefault split: option.splits)
  from Cons.IH[OF this] show ?case by simp
qed simp

lemma load_current_ids_inv:
  fixes g rf
  assumes ok: "db_consistent db name ws rf s Oth" and g: "local_instance g = name" "writers g = ws" "return_factor g = rf"
    and fresh: "current_positions g = []" "unfinished_ids g = []" "in_flight_fetches g = []" "finished_ids g = []"
      "known_persisted_positions g = []" "max_seen_allocated_stream_id g = 1" "max_position_of_local_instance g = 1"
  shows "load_inv Oth s (load_current_ids db g)"
    and "local_instance (load_current_ids db g) = name" "writers (load_current_ids db g) = ws"
    and "ws = [] \<Longrightarrow> current_positions (load_current_ids db g) = []"
    and "n \<in> set ws \<Longrightarrow> dict_has (current_positions (load_current_ids db g)) n"
proof -
  let ?cp = "load_positions db g"
  note cp = load_positions_spec[OF ok g fresh(1)]
  have s: "1 \<le> s" and name: "\<And>n u. (n, u) \<in> Oth \<Longrightarrow> n \<noteq> name"
    and tabs: "\<And>m. m \<in> set (table_max_ids db) \<Longrightarrow> m \<le> s"
    and rows: "\<forall>(n, i) \<in> set (concat (table_rows db)). 1 \<le> rf * i \<and> rf * i \<le> s \<and> rf * i \<notin> snd ` Oth"
    using ok unfolding db_consistent_def by blast+
  define g1 where "g1 = (if ?cp = []
      then g\<lparr>current_positions := ?cp, persisted_upto_position := fold max (table_max_ids db) 1\<rparr>
      else fold load_row (rows_from db (g\<lparr>current_positions := ?cp\<rparr>) (Min (set (map snd ?cp))))
        (g\<lparr>current_positions := ?cp, persisted_upto_position := Min (set (map snd ?cp))\<rparr>))"
  have l: "load_current_ids db g = g1\<lparr>current_positions :=
      fold (\<lambda>writer. dict_setdefault writer (persisted_upto_position g1)) (writers g1) (current_positions g1)\<rparr>"
    and g1: "load_inv Oth s g1 \<and> local_instance g1 = name \<and> writers g1 = ws"
  proof -
    show inv: "load_inv Oth s g1 \<and> local_instance g1 = name \<and> writers g1 = ws"
    proof (cases "?cp = []")
      case True
      then have "Oth = {}" using cp(2) by force
      moreover have "1 \<le> fold max ms a" "fold max ms a \<le> s" if "\<forall>m \<in> set ms. m \<le> s" "1 \<le> a" "a \<le> s" for ms a
        using that by (induction ms arbitrary: a) auto
      ultimately show ?thesis
        using True tabs s g fresh by (auto simp: g1_def busy_def intro!: load_invI)
    next
      case False
      let ?m = "Min (set (map snd ?cp))" and ?g = "g\<lparr>current_positions := ?cp, persisted_upto_position := Min (set (map snd ?cp))\<rparr>"
      have min: "?m \<in> set (map snd ?cp)" using False by (intro Min_in) auto
      have le: "?m \<le> p" if "dict_get ?cp n = Some p" for n p
        using map_of_SomeD[OF that] by (intro Min_le) force+
      have "load_inv Oth s ?g"
      proof (rule load_invI)
        fix n u assume nu: "(n, u) \<in> Oth"
        with cp(2) obtain p where "dict_get ?cp n = Some p" "p < u" by blast
        with le[of n p] name[OF nu] g show "n \<noteq> local_instance ?g \<and> persisted_upto_position ?g < u \<and>
            (\<exists>p. dict_get (current_positions ?g) n = Some p \<and> p < u)" by auto
      qed (use cp(1) min s g fresh in \<open>auto simp: busy_def\<close>)
      moreover have "return_factor ?g = rf" using g(3) by (simp add: return_factor_def)
      moreover have "\<forall>(n, i) \<in> set (rows_from db (g\<lparr>current_positions := ?cp\<rparr>) ?m). 1 \<le> rf * i \<and> rf * i \<le> s \<and> rf * i \<notin> snd ` Oth"
      proof -
        have "set (rows_from db (g\<lparr>current_positions := ?cp\<rparr>) ?m) \<subseteq> set (concat (table_rows db))"
          by (auto simp: rows_from_def)
        with rows show ?thesis by blast
      qed
      ultimately show ?thesis
        using load_rows_inv[of Oth s ?g] g False by (simp add: g1_def)
    qed
    show "load_current_ids db g = g1\<lparr>current_positions :=
      fold (\<lambda>writer. dict_setdefault writer (persisted_upto_position g1)) (writers g1) (current_positions g1)\<rparr>"
      unfolding load_current_ids_def g1_def Let_def by simp
  qed
  show "load_inv Oth s (load_current_ids db g)" unfolding l using g1 by (intro setdefault_inv) simp
  show "local_instance (load_current_ids db g) = name" "writers (load_current_ids db g) = ws" using g1 by (simp_all add: l)
  show "current_positions (load_current_ids db g) = []" if "ws = []"
    using cp(3)[OF that] g1 that by (simp add: l) (simp add: g1_def)
  show "dict_has (current_positions (load_current_ids db g)) n" if "n \<in> set ws"
    using that g1 by (simp add: l setdefault_has)
qed


text \<open>A generator that has just been loaded satisfies the invariant.\<close>

lemma new_id_generator_inv:
  assumes ok: "db_consistent db name ws (if pos then 1 else -1) s Oth"
  shows "world_inv \<lparr>gen = new_id_generator db name ws pos, seq = s, others = Oth, fetches = []\<rparr>"
proof -
  let ?g0 = "\<lparr>local_instance = name, writers = ws, positive = pos, current_positions = [], unfinished_ids = [],
     in_flight_fetches = [], finished_ids = [], persisted_upto_position = 1, known_persisted_positions = [],
     max_seen_allocated_stream_id = 1, max_position_of_local_instance = 1\<rparr>"
  define g1 where "g1 = load_current_ids db ?g0"
  have l: "load_inv Oth s g1" "local_instance g1 = name" "writers g1 = ws"
    and empty: "ws = [] \<Longrightarrow> current_positions g1 = []" and has: "\<And>n. n \<in> set ws \<Longrightarrow> dict_has (current_positions g1) n"
    unfolding g1_def by (rule load_current_ids_inv[OF ok]; simp add: return_factor_def)+
  note d = load_invD[OF l(1)]
  define m where "m = max (if map snd (current_positions g1) = [] then 1 else Max (set (map snd (current_positions g1))))
      (persisted_upto_position g1)"
  define g2 where "g2 = g1\<lparr>max_seen_allocated_stream_id := m, max_position_of_local_instance := m\<rparr>"
  have m: "m \<le> s"
  proof -
    have "p \<le> s" if "p \<in> set (map snd (current_positions g1))" for p using d(2) that by auto
    then show ?thesis using d(3,4) by (auto simp: m_def simp del: set_map)
  qed
  have g2: "load_inv Oth s g2" using d m by (intro load_invI) (auto simp: g2_def busy_def)
  let ?g = "new_id_generator db name ws pos"
  have g: "?g = (if ws = [] then g2\<lparr>current_positions := dict_set name (persisted_upto_position g2) (current_positions g2)\<rparr> else g2)"
    by (simp add: new_id_generator_def g1_def g2_def m_def Let_def)
  have name: "name \<notin> fst ` Oth" using d(1) l(2) by force
  have inv: "load_inv Oth s ?g"
    using load_inv_position[OF g2 name] d(3,4) g2 by (simp add: g g2_def)
  note e = load_invD[OF inv]
  have same: "local_instance ?g = name" "writers ?g = ws" using l by (simp_all add: g g2_def)
  have "1 \<le> our_position ?g" if "check_writer ?g = Inr ()"
  proof -
    have "ws = [] \<or> name \<in> set ws" using that by (auto simp: check_writer_def same)
    then have "dict_has (current_positions ?g) name"
      unfolding g using has[of name] by (auto simp: g2_def dict_has_def alist.get_put)
    then obtain p where p: "dict_get (current_positions ?g) name = Some p" by (auto simp: dict_has_def)
    with e(2)[OF map_of_SomeD[OF p]] show ?thesis by (simp add: same dict_get_default_def)
  qed
  moreover have "unfinished_ids ?g = []" "in_flight_fetches ?g = []" using e(7) by (auto simp: busy_def)
  moreover have "u \<le> s" if "(n, u) \<in> Oth" for n u using ok that unfolding db_consistent_def by blast
  ultimately show ?thesis
    using inv e(8) by (intro world_invI) (simp_all add: own_undone_def load_inv_def)
qed

text \<open>The worlds an instance can reach from its start.\<close>

inductive reachable :: "world \<Rightarrow> bool" where
  start: "db_consistent db name ws (if pos then 1 else -1) s Oth \<Longrightarrow>
    reachable \<lparr>gen = new_id_generator db name ws pos, seq = s, others = Oth, fetches = []\<rparr>"
| next_step: "reachable w \<Longrightarrow> step w w' \<Longrightarrow> reachable w'"

lemma reachable_inv: "reachable w \<Longrightarrow> world_inv w"
  by (induction rule: reachable.induct) (auto intro: new_id_generator_inv step_inv)


section \<open>Catching up\<close>

lemma add_persisted_catches_up:
  assumes "\<not> busy g" and "\<forall>(n, p) \<in> set (current_positions g). n = local_instance g" and "sorted (known_persisted_positions g)"
  shows "our_position g \<le> persisted_upto_position (add_persisted_position i g)"
    and "sorted (known_persisted_positions (add_persisted_position i g))"
proof -
  obtain h q where d: "discard_positions (insort i (known_persisted_positions g))
      (max (candidate_position g) (persisted_upto_position g)) = (h, q)"
    and g': "add_persisted_position i g = g\<lparr>known_persisted_positions := h, persisted_upto_position := q,
      max_position_of_local_instance :=
        (let m = max (max_position_of_local_instance g) (max (candidate_position g) (persisted_upto_position g))
         in if \<not> busy g then max (max_seen_allocated_stream_id g) m else m)\<rparr>"
    by (rule add_persisted_position_eq)
  have "sorted (insort i (known_persisted_positions g))" using assms(3) by (simp add: sorted_insort)
  note spec = discard_positions_spec[OF d this]
  have "filter (\<lambda>(name, _). name \<noteq> local_instance g) (current_positions g) = []"
    using assms(2) by (auto simp: filter_empty_conv)
  then have "candidate_position g = our_position g" using assms(1) by (simp add: candidate_position_def min_default_def)
  with spec(3) show "our_position g \<le> persisted_upto_position (add_persisted_position i g)" by (simp add: g')
  show "sorted (known_persisted_positions (add_persisted_position i g))" using spec(2) by (simp add: g')
qed

text \<open>When a sole writer has completed everything, the position reaches its last id.\<close>

lemma finish_catches_up:
  assumes m: "mark_ids_as_finished ids g = Inr g'" and "\<not> busy g'"
    and sole: "\<forall>(n, p) \<in> set (current_positions g). n = local_instance g"
    and known: "sorted (known_persisted_positions g)" and ids: "i \<in> set ids" "0 < i"
  shows "i \<le> persisted_upto_position g'"
proof -
  let ?f = "fold set_add ids (finished_ids g)"
  let ?g = "g\<lparr>unfinished_ids := filter (\<lambda>i. i \<notin> set ids) (unfinished_ids g), finished_ids := ?f\<rparr>"
  let ?m = "move_position (Some (Max (set ?f))) (?g\<lparr>finished_ids := []\<rparr>)"
  have nb: "\<not> busy ?g"
  proof -
    from m obtain g1 c where "g' = fold add_persisted_position ids (move_position c g1)"
      "unfinished_ids g1 = unfinished_ids ?g" "in_flight_fetches g1 = in_flight_fetches ?g"
      by (rule mark_ids_as_finished_eq) auto
    with assms(2) show ?thesis by (simp add: busy_def)
  qed
  have g': "g' = fold add_persisted_position ids ?m"
    using m nb by (auto simp: mark_ids_as_finished_def Let_def split: if_splits)
  have le: "i \<le> Max (set ?f)" using ids(1) by (intro Max_ge) (auto simp: set_fold_set_add)
  with ids(2) have our: "i \<le> our_position ?m" by (simp add: move_position_def Let_def)
  have m_nb: "\<not> busy ?m" using nb by (simp add: busy_def)
  have m_sole: "\<forall>(n, p) \<in> set (current_positions ?m). n = local_instance ?m"
    using sole set_dict_set[of "local_instance g" _ "current_positions g"] le ids(2)
    by (fastforce simp: move_position_def Let_def)
  have reach: "our_position h \<le> persisted_upto_position (fold add_persisted_position (j # js) h)"
    if "\<not> busy h" "\<forall>(n, p) \<in> set (current_positions h). n = local_instance h" "sorted (known_persisted_positions h)" for j js h
    using that
  proof (induction js arbitrary: j h)
    case (Cons k js)
    let ?h = "add_persisted_position j h"
    have "\<not> busy ?h" using Cons.prems(1) by (simp add: busy_def)
    with Cons.IH[of ?h k] Cons.prems add_persisted_catches_up(2)[OF Cons.prems] show ?case by simp
  qed (use add_persisted_catches_up(1) in simp)
  obtain j js where "ids = j # js" using ids(1) by (cases ids) auto
  with reach[OF m_nb m_sole, of j js] known our show ?thesis by (simp add: g')
qed

text \<open>Two writers, one of which has an id in use.\<close>

definition ex_db :: stream_db where
  "ex_db = \<lparr>stream_positions_rows = [(''w1'', 4), (''w2'', 5)], sequence_last_value = Some 7, table_max_ids = [7],
     table_rows = [[(''w1'', 7), (''w2'', 5)]]\<rparr>"

definition ex_world :: world where
  "ex_world = \<lparr>gen = new_id_generator ex_db ''w1'' [''w1'', ''w2''] True, seq = 7, others = {(''w2'', 6)}, fetches = []\<rparr>"

lemma ex_world_reachable: "reachable ex_world"
  unfolding ex_world_def by (rule reachable.start) (simp add: db_consistent_def ex_db_def)

end
