(* ===== verification/Spec2Isabelle.thy ===== *)
theory Spec2Isabelle
  imports Example_Events Example_Cache State_V1 Stream_Change_Cache Ratelimiting Stream_Token_Props Id_Generator_Safety
begin

text \<open>
  A verification library for the core of Synapse, a Matrix homeserver: the rules that decide which
  events a room accepts, the algorithms that merge divergent room states, what remains of an event
  that is redacted and who may see it, and the bookkeeping of stream positions and rate limits that
  the rest of the server builds on.

  \<^bold>\<open>The program and its parts.\<close> A room is a graph of events. Every event is checked against the
  authorization rules (\<open>synapse/event_auth.py\<close>): its size and signatures, the events it cites, and
  the state of the room before it. When servers disagree about the state, state resolution
  (\<open>synapse/state/v1.py\<close>, \<open>synapse/state/v2.py\<close>, chosen by the room version in
  \<open>synapse/api/room_versions.py\<close>) computes one state from several, calling the authorization rules
  on the conflicting events. An event can be redacted (\<open>synapse/events/utils.py\<close>); its id and its
  signatures are computed from what redaction keeps (\<open>synapse/crypto/event_signing.py\<close>). Before an
  event is handed to a user or to another server, the state of the room at the event decides whether
  they may see it (\<open>synapse/visibility.py\<close>), and the state is read through filters
  (\<open>synapse/types/state.py\<close>). What is persisted goes into streams: writers allocate stream ids
  (\<open>synapse/storage/util/id_generators.py\<close>), readers hold tokens (\<open>synapse/types/__init__.py\<close>) and
  ask caches what changed since (\<open>synapse/util/caches/stream_change_cache.py\<close>). What is read from the
  database is kept in LRU caches (\<open>synapse/util/caches/lrucache.py\<close>). Clients are slowed
  down by rate limiters (\<open>synapse/api/ratelimiting.py\<close>).

  \<^bold>\<open>Conventions.\<close> A Python function that can raise returns \<open>'a py\<close>, an error (the exception, without
  its message) or a value; loops that can raise are \<open>py_for\<close>. A dict is an association list in
  insertion order (\<open>dict_get\<close>, \<open>dict_set\<close>; the locale \<open>py_dict\<close> in \<open>Prelude\<close> holds its laws), a set is
  a list without duplicates, a \<open>str\<close> is the list of its UTF-8 bytes, a Python \<open>int\<close> is \<open>int\<close>, a float
  is an exact rational. Decoded JSON is the datatype \<open>json\<close> of \<open>Py_Json\<close>, with the Python operations
  on values of unchecked type. Code outside the repository is an argument: cryptography, base64 and
  canonical JSON (the record \<open>externals\<close>, with signing and hashing in \<open>signing_ops\<close>), what the
  storage answers about visibility (\<open>visibility_storage\<close>, \<open>visibility_store\<close>, \<open>server_storage\<close>), the event store (the record \<open>state_res_store\<close>, with the
  locale \<open>event_store\<close>), the sorted dictionary of the package sortedcontainers (the record
  \<open>sorted_dict_ops\<close>, with the locale \<open>sorted_dict\<close>), the rows and sequence values of the database.

  \<^bold>\<open>The theories.\<close>

  \<^item> \<open>Prelude\<close>, \<open>Py_Json\<close>, \<open>Py_Strings\<close>: the Python the models share, and the collections of
    simplification rules.
  \<^item> \<open>Identifiers\<close> (\<open>synapse/types/__init__.py\<close>, \<open>synapse/util/stringutils.py\<close>): parsing and
    printing of identifiers, server names, the mapping of user names.
  \<^item> \<open>Room_Versions\<close> (\<open>synapse/api/room_versions.py\<close>): all room versions and their tables.
  \<^item> \<open>Events\<close> (\<open>synapse/events/__init__.py\<close>): the fields of events that the other parts read.
  \<^item> \<open>Event_Auth\<close> (\<open>synapse/event_auth.py\<close>): every function of the file. \<open>Auth_Locality\<close> shows that
    the verdict depends only on the selected auth events, \<open>Auth_Safety\<close> gives the rules in closed
    form and their consequences.
  \<^item> \<open>Event_Objects\<close> (\<open>synapse/events/__init__.py\<close>, \<open>rust/src/events/internal_metadata.rs\<close>): event
    objects over their JSON dictionary, for every event format.
  \<^item> \<open>Event_Utils\<close> (\<open>synapse/events/utils.py\<close>): redaction, copying of fields, client formats, canonical
    JSON. \<open>Redaction\<close> gives redaction in closed form, \<open>Event_Signing\<close>
    (\<open>synapse/crypto/event_signing.py\<close>) the hashes, signatures and ids, and \<open>Redaction_Auth\<close> relates
    event objects to the records of \<open>Events\<close> and shows what redaction leaves to the auth rules.
  \<^item> \<open>State_Filter\<close> (\<open>synapse/types/state.py\<close>): the filters, the meaning of the SQL clause they
    generate, and the set of state keys each selects.
  \<^item> \<open>Visibility\<close> (\<open>synapse/visibility.py\<close>, \<open>rust/src/events/filter.rs\<close>): every function of the file;
    \<open>Visibility_Props\<close> shows what the filters for clients and servers let through.
  \<^item> \<open>Toposort\<close>, \<open>State_Store\<close>, \<open>State_V2\<close> (\<open>synapse/state/v2.py\<close>): every function of the file, with
    the cache of events threaded through. \<open>Toposort\<close> relates the sort to Kahn's algorithm through the
    locale \<open>heap_queue\<close>; \<open>State_V2_Props\<close> and \<open>State_V2_Mainline\<close> give each step a specification
    without the cache; \<open>State_V2_Resolve\<close> composes them and shows that the result does not depend on
    orders of iteration, with the locale \<open>difference_store\<close> for the auth chain queries.
  \<^item> \<open>State_V1\<close> (\<open>synapse/state/v1.py\<close>): every function of the file and where its results come from.
  \<^item> \<open>Stream_Change_Cache\<close> (\<open>synapse/util/caches/stream_change_cache.py\<close>): the cache as a state
    machine, and its queries against the history of changes.
  \<^item> \<open>Linked_List\<close> (\<open>synapse/util/linked_list.py\<close>), \<open>Lru_Cache\<close> (\<open>synapse/util/caches/lrucache.py\<close>): the
    nodes of circular lists in a store with addresses, and the cache with its entries, its list, the
    global list and its second index. \<open>Lru_Cache_Props\<close> says which list of items a cache represents,
    \<open>Lru_Cache_Refines\<close> that its operations work on that list, \<open>Lru_Cache_Expiry\<close> what the
    background walk does, \<open>Lru_Cache_Run\<close> composes them to runs (with the locale \<open>recency_cache\<close> for a
    client that reads through it), \<open>Lru_Cache_Interleave\<close> runs operations while the walk waits.
  \<^item> \<open>Id_Generators\<close> (\<open>synapse/storage/util/id_generators.py\<close>): the generator; \<open>Id_Generator_Safety\<close>
    interleaves its critical sections with the other writers and the database sequence.
  \<^item> \<open>Stream_Tokens\<close>, \<open>Stream_Token_Props\<close> (\<open>synapse/types/__init__.py\<close>): room, multi-writer, sync
    and sliding sync tokens, their order and their textual form.
  \<^item> \<open>Ratelimiting\<close> (\<open>synapse/api/ratelimiting.py\<close>): the leaky bucket and the limiter of requests.
  \<^item> \<open>Example_Room\<close>, \<open>Example_Events\<close>, \<open>Example_Cache\<close>: a small room, event objects and caches at which the properties are applied.

  \<^bold>\<open>What is shown.\<close> The properties below are grouped by component. State resolution: independence of
  orders, refinement of a cache-free specification, agreed entries kept, entries authorised, and the
  correctness of its sorts. Authorization: the membership rules in closed form, bans, removals and
  power levels safe, size limits, signatures and cited events. Redaction: the id, the signatures and the verdicts of
  the auth rules are kept. Visibility: history is shown to those the room allows, by both paths for
  clients and to servers. Filters: differences are the narrowest that cover what is left, equal
  filters are equal objects, and all readings of a filter agree. LRU cache: it behaves as a list of
  items by last use, holds the keys used last, and its background walk is safe. Streams: no change is missed by the
  cache, positions are safe under interleaving, never go back, and catch up; tokens form a lattice
  and are printed and parsed without loss. Rate limits: the rate is enforced and the time to retry
  is exact.

  \<^bold>\<open>Bounds.\<close> Loops over data are structural recursion or have a termination proof. Three follow
  pointers in the event graph (the mainline, the mainline depth, the auth chain) and take fuel;
  for the mainline sort it is shown that fuel above a rank that decreases along the auth events is
  enough, and such a rank exists when they form no cycle. The sort and the eviction loops get one step per item, which is shown to be
  enough; the walk that drops old cache entries takes fuel, and one step per entry is enough unless
  entries are added while it waits.

  \<^bold>\<open>Not modelled.\<close> SQL and the storage layer, HTTP servlets and federation transport, replication,
  configuration, logging and metrics, coroutines (a function that awaits is its sequence of
  effects) and the Rust extension but for the two parts named above. Of \<open>synapse/events/utils.py\<close> the
  serialisation of events for clients is left out. Of Python: rounding of floats, Unicode digits in \<open>int\<close>, and the
  limit on the digits of integers. An LRU cache is modelled on a
  dict, not on a \<open>TreeCache\<close>, and alone on the global list. The handlers (\<open>synapse/handlers\<close>) are
  sequences of database and network calls around the parts above and are left out with them.
\<close>

section \<open>Properties\<close>



text \<open>C2: The code of state resolution v2, which threads a cache of events through every
  step, returns exactly the states its specification allows: the specification has no cache and no
  iteration order, it only speaks of the known events, Kahn's order of the power events and the
  mainline order of the rest.\<close>

theorem resolve_refines_spec:
  assumes "event_store store" and "wf_dict em"
  shows "resolve_events_with_store fuel ext store rid rv ss (Some em) = Inr r \<longleftrightarrow>
    resolve_spec fuel ext store rid rv ss em r"
  using assms by (rule event_store.resolve_iff)

theorem resolve_refines_spec_witness:
  "resolve_spec 5 ex_externals ex_store ''!r:h'' RoomVersions_V10 [ex_state ''$t1'', ex_state ''$t2''] []
    [((EventTypes_Create, ''''), ''$c''), ((EventTypes_Member, ''@a:h''), ''$ja''),
     ((EventTypes_PowerLevels, ''''), ''$p''), ((''m.room.topic'', ''''), ''$t2'')]"
proof -
  have "event_store ex_store"
    unfolding ex_store_def by (rule memory_store.event_store_axioms)
  moreover have "wf_dict []" by (simp add: wf_dict_def)
  ultimately show ?thesis
    using ex_resolve by (subst resolve_refines_spec[symmetric]) (simp_all add: event_store.resolve_None)
qed

text \<open>C3: An entry on which all state sets agree is in the resolved state, whatever the auth
  checks of the conflicted events decide.\<close>

theorem resolve_keeps_unconflicted:
  assumes "resolve_events_with_store fuel ext store rid rv ss em = Inr r" and "unanimous ss k i"
  shows "dict_get r k = Some i"
proof -
  obtain u c where sep: "seperate ss = (u, c)" by force
  have u: "dict_get u k = Some i" and wf: "wf_dict u"
    using seperate_spec[OF sep] assms(2) by auto
  have kept: "dict_get (dict_update rs u) k = Some i" for rs
    using u wf by (simp add: dict_get_update dict_get_rev)
  from assms(1) u kept show ?thesis
    unfolding resolve_events_with_store_def sep Let_def prod.case
    by (auto simp: py_bind_Inr_iff split: if_splits)
qed

theorem resolve_keeps_unconflicted_witness:
  "dict_get [((EventTypes_Create, ''''), ''$c''), ((EventTypes_Member, ''@a:h''), ''$ja''),
     ((EventTypes_PowerLevels, ''''), ''$p''), ((''m.room.topic'', ''''), ''$t2'')]
     (EventTypes_PowerLevels, '''') = Some ''$p''"
  by (rule resolve_keeps_unconflicted[OF ex_resolve]) (simp add: unanimous_def ex_state_def)





text \<open>C6: The result of the sort depends only on the graph as a relation: neither the
  insertion order of the nodes nor the order of the edges, which Python leaves open for sets, has
  an influence.\<close>

theorem toposort_order_independent:
  assumes "wf_dict g" and "wf_dict g'" and "nodes g = nodes g'" and "edges_of g = edges_of g'"
    and "\<And>n. n \<in> nodes g \<Longrightarrow> key n = Inr (k n)"
  shows "lexicographical_topological_sort g key = lexicographical_topological_sort g' key"
proof -
  obtain xs where "lexicographical_topological_sort g key = Inr xs"
    "kahn (nodes g) (edges_of g) k {} xs" using toposort_kahn[of g key k] assms(1,5) by blast
  moreover obtain ys where "lexicographical_topological_sort g' key = Inr ys"
    "kahn (nodes g') (edges_of g') k {} ys" using toposort_kahn[of g' key k] assms(2,3,5) by auto
  ultimately show ?thesis using kahn_unique assms(3,4) by metis
qed

theorem toposort_order_independent_witness:
  "lexicographical_topological_sort [(1::nat, []), (2, [])] (\<lambda>n. Inr n) =
   lexicographical_topological_sort [(2, []), (1, [])] (\<lambda>n. Inr n)"
  by (rule toposort_order_independent[where k = "\<lambda>n. n"])
    (auto simp: wf_dict_def nodes_def edges_of_def dict_get_default_def split: if_splits)

text \<open>C7: The two loops of the mainline sort, which follow power level events from auth
  event to auth event, end when the known auth events form no cycle: with a rank that decreases
  along them as fuel, the sort never runs out.\<close>

theorem mainline_sort_returns:
  assumes "event_store store" and "auth_rank (lookup store em) r"
    and "\<And>i. pl = Some i \<Longrightarrow> r i < fuel" and "\<And>i. i \<in> set is \<Longrightarrow> dict_has em i \<and> r i < fuel"
  shows "mainline_sort fuel store rid is pl em \<noteq> Inl OutOfFuel"
proof -
  have "mainline_sort_spec fuel (lookup store em) rid is pl \<noteq> Inl OutOfFuel"
    by (rule mainline_sort_terminates[OF assms(2,3)]) (use assms(4) in auto)
  with event_store.mainline_sort_implements[OF assms(1), of "is" em fuel rid pl] assms(4) show ?thesis
    by (auto simp: implements_def split: sum.splits)
qed

theorem mainline_sort_returns_witness:
  "mainline_sort 9 ex_store ''!r:h'' [''$t1'', ''$t2''] (Some ''$p'') ex_events \<noteq> Inl OutOfFuel"
proof (rule mainline_sort_returns[where r = "\<lambda>i. if i = ''$c'' then 0 else if i = ''$ja'' then 1
    else if i = ''$p'' then 2 else 3"])
  show "event_store ex_store"
    unfolding ex_store_def by (rule memory_store.event_store_axioms)
  show "auth_rank (lookup ex_store ex_events)
     (\<lambda>i. if i = ''$c'' then 0 else if i = ''$ja'' then 1 else if i = ''$p'' then 2 else 3)"
    by (auto simp: auth_rank_def ex_store_def lookup_dict_store ex_events_def ex_create_def ex_join_a_def
        ex_power_def ex_topic_def mk_event_def split: if_splits option.splits)
qed (auto simp: dict_has_def ex_events_def)

text \<open>C8: State resolution v1 invents nothing and keeps what is agreed on: every entry of
  the resolved state is an event that one of the state sets had at that key, and a key for which
  the state sets name a single event keeps that event. The events come from a dict of event id to
  event, as the caller's factory is documented to return.\<close>

theorem v1_resolution_sound:
  assumes "v1_resolve_events_with_store ext sha1 factory rid rv ss None = Inr r"
    and "\<forall>s \<in> set ss. wf_dict s" and "\<And>ids. keyed_by_id (factory ids)"
  shows "(\<forall>k i. dict_get r k = Some i \<longrightarrow> i \<in> candidates ss k) \<and>
    (\<forall>k i. candidates ss k = {i} \<longrightarrow> dict_get r k = Some i)"
  using v1_resolve_get[OF assms] by blast

theorem v1_resolution_sound_witness:
  "\<exists>r. v1_resolve_events_with_store ex_externals id (dict_store_get_events ex_events) ''!r:h'' RoomVersions_V10
      [ex_state ''$t1'', ex_state ''$t2''] None = Inr r \<and>
    dict_get r (EventTypes_Create, '''') = Some ''$c''"
proof -
  have r: "v1_resolve_events_with_store ex_externals id (dict_store_get_events ex_events) ''!r:h'' RoomVersions_V10
      [ex_state ''$t1'', ex_state ''$t2''] None = Inr (ex_state ''$t1'')"
    by code_simp
  have "candidates [ex_state ''$t1'', ex_state ''$t2''] (EventTypes_Create, '''') = {''$c''}"
    by (auto simp: candidates_def ex_state_def)
  moreover have "keyed_by_id (dict_store_get_events ex_events ids)" for ids
    by (rule keyed_by_id_dict_store)
      (simp add: keyed_by_id_def ex_events_def ex_create_def ex_join_a_def ex_power_def ex_topic_def mk_event_def)
  moreover have "\<forall>s \<in> set [ex_state ''$t1'', ex_state ''$t2'']. wf_dict s"
    by (auto simp: ex_state_def wf_dict_def)
  ultimately show ?thesis using v1_resolution_sound[OF r] r by blast
qed

text \<open>C9: The state selected by auth_types_for_event is all the auth rules look at: an event
  gets the same verdict, and the same error, against any two states that agree on the selected
  keys, so fetching only those keys is enough. It holds for every event of a known room version
  except power level events with a non-empty state key.\<close>

theorem auth_selection_sufficient:
  assumes "ev_type e \<noteq> EventTypes_Create"
    and "ev_room_version e \<in> snd ` set KNOWN_ROOM_VERSIONS"
    and "ev_type e = EventTypes_PowerLevels \<longrightarrow> ev_state_key e \<in> {None, Some ''''}"
    and "auth_types_for_event (ev_room_version e) e = Inr ks"
    and "\<forall>ty s. (ty, JStr s) \<in> set ks \<longrightarrow> m (ty, s) = m' (ty, s)"
  shows "check_against_state ext e m = check_against_state ext e m'"
proof (rule auth_selection.verdict_local)
  show "selection_applies e"
    using assms(1-3) known_versions_coherent by (auto simp: selection_applies_def)
  show "agree_on ks m m'" using assms(5) by (auto simp: agree_on_def)
qed (fact assms(4))

theorem auth_selection_sufficient_witness:
  "check_against_state ex_externals (ex_topic ''$t1'' 4) ex_map =
   check_against_state ex_externals (ex_topic ''$t1'' 4) ex_map_ban"
proof (rule auth_selection_sufficient)
  show "ev_room_version (ex_topic ''$t1'' 4) \<in> snd ` set KNOWN_ROOM_VERSIONS"
    by (simp add: ex_topic_def mk_event_def KNOWN_ROOM_VERSIONS_def room_version_defs)
  show "auth_types_for_event (ev_room_version (ex_topic ''$t1'' 4)) (ex_topic ''$t1'' 4) =
      Inr [(EventTypes_PowerLevels, JStr ''''), (EventTypes_Member, JStr ''@a:h''), (EventTypes_Create, JStr '''')]"
    by code_simp
qed (auto simp: ex_topic_def mk_event_def ex_map_ban_def)

text \<open>C10: The membership rules accept exactly what their specification allows: the
  creator's first join, an invite that redeems a third-party invite for a user who is not banned,
  or a change the relation may_change has a rule for.\<close>

theorem membership_rules_exact:
  "is_membership_change_allowed ext rv e m = Inr () \<longleftrightarrow> membership_change_spec ext rv e m"
  by (rule is_membership_change_allowed_iff)

text \<open>C11: A banned user stays out: no join, invite or knock for a user whose membership is
  ban is accepted, by whichever route, unless it is the creator's join right after the creation of
  the room.\<close>

theorem banned_user_cannot_return:
  assumes "has_membership m u Membership_BAN" and "ev_state_key e = Some u"
    and "membership e = Inr ms" and "ms \<in> {Membership_JOIN, Membership_INVITE, Membership_KNOCK}"
    and "is_creator_join rv e m ms \<noteq> Inr True"
  shows "is_membership_change_allowed ext rv e m \<noteq> Inr ()"
  using assms by (rule banned_user_stays_out)

theorem banned_user_cannot_return_witness:
  "is_membership_change_allowed ex_externals RoomVersions_V10 ex_join_b ex_map_ban \<noteq> Inr ()"
  by (rule banned_user_cannot_return[where u = "''@b:h''" and ms = Membership_JOIN])
    (simp_all add: has_membership_def ex_map_ban_def ex_ban_b_def ex_join_b_def mk_event_def is_creator_join_def)

text \<open>C12: Whoever removes somebody else, by a kick, a ban or lifting a ban, is joined to
  the room, has a strictly higher power level than the target, and has the level the room asks for
  that action.\<close>

theorem removal_requires_power:
  assumes "is_membership_change_allowed ext rv e m = Inr ()" and "membership e = Inr ms"
    and "ev_state_key e = Some u" and "ms = Membership_BAN \<or> ms = Membership_LEAVE \<and> u \<noteq> sender e"
  shows "has_membership m (sender e) Membership_JOIN \<and>
    (\<exists>ul tl. get_user_power_level (JStr (sender e)) m = Inr ul \<and>
       get_user_power_level (JStr u) m = Inr tl \<and> tl < ul \<and>
       (ms = Membership_BAN \<or> has_membership m u Membership_BAN \<longrightarrow>
         (\<exists>bl. get_named_level m ''ban'' 50 = Inr bl \<and> bl \<le> ul)) \<and>
       (ms = Membership_LEAVE \<longrightarrow> (\<exists>kl. get_named_level m ''kick'' 50 = Inr kl \<and> kl \<le> ul)))"
  using removal_needs_power[OF assms] by simp

theorem removal_requires_power_witness:
  "\<exists>ul tl. get_user_power_level (JStr ''@a:h'') ex_map = Inr ul \<and>
     get_user_power_level (JStr ''@b:h'') ex_map = Inr tl \<and> tl < ul"
proof -
  have "membership ex_ban_b = Inr Membership_BAN" "ev_state_key ex_ban_b = Some ''@b:h''" "sender ex_ban_b = ''@a:h''"
    by (simp_all add: ex_ban_b_def mk_event_def)
  with removal_requires_power[OF ex_ban_allowed, of Membership_BAN "''@b:h''"] show ?thesis by auto
qed



text \<open>C14: An accepted event that is neither the creation of the room, nor a membership
  change, nor an alias list under its special rule, was sent by a user who is joined to the room
  and has the level the room asks for that type of event (the invite level for a third-party
  invite).\<close>

theorem accepted_event_has_standing:
  assumes "check_state_dependent_auth_rules ext e evs = Inr e'" and "auth_dict_of evs = Inr m"
    and "ev_type e \<noteq> EventTypes_Create" and "ev_type e \<noteq> EventTypes_Member"
    and "\<not> (ev_type e = EventTypes_Aliases \<and> special_case_aliases_auth (ev_room_version e))"
  shows "has_membership m (sender e) Membership_JOIN \<and>
    (\<exists>sl ul. get_user_power_level (JStr (sender e)) m = Inr ul \<and> sl \<le> ul \<and>
       (if ev_type e = EventTypes_ThirdPartyInvite then get_named_level m ''invite'' 0
        else get_send_level (ev_type e) (get_state_key e) (get_power_level_event m)) = Inr sl)"
proof -
  obtain m' where m': "auth_dict_of evs = Inr m'" and other: "check_other_event ext e m' = Inr e'"
    using accepted_other_event[OF assms(1,3-5)] .
  from m' assms(2) have "m' = m" by simp
  note o = check_other_event_Inr[OF other[unfolded this]]
  show ?thesis
  proof (cases "ev_type e = EventTypes_ThirdPartyInvite")
    case True
    with o(1) o(2)[OF True] show ?thesis by auto
  next
    case False
    with o(1) can_send_event_level[OF o(3)[OF False]] show ?thesis by auto
  qed
qed

theorem accepted_event_has_standing_witness:
  "\<exists>m. auth_dict_of [ex_create, ex_join_a, ex_power] = Inr m \<and> has_membership m ''@a:h'' Membership_JOIN"
proof -
  obtain m where m: "auth_dict_of [ex_create, ex_join_a, ex_power] = Inr m"
    by (simp add: auth_dict_of_def ex_create_def ex_join_a_def ex_power_def mk_event_def state_key_def)
  have "sender (ex_topic ''$t1'' 4) = ''@a:h''" by (simp add: ex_topic_def mk_event_def)
  moreover have "has_membership m (sender (ex_topic ''$t1'' 4)) Membership_JOIN"
    using accepted_event_has_standing[OF ex_topic_allowed m] by (simp add: ex_topic_def mk_event_def)
  ultimately show ?thesis using m by auto
qed



text \<open>C16: An event that passes validation is within the size limits and carries a signature
  of its sender's server, of the server in its event ID in the old event format, and of the server
  of the user who authorised it if it is a restricted join; an invite made from a third-party
  invite needs no signature of the sender's server.\<close>

theorem validated_event_signed:
  assumes "validate_event_for_room_version ext e = Inr ()"
  shows "check_size_limits ext e = Inr () \<and>
    (\<exists>d. get_domain_from_id (sender e) = Inr d \<and>
      (signed_by e d \<or> ev_type e = EventTypes_Member \<and> membership e = Inr Membership_INVITE \<and>
         dict_has (content e) ''third_party_invite'')) \<and>
    (format_version e = ROOM_V1_V2 \<longrightarrow> (\<exists>d. get_domain_from_id (event_id e) = Inr d \<and> signed_by e d)) \<and>
    (\<forall>v. restricted_join_rule (ev_room_version e) \<and> ev_type e = EventTypes_Member \<and>
      membership e = Inr Membership_JOIN \<and> dict_get (content e) AUTHORISING_USER = Some v \<longrightarrow>
      (\<exists>u d. v = JStr u \<and> get_domain_from_id u = Inr d \<and> signed_by e d))"
  using validate_Inr[OF assms] by simp

theorem validated_event_signed_witness:
  "\<exists>d. get_domain_from_id ''@a:h'' = Inr d \<and> signed_by (ex_topic ''$t1'' 4) d"
  using validated_event_signed[OF ex_topic_valid] by (simp add: ex_topic_def mk_event_def)

text \<open>C17: An event whose auth events are accepted names each of them once, all of them are
  known, in the same room, of a type and state key the rules ask for, none of them was rejected,
  no two of them are for the same state, and one of them is the creation of the room.\<close>

theorem accepted_auth_events:
  assumes "check_state_independent_auth_rules fetch e batched = Inr ()" and "ev_type e \<noteq> EventTypes_Create"
  shows "\<exists>ks. auth_types_for_event (ev_room_version e) e = Inr ks \<and> distinct (auth_event_ids e) \<and>
    (\<forall>i \<in> set (auth_event_ids e). \<exists>ae. gather_auth_events fetch e batched i = Some ae \<and> good_auth_event e ks ae) \<and>
    (\<forall>i \<in> set (auth_event_ids e). \<forall>j \<in> set (auth_event_ids e). \<forall>a b.
      gather_auth_events fetch e batched i = Some a \<and> gather_auth_events fetch e batched j = Some b \<and>
      (ev_type a, ev_state_key a) = (ev_type b, ev_state_key b) \<longrightarrow> i = j) \<and>
    (\<exists>i \<in> set (auth_event_ids e). \<exists>a. gather_auth_events fetch e batched i = Some a \<and>
      ev_type a = EventTypes_Create \<and> ev_state_key a = Some '''')"
proof -
  obtain ks where ks: "auth_types_for_event (ev_room_version e) e = Inr ks"
    and rest: "\<And>i. i \<in> set (auth_event_ids e) \<Longrightarrow>
      \<exists>ae. gather_auth_events fetch e batched i = Some ae \<and> good_auth_event e ks ae"
    "\<And>i j a b. i \<in> set (auth_event_ids e) \<Longrightarrow> j \<in> set (auth_event_ids e) \<Longrightarrow>
      gather_auth_events fetch e batched i = Some a \<Longrightarrow>
      gather_auth_events fetch e batched j = Some b \<Longrightarrow>
      (ev_type a, ev_state_key a) = (ev_type b, ev_state_key b) \<Longrightarrow> i = j"
    "\<exists>i \<in> set (auth_event_ids e). \<exists>a. gather_auth_events fetch e batched i = Some a \<and>
      ev_type a = EventTypes_Create \<and> ev_state_key a = Some ''''"
    using state_independent_accept[OF assms] by blast
  from assms ks obtain d where "py_for (check_auth_event e ks (gather_auth_events fetch e batched))
      (auth_event_ids e) Map.empty = Inr d"
    by (auto simp: check_state_independent_auth_rules_def py_bind_Inr_iff Let_def)
  then have "distinct (auth_event_ids e)" by (rule auth_events_distinct) simp
  with ks rest show ?thesis by blast
qed

theorem accepted_auth_events_witness:
  "distinct (auth_event_ids (ex_topic ''$t1'' 4))"
  using accepted_auth_events[OF ex_topic_auth_events] by (auto simp: ex_topic_def mk_event_def)

text \<open>C18: Parsing an identifier succeeds exactly on what printing produces from a localpart
  without a colon, and returns the parts that were printed.\<close>

theorem identifier_roundtrip:
  "from_string [g] s = Inr x \<longleftrightarrow> CHR '':'' \<notin> set (localpart x) \<and> s = to_string [g] x"
  by (rule from_string_Inr)

text \<open>C19: Mapping an external user name to a localpart always gives a localpart with
  allowed characters only, and the case-sensitive mapping never gives the same localpart to two
  user names.\<close>

theorem username_mapping_safe:
  "\<not> contains_invalid_mxid_characters (map_username_to_mxid_localpart u b) \<and>
   inj (\<lambda>u. map_username_to_mxid_localpart u True)"
proof
  show "\<not> contains_invalid_mxid_characters (map_username_to_mxid_localpart u b)"
    using mapped_username_allowed[of _ u b] by (auto simp: contains_invalid_mxid_characters_def list_ex_iff)
  show "inj (\<lambda>u. map_username_to_mxid_localpart u True)"
  proof (rule injI)
    fix u v assume "map_username_to_mxid_localpart u True = map_username_to_mxid_localpart v True"
    then have "concat (map f2 (concat (map f1 u))) = concat (map f2 (concat (map f1 v)))"
      by (intro escape_leading_inj) (simp add: map_username_to_mxid_localpart_def Let_def)
    then have "concat (map f1 u) = concat (map f1 v)"
      by (rule concat_map_inj[rotated 2]) (auto intro: f2_prefix_free simp: f2_def hex_escape_def)
    then show "u = v" by (rule concat_map_inj[rotated 2]) (auto intro: f1_prefix_free simp: f1_def)
  qed
qed

text \<open>C20: Redaction keeps the identity of an event: for every event object made from a JSON
  dictionary, redacting it twice is redacting it once, the redacted event has the same event id
  and the same signatures, and the bytes a server signs for it are the same, whatever the hash
  function, the base64 encodings and the signature scheme are.\<close>

theorem redaction_keeps_identity:
  assumes "wf_dict d" and "make_event_from_dict d rv md rejected = Inr e" and "prune_event e = Inr e'"
  shows "prune_event e' = Inr e' \<and> obj_event_id ops e' = obj_event_id ops e \<and> obj_signatures e' = obj_signatures e \<and>
    (\<forall>d'. prune_event_dict rv d = Inr d' \<longrightarrow>
       compute_event_signature ops rv d' name key = compute_event_signature ops rv d name key)"
proof -
  have wf: "wf_event_obj e" using assms(2,1) by (rule make_event_from_dict_wf)
  show ?thesis
    using prune_event_idem[OF wf assms(3)] obj_event_id_pruned[OF wf assms(3)] prune_event_keeps(4)[OF wf assms(3)]
      compute_event_signature_pruned by simp
qed

theorem redaction_keeps_identity_witness:
  "prune_event ex_levels_pruned = Inr ex_levels_pruned \<and>
   obj_event_id ex_ops ex_levels_pruned = obj_event_id ex_ops ex_levels_obj"
  using redaction_keeps_identity[OF ex_dict_wf ex_object_made, of EventTypes_PowerLevels "''@a:h''" "Some ''''" ex_levels
      ex_levels_pruned ex_ops] ex_levels_prune
  by (simp add: ex_levels_obj_def)

text \<open>C21: In a room under the updated redaction rules, redacting events of the room state
  changes no verdict of the authorization rules: membership changes, messages, state events and
  redactions are accepted or rejected, with the same error, as before. Changes of the power levels
  and invites by a third-party token are excepted, because redaction removes the notification
  levels and the keys of the token.\<close>

theorem redaction_keeps_authorization:
  assumes "redacted_state ops m m'" and "updated_state m" and "ev_type e \<noteq> EventTypes_PowerLevels"
    and "\<not> (ev_type e = EventTypes_Member \<and> dict_has (content e) ''third_party_invite'')"
  shows "check_against_state ext e m' = check_against_state ext e m"
  using redacted_state_same_reads[OF assms(1,2)] assms(3,4) by (rule check_against_state_same)

theorem redaction_keeps_authorization_witness:
  "check_against_state ex_externals (ex_record ''$i'' EventTypes_Member ''@a:h'' ''@b:h'' [(''membership'', Membership_INVITE)]) ex_map11' =
   check_against_state ex_externals (ex_record ''$i'' EventTypes_Member ''@a:h'' ''@b:h'' [(''membership'', Membership_INVITE)]) ex_map11"
  by (rule redaction_keeps_authorization[OF ex_map11_redacted ex_map11_updated]) (simp_all add: ex_record_def dict_has_def)





text \<open>C24: What is sent to another server is either the redacted form of a requested event,
  and only when redacted forms were asked for, or a requested event that the server may see: where
  the visibility setting at the event is joined, a user of that server was joined, and where it is
  invited, a user of that server was joined or invited. Outliers, whose state is unknown, are
  excepted.\<close>

theorem server_sees_allowed_only:
  assumes "serves_state st state_of stored"
    and "filter_events_for_server ops st server local events redact fe fp = Inr out" and "x \<in> set out"
  shows "\<exists>e \<in> set events. redact \<and> prune_event e = Inr x \<or>
    x = e \<and> (\<forall>eid. obj_event_id ops e = Inr eid \<longrightarrow> \<not> im_outlier (obj_metadata e) \<longrightarrow>
      server_may_see state_of stored server eid)"
  using assms by (rule server_filter_result)

theorem server_sees_allowed_only_witness:
  "\<exists>e \<in> {ex_message}. False \<and> prune_event e = Inr ex_message \<or>
    ex_message = e \<and> (\<forall>eid. obj_event_id ex_ops e = Inr eid \<longrightarrow> \<not> im_outlier (obj_metadata e) \<longrightarrow>
      server_may_see ex_state_of (dict_get ex_stored) ''h'' eid)"
proof -
  have "filter_events_for_server ex_ops ex_server_storage ''h'' ''h'' [ex_message] False False False = Inr [ex_message]"
    by code_simp
  from server_sees_allowed_only[OF ex_serves_state this] show ?thesis by simp
qed

text \<open>C25: approx_difference does what its documentation demands and is the best that can be
  done: the filter it returns matches everything the first filter matches and the second does not,
  nothing the first filter does not match, and every other filter that covers the difference
  matches at least as much.\<close>

theorem state_filter_difference_narrowest:
  assumes "canonical f" and "canonical g"
  shows "(\<forall>t k. matches f t k \<and> \<not> matches g t k \<longrightarrow> matches (approx_difference f g) t k) \<and>
    (\<forall>t k. matches (approx_difference f g) t k \<longrightarrow> matches f t k) \<and>
    (\<forall>h. (\<forall>t k. matches f t k \<and> \<not> matches g t k \<longrightarrow> matches h t k) \<longrightarrow>
      (\<forall>t k. matches (approx_difference f g) t k \<longrightarrow> matches h t k))"
proof (intro conjI allI impI)
  fix t k
  show "matches (approx_difference f g) t k" if "matches f t k \<and> \<not> matches g t k"
    using that by (auto simp: matches_approx_difference[OF assms]) (auto simp: matches_def split: option.splits)
  show "matches f t k" if "matches (approx_difference f g) t k"
    using that by (auto simp: matches_approx_difference[OF assms] split: option.splits)
next
  fix h t k
  assume "\<forall>t k. matches f t k \<and> \<not> matches g t k \<longrightarrow> matches h t k" and "matches (approx_difference f g) t k"
  then show "matches h t k" using approx_difference_least[OF assms, of h t k] by blast
qed

theorem state_filter_difference_narrowest_witness:
  "matches (approx_difference (from_lazy_load_member_list [''@a:h'']) (from_types [(EventTypes_Create, Some '''')]))
    EventTypes_Member ''@a:h''"
proof -
  have "matches (from_lazy_load_member_list [''@a:h'']) EventTypes_Member ''@a:h''"
    "\<not> matches (from_types [(EventTypes_Create, Some '''')]) EventTypes_Member ''@a:h''"
    by code_simp+
  with state_filter_difference_narrowest[OF canonical_lazy_load canonical_from_types] show ?thesis by blast
qed



text \<open>C27: The ways a state filter is applied agree: the SQL clause with its arguments
  selects from the table the rows that filter_state keeps of a state map and that the operator in
  accepts; max_entries_returned is the number of entries the filter can match, or nothing when
  there are infinitely many; the split and the expansion keep the memberships, and the other
  entries are kept by the split and not lost by the expansion.\<close>

theorem state_filter_readings_agree:
  assumes "canonical f"
  shows "sql_where (make_sql_filter_clause f) t k = Some (matches f t k) \<and>
    contains f (PyTuple [JStr t, JStr k]) = Inr (matches f t k) \<and>
    (((t, k), v) \<in> set (filter_state f state) \<longleftrightarrow> ((t, k), v) \<in> set state \<and> matches f t k) \<and>
    max_entries_returned f =
      (if finite {(t, k). matches f t k} then Some (card {(t, k). matches f t k}) else None) \<and>
    (matches (fst (get_member_split f)) EventTypes_Member k \<longleftrightarrow> matches f EventTypes_Member k) \<and>
    (matches (return_expanded f) EventTypes_Member k \<longleftrightarrow> matches f EventTypes_Member k) \<and>
    (t \<noteq> EventTypes_Member \<longrightarrow> (matches (snd (get_member_split f)) t k \<longleftrightarrow> matches f t k)) \<and>
    (t \<noteq> EventTypes_Member \<longrightarrow> matches f t k \<longrightarrow> matches (return_expanded f) t k)"
proof (intro conjI impI)
  show "sql_where (make_sql_filter_clause f) t k = Some (matches f t k)" by (rule sql_where_matches[OF assms])
  show "contains f (PyTuple [JStr t, JStr k]) = Inr (matches f t k)" by (rule contains_matches)
  show "((t, k), v) \<in> set (filter_state f state) \<longleftrightarrow> ((t, k), v) \<in> set state \<and> matches f t k"
    by (auto simp: filter_state_eq)
  show "matches (fst (get_member_split f)) EventTypes_Member k \<longleftrightarrow> matches f EventTypes_Member k"
    by (rule member_split_member)
  show "matches (return_expanded f) EventTypes_Member k \<longleftrightarrow> matches f EventTypes_Member k"
    by (rule return_expanded_member[OF assms])
  show "matches (snd (get_member_split f)) t k \<longleftrightarrow> matches f t k" if "t \<noteq> EventTypes_Member"
    by (rule member_split_other[OF canonical_wf[OF assms] that])
qed (rule max_entries_returned_card[OF assms], rule return_expanded_other)

theorem state_filter_readings_agree_witness:
  "sql_where (make_sql_filter_clause (from_lazy_load_member_list [''@a:h''])) EventTypes_Member ''@b:h'' =
    Some (matches (from_lazy_load_member_list [''@a:h'']) EventTypes_Member ''@b:h'')"
  by (rule conjunct1[OF state_filter_readings_agree[OF canonical_lazy_load]])

text \<open>C28: The LRU cache, with its circular lists of nodes, its counted size and its second
  index, behaves as a list of items in the order of their last use: every sequence of operations
  on a new cache returns what the same sequence returns on the list, no assertion of the code
  fails and no loop runs on, the length the cache reports is the size of the items, and the
  callbacks of exactly the items that were dropped or overwritten have run. The callers must not
  overwrite a value by one with another index key.\<close>

theorem lru_cache_refines:
  assumes "0 \<le> ab_max (ab_new cfg limit factor)" and "run_allowed cfg ops (ab_new cfg limit factor)"
    and "ab_run_ops cfg ops (ab_new cfg limit factor) = (rs, B)"
  shows "\<exists>s. lru_run cfg ops (new_lru_cache cfg limit factor) = Inr (rs, s) \<and>
    cache_len cfg s = ab_total cfg (ab_items B) \<and> mset (callbacks_run s) = ab_run B \<and>
    (\<forall>k. cache_contains k s \<longleftrightarrow> k \<in> it_key ` set (ab_items B))"
proof -
  from lru_run_refines[OF refl assms] obtain s as where s: "lru_run cfg ops (new_lru_cache cfg limit factor) = Inr (rs, s)"
    "lru_rep {} cfg s as B" "cache_len cfg s = ab_total cfg (ab_items B)" "mset (callbacks_run s) = ab_run B" by blast
  with contains_rep[OF s(2)] show ?thesis by auto
qed

theorem lru_cache_refines_witness:
  "\<exists>s. lru_run ex_lru ex_lru_ops (new_lru_cache ex_lru 2 1) =
      Inr ([Nothing, Nothing, Returned (Some 5), Nothing, Returned None, Returned (Some 5)], s) \<and>
    cache_len ex_lru s = 1 \<and> mset (callbacks_run s) = {#7, 8#} \<and> cache_contains ''c'' s \<and> \<not> cache_contains ''a'' s"
proof -
  from lru_cache_refines[OF ex_lru_ops_run] obtain s where
    "lru_run ex_lru ex_lru_ops (new_lru_cache ex_lru 2 1) =
      Inr ([Nothing, Nothing, Returned (Some 5), Nothing, Returned None, Returned (Some 5)], s)"
    "cache_len ex_lru s = 1" "mset (callbacks_run s) = {#7, 8#}" "\<forall>k. cache_contains k s \<longleftrightarrow> k = ''c''"
    by (simp add: ab_total_def ex_lru_sizes) blast
  then show ?thesis by (intro exI[of _ s] conjI) simp_all
qed

text \<open>C29: A cache of m entries that is read through (a key is looked up and, when it is
  missing, its value is stored) holds exactly the m keys that were used last, whatever the
  sequence of reads, and none of the reads fails.\<close>

theorem lru_keeps_most_recent:
  assumes "size_callback cfg = None" and "ab_max (ab_new cfg limit factor) = int m"
  shows "\<exists>s. py_for (read_through cfg) reads (new_lru_cache cfg limit factor) = Inr s \<and>
    (\<forall>k. cache_contains k s \<longleftrightarrow> k \<in> set (take m (by_recency (map (fst \<circ> snd) reads))))"
  by (rule read_through_recent[OF assms])

theorem lru_keeps_most_recent_witness:
  "\<exists>s. py_for (read_through ex_lru) ex_reads (new_lru_cache ex_lru 2 1) = Inr s \<and>
    cache_contains ''a'' s \<and> \<not> cache_contains ''b'' s \<and> cache_contains ''c'' s"
proof -
  from lru_keeps_most_recent[OF ex_lru_sizes(1,2), of ex_reads] obtain s where
    "py_for (read_through ex_lru) ex_reads (new_lru_cache ex_lru 2 1) = Inr s" "\<forall>k. cache_contains k s \<longleftrightarrow> k \<in> set [''c'', ''a'']"
    unfolding ex_lru_sizes(3) by blast
  then show ?thesis by (intro exI[of _ s] conjI) simp_all
qed









text \<open>C34: The current token of a stream never goes back, whatever step its writers take.\<close>

theorem stream_position_monotone:
  assumes "reachable w" and "step w w'"
  shows "return_factor (gen w) * get_current_token (gen w) \<le> return_factor (gen w') * get_current_token (gen w')"
proof -
  have rf: "return_factor g * (return_factor g * x) = x" for g x by (simp add: return_factor_def)
  from step_monotone[OF assms(2) reachable_inv[OF assms(1)]] show ?thesis
    by (simp add: get_current_token_def get_persisted_upto_position_def rf)
qed

theorem stream_position_monotone_witness:
  "return_factor (gen ex_world) * get_current_token (gen ex_world) \<le>
   return_factor (gen (ex_world\<lparr>others := {}\<rparr>)) * get_current_token (gen (ex_world\<lparr>others := {}\<rparr>))"
proof (rule stream_position_monotone[OF ex_world_reachable])
  have "step ex_world (ex_world\<lparr>others := others ex_world - {(''w2'', 6)}\<rparr>)" by (rule step.other_completes)
  then show "step ex_world (ex_world\<lparr>others := {}\<rparr>)" by (simp add: ex_world_def)
qed







text \<open>C38: Printing a sync token and parsing the string gives the token back, and the same
  holds for sliding sync tokens: neither step raises, when the room and receipt tokens are well
  formed and the database knows the writers they mention.\<close>

theorem token_roundtrip:
  assumes "wf_stream_token store t"
  shows "(\<exists>s. stream_token_to_string store t = Inr s \<and> stream_token_from_string store s = Inr t) \<and>
    (\<exists>s. sliding_to_string store \<lparr>sliding_stream_token = t, connection_position = n\<rparr> = Inr s \<and>
      sliding_from_string store s = Inr \<lparr>sliding_stream_token = t, connection_position = n\<rparr>)"
  using stream_token_roundtrip[OF assms]
    sliding_roundtrip[of store "\<lparr>sliding_stream_token = t, connection_position = n\<rparr>"] assms
  by (metis sliding_sync_stream_token.select_convs(1))

theorem token_roundtrip_witness:
  "\<exists>s. stream_token_to_string ex_instances ex_stream_token = Inr s \<and>
     stream_token_from_string ex_instances s = Inr ex_stream_token"
proof -
  have "wf_stream_token ex_instances ex_stream_token"
    by (simp add: wf_stream_token_def wf_room_token_def wf_token_def knows_instances_def knows_instance_def wf_dict_def
        ex_stream_token_def ex_room_token_def StreamToken_START_def ex_instances_def)
  from token_roundtrip[OF this] show ?thesis by blast
qed

text \<open>C39: A stream token stands for the position of every writer, and the operations on
  tokens compute in that lattice: one token is before another if and only if every writer is, a
  token advanced by another has the maximum of the two positions of every writer, so an event is
  after it if and only if it is after both, and a bounded token has the minimum of the position
  and the bound.\<close>

theorem token_lattice:
  assumes "wf_token s" and "wf_token t" and "topological s = None" and "topological t = None" and "wf_token r"
  shows "(is_before_or_eq s t \<longleftrightarrow> (\<forall>i. get_stream_pos_for_instance s i \<le> get_stream_pos_for_instance t i)) \<and>
    (\<exists>u. room_copy_and_advance s t = Inr u \<and> is_before_or_eq s u \<and> is_before_or_eq t u \<and>
      (\<forall>v :: room_stream_token. is_before_or_eq s v \<and> is_before_or_eq t v \<longrightarrow> is_before_or_eq u v) \<and>
      (\<forall>p. room_persisted_after p u = Inr (room_persisted_after p s = Inr True \<and> room_persisted_after p t = Inr True))) \<and>
    (\<exists>u. bound_stream_token r m = Inr u \<and>
      (\<forall>i. get_stream_pos_for_instance u i = min (get_stream_pos_for_instance r i) m))"
proof (intro conjI)
  show "is_before_or_eq s t \<longleftrightarrow> (\<forall>i. get_stream_pos_for_instance s i \<le> get_stream_pos_for_instance t i)"
    by (rule is_before_or_eq_iff)
  obtain u where "room_copy_and_advance s t = Inr u" "topological u = None"
    "\<And>i. get_stream_pos_for_instance u i = max (get_stream_pos_for_instance s i) (get_stream_pos_for_instance t i)"
    using room_copy_and_advance_spec[OF assms(1-4)] by metis
  then show "\<exists>u. room_copy_and_advance s t = Inr u \<and> is_before_or_eq s u \<and> is_before_or_eq t u \<and>
      (\<forall>v :: room_stream_token. is_before_or_eq s v \<and> is_before_or_eq t v \<longrightarrow> is_before_or_eq u v) \<and>
      (\<forall>p. room_persisted_after p u = Inr (room_persisted_after p s = Inr True \<and> room_persisted_after p t = Inr True))"
    using assms(3,4) by (intro exI[of _ u]) (simp add: is_before_or_eq_iff room_persisted_after_live)
  show "\<exists>u. bound_stream_token r m = Inr u \<and>
      (\<forall>i. get_stream_pos_for_instance u i = min (get_stream_pos_for_instance r i) m)"
    using bound_stream_token_spec[OF assms(5)] by metis
qed

theorem token_lattice_witness:
  "\<exists>u. room_copy_and_advance ex_room_token (to_room_stream_token \<lparr>instance_name = ''w1'', pos_stream = 57\<rparr>) = Inr u \<and>
    is_before_or_eq ex_room_token u"
proof -
  have wf: "wf_token ex_room_token" "wf_token (to_room_stream_token \<lparr>instance_name = ''w1'', pos_stream = 57\<rparr>)"
    "topological ex_room_token = None" "topological (to_room_stream_token \<lparr>instance_name = ''w1'', pos_stream = 57\<rparr>) = None"
    "wf_token \<lparr>stream = 0, instance_map = []\<rparr>"
    by (simp_all add: wf_token_def wf_dict_def ex_room_token_def to_room_stream_token_def)
  from token_lattice[OF wf] show ?thesis by blast
qed

text \<open>C40: Every failure to parse a sync token is the client error SynapseError 400. Parsing
  a room token on its own has the same error only when the string starts with one of the letters
  s, t and m: for any other string the message of the error cannot be formatted and a ValueError,
  a server error, escapes.\<close>

theorem token_parse_errors:
  assumes "parse_room_stream_token store s = Inl e"
  shows "e = (if s \<noteq> [] \<and> hd s \<in> {CHR ''s'', CHR ''t'', CHR ''m''} then SynapseError 400 UNKNOWN else ValueError) \<and>
    (\<forall>s' e'. stream_token_from_string store s' = Inl e' \<longrightarrow> e' = SynapseError 400 UNKNOWN)"
  using parse_room_error[OF assms] or_invalid_Inl unfolding stream_token_from_string_def by blast

theorem token_parse_errors_witness:
  "parse_room_stream_token ex_instances ''foo'' = Inl ValueError \<and>
   stream_token_from_string ex_instances ''foo'' = Inl (SynapseError 400 UNKNOWN)"
proof -
  have "parse_room_stream_token ex_instances ''foo'' = Inl ValueError" by (simp add: parse_room_stream_token_def)
  moreover have "\<exists>e. stream_token_from_string ex_instances ''foo'' = Inl e" by (rule exI) code_simp
  ultimately show ?thesis using token_parse_errors by metis
qed

section \<open>Further results\<close>

text \<open>On an acyclic graph whose edges stay inside the graph, the sort loses nothing: its
  result is a permutation of the nodes.\<close>

theorem toposort_complete:
  assumes "wf_dict g" and "\<And>n. n \<in> nodes g \<Longrightarrow> key n = Inr (k n)"
    and "wf {(m, n). n \<in> nodes g \<and> m \<in> edges_of g n}" and "\<And>n. n \<in> nodes g \<Longrightarrow> edges_of g n \<subseteq> nodes g"
  shows "\<exists>xs. lexicographical_topological_sort g key = Inr xs \<and> set xs = nodes g"
proof -
  obtain xs where "lexicographical_topological_sort g key = Inr xs"
    "kahn (nodes g) (edges_of g) k {} xs" using toposort_kahn[of g key k] assms(1,2) by blast
  with kahn_complete[OF _ assms(3,4)] show ?thesis by blast
qed

theorem toposort_complete_witness:
  "\<exists>xs. lexicographical_topological_sort [(1::nat, []), (2, [1])] (\<lambda>n. Inr n) = Inr xs \<and> set xs = {1, 2}"
proof -
  let ?g = "[(1::nat, []), (2, [1::nat])]"
  have n: "nodes ?g = {1, 2}" by (auto simp: nodes_def split: if_splits)
  have e: "edges_of ?g 1 = {}" "edges_of ?g 2 = {1}" by (simp_all add: edges_of_def dict_get_default_def)
  have "{(m, k). k \<in> nodes ?g \<and> m \<in> edges_of ?g k} \<subseteq> measure id" using n e by auto
  then have "wf {(m, k). k \<in> nodes ?g \<and> m \<in> edges_of ?g k}" by (rule wf_subset[rotated]) simp
  then show ?thesis
    using toposort_complete[of ?g "\<lambda>n. Inr n" "\<lambda>n. n"] n e by (auto simp: wf_dict_def)
qed

text \<open>Separating the state sets partitions the keys: a key is unconflicted with an event
  exactly when every state set has that event there, and conflicted, with exactly the events the
  state sets have there and each of them once, when some state set has it and they are not
  unanimous.\<close>

theorem seperate_partition:
  "case seperate ss of (u, c) \<Rightarrow>
     (\<forall>k i. dict_get u k = Some i \<longleftrightarrow> unanimous ss k i) \<and>
     (\<forall>k. dict_get c k = (if candidates ss k \<noteq> {} \<and> (\<nexists>j. unanimous ss k j) then Some (conflicting ss k) else None)) \<and>
     (\<forall>k. set (conflicting ss k) = candidates ss k \<and> distinct (conflicting ss k))"
proof (cases "seperate ss")
  case (Pair u c)
  note s = seperate_spec[OF Pair]
  have "dict_get c k = (if candidates ss k \<noteq> {} \<and> (\<nexists>j. unanimous ss k j) then Some (conflicting ss k) else None)" for k
    using s(2)[of k] by (cases "dict_get c k") auto
  with s(1) show ?thesis by (simp add: Pair set_conflicting distinct_conflicting)
qed

text \<open>The same for the seven thresholds of a room (the default levels and the levels to ban,
  kick, redact and invite): an accepted power level event changes one only if both the old and the
  new level are within the sender's own.\<close>

theorem power_thresholds_bounded:
  assumes "check_power_levels rv e m = Inr ()" and "ev_type e = EventTypes_PowerLevels"
    and "ev_state_key e = Some ''''" and "m (EventTypes_PowerLevels, '''') = Some cur"
    and "k \<in> {''users_default'', ''events_default'', ''state_default'', ''ban'', ''redact'', ''kick'', ''invite''}"
  shows "\<exists>ul o' n. get_user_power_level (JStr (sender e)) m = Inr ul \<and>
    level_at (content cur) (JStr k, None) = Inr o' \<and> level_at (content e) (JStr k, None) = Inr n \<and>
    (n \<noteq> o' \<longrightarrow> (\<forall>l. n = Some l \<longrightarrow> l \<le> ul) \<and> (\<forall>l. o' = Some l \<longrightarrow> l \<le> ul))"
  using assms(1-4) by (rule check_power_levels_named) (use assms(5) in \<open>simp add: int_level_keys_def\<close>)

theorem power_thresholds_bounded_witness:
  "\<exists>ul o' n. get_user_power_level (JStr (sender ex_power2)) ex_map = Inr ul \<and>
    level_at (content ex_power) (JStr ''ban'', None) = Inr o' \<and>
    level_at (content ex_power2) (JStr ''ban'', None) = Inr n \<and>
    (n \<noteq> o' \<longrightarrow> (\<forall>l. n = Some l \<longrightarrow> l \<le> ul) \<and> (\<forall>l. o' = Some l \<longrightarrow> l \<le> ul))"
  by (rule power_thresholds_bounded[OF ex_power2_allowed]) (simp_all add: ex_power2_def mk_event_def ex_map_def)

text \<open>Checking an event against the room state leaves it as it is, except that a redaction
  may be marked to be rechecked later.\<close>

theorem auth_check_only_marks:
  assumes "check_state_dependent_auth_rules ext e evs = Inr e'"
  shows "e' = e \<or> ev_type e = EventTypes_Redaction \<and> e' = e\<lparr>recheck_redaction := True\<rparr>"
  using assms by (rule check_state_dependent_event)

theorem auth_check_only_marks_witness:
  "ex_topic ''$t1'' 4 = ex_topic ''$t1'' 4 \<or> ev_type (ex_topic ''$t1'' 4) = EventTypes_Redaction \<and>
    ex_topic ''$t1'' 4 = (ex_topic ''$t1'' 4)\<lparr>recheck_redaction := True\<rparr>"
  by (rule auth_check_only_marks[OF ex_topic_allowed])

text \<open>An event without a room ID never gets the 500 error its validation has for that case:
  the size check before it has already raised another exception.\<close>

theorem missing_room_id_raises:
  assumes "ev_room_id e = None"
  shows "validate_event_for_room_version ext e \<in> {Inl (EventSizeError True), Inl AttributeError}"
  using assms by (auto simp: validate_event_for_room_version_def check_size_limits_def room_id_def)

theorem missing_room_id_raises_witness:
  "validate_event_for_room_version ex_externals (ex_create\<lparr>ev_room_id := None\<rparr>) \<in> {Inl (EventSizeError True), Inl AttributeError}"
  by (rule missing_room_id_raises) simp

text \<open>The table of room versions is keyed by the identifiers of its entries, without
  repetition, and their flags fit together: the join rule knock_restricted comes only with
  restricted and knock, and the redaction and creator changes of version 11 come together.\<close>

theorem room_versions_coherent:
  "distinct (dict_keys KNOWN_ROOM_VERSIONS) \<and>
   list_all (\<lambda>(k, v). rv_identifier v = k \<and> coherent_flags v) KNOWN_ROOM_VERSIONS"
  using known_versions_coherent by (auto simp: known_versions_keys list_all_iff)

text \<open>The retention policies are only fetched for events that are sent to clients, so that a
  run of the filter with \<open>filter_send_to_client\<close> false stops with a NameError at the
  first event.\<close>

theorem filter_without_sending_raises:
  assumes "\<not> is_soft_failed (obj_metadata e)" and "obj_event_id ops e = Inr eid"
    and "dict_get (obj_dict e) ''sender'' = Some s"
  shows "filter_events_for_client ops st u [e] peeking always False = Inl NameError"
  using assms by (simp add: filter_events_for_client_def client_allowed_def dict_property_def)

text \<open>The auth rules accept an invite whose state key has a domain but does not start with
  an at sign; while no member of that domain comes before it, a restricted event cannot be checked
  for that server.\<close>

theorem malformed_invite_stops_the_check:
  "(let invite = mk_event ''$i'' EventTypes_Member ''@a:h'' (Some ''x:h'') [(''membership'', Membership_INVITE)]
      [''$c'', ''$ja'', ''$p''] 6
    in check_state_dependent_auth_rules ex_externals invite [ex_create, ex_join_a, ex_power] = Inr invite) \<and>
   event_visible_to_server s ''h'' ''joined'' [] False ((''x:h'', ''invite'') # memberships) = Inl ValueError"
  by (rule conjI, code_simp) (simp add: event_visible_to_server_def user_server_name_def starts_with_def
      dict_get_default_def)

text \<open>The cache does not move a key in its second index when its value is overwritten: an
  entry can then outlive the invalidation of its index key.\<close>

lemma overwritten_index_survives:
  "case lru_run ex_indexed [SetOp 1 ''a'' ''room1'' [], SetOp 2 ''a'' ''room2'' [], InvalidateOp ''room2''] (new_lru_cache ex_indexed 2 1) of
     Inl _ \<Rightarrow> False | Inr (_, s) \<Rightarrow> cache_contains ''a'' s"
  by code_simp

text \<open>After any history the two halves of the stream change cache agree (an entity is in the
  set at exactly the position its key gives), no set is empty, every position is after the
  earliest known one and the cache holds at most its maximal number of positions; and no further
  change or resize raises or fails to return.\<close>

theorem stream_cache_invariant:
  assumes "sorted_dict ops" and "history ops H self"
  shows "synced ops self \<and> bounded ops self \<and> (\<exists>self'. entity_has_changed ops e p self = Inr self') \<and>
    (\<forall>factor \<ge> 0. \<exists>b self'. set_cache_factor ops factor self = Inr (b, self'))"
  using sorted_dict.history_good[OF assms] sorted_dict.entity_has_changed_good[OF assms(1)]
    sorted_dict.set_cache_factor_good[OF assms(1)]
  unfolding good_def by metis

theorem stream_cache_invariant_witness:
  "\<exists>self'. entity_has_changed alist_sorted_dict ''a'' 9 ex_cache = Inr self'"
  using stream_cache_invariant[OF alist_sd.sorted_dict_axioms ex_cache_history] by blast

text \<open>The order on sync tokens is reflexive and transitive, and advancing a field of a token
  by any new value, whatever the field, never gives a token that the old one is not before.\<close>

theorem sync_token_only_advances:
  assumes "stream_token_copy_and_advance self key new_value = Inr r"
    and "wf_token (room_key self)" and "wf_token (receipt_key self)" and "topological (room_key self) = None"
    and "\<And>v. new_value = RoomValue v \<Longrightarrow> wf_token v \<and> topological v = None"
    and "\<And>v. new_value = MultiValue v \<Longrightarrow> wf_token v"
  shows "stream_token_is_before_or_eq self r = Inr True \<and> stream_token_is_before_or_eq r r = Inr True \<and>
    (\<forall>t. stream_token_is_before_or_eq t self = Inr True \<longrightarrow> stream_token_is_before_or_eq t r = Inr True)"
proof -
  have adv: "stream_token_is_before_or_eq self r = Inr True" using assms by (rule stream_token_advance)
  then show ?thesis
    by (auto simp: stream_token_before_iff is_before_or_eq_refl intro: is_before_or_eq_trans)
qed

theorem sync_token_only_advances_witness:
  "stream_token_is_before_or_eq ex_stream_token (ex_stream_token\<lparr>presence_key := 20\<rparr>) = Inr True"
  by (rule sync_token_only_advances[of ex_stream_token PRESENCE "IntValue 20", THEN conjunct1])
    (simp_all add: stream_token_copy_and_advance_def ex_stream_token_def ex_room_token_def StreamToken_START_def
      wf_token_def wf_dict_def)

end
